(* ===== verification/Prelude.thy ===== *)
theory Prelude
  imports Main "HOL-Library.Word" "HOL-Library.Multiset"
begin

text \<open>
  The prelude of the development: byte buffers with the little-endian helpers of
  \<open>include/pstwriter/types.hpp\<close> (namespace \<open>detail\<close>), the error values that stand for the
  exceptions the code throws, and the generic lemmas on buffers, sorted lists and words that
  every component shares.

  A buffer is a list of bytes.  \<open>store buf off bs\<close> is a run of byte stores
  \<open>buf[off + k] = bs[k]\<close>.  It keeps the length of the buffer exactly when the run lies
  inside the buffer; a run that leaves the buffer makes the list longer
  (\<open>length_store_overrun\<close>).  A theorem that a builder returns a page of exactly 512
  bytes therefore also says that no store of the builder left the page.  Where the code can
  really leave a buffer (a length that wraps, an index read from a file), the access is
  checked and its failure is the error value \<open>OutOfBounds\<close>.
\<close>

unbundle bit_operations_syntax

section \<open>Machine types and buffers\<close>

type_synonym u8 = "8 word"
type_synonym u16 = "16 word"
type_synonym u32 = "32 word"
type_synonym u64 = "64 word"
type_synonym bytes = "u8 list"

named_theorems buf_simps \<open>slices and lengths of buffers under stores\<close>
named_theorems layout_simps \<open>sizes and offsets of the on-disk layout\<close>

definition store :: "bytes \<Rightarrow> nat \<Rightarrow> bytes \<Rightarrow> bytes" where
  "store buf off bs = take off buf @ bs @ drop (off + length bs) buf"

definition slice :: "nat \<Rightarrow> nat \<Rightarrow> 'a list \<Rightarrow> 'a list" where
  "slice off n xs = take n (drop off xs)"

definition zeros :: "nat \<Rightarrow> bytes" where
  "zeros n = replicate n 0"

lemma length_zeros [simp]: "length (zeros n) = n"
  by (simp add: zeros_def)

lemma length_store [simp]:
  "off + length bs \<le> length buf \<Longrightarrow> length (store buf off bs) = length buf"
  by (simp add: store_def)

lemma length_store_overrun:
  "length buf < off + length bs \<Longrightarrow> bs \<noteq> [] \<Longrightarrow> length buf < length (store buf off bs)"
  by (cases bs) (auto simp: store_def)

lemma length_slice: "length (slice off n xs) = min n (length xs - off)"
  by (simp add: slice_def)

lemma length_slice_in [simp]: "off + n \<le> length xs \<Longrightarrow> length (slice off n xs) = n"
  by (simp add: length_slice)

lemma slice_full: "slice 0 (length xs) xs = xs"
  by (simp add: slice_def)

lemma slice_take: "off + n \<le> m \<Longrightarrow> slice off n (take m xs) = slice off n xs"
  by (simp add: slice_def take_drop min_def)

lemma slice_drop: "slice off n (drop m xs) = slice (m + off) n xs"
  by (simp add: slice_def add.commute)

lemma slice_slice: "a + m \<le> n \<Longrightarrow> slice a m (slice off n xs) = slice (off + a) m xs"
  by (simp add: slice_def drop_take min_def add.commute)

lemma slice_field: "slice off w xs = ys \<Longrightarrow> k + n \<le> w \<Longrightarrow> slice (off + k) n xs = slice k n ys"
  by (auto simp: slice_slice)

lemma slice_append_left: "off + n \<le> length xs \<Longrightarrow> slice off n (xs @ ys) = slice off n xs"
  by (simp add: slice_def)

lemma slice_append_right:
  "length xs \<le> off \<Longrightarrow> slice off n (xs @ ys) = slice (off - length xs) n ys"
  by (simp add: slice_def)

lemma slice_append_exact:
  "off = length xs \<Longrightarrow> n = length ys \<Longrightarrow> slice off n (xs @ ys @ zs) = ys"
  by (simp add: slice_def)

lemma nth_slice: "i < n \<Longrightarrow> off + i < length xs \<Longrightarrow> slice off n xs ! i = xs ! (off + i)"
  by (simp add: slice_def)

lemma slice_eq_nth:
  "off + n \<le> length xs \<Longrightarrow> slice off n xs = map (\<lambda>i. xs ! (off + i)) [0..<n]"
  by (rule nth_equalityI) (simp_all add: nth_slice)

lemma nth_store:
  assumes "off + length bs \<le> length buf"
  shows "store buf off bs ! i =
    (if off \<le> i \<and> i < off + length bs then bs ! (i - off) else buf ! i)"
proof -
  have "length (take off buf) = off" using assms by simp
  then show ?thesis
    using assms by (auto simp: store_def nth_append)
qed

lemma slice_store_same:
  "off + length bs \<le> length buf \<Longrightarrow> n = length bs \<Longrightarrow> slice off n (store buf off bs) = bs"
  by (simp add: slice_def store_def)

lemma slice_store_before:
  "o2 + n \<le> off \<Longrightarrow> off + length bs \<le> length buf \<Longrightarrow> slice o2 n (store buf off bs) = slice o2 n buf"
  by (rule nth_equalityI) (auto simp: nth_slice nth_store length_slice)

lemma slice_store_after:
  "off + length bs \<le> o2 \<Longrightarrow> off + length bs \<le> length buf \<Longrightarrow>
    slice o2 n (store buf off bs) = slice o2 n buf"
  by (rule nth_equalityI) (auto simp: nth_slice nth_store length_slice)

lemma slice_store_inside:
  "off \<le> o2 \<Longrightarrow> o2 + n \<le> off + length bs \<Longrightarrow> off + length bs \<le> length buf \<Longrightarrow>
    slice o2 n (store buf off bs) = slice (o2 - off) n bs"
  by (rule nth_equalityI) (auto simp: nth_slice nth_store length_slice)

lemma nth_store_out:
  "i < off \<or> off + length bs \<le> i \<Longrightarrow> off + length bs \<le> length buf \<Longrightarrow> store buf off bs ! i = buf ! i"
  by (auto simp: nth_store)

lemma store_Nil [simp]: "store buf off [] = buf"
  by (simp add: store_def)

lemma store_adjacent:
  assumes "off + length xs + length ys \<le> length buf" and "o2 = off + length xs"
  shows "store (store buf off xs) o2 ys = store buf off (xs @ ys)"
  using assms by (intro nth_equalityI) (auto simp: nth_store nth_append)

lemma store_zeros_head:
  "store (zeros (length xs + n)) 0 xs = xs @ zeros n"
  by (simp add: store_def zeros_def)

lemma store_as_append:
  "off + length bs \<le> length buf \<Longrightarrow>
    store buf off bs = slice 0 off buf @ bs @ slice (off + length bs) (length buf - (off + length bs)) buf"
  by (simp add: store_def slice_def)

lemmas slice_store = slice_store_same slice_store_before slice_store_after

section \<open>Little-endian integers\<close>

definition le16 :: "u16 \<Rightarrow> bytes" where
  "le16 v = [ucast (v AND 0xFF), ucast (drop_bit 8 v AND 0xFF)]"

definition le32 :: "u32 \<Rightarrow> bytes" where
  "le32 v = [ucast (v AND 0xFF), ucast (drop_bit 8 v AND 0xFF),
             ucast (drop_bit 16 v AND 0xFF), ucast (drop_bit 24 v AND 0xFF)]"

definition le64 :: "u64 \<Rightarrow> bytes" where
  "le64 v = [ucast (v AND 0xFF), ucast (drop_bit 8 v AND 0xFF),
             ucast (drop_bit 16 v AND 0xFF), ucast (drop_bit 24 v AND 0xFF),
             ucast (drop_bit 32 v AND 0xFF), ucast (drop_bit 40 v AND 0xFF),
             ucast (drop_bit 48 v AND 0xFF), ucast (drop_bit 56 v AND 0xFF)]"

definition writeU8 :: "bytes \<Rightarrow> nat \<Rightarrow> u8 \<Rightarrow> bytes" where
  "writeU8 buf off v = store buf off [v]"

definition writeU16 :: "bytes \<Rightarrow> nat \<Rightarrow> u16 \<Rightarrow> bytes" where
  "writeU16 buf off v = store buf off (le16 v)"

definition writeU32 :: "bytes \<Rightarrow> nat \<Rightarrow> u32 \<Rightarrow> bytes" where
  "writeU32 buf off v = store buf off (le32 v)"

definition writeU64 :: "bytes \<Rightarrow> nat \<Rightarrow> u64 \<Rightarrow> bytes" where
  "writeU64 buf off v = store buf off (le64 v)"

definition readU16 :: "bytes \<Rightarrow> nat \<Rightarrow> u16" where
  "readU16 buf off = ucast (buf ! off) OR push_bit 8 (ucast (buf ! (off + 1)))"

definition readU32 :: "bytes \<Rightarrow> nat \<Rightarrow> u32" where
  "readU32 buf off =
     ucast (buf ! off) OR push_bit 8 (ucast (buf ! (off + 1)))
     OR push_bit 16 (ucast (buf ! (off + 2))) OR push_bit 24 (ucast (buf ! (off + 3)))"

definition readU64 :: "bytes \<Rightarrow> nat \<Rightarrow> u64" where
  "readU64 buf off =
     ucast (buf ! off) OR push_bit 8 (ucast (buf ! (off + 1)))
     OR push_bit 16 (ucast (buf ! (off + 2))) OR push_bit 24 (ucast (buf ! (off + 3)))
     OR push_bit 32 (ucast (buf ! (off + 4))) OR push_bit 40 (ucast (buf ! (off + 5)))
     OR push_bit 48 (ucast (buf ! (off + 6))) OR push_bit 56 (ucast (buf ! (off + 7)))"

lemmas write_defs = writeU8_def writeU16_def writeU32_def writeU64_def

lemma length_le16 [simp]: "length (le16 v) = 2"
  by (simp add: le16_def)

lemma length_le32 [simp]: "length (le32 v) = 4"
  by (simp add: le32_def)

lemma length_le64 [simp]: "length (le64 v) = 8"
  by (simp add: le64_def)

lemma word_xor_cancel_right [simp]: "(a XOR c = b XOR c) = (a = b)" for a b c :: "'a::len word"
  by (metis xor.assoc xor.right_neutral xor_self_eq)

lemma word_xor_cancel_left [simp]: "(c XOR a = c XOR b) = (a = b)" for a b c :: "'a::len word"
  by (metis xor.assoc xor.left_neutral xor_self_eq)

lemma ucast_u8_u32_u8 [simp]: "(ucast (ucast a :: u32) :: u8) = a"
  by (rule bit_word_eqI) (simp add: bit_simps)

lemma byte_mask: "(255 :: 'a::len word) = mask 8"
  by (simp add: mask_eq_exp_minus_1)

lemma le16_ident:
  fixes v :: u16
  shows "(ucast (ucast (v AND 0xFF) :: u8) :: u16)
    OR push_bit 8 (ucast (ucast (drop_bit 8 v AND 0xFF) :: u8) :: u16) = v"
proof (rule bit_word_eqI)
  fix n assume "n < LENGTH(16)"
  then have "n < 8 \<or> 8 \<le> n \<and> n < 16"
    by simp linarith
  then show "bit ((ucast (ucast (v AND 0xFF) :: u8) :: u16)
    OR push_bit 8 (ucast (ucast (drop_bit 8 v AND 0xFF) :: u8) :: u16)) n = bit v n"
    unfolding byte_mask by (elim disjE; simp add: bit_simps less_diff_conv2)
qed

lemma readU16_eq:
  assumes "off + 2 \<le> length buf" and "slice off 2 buf = le16 v"
  shows "readU16 buf off = v"
proof -
  have b: "buf ! (off + k) = le16 v ! k" if "k < 2" for k
    using assms that nth_slice[of k 2 off buf] by simp
  show ?thesis
    using b[of 0] b[of 1]
    by (simp add: readU16_def le16_def le16_ident)
qed

lemma le32_ident:
  fixes v :: u32
  shows "(ucast (ucast (v AND 0xFF) :: u8) :: u32)
    OR push_bit 8 (ucast (ucast (drop_bit 8 v AND 0xFF) :: u8) :: u32)
    OR push_bit 16 (ucast (ucast (drop_bit 16 v AND 0xFF) :: u8) :: u32)
    OR push_bit 24 (ucast (ucast (drop_bit 24 v AND 0xFF) :: u8) :: u32) = v"
proof (rule bit_word_eqI)
  fix n assume "n < LENGTH(32)"
  then have "n < 8 \<or> 8 \<le> n \<and> n < 16 \<or> 16 \<le> n \<and> n < 24 \<or> 24 \<le> n \<and> n < 32"
    by simp linarith
  then show "bit ((ucast (ucast (v AND 0xFF) :: u8) :: u32)
    OR push_bit 8 (ucast (ucast (drop_bit 8 v AND 0xFF) :: u8) :: u32)
    OR push_bit 16 (ucast (ucast (drop_bit 16 v AND 0xFF) :: u8) :: u32)
    OR push_bit 24 (ucast (ucast (drop_bit 24 v AND 0xFF) :: u8) :: u32)) n = bit v n"
    unfolding byte_mask by (elim disjE; simp add: bit_simps less_diff_conv2)
qed

lemma readU32_eq:
  assumes "off + 4 \<le> length buf" and "slice off 4 buf = le32 v"
  shows "readU32 buf off = v"
proof -
  have b: "buf ! (off + k) = le32 v ! k" if "k < 4" for k
    using assms that nth_slice[of k 4 off buf] by simp
  show ?thesis
    using b[of 0] b[of 1] b[of 2] b[of 3]
    by (simp add: readU32_def le32_def le32_ident)
qed

lemma le64_ident:
  fixes v :: u64
  shows "(ucast (ucast (v AND 0xFF) :: u8) :: u64)
    OR push_bit 8 (ucast (ucast (drop_bit 8 v AND 0xFF) :: u8) :: u64)
    OR push_bit 16 (ucast (ucast (drop_bit 16 v AND 0xFF) :: u8) :: u64)
    OR push_bit 24 (ucast (ucast (drop_bit 24 v AND 0xFF) :: u8) :: u64)
    OR push_bit 32 (ucast (ucast (drop_bit 32 v AND 0xFF) :: u8) :: u64)
    OR push_bit 40 (ucast (ucast (drop_bit 40 v AND 0xFF) :: u8) :: u64)
    OR push_bit 48 (ucast (ucast (drop_bit 48 v AND 0xFF) :: u8) :: u64)
    OR push_bit 56 (ucast (ucast (drop_bit 56 v AND 0xFF) :: u8) :: u64) = v"
proof (rule bit_word_eqI)
  fix n assume "n < LENGTH(64)"
  then have "n < 8 \<or> 8 \<le> n \<and> n < 16 \<or> 16 \<le> n \<and> n < 24 \<or> 24 \<le> n \<and> n < 32 \<or> 32 \<le> n \<and> n < 40 \<or> 40 \<le> n \<and> n < 48 \<or> 48 \<le> n \<and> n < 56 \<or> 56 \<le> n \<and> n < 64"
    by simp linarith
  then show "bit ((ucast (ucast (v AND 0xFF) :: u8) :: u64)
    OR push_bit 8 (ucast (ucast (drop_bit 8 v AND 0xFF) :: u8) :: u64)
    OR push_bit 16 (ucast (ucast (drop_bit 16 v AND 0xFF) :: u8) :: u64)
    OR push_bit 24 (ucast (ucast (drop_bit 24 v AND 0xFF) :: u8) :: u64)
    OR push_bit 32 (ucast (ucast (drop_bit 32 v AND 0xFF) :: u8) :: u64)
    OR push_bit 40 (ucast (ucast (drop_bit 40 v AND 0xFF) :: u8) :: u64)
    OR push_bit 48 (ucast (ucast (drop_bit 48 v AND 0xFF) :: u8) :: u64)
    OR push_bit 56 (ucast (ucast (drop_bit 56 v AND 0xFF) :: u8) :: u64)) n = bit v n"
    unfolding byte_mask by (elim disjE; simp add: bit_simps less_diff_conv2)
qed

lemma readU64_eq:
  assumes "off + 8 \<le> length buf" and "slice off 8 buf = le64 v"
  shows "readU64 buf off = v"
proof -
  have b: "buf ! (off + k) = le64 v ! k" if "k < 8" for k
    using assms that nth_slice[of k 8 off buf] by simp
  show ?thesis
    using b[of 0] b[of 1] b[of 2] b[of 3] b[of 4] b[of 5] b[of 6] b[of 7]
    by (simp add: readU64_def le64_def le64_ident)
qed

lemmas readU_eq = readU16_eq readU32_eq readU64_eq

lemma readU16_le16: "readU16 (le16 v) 0 = v"
  by (rule readU16_eq) (simp_all add: slice_def)

lemma le16_inject [simp]: "le16 a = le16 b \<longleftrightarrow> a = b"
  by (metis readU16_le16)

lemma readU32_le32: "readU32 (le32 v) 0 = v"
  by (rule readU32_eq) (simp_all add: slice_def)

lemma le32_inject [simp]: "le32 a = le32 b \<longleftrightarrow> a = b"
  by (metis readU32_le32)

lemma readU64_le64: "readU64 (le64 v) 0 = v"
  by (rule readU64_eq) (simp_all add: slice_def)

lemma le64_inject [simp]: "le64 a = le64 b \<longleftrightarrow> a = b"
  by (metis readU64_le64)

section \<open>Sequences of stores\<close>

text \<open>
  A builder that fills a zeroed buffer field by field is a sequence of stores.  When the
  stores lie in range and do not overlap, each field can be read back (\<open>slice_stores\<close>), and
  what no store touches is unchanged (\<open>slice_stores_out\<close>).
\<close>

primrec stores :: "bytes \<Rightarrow> (nat \<times> bytes) list \<Rightarrow> bytes" where
  "stores buf [] = buf"
| "stores buf (p # ps) = stores (store buf (fst p) (snd p)) ps"

definition in_range :: "nat \<Rightarrow> (nat \<times> bytes) list \<Rightarrow> bool" where
  "in_range n ps \<longleftrightarrow> list_all (\<lambda>p. fst p + length (snd p) \<le> n) ps"

definition clear_of :: "nat \<Rightarrow> nat \<Rightarrow> (nat \<times> bytes) list \<Rightarrow> bool" where
  "clear_of off n ps \<longleftrightarrow> list_all (\<lambda>q. off + n \<le> fst q \<or> fst q + length (snd q) \<le> off) ps"

primrec disjoint_stores :: "(nat \<times> bytes) list \<Rightarrow> bool" where
  "disjoint_stores [] = True"
| "disjoint_stores (p # ps) = (clear_of (fst p) (length (snd p)) ps \<and> disjoint_stores ps)"

lemma in_range_simps [simp]:
  "in_range n []"
  "in_range n (p # ps) \<longleftrightarrow> fst p + length (snd p) \<le> n \<and> in_range n ps"
  "in_range n (ps @ qs) \<longleftrightarrow> in_range n ps \<and> in_range n qs"
  by (simp_all add: in_range_def)

lemma clear_of_simps [simp]:
  "clear_of off n []"
  "clear_of off n (q # ps) \<longleftrightarrow>
     (off + n \<le> fst q \<or> fst q + length (snd q) \<le> off) \<and> clear_of off n ps"
  by (simp_all add: clear_of_def)

lemma stores_append: "stores buf (ps @ qs) = stores (stores buf ps) qs"
  by (induction ps arbitrary: buf) simp_all

lemma length_stores: "in_range (length buf) ps \<Longrightarrow> length (stores buf ps) = length buf"
  by (induction ps arbitrary: buf) simp_all

lemma slice_stores_out:
  "clear_of off n ps \<Longrightarrow> in_range (length buf) ps \<Longrightarrow> slice off n (stores buf ps) = slice off n buf"
proof (induction ps arbitrary: buf)
  case Nil
  then show ?case by simp
next
  case (Cons p ps)
  then have "slice off n (stores buf (p # ps)) = slice off n (store buf (fst p) (snd p))"
    by simp
  also have "\<dots> = slice off n buf"
    using Cons.prems by (auto simp: slice_store_before slice_store_after)
  finally show ?case .
qed

lemma slice_stores:
  assumes "(off, bs) \<in> set ps" and "disjoint_stores ps" and "in_range (length buf) ps"
    and "n = length bs"
  shows "slice off n (stores buf ps) = bs"
  using assms
proof (induction ps arbitrary: buf)
  case Nil
  then show ?case by simp
next
  case (Cons p ps)
  show ?case
  proof (cases "(off, bs) = p")
    case True
    then show ?thesis
      using Cons.prems by (auto simp: slice_stores_out slice_store_same)
  next
    case False
    then show ?thesis using Cons by simp
  qed
qed

lemma nth_slice1: "slice off 1 xs = [v] \<Longrightarrow> xs ! off = v"
  by (cases "off < length xs") (auto simp: slice_def take_Suc hd_drop_conv_nth)

section \<open>Errors\<close>

text \<open>
  The exceptions of the code, with their messages, and the access outside a buffer that C++
  leaves undefined.
\<close>

datatype error =
    RuntimeError string
  | InvalidArgument string
  | LengthError string
  | LogicError string
  | OutOfBounds

type_synonym 'a result = "error + 'a"

fun bind_r :: "'a result \<Rightarrow> ('a \<Rightarrow> 'b result) \<Rightarrow> 'b result" where
  "bind_r (Inl e) f = Inl e"
| "bind_r (Inr x) f = f x"

lemma bind_r_Inr: "bind_r m f = Inr y \<longleftrightarrow> (\<exists>x. m = Inr x \<and> f x = Inr y)"
  by (cases m) auto

lemma bind_r_Inl: "bind_r m f = Inl e \<longleftrightarrow> m = Inl e \<or> (\<exists>x. m = Inr x \<and> f x = Inl e)"
  by (cases m) auto

lemma bind_r_assoc: "bind_r (bind_r m f) g = bind_r m (\<lambda>x. bind_r (f x) g)"
  by (cases m) simp_all

lemma bind_r_cong [fundef_cong]:
  "m = m' \<Longrightarrow> (\<And>x. m' = Inr x \<Longrightarrow> f x = g x) \<Longrightarrow> bind_r m f = bind_r m' g"
  by (cases m') auto

text \<open>Mapping a fallible function over a list stops at the first error.\<close>

fun mapM_r :: "('a \<Rightarrow> 'b result) \<Rightarrow> 'a list \<Rightarrow> 'b list result" where
  "mapM_r f [] = Inr []"
| "mapM_r f (x # xs) = bind_r (f x) (\<lambda>y. bind_r (mapM_r f xs) (\<lambda>ys. Inr (y # ys)))"

lemma mapM_r_Inr:
  "(\<And>x. x \<in> set xs \<Longrightarrow> f x = Inr (g x)) \<Longrightarrow> mapM_r f xs = Inr (map g xs)"
  by (induction xs) simp_all

lemma mapM_r_length: "mapM_r f xs = Inr ys \<Longrightarrow> length ys = length xs"
  by (induction xs arbitrary: ys) (auto simp: bind_r_Inr)

lemma mapM_r_cong [fundef_cong]:
  "xs = ys \<Longrightarrow> (\<And>x. x \<in> set ys \<Longrightarrow> f x = g x) \<Longrightarrow> mapM_r f xs = mapM_r g ys"
  by (induction ys arbitrary: xs) auto

lemma mapM_r_result: "mapM_r f xs = Inr ys \<Longrightarrow> y \<in> set ys \<Longrightarrow> \<exists>x \<in> set xs. f x = Inr y"
  by (induction xs arbitrary: ys) (auto simp: bind_r_Inr)

lemma mapM_r_error: "mapM_r f xs = Inl e \<Longrightarrow> \<exists>x \<in> set xs. f x = Inl e"
  by (induction xs) (auto simp: bind_r_Inl)

text \<open>A checked copy \<open>memcpy(buf + off, bs, n)\<close>: outside the buffer it is an error.\<close>

definition memcpyAt :: "bytes \<Rightarrow> nat \<Rightarrow> bytes \<Rightarrow> bytes result" where
  "memcpyAt buf off bs =
     (if off + length bs \<le> length buf then Inr (store buf off bs) else Inl OutOfBounds)"

section \<open>Loops that store records at a fixed stride\<close>

lemma length_concat_const:
  "(\<And>x. x \<in> set xs \<Longrightarrow> length (f x) = w) \<Longrightarrow> length (concat (map f xs)) = length xs * w"
  by (induction xs) simp_all

lemma fold_store:
  assumes "\<And>i. i < n \<Longrightarrow> length (enc i) = w" and "base + n * w \<le> length buf"
  shows "fold (\<lambda>i b. store b (base + i * w) (enc i)) [0..<n] buf
         = store buf base (concat (map enc [0..<n]))"
  using assms
proof (induction n)
  case 0
  then show ?case by simp
next
  case (Suc n)
  have len: "length (concat (map enc [0..<n])) = n * w"
    using Suc.prems(1) by (subst length_concat_const [where w = w]) auto
  have "fold (\<lambda>i b. store b (base + i * w) (enc i)) [0..<Suc n] buf
      = store (store buf base (concat (map enc [0..<n]))) (base + n * w) (enc n)"
    using Suc by simp
  also have "\<dots> = store buf base (concat (map enc [0..<n]) @ enc n)"
    using Suc.prems len by (intro store_adjacent) auto
  finally show ?case by simp
qed

lemma fold_store_cong:
  assumes step: "\<And>i b. i < n \<Longrightarrow> length b = length buf \<Longrightarrow> f i b = store b (base + i * w) (enc i)"
    and len: "\<And>i. i < n \<Longrightarrow> length (enc i) = w" and rng: "base + n * w \<le> length buf"
  shows "fold f [0..<n] buf = store buf base (concat (map enc [0..<n]))"
proof -
  have "m \<le> n \<Longrightarrow> fold f [0..<m] buf = fold (\<lambda>i b. store b (base + i * w) (enc i)) [0..<m] buf
      \<and> length (fold f [0..<m] buf) = length buf" for m
  proof (induction m)
    case 0
    then show ?case by simp
  next
    case (Suc m)
    have "base + m * w + w \<le> length buf"
      using Suc.prems rng mult_le_mono1 [of "Suc m" n w] by simp
    moreover have "fold f [0..<m] buf = fold (\<lambda>i b. store b (base + i * w) (enc i)) [0..<m] buf"
      and "length (fold (\<lambda>i b. store b (base + i * w) (enc i)) [0..<m] buf) = length buf"
      using Suc by auto
    ultimately show ?case using Suc.prems len [of m] step [of m] by simp
  qed
  then show ?thesis using fold_store [OF len rng] by simp
qed

lemma map_nth_upt: "map (\<lambda>i. f (xs ! i)) [0..<length xs] = map f xs"
  by (rule nth_equalityI) simp_all

lemma slice_concat_nth:
  "i < length as \<Longrightarrow> slice (length (concat (take i as))) (length (as ! i)) (concat as) = as ! i"
  using id_take_nth_drop [of i as]
  by (metis concat.simps(2) concat_append slice_append_exact)

lemma take_length_le: "length (concat (take k as)) \<le> length (concat as)"
  by (metis append_take_drop_id concat_append le_add1 length_append)

lemma slice_concat_const:
  assumes "\<And>x. x \<in> set xs \<Longrightarrow> length (f x) = w" and "i < length xs"
  shows "slice (i * w) w (concat (map f xs)) = f (xs ! i)"
  using assms
proof (induction xs arbitrary: i)
  case Nil
  then show ?case by simp
next
  case (Cons x xs)
  have fx: "length (f x) = w" using Cons.prems(1) by simp
  show ?case
  proof (cases i)
    case 0
    then show ?thesis using fx by (simp add: slice_def)
  next
    case (Suc j)
    have "slice (i * w) w (concat (map f (x # xs))) = slice (j * w) w (concat (map f xs))"
      using fx Suc by (simp add: slice_append_right)
    also have "\<dots> = f (xs ! j)" using Cons Suc by simp
    finally show ?thesis using Suc by simp
  qed
qed

section \<open>Sorting by key\<close>

text \<open>
  \<open>std::sort\<close> is modelled by the stable \<open>sort_key\<close>.  The standard leaves the order of elements
  with equal keys open; where keys are distinct, as every caller requires of its keys, the
  result is the only sorted permutation (\<open>sorted_perm_unique\<close>).
\<close>

lemma sorted_perm_unique:
  assumes "mset xs = mset ys" and "sorted (map f xs)" and "sorted (map f ys)"
    and "distinct (map f xs)"
  shows "xs = ys"
proof -
  have "mset (map f xs) = mset (map f ys)" using assms(1) by simp
  then have d: "distinct (map f ys)" using assms(4) mset_eq_imp_distinct_iff by blast
  have st: "set xs = set ys" using assms(1) by (rule mset_eq_setD)
  have "inj_on f (set xs \<union> set ys)"
    using assms(4) st by (simp add: distinct_map)
  then show ?thesis
    using assms(2,3,4) d st by (intro map_sorted_distinct_set_unique)
qed

end
