(* ===== verification/Types.thy ===== *)
theory Types
  imports Prelude
begin

text \<open>
  The scalar and identifier types of \<open>include/pstwriter/types.hpp\<close>: the enumerations
  \<open>CryptMethod\<close>, \<open>NidType\<close> and \<open>PropType\<close>, the one-field structs \<open>Nid\<close>, \<open>Bid\<close>, \<open>Ib\<close>,
  \<open>FileTime\<close> and \<open>PropTag\<close> with their bit layouts, the pair \<open>Bref\<close>, and the format-wide
  constants.  An enumeration with a fixed underlying type can hold a value it does not name,
  which is what \<open>static_cast\<close> from file bytes produces; such a value is the last constructor.
\<close>

unbundle bit_operations_syntax

section \<open>Format-wide constants\<close>

definition kPageSize :: nat where
  [layout_simps]: "kPageSize = 512"

definition kBlockAlignment :: nat where
  [layout_simps]: "kBlockAlignment = 64"

definition kMaxBlockPayload :: nat where
  [layout_simps]: "kMaxBlockPayload = 8176"

definition kHeaderSize :: nat where
  [layout_simps]: "kHeaderSize = 564"

definition kMagicDword :: u32 where
  "kMagicDword = 0x4E444221"

definition kMagicClient :: u16 where
  "kMagicClient = 0x4D53"

definition kVerUnicode :: u16 where
  "kVerUnicode = 23"

definition kVerClient :: u16 where
  "kVerClient = 19"

definition kPlatformCreate :: u8 where
  "kPlatformCreate = 1"

definition kPlatformAccess :: u8 where
  "kPlatformAccess = 1"

definition kSentinelByte :: u8 where
  "kSentinelByte = 0x80"

definition kHdrCrcPartialLen :: nat where
  [layout_simps]: "kHdrCrcPartialLen = 471"

definition kHdrCrcFullLen :: nat where
  [layout_simps]: "kHdrCrcFullLen = 516"

section \<open>Enumerations\<close>

datatype CryptMethod = CryptNone | CryptPermute | CryptCyclic

definition cryptMethodVal :: "CryptMethod \<Rightarrow> u8" where
  "cryptMethodVal m = (case m of CryptNone \<Rightarrow> 0 | CryptPermute \<Rightarrow> 1 | CryptCyclic \<Rightarrow> 2)"

datatype NidType =
    NtHID
  | NtInternal
  | NtNormalFolder
  | NtSearchFolder
  | NtNormalMessage
  | NtAttachment
  | NtSearchUpdateQueue
  | NtSearchCriteriaObject
  | NtAssocMessage
  | NtContentsTableIndex
  | NtReceiveFolderTable
  | NtOutgoingQueueTable
  | NtHierarchyTable
  | NtContentsTable
  | NtAssocContentsTable
  | NtSearchContentsTable
  | NtAttachmentTable
  | NtRecipientTable
  | NtSearchTableIndex
  | NtLtpReserved
  | NtUnnamed u8

fun nidTypeVal :: "NidType \<Rightarrow> u8" where
  "nidTypeVal NtHID = 0x00"
| "nidTypeVal NtInternal = 0x01"
| "nidTypeVal NtNormalFolder = 0x02"
| "nidTypeVal NtSearchFolder = 0x03"
| "nidTypeVal NtNormalMessage = 0x04"
| "nidTypeVal NtAttachment = 0x05"
| "nidTypeVal NtSearchUpdateQueue = 0x06"
| "nidTypeVal NtSearchCriteriaObject = 0x07"
| "nidTypeVal NtAssocMessage = 0x08"
| "nidTypeVal NtContentsTableIndex = 0x0A"
| "nidTypeVal NtReceiveFolderTable = 0x0B"
| "nidTypeVal NtOutgoingQueueTable = 0x0C"
| "nidTypeVal NtHierarchyTable = 0x0D"
| "nidTypeVal NtContentsTable = 0x0E"
| "nidTypeVal NtAssocContentsTable = 0x0F"
| "nidTypeVal NtSearchContentsTable = 0x10"
| "nidTypeVal NtAttachmentTable = 0x11"
| "nidTypeVal NtRecipientTable = 0x12"
| "nidTypeVal NtSearchTableIndex = 0x13"
| "nidTypeVal NtLtpReserved = 0x1F"
| "nidTypeVal (NtUnnamed v) = v"

definition nidTypeOf :: "u8 \<Rightarrow> NidType" where
  "nidTypeOf v =
     (if v = 0x00 then NtHID
      else if v = 0x01 then NtInternal
      else if v = 0x02 then NtNormalFolder
      else if v = 0x03 then NtSearchFolder
      else if v = 0x04 then NtNormalMessage
      else if v = 0x05 then NtAttachment
      else if v = 0x06 then NtSearchUpdateQueue
      else if v = 0x07 then NtSearchCriteriaObject
      else if v = 0x08 then NtAssocMessage
      else if v = 0x0A then NtContentsTableIndex
      else if v = 0x0B then NtReceiveFolderTable
      else if v = 0x0C then NtOutgoingQueueTable
      else if v = 0x0D then NtHierarchyTable
      else if v = 0x0E then NtContentsTable
      else if v = 0x0F then NtAssocContentsTable
      else if v = 0x10 then NtSearchContentsTable
      else if v = 0x11 then NtAttachmentTable
      else if v = 0x12 then NtRecipientTable
      else if v = 0x13 then NtSearchTableIndex
      else if v = 0x1F then NtLtpReserved
      else NtUnnamed v)"

datatype PropType =
    PtUnspecified
  | PtNull
  | PtInt16
  | PtInt32
  | PtFloat32
  | PtFloat64
  | PtCurrency
  | PtAppTime
  | PtErrorCode
  | PtBoolean
  | PtObject
  | PtInt64
  | PtString8
  | PtUnicode
  | PtSystemTime
  | PtClassId
  | PtBinary
  | PtMvInt16
  | PtMvInt32
  | PtMvFloat32
  | PtMvFloat64
  | PtMvCurrency
  | PtMvAppTime
  | PtMvInt64
  | PtMvString8
  | PtMvUnicode
  | PtMvSystemTime
  | PtMvClassId
  | PtMvBinary
  | PtUnnamed u16

fun propTypeVal :: "PropType \<Rightarrow> u16" where
  "propTypeVal PtUnspecified = 0x0000"
| "propTypeVal PtNull = 0x0001"
| "propTypeVal PtInt16 = 0x0002"
| "propTypeVal PtInt32 = 0x0003"
| "propTypeVal PtFloat32 = 0x0004"
| "propTypeVal PtFloat64 = 0x0005"
| "propTypeVal PtCurrency = 0x0006"
| "propTypeVal PtAppTime = 0x0007"
| "propTypeVal PtErrorCode = 0x000A"
| "propTypeVal PtBoolean = 0x000B"
| "propTypeVal PtObject = 0x000D"
| "propTypeVal PtInt64 = 0x0014"
| "propTypeVal PtString8 = 0x001E"
| "propTypeVal PtUnicode = 0x001F"
| "propTypeVal PtSystemTime = 0x0040"
| "propTypeVal PtClassId = 0x0048"
| "propTypeVal PtBinary = 0x0102"
| "propTypeVal PtMvInt16 = 0x1002"
| "propTypeVal PtMvInt32 = 0x1003"
| "propTypeVal PtMvFloat32 = 0x1004"
| "propTypeVal PtMvFloat64 = 0x1005"
| "propTypeVal PtMvCurrency = 0x1006"
| "propTypeVal PtMvAppTime = 0x1007"
| "propTypeVal PtMvInt64 = 0x1014"
| "propTypeVal PtMvString8 = 0x101E"
| "propTypeVal PtMvUnicode = 0x101F"
| "propTypeVal PtMvSystemTime = 0x1040"
| "propTypeVal PtMvClassId = 0x1048"
| "propTypeVal PtMvBinary = 0x1102"
| "propTypeVal (PtUnnamed v) = v"

definition propTypeOf :: "u16 \<Rightarrow> PropType" where
  "propTypeOf v =
     (if v = 0x0000 then PtUnspecified
      else if v = 0x0001 then PtNull
      else if v = 0x0002 then PtInt16
      else if v = 0x0003 then PtInt32
      else if v = 0x0004 then PtFloat32
      else if v = 0x0005 then PtFloat64
      else if v = 0x0006 then PtCurrency
      else if v = 0x0007 then PtAppTime
      else if v = 0x000A then PtErrorCode
      else if v = 0x000B then PtBoolean
      else if v = 0x000D then PtObject
      else if v = 0x0014 then PtInt64
      else if v = 0x001E then PtString8
      else if v = 0x001F then PtUnicode
      else if v = 0x0040 then PtSystemTime
      else if v = 0x0048 then PtClassId
      else if v = 0x0102 then PtBinary
      else if v = 0x1002 then PtMvInt16
      else if v = 0x1003 then PtMvInt32
      else if v = 0x1004 then PtMvFloat32
      else if v = 0x1005 then PtMvFloat64
      else if v = 0x1006 then PtMvCurrency
      else if v = 0x1007 then PtMvAppTime
      else if v = 0x1014 then PtMvInt64
      else if v = 0x101E then PtMvString8
      else if v = 0x101F then PtMvUnicode
      else if v = 0x1040 then PtMvSystemTime
      else if v = 0x1048 then PtMvClassId
      else if v = 0x1102 then PtMvBinary
      else PtUnnamed v)"

lemma nidTypeVal_of [simp]: "nidTypeVal (nidTypeOf v) = v"
  by (simp add: nidTypeOf_def)

lemma propTypeVal_of [simp]: "propTypeVal (propTypeOf v) = v"
  by (simp add: propTypeOf_def)

text \<open>
  The canonical values are the ones a cast can produce: a named constructor, or an unnamed
  value that is none of the named ones.
\<close>

definition canonicalNidType :: "NidType \<Rightarrow> bool" where
  "canonicalNidType t \<longleftrightarrow> nidTypeOf (nidTypeVal t) = t"

definition canonicalPropType :: "PropType \<Rightarrow> bool" where
  "canonicalPropType t \<longleftrightarrow> propTypeOf (propTypeVal t) = t"

lemma canonicalPropType_named: "(\<And>v. t \<noteq> PtUnnamed v) \<Longrightarrow> canonicalPropType t"
  by (cases t) (simp_all add: canonicalPropType_def propTypeOf_def)

lemma canonicalNidType_named: "(\<And>v. t \<noteq> NtUnnamed v) \<Longrightarrow> canonicalNidType t"
  by (cases t) (simp_all add: canonicalNidType_def nidTypeOf_def)

section \<open>Identifiers\<close>

datatype Nid = Nid (nid_value: u32)
datatype Bid = Bid (bid_value: u64)
datatype Ib = Ib (ib_value: u64)
datatype FileTime = FileTime (ft_ticks: u64)
datatype PropTag = PropTag (tag_value: u32)

record Bref =
  bref_bid :: Bid
  bref_ib :: Ib

definition mkBref :: "Bid \<Rightarrow> Ib \<Rightarrow> Bref" where
  "mkBref b i = \<lparr>bref_bid = b, bref_ib = i\<rparr>"

lemma mkBref_simps [simp]: "bref_bid (mkBref b i) = b" "bref_ib (mkBref b i) = i"
  by (simp_all add: mkBref_def)

definition mkNid :: "NidType \<Rightarrow> u32 \<Rightarrow> Nid" where
  "mkNid t idx = Nid (push_bit 5 (idx AND 0x07FFFFFF) OR (ucast (nidTypeVal t) AND 0x1F))"

definition nid_type :: "Nid \<Rightarrow> NidType" where
  "nid_type n = nidTypeOf (ucast (nid_value n AND 0x1F))"

definition nid_index :: "Nid \<Rightarrow> u32" where
  "nid_index n = drop_bit 5 (nid_value n)"

definition makeData :: "u64 \<Rightarrow> Bid" where
  "makeData idx = Bid (push_bit 2 (idx AND 0x3FFFFFFFFFFFFFFF))"

definition makeInternal :: "u64 \<Rightarrow> Bid" where
  "makeInternal idx = Bid (push_bit 2 (idx AND 0x3FFFFFFFFFFFFFFF) OR 2)"

definition makeAmap :: "u64 \<Rightarrow> Bid" where
  "makeAmap ib = Bid ib"

definition isInternal :: "Bid \<Rightarrow> bool" where
  "isInternal b \<longleftrightarrow> bid_value b AND 2 \<noteq> 0"

definition isData :: "Bid \<Rightarrow> bool" where
  "isData b \<longleftrightarrow> bid_value b AND 2 = 0"

definition bid_index :: "Bid \<Rightarrow> u64" where
  "bid_index b = drop_bit 2 (bid_value b)"

definition kBidNil :: Bid where
  "kBidNil = Bid 0"

definition mkPropTag :: "u16 \<Rightarrow> PropType \<Rightarrow> PropTag" where
  "mkPropTag propId t = PropTag (push_bit 16 (ucast propId) OR ucast (propTypeVal t))"

definition tag_id :: "PropTag \<Rightarrow> u16" where
  "tag_id p = ucast (drop_bit 16 (tag_value p))"

definition tag_type :: "PropTag \<Rightarrow> PropType" where
  "tag_type p = propTypeOf (ucast (tag_value p AND 0xFFFF))"

text \<open>The NIDs every valid file contains.\<close>

definition kNidMessageStore :: Nid where
  "kNidMessageStore = Nid 0x21"

definition kNidNameToIdMap :: Nid where
  "kNidNameToIdMap = Nid 0x61"

definition kNidNormalFolderTemplate :: Nid where
  "kNidNormalFolderTemplate = Nid 0xA1"

definition kNidSearchFolderTemplate :: Nid where
  "kNidSearchFolderTemplate = Nid 0xC1"

definition kNidRootFolder :: Nid where
  "kNidRootFolder = Nid 0x122"

definition kNidSearchManagementQueue :: Nid where
  "kNidSearchManagementQueue = Nid 0x1E1"

definition kNidSearchActivityList :: Nid where
  "kNidSearchActivityList = Nid 0x201"

definition kNidSearchDomainAlternative :: Nid where
  "kNidSearchDomainAlternative = Nid 0x241"

definition kNidSearchDomainObject :: Nid where
  "kNidSearchDomainObject = Nid 0x261"

definition kNidSearchGathererQueue :: Nid where
  "kNidSearchGathererQueue = Nid 0x281"

definition kNidSearchGathererDescriptor :: Nid where
  "kNidSearchGathererDescriptor = Nid 0x2A1"

definition kNidWasteBasket :: Nid where
  "kNidWasteBasket = Nid 0x225"

definition kNidFinderFolder :: Nid where
  "kNidFinderFolder = Nid 0x242"

definition kNidSpoolerQueue :: Nid where
  "kNidSpoolerQueue = Nid 0x2E1"

section \<open>Orders\<close>

text \<open>\<open>operator<\<close> of the identifier structs compares the raw values.\<close>

instantiation Nid :: linorder
begin

definition less_eq_Nid :: "Nid \<Rightarrow> Nid \<Rightarrow> bool" where
  "less_eq_Nid a b \<longleftrightarrow> nid_value a \<le> nid_value b"

definition less_Nid :: "Nid \<Rightarrow> Nid \<Rightarrow> bool" where
  "less_Nid a b \<longleftrightarrow> nid_value a < nid_value b"

instance
  by standard (auto simp: less_eq_Nid_def less_Nid_def intro: Nid.expand)

end

instantiation Bid :: linorder
begin

definition less_eq_Bid :: "Bid \<Rightarrow> Bid \<Rightarrow> bool" where
  "less_eq_Bid a b \<longleftrightarrow> bid_value a \<le> bid_value b"

definition less_Bid :: "Bid \<Rightarrow> Bid \<Rightarrow> bool" where
  "less_Bid a b \<longleftrightarrow> bid_value a < bid_value b"

instance
  by standard (auto simp: less_eq_Bid_def less_Bid_def intro: Bid.expand)

end

instantiation PropTag :: linorder
begin

definition less_eq_PropTag :: "PropTag \<Rightarrow> PropTag \<Rightarrow> bool" where
  "less_eq_PropTag a b \<longleftrightarrow> tag_value a \<le> tag_value b"

definition less_PropTag :: "PropTag \<Rightarrow> PropTag \<Rightarrow> bool" where
  "less_PropTag a b \<longleftrightarrow> tag_value a < tag_value b"

instance
  by standard (auto simp: less_eq_PropTag_def less_PropTag_def intro: PropTag.expand)

end

section \<open>Bit layouts\<close>

lemma mask5: "(0x1F :: 'a::len word) = mask 5"
  by (simp add: mask_eq_exp_minus_1)

lemma mask16: "(0xFFFF :: 'a::len word) = mask 16"
  by (simp add: mask_eq_exp_minus_1)

lemma mask27: "(0x07FFFFFF :: 'a::len word) = mask 27"
  by (simp add: mask_eq_exp_minus_1)

lemma mask62: "(0x3FFFFFFFFFFFFFFF :: 'a::len word) = mask 62"
  by (simp add: mask_eq_exp_minus_1)

lemma nidTypeVal_lt: "(\<And>v. t \<noteq> NtUnnamed v) \<Longrightarrow> nidTypeVal t AND 0x1F = nidTypeVal t"
  by (cases t) auto

lemma mkNid_type_bits: "nid_value (mkNid t idx) AND 0x1F = ucast (nidTypeVal t) AND 0x1F"
  unfolding mkNid_def mask5 mask27 by (rule bit_word_eqI) (auto simp: bit_simps)

lemma nid_type_mkNid:
  assumes "\<And>v. t \<noteq> NtUnnamed v"
  shows "nid_type (mkNid t idx) = t"
proof -
  have "(ucast (ucast (nidTypeVal t) AND 0x1F :: u32) :: u8) = nidTypeVal t AND 0x1F"
    unfolding mask5 by (rule bit_word_eqI) (auto simp: bit_simps)
  then show ?thesis
    using canonicalNidType_named[OF assms] nidTypeVal_lt[OF assms]
    by (simp add: nid_type_def mkNid_type_bits canonicalNidType_def)
qed

lemma nid_index_mkNid: "nid_index (mkNid t idx) = idx AND 0x07FFFFFF"
  unfolding mkNid_def mask5 mask27 nid_index_def by (rule bit_word_eqI) (auto simp: bit_simps)

lemma bid_index_makeData: "bid_index (makeData idx) = idx AND 0x3FFFFFFFFFFFFFFF"
  unfolding makeData_def mask62 bid_index_def by (rule bit_word_eqI) (auto simp: bit_simps)

lemma bid_index_makeInternal: "bid_index (makeInternal idx) = idx AND 0x3FFFFFFFFFFFFFFF"
  unfolding makeInternal_def mask62 bid_index_def
  by (rule bit_word_eqI) (auto simp: bit_simps )

lemma bit2: "(2 :: 'a::len word) = push_bit 1 1" by simp

lemma makeData_flags: "isData (makeData idx)"
  unfolding isData_def makeData_def mask62 bit2 by (simp, rule bit_word_eqI) (auto simp: bit_simps)

lemma makeInternal_flags: "isInternal (makeInternal idx)"
proof -
  have "bit (bid_value (makeInternal idx) AND 2) 1"
    by (simp add: makeInternal_def bit_simps)
  then show ?thesis unfolding isInternal_def by (metis bit_0_eq bot_apply bot_bool_def)
qed

lemma tag_id_mk: "tag_id (mkPropTag i t) = i"
  unfolding tag_id_def mkPropTag_def
  by simp (rule bit_word_eqI, auto simp: bit_simps dest: bit_imp_le_length)

lemma tag_type_mk: "canonicalPropType t \<Longrightarrow> tag_type (mkPropTag i t) = t"
proof -
  assume "canonicalPropType t"
  have "(ucast (tag_value (mkPropTag i t) AND 0xFFFF) :: u16) = propTypeVal t"
    unfolding mkPropTag_def mask16 by (rule bit_word_eqI) (auto simp: bit_simps)
  then show ?thesis using \<open>canonicalPropType t\<close> by (simp add: tag_type_def canonicalPropType_def)
qed

lemma data_not_internal: "isData b \<longleftrightarrow> \<not> isInternal b"
  by (simp add: isData_def isInternal_def)

lemma makeData_ne_makeInternal: "makeData i \<noteq> makeInternal j"
  using makeData_flags [of i] makeInternal_flags [of j] by (auto simp: data_not_internal)

end
