(* ===== verification/Crc.thy ===== *)
theory Crc
  imports Types
begin

text \<open>
  The PST CRC-32 of \<open>src/crc.cpp\<close>: the 256-entry lookup table as it stands in the source, and
  the reflected update loop with initial value 0 and no final XOR.  The reference is the
  bit-by-bit division by the reflected polynomial \<open>0xEDB88320\<close>; the table-driven loop is proved
  equal to it, and the CRC is proved to notice every change of a single byte.
\<close>

unbundle bit_operations_syntax

definition kCrcTable :: "u32 list" where
  "kCrcTable =
   [0x00000000, 0x77073096, 0xEE0E612C, 0x990951BA, 0x076DC419, 0x706AF48F,
    0xE963A535, 0x9E6495A3, 0x0EDB8832, 0x79DCB8A4, 0xE0D5E91E, 0x97D2D988,
    0x09B64C2B, 0x7EB17CBD, 0xE7B82D07, 0x90BF1D91, 0x1DB71064, 0x6AB020F2,
    0xF3B97148, 0x84BE41DE, 0x1ADAD47D, 0x6DDDE4EB, 0xF4D4B551, 0x83D385C7,
    0x136C9856, 0x646BA8C0, 0xFD62F97A, 0x8A65C9EC, 0x14015C4F, 0x63066CD9,
    0xFA0F3D63, 0x8D080DF5, 0x3B6E20C8, 0x4C69105E, 0xD56041E4, 0xA2677172,
    0x3C03E4D1, 0x4B04D447, 0xD20D85FD, 0xA50AB56B, 0x35B5A8FA, 0x42B2986C,
    0xDBBBC9D6, 0xACBCF940, 0x32D86CE3, 0x45DF5C75, 0xDCD60DCF, 0xABD13D59,
    0x26D930AC, 0x51DE003A, 0xC8D75180, 0xBFD06116, 0x21B4F4B5, 0x56B3C423,
    0xCFBA9599, 0xB8BDA50F, 0x2802B89E, 0x5F058808, 0xC60CD9B2, 0xB10BE924,
    0x2F6F7C87, 0x58684C11, 0xC1611DAB, 0xB6662D3D, 0x76DC4190, 0x01DB7106,
    0x98D220BC, 0xEFD5102A, 0x71B18589, 0x06B6B51F, 0x9FBFE4A5, 0xE8B8D433,
    0x7807C9A2, 0x0F00F934, 0x9609A88E, 0xE10E9818, 0x7F6A0DBB, 0x086D3D2D,
    0x91646C97, 0xE6635C01, 0x6B6B51F4, 0x1C6C6162, 0x856530D8, 0xF262004E,
    0x6C0695ED, 0x1B01A57B, 0x8208F4C1, 0xF50FC457, 0x65B0D9C6, 0x12B7E950,
    0x8BBEB8EA, 0xFCB9887C, 0x62DD1DDF, 0x15DA2D49, 0x8CD37CF3, 0xFBD44C65,
    0x4DB26158, 0x3AB551CE, 0xA3BC0074, 0xD4BB30E2, 0x4ADFA541, 0x3DD895D7,
    0xA4D1C46D, 0xD3D6F4FB, 0x4369E96A, 0x346ED9FC, 0xAD678846, 0xDA60B8D0,
    0x44042D73, 0x33031DE5, 0xAA0A4C5F, 0xDD0D7CC9, 0x5005713C, 0x270241AA,
    0xBE0B1010, 0xC90C2086, 0x5768B525, 0x206F85B3, 0xB966D409, 0xCE61E49F,
    0x5EDEF90E, 0x29D9C998, 0xB0D09822, 0xC7D7A8B4, 0x59B33D17, 0x2EB40D81,
    0xB7BD5C3B, 0xC0BA6CAD, 0xEDB88320, 0x9ABFB3B6, 0x03B6E20C, 0x74B1D29A,
    0xEAD54739, 0x9DD277AF, 0x04DB2615, 0x73DC1683, 0xE3630B12, 0x94643B84,
    0x0D6D6A3E, 0x7A6A5AA8, 0xE40ECF0B, 0x9309FF9D, 0x0A00AE27, 0x7D079EB1,
    0xF00F9344, 0x8708A3D2, 0x1E01F268, 0x6906C2FE, 0xF762575D, 0x806567CB,
    0x196C3671, 0x6E6B06E7, 0xFED41B76, 0x89D32BE0, 0x10DA7A5A, 0x67DD4ACC,
    0xF9B9DF6F, 0x8EBEEFF9, 0x17B7BE43, 0x60B08ED5, 0xD6D6A3E8, 0xA1D1937E,
    0x38D8C2C4, 0x4FDFF252, 0xD1BB67F1, 0xA6BC5767, 0x3FB506DD, 0x48B2364B,
    0xD80D2BDA, 0xAF0A1B4C, 0x36034AF6, 0x41047A60, 0xDF60EFC3, 0xA867DF55,
    0x316E8EEF, 0x4669BE79, 0xCB61B38C, 0xBC66831A, 0x256FD2A0, 0x5268E236,
    0xCC0C7795, 0xBB0B4703, 0x220216B9, 0x5505262F, 0xC5BA3BBE, 0xB2BD0B28,
    0x2BB45A92, 0x5CB36A04, 0xC2D7FFA7, 0xB5D0CF31, 0x2CD99E8B, 0x5BDEAE1D,
    0x9B64C2B0, 0xEC63F226, 0x756AA39C, 0x026D930A, 0x9C0906A9, 0xEB0E363F,
    0x72076785, 0x05005713, 0x95BF4A82, 0xE2B87A14, 0x7BB12BAE, 0x0CB61B38,
    0x92D28E9B, 0xE5D5BE0D, 0x7CDCEFB7, 0x0BDBDF21, 0x86D3D2D4, 0xF1D4E242,
    0x68DDB3F8, 0x1FDA836E, 0x81BE16CD, 0xF6B9265B, 0x6FB077E1, 0x18B74777,
    0x88085AE6, 0xFF0F6A70, 0x66063BCA, 0x11010B5C, 0x8F659EFF, 0xF862AE69,
    0x616BFFD3, 0x166CCF45, 0xA00AE278, 0xD70DD2EE, 0x4E048354, 0x3903B3C2,
    0xA7672661, 0xD06016F7, 0x4969474D, 0x3E6E77DB, 0xAED16A4A, 0xD9D65ADC,
    0x40DF0B66, 0x37D83BF0, 0xA9BCAE53, 0xDEBB9EC5, 0x47B2CF7F, 0x30B5FFE9,
    0xBDBDF21C, 0xCABAC28A, 0x53B39330, 0x24B4A3A6, 0xBAD03605, 0xCDD70693,
    0x54DE5729, 0x23D967BF, 0xB3667A2E, 0xC4614AB8, 0x5D681B02, 0x2A6F2B94,
    0xB40BBE37, 0xC30C8EA1, 0x5A05DF1B, 0x2D02EF8D]"

definition crc_step :: "u32 \<Rightarrow> u8 \<Rightarrow> u32" where
  "crc_step crc b = drop_bit 8 crc XOR kCrcTable ! unat ((crc XOR ucast b) AND 0xFF)"

definition crc32 :: "bytes \<Rightarrow> u32" where
  "crc32 data = (if length data = 0 then 0 else foldl crc_step 0 data)"

text \<open>One step of the division by the polynomial, and the division of a byte.\<close>

definition crc_bit :: "u32 \<Rightarrow> u32" where
  "crc_bit c = (if c AND 1 = 1 then drop_bit 1 c XOR 0xEDB88320 else drop_bit 1 c)"

definition crc_bits8 :: "u32 \<Rightarrow> u32" where
  "crc_bits8 c = crc_bit (crc_bit (crc_bit (crc_bit (crc_bit (crc_bit (crc_bit (crc_bit c)))))))"

definition crc32_bitwise :: "bytes \<Rightarrow> u32" where
  "crc32_bitwise data = foldl (\<lambda>crc b. crc_bits8 (crc XOR ucast b)) 0 data"

lemma length_kCrcTable: "length kCrcTable = 256"
  by (simp add: kCrcTable_def)

section \<open>Algebra of the division step\<close>

lemma crc_bit_alt: "crc_bit c = drop_bit 1 c XOR (if bit c 0 then 0xEDB88320 else 0)"
proof -
  have "c AND 1 = 1 \<longleftrightarrow> bit c 0"
    by (simp add: and_one_eq bit_0 odd_iff_mod_2_eq_one)
  then show ?thesis by (simp add: crc_bit_def)
qed

lemma crc_bit_xor: "crc_bit (x XOR y) = crc_bit x XOR crc_bit y"
  by (simp add: crc_bit_alt bit_xor_iff ac_simps)

lemma crc_bits8_xor: "crc_bits8 (x XOR y) = crc_bits8 x XOR crc_bits8 y"
  by (simp add: crc_bits8_def crc_bit_xor)

lemma crc_bit_inj: "crc_bit x = crc_bit y \<Longrightarrow> x = y"
proof -
  assume e: "crc_bit x = crc_bit y"
  have top: "bit (crc_bit c) 31 \<longleftrightarrow> bit c 0" for c
    by (auto simp: crc_bit_alt bit_simps dest: bit_imp_le_length)
  have b0: "bit x 0 = bit y 0" using e top by metis
  then have d: "drop_bit 1 x = drop_bit 1 y" using e by (simp add: crc_bit_alt split: if_splits)
  show "x = y"
  proof (rule bit_word_eqI)
    fix n assume n: "n < LENGTH(32)"
    show "bit x n = bit y n"
    proof (cases n)
      case 0 then show ?thesis using b0 by simp
    next
      case (Suc m)
      have "bit (drop_bit 1 x) m = bit (drop_bit 1 y) m" using d by simp
      then show ?thesis using Suc by (simp add: bit_simps)
    qed
  qed
qed

lemma crc_bits8_inj: "crc_bits8 x = crc_bits8 y \<Longrightarrow> x = y"
  unfolding crc_bits8_def by (blast dest: crc_bit_inj)

lemma crc_bits8_high:
  assumes "\<And>k. k < 8 \<Longrightarrow> \<not> bit x k"
  shows "crc_bits8 x = drop_bit 8 x"
proof -
  have s: "crc_bit (drop_bit k x) = drop_bit (Suc k) x" if "k < 8" for k
    using assms[OF that] by (simp add: crc_bit_alt bit_simps)
  show ?thesis
    using s[of 0] s[of 1] s[of 2] s[of 3] s[of 4] s[of 5] s[of 6] s[of 7]
    by (simp add: crc_bits8_def eval_nat_numeral)
qed

lemma crc_bits8_split: "crc_bits8 c = drop_bit 8 c XOR crc_bits8 (c AND 0xFF)"
proof -
  have m: "(0xFF :: u32) = mask 8" by (rule byte_mask)
  have c: "c = (c AND NOT (mask 8)) XOR (c AND mask 8)"
    by (rule bit_word_eqI) (auto simp: bit_simps)
  have d: "drop_bit 8 (c AND NOT (mask 8)) = drop_bit 8 c"
    by (rule bit_word_eqI) (auto simp: bit_simps dest: bit_imp_le_length)
  have "crc_bits8 c = crc_bits8 (c AND NOT (mask 8)) XOR crc_bits8 (c AND mask 8)"
    by (subst c) (simp only: crc_bits8_xor)
  also have "crc_bits8 (c AND NOT (mask 8)) = drop_bit 8 (c AND NOT (mask 8))"
    by (rule crc_bits8_high) (auto simp: bit_simps)
  also note d
  finally show ?thesis by (simp only: m)
qed

section \<open>The table is the bitwise division\<close>

text \<open>
  The table doubles with each bit of the index: the division is linear, so its upper half is the lower half
  XORed with the entry of the new bit.
\<close>

definition xorTable :: "u32 list \<Rightarrow> u32 list" where
  "xorTable = foldl (\<lambda>t b. t @ map ((XOR) b) t) [0]"

lemma word_of_nat_high:
  assumes "i < 2 ^ k" and "k < 32"
  shows "(word_of_nat (i + 2 ^ k) :: u32) = 2 ^ k XOR word_of_nat i"
proof -
  have "take_bit k i = i" using assms(1) by (simp add: take_bit_nat_eq_self)
  then have "(word_of_nat i :: u32) = take_bit k (word_of_nat i)" by (simp add: take_bit_of_nat)
  then have "\<not> bit (word_of_nat i :: u32) k" by (metis bit_take_bit_iff less_irrefl)
  then have "(2 ^ k :: u32) AND word_of_nat i = 0"
    by (intro bit_word_eqI) (auto simp: bit_simps)
  then show ?thesis using disjunctive_add_eq_xor [of "2 ^ k :: u32" "word_of_nat i"] by (simp add: add.commute)
qed

lemma xorTable_bitwise:
  "k \<le> 32 \<Longrightarrow> xorTable (map (\<lambda>j. crc_bits8 (2 ^ j)) [0..<k]) = map (\<lambda>i. crc_bits8 (word_of_nat i)) [0..<2 ^ k]"
proof (induction k)
  case (Suc k)
  have "[0..<2 ^ Suc k] = [0..<2 ^ k] @ map (\<lambda>i. i + 2 ^ k) [0..<2 ^ k]"
    using upt_add_eq_append [of 0 "2 ^ k" "2 ^ k"] by (simp add: map_add_upt mult_2)
  then show ?case
    using Suc by (simp add: xorTable_def word_of_nat_high crc_bits8_xor del: of_nat_add)
qed (simp add: xorTable_def crc_bits8_def crc_bit_def)

lemma crc_bits8_powers:
  "map (\<lambda>j. crc_bits8 (2 ^ j)) [0..<8] =
     [0x77073096, 0xEE0E612C, 0x076DC419, 0x0EDB8832, 0x1DB71064, 0x3B6E20C8, 0x76DC4190, 0xEDB88320]"
  by (simp add: upt_rec crc_bits8_def crc_bit_def)

lemma kCrcTable_bitwise: "kCrcTable = map (\<lambda>i. crc_bits8 (word_of_nat i)) [0..<256]"
proof -
  have "kCrcTable = xorTable (map (\<lambda>j. crc_bits8 (2 ^ j)) [0..<8])"
    unfolding crc_bits8_powers by (simp add: kCrcTable_def xorTable_def)
  then show ?thesis using xorTable_bitwise [of 8] by simp
qed

lemma kCrcTable_nth: "i < 256 \<Longrightarrow> kCrcTable ! i = crc_bits8 (word_of_nat i)"
  by (simp add: kCrcTable_bitwise)

lemma crc_step_bitwise: "crc_step crc b = crc_bits8 (crc XOR ucast b)"
proof -
  let ?i = "(crc XOR ucast b) AND 0xFF"
  have "?i \<le> 0xFF" by (rule word_and_le1)
  then have lt: "unat ?i < 256"
    by (simp add: word_le_nat_alt)
  have hi: "drop_bit 8 (ucast b :: u32) = 0"
    by (rule bit_word_eqI) (auto simp: bit_simps dest: bit_imp_le_length)
  show ?thesis
    by (simp add: crc_step_def kCrcTable_nth[OF lt] crc_bits8_split[of "crc XOR ucast b"] hi)
qed

lemma crc_step_inj_crc: "crc_step c b = crc_step d b \<Longrightarrow> c = d"
  by (auto simp: crc_step_bitwise dest!: crc_bits8_inj)

lemma crc_step_inj_byte: "crc_step c a = crc_step c b \<Longrightarrow> a = b"
proof -
  assume "crc_step c a = crc_step c b"
  then have "(ucast a :: u32) = ucast b"
    by (auto simp: crc_step_bitwise dest!: crc_bits8_inj)
  then show "a = b" by (metis ucast_u8_u32_u8)
qed

lemma foldl_crc_inj: "foldl crc_step c bs = foldl crc_step d bs \<Longrightarrow> c = d"
  by (induction bs arbitrary: c d) (auto dest: crc_step_inj_crc)

lemma crc32_foldl: "crc32 data = foldl crc_step 0 data"
  by (simp add: crc32_def)

text \<open>
  C30: the table-driven loop of \<open>crc32\<close> computes the remainder of the division by the
  reflected polynomial, bit by bit, for every input.
\<close>

theorem crc32_eq_bitwise: "crc32 data = crc32_bitwise data"
  by (simp add: crc32_foldl crc32_bitwise_def crc_step_bitwise [abs_def])

lemma crc32_update_neq:
  assumes "i < length data" and "b \<noteq> data ! i"
  shows "crc32 (data[i := b]) \<noteq> crc32 data"
proof
  assume e: "crc32 (data[i := b]) = crc32 data"
  let ?c = "foldl crc_step 0 (take i data)"
  have "crc_step ?c b = crc_step ?c (data ! i)"
    using e assms(1) id_take_nth_drop[OF assms(1)]
    by (metis (no_types, lifting) crc32_foldl foldl_append foldl_Cons upd_conv_take_nth_drop foldl_crc_inj)
  then show False using assms(2) crc_step_inj_byte by blast
qed

text \<open>
  The CRC of a buffer changes whenever one byte of it changes, so no single corrupted
  byte of a page or a block goes unnoticed by a reader that compares the stored CRC.
\<close>

theorem crc32_detects_byte:
  assumes "i < length data" and "b \<noteq> data ! i"
  shows "crc32 (data[i := b]) \<noteq> crc32 data"
  using assms by (rule crc32_update_neq)

theorem crc32_detects_byte_witness:
  "crc32 ([1, 2, 3 :: u8][1 := 9]) \<noteq> crc32 [1, 2, 3]"
  by (rule crc32_detects_byte) simp_all

text \<open>The self-check vector of the source: the CRC of the string \<open>123456789\<close>.\<close>

lemma crc32_check_vector:
  "crc32 [0x31, 0x32, 0x33, 0x34, 0x35, 0x36, 0x37, 0x38, 0x39] = 0x2DFD2D88"
  by (simp add: crc32_foldl crc_step_bitwise crc_bits8_def crc_bit_def)

end
