(* ===== verification/Encoding.thy ===== *)
theory Encoding
  imports Crc
begin

text \<open>
  Block encoding of \<open>src/encoding.cpp\<close>: the 768-byte array \<open>mpbbCrypt\<close> with its three sub-tables,
  the byte substitution \<open>encodePermute\<close>, the keyed cipher \<open>encodeCyclic\<close> and the dispatch
  \<open>encodeBlock\<close>.  The compile-time table checks of the source are proved here as lemmas; from
  them follow that the permutation can be undone with \<open>mpbbI\<close> and that the cyclic cipher is its
  own inverse.
\<close>

unbundle bit_operations_syntax

definition kMpbbCrypt :: "u8 list" where
  "kMpbbCrypt =
   [0x41, 0x36, 0x13, 0x62, 0xA8, 0x21, 0x6E, 0xBB, 0xF4, 0x16, 0xCC, 0x04, 0x7F, 0x64, 0xE8, 0x5D,
    0x1E, 0xF2, 0xCB, 0x2A, 0x74, 0xC5, 0x5E, 0x35, 0xD2, 0x95, 0x47, 0x9E, 0x96, 0x2D, 0x9A, 0x88,
    0x4C, 0x7D, 0x84, 0x3F, 0xDB, 0xAC, 0x31, 0xB6, 0x48, 0x5F, 0xF6, 0xC4, 0xD8, 0x39, 0x8B, 0xE7,
    0x23, 0x3B, 0x38, 0x8E, 0xC8, 0xC1, 0xDF, 0x25, 0xB1, 0x20, 0xA5, 0x46, 0x60, 0x4E, 0x9C, 0xFB,
    0xAA, 0xD3, 0x56, 0x51, 0x45, 0x7C, 0x55, 0x00, 0x07, 0xC9, 0x2B, 0x9D, 0x85, 0x9B, 0x09, 0xA0,
    0x8F, 0xAD, 0xB3, 0x0F, 0x63, 0xAB, 0x89, 0x4B, 0xD7, 0xA7, 0x15, 0x5A, 0x71, 0x66, 0x42, 0xBF,
    0x26, 0x4A, 0x6B, 0x98, 0xFA, 0xEA, 0x77, 0x53, 0xB2, 0x70, 0x05, 0x2C, 0xFD, 0x59, 0x3A, 0x86,
    0x7E, 0xCE, 0x06, 0xEB, 0x82, 0x78, 0x57, 0xC7, 0x8D, 0x43, 0xAF, 0xB4, 0x1C, 0xD4, 0x5B, 0xCD,
    0xE2, 0xE9, 0x27, 0x4F, 0xC3, 0x08, 0x72, 0x80, 0xCF, 0xB0, 0xEF, 0xF5, 0x28, 0x6D, 0xBE, 0x30,
    0x4D, 0x34, 0x92, 0xD5, 0x0E, 0x3C, 0x22, 0x32, 0xE5, 0xE4, 0xF9, 0x9F, 0xC2, 0xD1, 0x0A, 0x81,
    0x12, 0xE1, 0xEE, 0x91, 0x83, 0x76, 0xE3, 0x97, 0xE6, 0x61, 0x8A, 0x17, 0x79, 0xA4, 0xB7, 0xDC,
    0x90, 0x7A, 0x5C, 0x8C, 0x02, 0xA6, 0xCA, 0x69, 0xDE, 0x50, 0x1A, 0x11, 0x93, 0xB9, 0x52, 0x87,
    0x58, 0xFC, 0xED, 0x1D, 0x37, 0x49, 0x1B, 0x6A, 0xE0, 0x29, 0x33, 0x99, 0xBD, 0x6C, 0xD9, 0x94,
    0xF3, 0x40, 0x54, 0x6F, 0xF0, 0xC6, 0x73, 0xB8, 0xD6, 0x3E, 0x65, 0x18, 0x44, 0x1F, 0xDD, 0x67,
    0x10, 0xF1, 0x0C, 0x19, 0xEC, 0xAE, 0x03, 0xA1, 0x14, 0x7B, 0xA9, 0x0B, 0xFF, 0xF8, 0xA3, 0xC0,
    0xA2, 0x01, 0xF7, 0x2E, 0xBC, 0x24, 0x68, 0x75, 0x0D, 0xFE, 0xBA, 0x2F, 0xB5, 0xD0, 0xDA, 0x3D,
    0x14, 0x53, 0x0F, 0x56, 0xB3, 0xC8, 0x7A, 0x9C, 0xEB, 0x65, 0x48, 0x17, 0x16, 0x15, 0x9F, 0x02,
    0xCC, 0x54, 0x7C, 0x83, 0x00, 0x0D, 0x0C, 0x0B, 0xA2, 0x62, 0xA8, 0x76, 0xDB, 0xD9, 0xED, 0xC7,
    0xC5, 0xA4, 0xDC, 0xAC, 0x85, 0x74, 0xD6, 0xD0, 0xA7, 0x9B, 0xAE, 0x9A, 0x96, 0x71, 0x66, 0xC3,
    0x63, 0x99, 0xB8, 0xDD, 0x73, 0x92, 0x8E, 0x84, 0x7D, 0xA5, 0x5E, 0xD1, 0x5D, 0x93, 0xB1, 0x57,
    0x51, 0x50, 0x80, 0x89, 0x52, 0x94, 0x4F, 0x4E, 0x0A, 0x6B, 0xBC, 0x8D, 0x7F, 0x6E, 0x47, 0x46,
    0x41, 0x40, 0x44, 0x01, 0x11, 0xCB, 0x03, 0x3F, 0xF7, 0xF4, 0xE1, 0xA9, 0x8F, 0x3C, 0x3A, 0xF9,
    0xFB, 0xF0, 0x19, 0x30, 0x82, 0x09, 0x2E, 0xC9, 0x9D, 0xA0, 0x86, 0x49, 0xEE, 0x6F, 0x4D, 0x6D,
    0xC4, 0x2D, 0x81, 0x34, 0x25, 0x87, 0x1B, 0x88, 0xAA, 0xFC, 0x06, 0xA1, 0x12, 0x38, 0xFD, 0x4C,
    0x42, 0x72, 0x64, 0x13, 0x37, 0x24, 0x6A, 0x75, 0x77, 0x43, 0xFF, 0xE6, 0xB4, 0x4B, 0x36, 0x5C,
    0xE4, 0xD8, 0x35, 0x3D, 0x45, 0xB9, 0x2C, 0xEC, 0xB7, 0x31, 0x2B, 0x29, 0x07, 0x68, 0xA3, 0x0E,
    0x69, 0x7B, 0x18, 0x9E, 0x21, 0x39, 0xBE, 0x28, 0x1A, 0x5B, 0x78, 0xF5, 0x23, 0xCA, 0x2A, 0xB0,
    0xAF, 0x3E, 0xFE, 0x04, 0x8C, 0xE7, 0xE5, 0x98, 0x32, 0x95, 0xD3, 0xF6, 0x4A, 0xE8, 0xA6, 0xEA,
    0xE9, 0xF3, 0xD5, 0x2F, 0x70, 0x20, 0xF2, 0x1F, 0x05, 0x67, 0xAD, 0x55, 0x10, 0xCE, 0xCD, 0xE3,
    0x27, 0x3B, 0xDA, 0xBA, 0xD7, 0xC2, 0x26, 0xD4, 0x91, 0x1D, 0xD2, 0x1C, 0x22, 0x33, 0xF8, 0xFA,
    0xF1, 0x5A, 0xEF, 0xCF, 0x90, 0xB6, 0x8B, 0xB5, 0xBD, 0xC0, 0xBF, 0x08, 0x97, 0x1E, 0x6C, 0xE2,
    0x61, 0xE0, 0xC6, 0xC1, 0x59, 0xAB, 0xBB, 0x58, 0xDE, 0x5F, 0xDF, 0x60, 0x79, 0x7E, 0xB2, 0x8A,
    0x47, 0xF1, 0xB4, 0xE6, 0x0B, 0x6A, 0x72, 0x48, 0x85, 0x4E, 0x9E, 0xEB, 0xE2, 0xF8, 0x94, 0x53,
    0xE0, 0xBB, 0xA0, 0x02, 0xE8, 0x5A, 0x09, 0xAB, 0xDB, 0xE3, 0xBA, 0xC6, 0x7C, 0xC3, 0x10, 0xDD,
    0x39, 0x05, 0x96, 0x30, 0xF5, 0x37, 0x60, 0x82, 0x8C, 0xC9, 0x13, 0x4A, 0x6B, 0x1D, 0xF3, 0xFB,
    0x8F, 0x26, 0x97, 0xCA, 0x91, 0x17, 0x01, 0xC4, 0x32, 0x2D, 0x6E, 0x31, 0x95, 0xFF, 0xD9, 0x23,
    0xD1, 0x00, 0x5E, 0x79, 0xDC, 0x44, 0x3B, 0x1A, 0x28, 0xC5, 0x61, 0x57, 0x20, 0x90, 0x3D, 0x83,
    0xB9, 0x43, 0xBE, 0x67, 0xD2, 0x46, 0x42, 0x76, 0xC0, 0x6D, 0x5B, 0x7E, 0xB2, 0x0F, 0x16, 0x29,
    0x3C, 0xA9, 0x03, 0x54, 0x0D, 0xDA, 0x5D, 0xDF, 0xF6, 0xB7, 0xC7, 0x62, 0xCD, 0x8D, 0x06, 0xD3,
    0x69, 0x5C, 0x86, 0xD6, 0x14, 0xF7, 0xA5, 0x66, 0x75, 0xAC, 0xB1, 0xE9, 0x45, 0x21, 0x70, 0x0C,
    0x87, 0x9F, 0x74, 0xA4, 0x22, 0x4C, 0x6F, 0xBF, 0x1F, 0x56, 0xAA, 0x2E, 0xB3, 0x78, 0x33, 0x50,
    0xB0, 0xA3, 0x92, 0xBC, 0xCF, 0x19, 0x1C, 0xA7, 0x63, 0xCB, 0x1E, 0x4D, 0x3E, 0x4B, 0x1B, 0x9B,
    0x4F, 0xE7, 0xF0, 0xEE, 0xAD, 0x3A, 0xB5, 0x59, 0x04, 0xEA, 0x40, 0x55, 0x25, 0x51, 0xE5, 0x7A,
    0x89, 0x38, 0x68, 0x52, 0x7B, 0xFC, 0x27, 0xAE, 0xD7, 0xBD, 0xFA, 0x07, 0xF4, 0xCC, 0x8E, 0x5F,
    0xEF, 0x35, 0x9C, 0x84, 0x2B, 0x15, 0xD5, 0x77, 0x34, 0x49, 0xB6, 0x12, 0x0A, 0x7F, 0x71, 0x88,
    0xFD, 0x9D, 0x18, 0x41, 0x7D, 0x93, 0xD8, 0x58, 0x2C, 0xCE, 0xFE, 0x24, 0xAF, 0xDE, 0xB8, 0x36,
    0xC8, 0xA1, 0x80, 0xA6, 0x99, 0x98, 0xA8, 0x2F, 0x0E, 0x81, 0x65, 0x73, 0xE4, 0xC2, 0xA2, 0x8A,
    0xD4, 0xE1, 0x11, 0xD0, 0x08, 0x8B, 0x2A, 0xF2, 0xED, 0x9A, 0x64, 0x3F, 0xC1, 0x6C, 0xF9, 0xEC]"

definition kMpbbR :: "u8 \<Rightarrow> u8" where
  "kMpbbR b = kMpbbCrypt ! (0 + unat b)"

definition kMpbbS :: "u8 \<Rightarrow> u8" where
  "kMpbbS b = kMpbbCrypt ! (256 + unat b)"

definition kMpbbI :: "u8 \<Rightarrow> u8" where
  "kMpbbI b = kMpbbCrypt ! (512 + unat b)"

section \<open>Table checks\<close>

text \<open>
  The three compile-time predicates of the source, on a table given as a list; \<open>isPermLoop\<close> is
  the loop of \<open>isPermutation\<close> with its array \<open>seen\<close>.
\<close>

primrec isPermLoop :: "u8 list \<Rightarrow> bool list \<Rightarrow> nat list \<Rightarrow> bool" where
  "isPermLoop t seen [] = True"
| "isPermLoop t seen (i # is) =
     (if seen ! unat (t ! i) then False else isPermLoop t (seen[unat (t ! i) := True]) is)"

definition isPermutation :: "u8 list \<Rightarrow> bool" where
  "isPermutation t = isPermLoop t (replicate 256 False) [0..<256]"

definition isInverseOf :: "u8 list \<Rightarrow> u8 list \<Rightarrow> bool" where
  "isInverseOf a b = list_all (\<lambda>i. b ! unat (a ! i) = word_of_nat i) [0..<256]"

definition isInvolution :: "u8 list \<Rightarrow> bool" where
  "isInvolution t = list_all (\<lambda>i. t ! unat (t ! i) = word_of_nat i) [0..<256]"

text \<open>The sub-tables as numbers, on which the checks are evaluated.\<close>

definition tblR :: "nat list" where
  "tblR =
   [65, 54, 19, 98, 168, 33, 110, 187, 244, 22, 204, 4, 127, 100, 232, 93,
    30, 242, 203, 42, 116, 197, 94, 53, 210, 149, 71, 158, 150, 45, 154, 136,
    76, 125, 132, 63, 219, 172, 49, 182, 72, 95, 246, 196, 216, 57, 139, 231,
    35, 59, 56, 142, 200, 193, 223, 37, 177, 32, 165, 70, 96, 78, 156, 251,
    170, 211, 86, 81, 69, 124, 85, 0, 7, 201, 43, 157, 133, 155, 9, 160,
    143, 173, 179, 15, 99, 171, 137, 75, 215, 167, 21, 90, 113, 102, 66, 191,
    38, 74, 107, 152, 250, 234, 119, 83, 178, 112, 5, 44, 253, 89, 58, 134,
    126, 206, 6, 235, 130, 120, 87, 199, 141, 67, 175, 180, 28, 212, 91, 205,
    226, 233, 39, 79, 195, 8, 114, 128, 207, 176, 239, 245, 40, 109, 190, 48,
    77, 52, 146, 213, 14, 60, 34, 50, 229, 228, 249, 159, 194, 209, 10, 129,
    18, 225, 238, 145, 131, 118, 227, 151, 230, 97, 138, 23, 121, 164, 183, 220,
    144, 122, 92, 140, 2, 166, 202, 105, 222, 80, 26, 17, 147, 185, 82, 135,
    88, 252, 237, 29, 55, 73, 27, 106, 224, 41, 51, 153, 189, 108, 217, 148,
    243, 64, 84, 111, 240, 198, 115, 184, 214, 62, 101, 24, 68, 31, 221, 103,
    16, 241, 12, 25, 236, 174, 3, 161, 20, 123, 169, 11, 255, 248, 163, 192,
    162, 1, 247, 46, 188, 36, 104, 117, 13, 254, 186, 47, 181, 208, 218, 61]"

definition tblS :: "nat list" where
  "tblS =
   [20, 83, 15, 86, 179, 200, 122, 156, 235, 101, 72, 23, 22, 21, 159, 2,
    204, 84, 124, 131, 0, 13, 12, 11, 162, 98, 168, 118, 219, 217, 237, 199,
    197, 164, 220, 172, 133, 116, 214, 208, 167, 155, 174, 154, 150, 113, 102, 195,
    99, 153, 184, 221, 115, 146, 142, 132, 125, 165, 94, 209, 93, 147, 177, 87,
    81, 80, 128, 137, 82, 148, 79, 78, 10, 107, 188, 141, 127, 110, 71, 70,
    65, 64, 68, 1, 17, 203, 3, 63, 247, 244, 225, 169, 143, 60, 58, 249,
    251, 240, 25, 48, 130, 9, 46, 201, 157, 160, 134, 73, 238, 111, 77, 109,
    196, 45, 129, 52, 37, 135, 27, 136, 170, 252, 6, 161, 18, 56, 253, 76,
    66, 114, 100, 19, 55, 36, 106, 117, 119, 67, 255, 230, 180, 75, 54, 92,
    228, 216, 53, 61, 69, 185, 44, 236, 183, 49, 43, 41, 7, 104, 163, 14,
    105, 123, 24, 158, 33, 57, 190, 40, 26, 91, 120, 245, 35, 202, 42, 176,
    175, 62, 254, 4, 140, 231, 229, 152, 50, 149, 211, 246, 74, 232, 166, 234,
    233, 243, 213, 47, 112, 32, 242, 31, 5, 103, 173, 85, 16, 206, 205, 227,
    39, 59, 218, 186, 215, 194, 38, 212, 145, 29, 210, 28, 34, 51, 248, 250,
    241, 90, 239, 207, 144, 182, 139, 181, 189, 192, 191, 8, 151, 30, 108, 226,
    97, 224, 198, 193, 89, 171, 187, 88, 222, 95, 223, 96, 121, 126, 178, 138]"

definition tblI :: "nat list" where
  "tblI =
   [71, 241, 180, 230, 11, 106, 114, 72, 133, 78, 158, 235, 226, 248, 148, 83,
    224, 187, 160, 2, 232, 90, 9, 171, 219, 227, 186, 198, 124, 195, 16, 221,
    57, 5, 150, 48, 245, 55, 96, 130, 140, 201, 19, 74, 107, 29, 243, 251,
    143, 38, 151, 202, 145, 23, 1, 196, 50, 45, 110, 49, 149, 255, 217, 35,
    209, 0, 94, 121, 220, 68, 59, 26, 40, 197, 97, 87, 32, 144, 61, 131,
    185, 67, 190, 103, 210, 70, 66, 118, 192, 109, 91, 126, 178, 15, 22, 41,
    60, 169, 3, 84, 13, 218, 93, 223, 246, 183, 199, 98, 205, 141, 6, 211,
    105, 92, 134, 214, 20, 247, 165, 102, 117, 172, 177, 233, 69, 33, 112, 12,
    135, 159, 116, 164, 34, 76, 111, 191, 31, 86, 170, 46, 179, 120, 51, 80,
    176, 163, 146, 188, 207, 25, 28, 167, 99, 203, 30, 77, 62, 75, 27, 155,
    79, 231, 240, 238, 173, 58, 181, 89, 4, 234, 64, 85, 37, 81, 229, 122,
    137, 56, 104, 82, 123, 252, 39, 174, 215, 189, 250, 7, 244, 204, 142, 95,
    239, 53, 156, 132, 43, 21, 213, 119, 52, 73, 182, 18, 10, 127, 113, 136,
    253, 157, 24, 65, 125, 147, 216, 88, 44, 206, 254, 36, 175, 222, 184, 54,
    200, 161, 128, 166, 153, 152, 168, 47, 14, 129, 101, 115, 228, 194, 162, 138,
    212, 225, 17, 208, 8, 139, 42, 242, 237, 154, 100, 63, 193, 108, 249, 236]"

lemma length_tbl [simp]: "length tblR = 256" "length tblS = 256" "length tblI = 256"
  by (simp_all add: tblR_def tblS_def tblI_def)

lemma kMpbbCrypt_tbl: "map unat kMpbbCrypt = tblR @ tblS @ tblI"
  unfolding kMpbbCrypt_def tblR_def tblS_def tblI_def by simp

lemma tbl_inverse: "map ((!) tblI) tblR = [0..<256]"
  by code_simp

lemma tbl_involution: "map ((!) tblS) tblS = [0..<256]"
  by code_simp

lemma length_kMpbbCrypt [simp]: "length kMpbbCrypt = 768"
proof -
  have "length (map unat kMpbbCrypt) = 768" by (simp add: kMpbbCrypt_tbl)
  then show ?thesis by simp
qed

lemma unat_u8_lt [simp]: "unat (b :: u8) < 256"
  using unsigned_less [of b] by simp

lemma unat_kMpbb:
  "unat (kMpbbR b) = tblR ! unat b"
  "unat (kMpbbS b) = tblS ! unat b"
  "unat (kMpbbI b) = tblI ! unat b"
proof -
  have n: "unat (kMpbbCrypt ! k) = (tblR @ tblS @ tblI) ! k" if "k < 768" for k
    using that nth_map [of k kMpbbCrypt unat] by (simp add: kMpbbCrypt_tbl)
  have k: "unat b < 256" and k': "unat b < 768" "unat b < 512" using unat_u8_lt [of b] by linarith+
  show "unat (kMpbbR b) = tblR ! unat b"
    using k n [OF k'(1)] by (simp add: kMpbbR_def nth_append)
  show "unat (kMpbbS b) = tblS ! unat b"
    using k k' n [of "256 + unat b"] by (simp add: kMpbbS_def nth_append)
  show "unat (kMpbbI b) = tblI ! unat b"
    using k n [of "512 + unat b"] by (simp add: kMpbbI_def nth_append)
qed

lemma tbl_round:
  assumes "map ((!) t) s = [0..<256]" and "length s = 256" and "k < 256"
  shows "t ! (s ! k) = k"
proof -
  have "t ! (s ! k) = map ((!) t) s ! k" using assms(2,3) by simp
  then show ?thesis using assms(1,3) by simp
qed

lemma kMpbbI_R [simp]: "kMpbbI (kMpbbR b) = b"
  by (rule word_unat_eq_iff [THEN iffD2]) (simp add: unat_kMpbb tbl_round [OF tbl_inverse])

lemma kMpbbR_I [simp]: "kMpbbR (kMpbbI b) = b"
proof -
  have "inj kMpbbR" by (rule inj_on_inverseI [of _ kMpbbI]) simp
  then obtain a where "b = kMpbbR a" using finite_UNIV_inj_surj [of kMpbbR] by auto
  then show ?thesis by simp
qed

lemma kMpbbS_S [simp]: "kMpbbS (kMpbbS b) = b"
  by (rule word_unat_eq_iff [THEN iffD2]) (simp add: unat_kMpbb tbl_round [OF tbl_involution])

section \<open>The ciphers\<close>

text \<open>
  All three work in place on the first \<open>length\<close> bytes of the buffer and leave the rest alone.
\<close>

definition encodePermute :: "bytes \<Rightarrow> nat \<Rightarrow> bytes" where
  "encodePermute data n = map kMpbbR (take n data) @ drop n data"

definition cyclic_byte :: "u16 \<Rightarrow> u8 \<Rightarrow> u8" where
  "cyclic_byte w b =
     (let lower = ucast (w AND 0xFF); upper = ucast (drop_bit 8 w);
          b = b + lower; b = kMpbbR b; b = b + upper; b = kMpbbS b;
          b = b - upper; b = kMpbbI b; b = b - lower
      in b)"

primrec cyclic_loop :: "u16 \<Rightarrow> bytes \<Rightarrow> bytes" where
  "cyclic_loop w [] = []"
| "cyclic_loop w (d # ds) = cyclic_byte w d # cyclic_loop (w + 1) ds"

definition encodeCyclic :: "bytes \<Rightarrow> nat \<Rightarrow> u32 \<Rightarrow> bytes" where
  "encodeCyclic data n key =
     cyclic_loop (ucast (key XOR drop_bit 16 key)) (take n data) @ drop n data"

definition encodeBlock :: "bytes \<Rightarrow> nat \<Rightarrow> CryptMethod \<Rightarrow> u32 \<Rightarrow> bytes" where
  "encodeBlock data n m key =
     (case m of
        CryptNone \<Rightarrow> data
      | CryptPermute \<Rightarrow> encodePermute data n
      | CryptCyclic \<Rightarrow> encodeCyclic data n key)"

text \<open>
  The reader's direction: the inverse substitution \<open>mpbbI\<close>, and the cyclic cipher itself.
\<close>

definition decodeBlock :: "bytes \<Rightarrow> nat \<Rightarrow> CryptMethod \<Rightarrow> u32 \<Rightarrow> bytes" where
  "decodeBlock data n m key =
     (case m of
        CryptNone \<Rightarrow> data
      | CryptPermute \<Rightarrow> map kMpbbI (take n data) @ drop n data
      | CryptCyclic \<Rightarrow> encodeCyclic data n key)"

section \<open>Properties\<close>

lemma cyclic_byte_twice [simp]: "cyclic_byte w (cyclic_byte w b) = b"
  by (simp add: cyclic_byte_def Let_def)

lemma cyclic_loop_twice [simp]: "cyclic_loop w (cyclic_loop w ds) = ds"
  by (induction ds arbitrary: w) simp_all

lemma length_cyclic_loop [simp]: "length (cyclic_loop w ds) = length ds"
  by (induction ds arbitrary: w) simp_all

lemma length_encodeBlock [simp]: "length (encodeBlock data n m key) = length data"
  by (cases "n \<le> length data")
     (simp_all add: encodeBlock_def encodePermute_def encodeCyclic_def split: CryptMethod.split)

lemma drop_encodeBlock: "drop n (encodeBlock data n m key) = drop n data"
  by (cases "n \<le> length data")
     (simp_all add: encodeBlock_def encodePermute_def encodeCyclic_def split: CryptMethod.split)

lemma encodeCyclic_twice: "encodeCyclic (encodeCyclic data n key) n key = data"
  by (cases "n \<le> length data") (simp_all add: encodeCyclic_def)

lemma decode_encodeBlock: "decodeBlock (encodeBlock data n m key) n m key = data"
  by (cases "n \<le> length data"; cases m)
     (simp_all add: decodeBlock_def encodeBlock_def encodeCyclic_twice encodePermute_def
        comp_def)

lemma isPermLoop_distinct:
  assumes "\<And>i. i \<in> set is \<Longrightarrow> seen ! unat (t ! i) \<longleftrightarrow> unat (t ! i) \<in> S" and "length seen = 256"
  shows "isPermLoop t seen is \<longleftrightarrow>
    distinct (map (\<lambda>i. t ! i) is) \<and> (\<forall>i \<in> set is. unat (t ! i) \<notin> S)"
  using assms
proof (induction "is" arbitrary: seen S)
  case Nil
  then show ?case by simp
next
  case (Cons i "is")
  let ?k = "unat (t ! i)"
  have s: "seen ! ?k \<longleftrightarrow> ?k \<in> S" using Cons.prems(1) by simp
  have IH: "isPermLoop t (seen[?k := True]) is \<longleftrightarrow>
      distinct (map (\<lambda>i. t ! i) is) \<and> (\<forall>j \<in> set is. unat (t ! j) \<notin> insert ?k S)"
    using Cons.prems by (intro Cons.IH) (auto simp: nth_list_update)
  show ?case
    using s IH by (auto simp: image_iff simp flip: word_unat_eq_iff) (metis+)?
qed

lemma isPermutation_distinct:
  "isPermutation t \<longleftrightarrow> distinct (map (\<lambda>i. t ! i) [0..<256])"
  unfolding isPermutation_def
  by (subst isPermLoop_distinct [where S = "{}"]) simp_all

text \<open>A table that tabulates a function with a left inverse passes the checks.\<close>

lemma isPermutation_tabulate:
  fixes f g :: "u8 \<Rightarrow> u8"
  assumes t: "\<And>i. i < 256 \<Longrightarrow> t ! i = f (word_of_nat i)" and g: "\<And>b. g (f b) = b"
  shows "isPermutation t"
proof -
  have "inj_on (\<lambda>i. t ! i) {0..<256}"
  proof (rule inj_onI)
    fix i j :: nat
    assume ij: "i \<in> {0..<256}" "j \<in> {0..<256}" and e: "t ! i = t ! j"
    then have "f (word_of_nat i) = f (word_of_nat j)" by (simp add: t)
    then have "(word_of_nat i :: u8) = word_of_nat j" using g by metis
    then have "unat (word_of_nat i :: u8) = unat (word_of_nat j :: u8)" by simp
    then show "i = j" using ij by (simp add: unat_of_nat)
  qed
  then show ?thesis by (simp add: isPermutation_distinct distinct_map)
qed

lemma isInverseOf_tabulate:
  fixes f g :: "u8 \<Rightarrow> u8"
  assumes "\<And>i. i < 256 \<Longrightarrow> a ! i = f (word_of_nat i)" and "\<And>i. i < 256 \<Longrightarrow> b ! i = g (word_of_nat i)"
    and "\<And>x. g (f x) = x"
  shows "isInverseOf a b"
  using assms by (simp add: isInverseOf_def list_all_iff)

lemma isInvolution_inverse: "isInvolution t \<longleftrightarrow> isInverseOf t t"
  by (simp add: isInvolution_def isInverseOf_def)

text \<open>
  What the block layer relies on: a cipher that keeps the length and can be undone.
\<close>

locale block_cipher =
  fixes enc dec :: "bytes \<Rightarrow> bytes"
  assumes dec_enc: "dec (enc d) = d" and enc_length: "length (enc d) = length d"
begin

lemma enc_inj: "enc d = enc d' \<longleftrightarrow> d = d'"
  by (metis dec_enc)

lemma dec_prefix: "dec (take (length d) (enc d @ rest)) = d"
  by (simp add: dec_enc enc_length)

end

interpretation cipher: block_cipher "\<lambda>d. encodeBlock d (length d) m key" "\<lambda>d. decodeBlock d (length d) m key"
  for m key
  by unfold_locales (simp_all add: decode_encodeBlock)

text \<open>
  C14: encoding a block can be undone.  For every method, key, buffer and length, the reader's
  direction applied to the encoded buffer gives the plaintext back, and the encoding changes
  neither the length nor the bytes past the encoded prefix.
\<close>

theorem encodeBlock_roundtrip:
  "decodeBlock (encodeBlock data n m key) n m key = data
   \<and> length (encodeBlock data n m key) = length data
   \<and> drop n (encodeBlock data n m key) = drop n data"
  by (simp add: decode_encodeBlock drop_encodeBlock)

text \<open>
  The table checks that the source makes at compile time hold: the three sub-tables are
  permutations of the 256 bytes, \<open>mpbbI\<close> is the inverse of \<open>mpbbR\<close>, and \<open>mpbbS\<close> is its own
  inverse, which is what makes the cyclic cipher symmetric.
\<close>

theorem mpbb_table_checks:
  "isPermutation (take 256 kMpbbCrypt)
   \<and> isPermutation (take 256 (drop 256 kMpbbCrypt))
   \<and> isPermutation (drop 512 kMpbbCrypt)
   \<and> isInverseOf (take 256 kMpbbCrypt) (drop 512 kMpbbCrypt)
   \<and> isInvolution (take 256 (drop 256 kMpbbCrypt))
   \<and> encodeCyclic (encodeCyclic data n key) n key = data"
proof -
  have R: "take 256 kMpbbCrypt ! i = kMpbbR (word_of_nat i)" if "i < 256" for i
    using that by (simp add: kMpbbR_def unat_of_nat)
  have S: "take 256 (drop 256 kMpbbCrypt) ! i = kMpbbS (word_of_nat i)" if "i < 256" for i
    using that by (simp add: kMpbbS_def unat_of_nat)
  have I: "drop 512 kMpbbCrypt ! i = kMpbbI (word_of_nat i)" if "i < 256" for i
    using that by (simp add: kMpbbI_def unat_of_nat)
  show ?thesis
    using isPermutation_tabulate [OF R kMpbbI_R] isPermutation_tabulate [OF S kMpbbS_S]
      isPermutation_tabulate [OF I kMpbbR_I] isInverseOf_tabulate [OF R I kMpbbI_R]
      isInverseOf_tabulate [OF S S kMpbbS_S] encodeCyclic_twice
    by (simp add: isInvolution_inverse)
qed

end
