(* ===== verification/Ndb.thy ===== *)
theory Ndb
  imports Encoding
begin

text \<open>
  The NDB layer of \<open>ndb.hpp\<close> and \<open>ndb.cpp\<close>: the signature of pages and blocks, the page and
  block trailers, the ROOT record and the writer state, the fresh \<open>rgnid\<close> array, and the
  serialization of the 564-byte HEADER with its two CRCs.
\<close>

unbundle bit_operations_syntax

section \<open>Constants\<close>

definition ptype_kBBT :: u8 where
  "ptype_kBBT = 0x80"

definition ptype_kNBT :: u8 where
  "ptype_kNBT = 0x81"

definition ptype_kAMap :: u8 where
  "ptype_kAMap = 0x84"

definition ptype_kDList :: u8 where
  "ptype_kDList = 0x86"

lemmas ptype_defs = ptype_kBBT_def ptype_kNBT_def ptype_kAMap_def ptype_kDList_def

definition kPageTrailerOffset :: nat where
  [layout_simps]: "kPageTrailerOffset = 496"

definition kPageBodySize :: nat where
  [layout_simps]: "kPageBodySize = 496"

definition kPageTrailerSize :: nat where
  [layout_simps]: "kPageTrailerSize = 16"

definition kBlockTrailerSize :: nat where
  [layout_simps]: "kBlockTrailerSize = 16"

definition kAMapBitmapBytes :: nat where
  [layout_simps]: "kAMapBitmapBytes = 496"

definition kBytesPerAMapBit :: nat where
  [layout_simps]: "kBytesPerAMapBit = 64"

definition kAMapCoverage :: nat where
  [layout_simps]: "kAMapCoverage = kAMapBitmapBytes * 8 * kBytesPerAMapBit"

definition kBtPageEntriesArea :: nat where
  [layout_simps]: "kBtPageEntriesArea = 488"

definition kBtPagePadBytes :: nat where
  [layout_simps]: "kBtPagePadBytes = 4"

definition kNbtLeafEntrySize :: nat where
  [layout_simps]: "kNbtLeafEntrySize = 32"

definition kBbtLeafEntrySize :: nat where
  [layout_simps]: "kBbtLeafEntrySize = 24"

definition kBtPageCEnt :: nat where
  [layout_simps]: "kBtPageCEnt = 488"

definition kBtPageCEntMax :: nat where
  [layout_simps]: "kBtPageCEntMax = 489"

definition kBtPageCbEnt :: nat where
  [layout_simps]: "kBtPageCbEnt = 490"

definition kBtPageCLevel :: nat where
  [layout_simps]: "kBtPageCLevel = 491"

definition kBtPageDwPad :: nat where
  [layout_simps]: "kBtPageDwPad = 492"

text \<open>The offsets of the HEADER fields (namespace \<open>hdr\<close>).\<close>

definition hdr_kMagic :: nat where
  [layout_simps]: "hdr_kMagic = 0x000"

definition hdr_kCrcPartial :: nat where
  [layout_simps]: "hdr_kCrcPartial = 0x004"

definition hdr_kMagicClient :: nat where
  [layout_simps]: "hdr_kMagicClient = 0x008"

definition hdr_kVer :: nat where
  [layout_simps]: "hdr_kVer = 0x00A"

definition hdr_kVerClient :: nat where
  [layout_simps]: "hdr_kVerClient = 0x00C"

definition hdr_kPlatformCreate :: nat where
  [layout_simps]: "hdr_kPlatformCreate = 0x00E"

definition hdr_kPlatformAccess :: nat where
  [layout_simps]: "hdr_kPlatformAccess = 0x00F"

definition hdr_kReserved1 :: nat where
  [layout_simps]: "hdr_kReserved1 = 0x010"

definition hdr_kReserved2 :: nat where
  [layout_simps]: "hdr_kReserved2 = 0x014"

definition hdr_kBidUnused :: nat where
  [layout_simps]: "hdr_kBidUnused = 0x018"

definition hdr_kBidNextP :: nat where
  [layout_simps]: "hdr_kBidNextP = 0x020"

definition hdr_kDwUnique :: nat where
  [layout_simps]: "hdr_kDwUnique = 0x028"

definition hdr_kRgnid :: nat where
  [layout_simps]: "hdr_kRgnid = 0x02C"

definition hdr_kQwUnused :: nat where
  [layout_simps]: "hdr_kQwUnused = 0x0AC"

definition hdr_kRootBegin :: nat where
  [layout_simps]: "hdr_kRootBegin = 0x0B4"

definition hdr_kRootDwReserved :: nat where
  [layout_simps]: "hdr_kRootDwReserved = 0x0B4"

definition hdr_kIbFileEof :: nat where
  [layout_simps]: "hdr_kIbFileEof = 0x0B8"

definition hdr_kIbAMapLast :: nat where
  [layout_simps]: "hdr_kIbAMapLast = 0x0C0"

definition hdr_kCbAMapFree :: nat where
  [layout_simps]: "hdr_kCbAMapFree = 0x0C8"

definition hdr_kCbPMapFree :: nat where
  [layout_simps]: "hdr_kCbPMapFree = 0x0D0"

definition hdr_kBrefNbtBid :: nat where
  [layout_simps]: "hdr_kBrefNbtBid = 0x0D8"

definition hdr_kBrefNbtIb :: nat where
  [layout_simps]: "hdr_kBrefNbtIb = 0x0E0"

definition hdr_kBrefBbtBid :: nat where
  [layout_simps]: "hdr_kBrefBbtBid = 0x0E8"

definition hdr_kBrefBbtIb :: nat where
  [layout_simps]: "hdr_kBrefBbtIb = 0x0F0"

definition hdr_kFAMapValid :: nat where
  [layout_simps]: "hdr_kFAMapValid = 0x0F8"

definition hdr_kRootBReserved :: nat where
  [layout_simps]: "hdr_kRootBReserved = 0x0F9"

definition hdr_kRootWReserved :: nat where
  [layout_simps]: "hdr_kRootWReserved = 0x0FA"

definition hdr_kRootEnd :: nat where
  [layout_simps]: "hdr_kRootEnd = 0x0FC"

definition hdr_kDwAlign :: nat where
  [layout_simps]: "hdr_kDwAlign = 0x0FC"

definition hdr_kRgbFM :: nat where
  [layout_simps]: "hdr_kRgbFM = 0x100"

definition hdr_kRgbFP :: nat where
  [layout_simps]: "hdr_kRgbFP = 0x180"

definition hdr_kBSentinel :: nat where
  [layout_simps]: "hdr_kBSentinel = 0x200"

definition hdr_kBCryptMethod :: nat where
  [layout_simps]: "hdr_kBCryptMethod = 0x201"

definition hdr_kRgbReserved :: nat where
  [layout_simps]: "hdr_kRgbReserved = 0x202"

definition hdr_kBidNextB :: nat where
  [layout_simps]: "hdr_kBidNextB = 0x204"

definition hdr_kCrcFull :: nat where
  [layout_simps]: "hdr_kCrcFull = 0x20C"

definition hdr_kRgbReserved2 :: nat where
  [layout_simps]: "hdr_kRgbReserved2 = 0x210"

definition hdr_kBReserved :: nat where
  [layout_simps]: "hdr_kBReserved = 0x213"

definition hdr_kRgbReserved3 :: nat where
  [layout_simps]: "hdr_kRgbReserved3 = 0x214"

definition hdr_kHeaderEnd :: nat where
  [layout_simps]: "hdr_kHeaderEnd = 0x234"

section \<open>Signatures and trailers\<close>

definition computeBlockSig :: "Bid \<Rightarrow> Ib \<Rightarrow> u16" where
  "computeBlockSig bid ib =
     (let mix = ucast ((ib_value ib XOR bid_value bid) AND 0xFFFFFFFF) :: u32
      in ucast (drop_bit 16 mix XOR (mix AND 0xFFFF)))"

definition pageSig :: "u8 \<Rightarrow> Bid \<Rightarrow> Ib \<Rightarrow> u16" where
  "pageSig pt bid ib =
     (if pt = ptype_kNBT \<or> pt = ptype_kBBT \<or> pt = ptype_kDList then computeBlockSig bid ib else 0)"

definition writePageTrailer :: "bytes \<Rightarrow> u8 \<Rightarrow> Bid \<Rightarrow> Ib \<Rightarrow> bytes" where
  "writePageTrailer page pt bid ib =
     (let off = kPageTrailerOffset;
          page = writeU8 page (off + 0) pt;
          page = writeU8 page (off + 1) pt;
          wSig = pageSig pt bid ib;
          page = writeU16 page (off + 2) wSig;
          dwCRC = crc32 (take kPageBodySize page);
          page = writeU32 page (off + 4) dwCRC
      in writeU64 page (off + 8) (bid_value bid))"

definition appendBlockTrailer :: "bytes \<Rightarrow> u16 \<Rightarrow> Bid \<Rightarrow> Ib \<Rightarrow> bytes" where
  "appendBlockTrailer bs cbPlaintext bid ib =
     (let dwCRC = crc32 bs;
          base = length bs;
          bs = bs @ zeros kBlockTrailerSize;
          bs = writeU16 bs (base + 0) cbPlaintext;
          bs = writeU16 bs (base + 2) (computeBlockSig bid ib);
          bs = writeU32 bs (base + 4) dwCRC
      in writeU64 bs (base + 8) (bid_value bid))"

section \<open>Writer state\<close>

record Root =
  root_ibFileEof :: Ib
  root_ibAMapLast :: Ib
  root_cbAMapFree :: u64
  root_cbPMapFree :: u64
  root_brefNbt :: Bref
  root_brefBbt :: Bref
  root_fAMapValid :: u8

definition kAMapValid2 :: u8 where
  "kAMapValid2 = 2"

record WriterState =
  ws_root :: Root
  ws_bidNextP :: Bid
  ws_bidNextB :: Bid
  ws_dwUnique :: u32
  ws_rgnid :: "u32 list"
  ws_dwReserved1 :: u32
  ws_dwReserved2 :: u32
  ws_bidUnused :: u64

text \<open>The member initializers of the two structs.\<close>

definition defaultRoot :: Root where
  "defaultRoot =
     \<lparr>root_ibFileEof = Ib 0, root_ibAMapLast = Ib 0, root_cbAMapFree = 0, root_cbPMapFree = 0,
      root_brefNbt = mkBref (Bid 0) (Ib 0), root_brefBbt = mkBref (Bid 0) (Ib 0),
      root_fAMapValid = 0\<rparr>"

definition defaultWriterState :: WriterState where
  "defaultWriterState =
     \<lparr>ws_root = defaultRoot, ws_bidNextP = Bid 0xFFFFFFFF, ws_bidNextB = Bid 4, ws_dwUnique = 1,
      ws_rgnid = replicate 32 0, ws_dwReserved1 = 0, ws_dwReserved2 = 0, ws_bidUnused = 0\<rparr>"

definition freshStartIdx :: "u32 \<Rightarrow> u32" where
  "freshStartIdx nidType =
     (if nidType = 0x03 then 0x4000
      else if nidType = 0x04 then 0x10000
      else if nidType = 0x08 then 0x8000
      else 0x400)"

definition populateFreshRgnid :: "WriterState \<Rightarrow> WriterState" where
  "populateFreshRgnid s =
     s\<lparr>ws_rgnid :=
         fold (\<lambda>t r. r[t := push_bit 5 (freshStartIdx (word_of_nat t)) OR (word_of_nat t AND 0x1F)])
           [0..<32] (ws_rgnid s)\<rparr>"

lemma length_fold_update: "length (fold (\<lambda>t r. r[t := f t]) ts r) = length r"
  by (induction ts arbitrary: r) simp_all

lemma length_freshRgnid: "length (ws_rgnid (populateFreshRgnid defaultWriterState)) = 32"
  by (simp add: populateFreshRgnid_def defaultWriterState_def length_fold_update)

section \<open>HEADER\<close>

text \<open>
  The body of \<open>serializeHeader\<close> in its two parts: the fields, then the CRCs over them.
\<close>

definition headerFields :: "WriterState \<Rightarrow> bytes" where
  "headerFields s =
     (let r = ws_root s;
          p = zeros kHeaderSize;
          \<comment> \<open>fixed preamble\<close>
          p = writeU32 p hdr_kMagic kMagicDword;
          p = writeU16 p hdr_kMagicClient kMagicClient;
          p = writeU16 p hdr_kVer kVerUnicode;
          p = writeU16 p hdr_kVerClient kVerClient;
          p = writeU8 p hdr_kPlatformCreate kPlatformCreate;
          p = writeU8 p hdr_kPlatformAccess kPlatformAccess;
          p = writeU32 p hdr_kReserved1 (ws_dwReserved1 s);
          p = writeU32 p hdr_kReserved2 (ws_dwReserved2 s);
          \<comment> \<open>bidUnused, bidNextP, dwUnique, rgnid, qwUnused\<close>
          p = writeU64 p hdr_kBidUnused (ws_bidUnused s);
          p = writeU64 p hdr_kBidNextP (bid_value (ws_bidNextP s));
          p = writeU32 p hdr_kDwUnique (ws_dwUnique s);
          p = fold (\<lambda>i p. writeU32 p (hdr_kRgnid + i * 4) (ws_rgnid s ! i)) [0..<32] p;
          p = writeU64 p hdr_kQwUnused 0;
          \<comment> \<open>ROOT\<close>
          p = writeU32 p hdr_kRootDwReserved 0;
          p = writeU64 p hdr_kIbFileEof (ib_value (root_ibFileEof r));
          p = writeU64 p hdr_kIbAMapLast (ib_value (root_ibAMapLast r));
          p = writeU64 p hdr_kCbAMapFree (root_cbAMapFree r);
          p = writeU64 p hdr_kCbPMapFree (root_cbPMapFree r);
          p = writeU64 p hdr_kBrefNbtBid (bid_value (bref_bid (root_brefNbt r)));
          p = writeU64 p hdr_kBrefNbtIb (ib_value (bref_ib (root_brefNbt r)));
          p = writeU64 p hdr_kBrefBbtBid (bid_value (bref_bid (root_brefBbt r)));
          p = writeU64 p hdr_kBrefBbtIb (ib_value (bref_ib (root_brefBbt r)));
          p = writeU8 p hdr_kFAMapValid (root_fAMapValid r);
          p = writeU8 p hdr_kRootBReserved 0;
          p = writeU16 p hdr_kRootWReserved 0;
          \<comment> \<open>dwAlign, rgbFM, rgbFP\<close>
          p = writeU32 p hdr_kDwAlign 0;
          p = store p hdr_kRgbFM (replicate 128 0xFF);
          p = store p hdr_kRgbFP (replicate 128 0xFF);
          \<comment> \<open>tail\<close>
          p = writeU8 p hdr_kBSentinel kSentinelByte;
          p = writeU8 p hdr_kBCryptMethod (cryptMethodVal CryptPermute);
          p = writeU16 p hdr_kRgbReserved 0;
          p = writeU64 p hdr_kBidNextB (bid_value (ws_bidNextB s));
          p = writeU16 p hdr_kRgbReserved2 0;
          p = writeU8 p (hdr_kRgbReserved2 + 2) 0
      in writeU8 p hdr_kBReserved 0)"

definition serializeHeader :: "WriterState \<Rightarrow> bytes" where
  "serializeHeader s =
     (let p = headerFields s;
          dwCRCPartial = crc32 (take kHdrCrcPartialLen (drop hdr_kMagicClient p));
          p = writeU32 p hdr_kCrcPartial dwCRCPartial;
          dwCRCFull = crc32 (take kHdrCrcFullLen (drop hdr_kMagicClient p))
      in writeU32 p hdr_kCrcFull dwCRCFull)"

section \<open>Page trailers\<close>

text \<open>The 16 bytes of a PAGETRAILER, and the pages that carry a correct one.\<close>

definition pageTrailer :: "u8 \<Rightarrow> Bid \<Rightarrow> Ib \<Rightarrow> u32 \<Rightarrow> bytes" where
  "pageTrailer pt bid ib crc = [pt, pt] @ le16 (pageSig pt bid ib) @ le32 crc @ le64 (bid_value bid)"

definition pageOk :: "u8 \<Rightarrow> Bid \<Rightarrow> Ib \<Rightarrow> bytes \<Rightarrow> bool" where
  "pageOk pt bid ib page \<longleftrightarrow>
     length page = 512 \<and> drop 496 page = pageTrailer pt bid ib (crc32 (take 496 page))"

lemma length_pageTrailer [simp]: "length (pageTrailer pt bid ib crc) = 16"
  by (simp add: pageTrailer_def)

lemma writePageTrailer_eq:
  assumes "length page = 512"
  shows "writePageTrailer page pt bid ib =
    take 496 page @ pageTrailer pt bid ib (crc32 (take 496 page))"
proof -
  have t: "take 496 (store page 496 bs) = take 496 page" for bs
    using assms by (simp add: store_def)
  have "writePageTrailer page pt bid ib = store page 496 (pageTrailer pt bid ib (crc32 (take 496 page)))"
    using assms
    by (simp add: writePageTrailer_def Let_def layout_simps write_defs store_adjacent t pageTrailer_def)
  then show ?thesis using assms by (simp add: store_def)
qed

lemma pageOk_writePageTrailer:
  "length page = 512 \<Longrightarrow> pageOk pt bid ib (writePageTrailer page pt bid ib)"
  by (simp add: writePageTrailer_eq pageOk_def)

lemma take_writePageTrailer [buf_simps]:
  "length page = 512 \<Longrightarrow> n \<le> 496 \<Longrightarrow> take n (writePageTrailer page pt bid ib) = take n page"
  by (simp add: writePageTrailer_eq min_def)

lemma slice_writePageTrailer [buf_simps]:
  "length page = 512 \<Longrightarrow> off + n \<le> 496 \<Longrightarrow>
    slice off n (writePageTrailer page pt bid ib) = slice off n page"
  by (simp add: writePageTrailer_eq slice_append_left slice_take)

lemma nth_writePageTrailer [buf_simps]:
  "length page = 512 \<Longrightarrow> i < 496 \<Longrightarrow> writePageTrailer page pt bid ib ! i = page ! i"
  by (simp add: writePageTrailer_eq nth_append)

lemma length_writePageTrailer [buf_simps]:
  "length page = 512 \<Longrightarrow> length (writePageTrailer page pt bid ib) = 512"
  by (simp add: writePageTrailer_eq)

text \<open>What a reader finds in the trailer of a valid page.\<close>

lemma pageOk_slices:
  assumes "pageOk pt bid ib page"
  shows "slice 496 1 page = [pt]" "slice 497 1 page = [pt]"
    "slice 498 2 page = le16 (pageSig pt bid ib)" "slice 500 4 page = le32 (crc32 (take 496 page))"
    "slice 504 8 page = le64 (bid_value bid)"
proof -
  let ?t = "pageTrailer pt bid ib (crc32 (take 496 page))"
  have sl: "slice (496 + k) n page = slice k n ?t" for k n
    using assms slice_drop [of k n 496 page] by (simp add: pageOk_def)
  show "slice 496 1 page = [pt]" "slice 497 1 page = [pt]"
    "slice 498 2 page = le16 (pageSig pt bid ib)" "slice 500 4 page = le32 (crc32 (take 496 page))"
    "slice 504 8 page = le64 (bid_value bid)"
    using sl [of 0 1] sl [of 1 1] sl [of 2 2] sl [of 4 4] sl [of 8 8]
    by (simp_all add: pageTrailer_def slice_def)
qed

lemma pageOk_reads:
  assumes "pageOk pt bid ib page"
  shows "page ! 496 = pt" "page ! 497 = pt" "readU16 page 498 = pageSig pt bid ib"
    "readU32 page 500 = crc32 (take 496 page)" "readU64 page 504 = bid_value bid"
proof -
  have l: "length page = 512" using assms by (simp add: pageOk_def)
  note sl = pageOk_slices [OF assms]
  show "page ! 496 = pt" "page ! 497 = pt" using sl(1,2) by (simp_all add: nth_slice1)
  show "readU16 page 498 = pageSig pt bid ib" "readU32 page 500 = crc32 (take 496 page)"
    "readU64 page 504 = bid_value bid"
    using sl(3,4,5) l by (simp_all add: readU_eq)
qed

text \<open>
  C30: \<open>writePageTrailer\<close> leaves the 496 body bytes of the page as they are and puts behind
  them the page type twice, the signature, a CRC that a reader recomputes from the body, and
  the BID; the page keeps its 512 bytes.
\<close>

theorem writePageTrailer_correct:
  fixes pt :: u8 and bid :: Bid and ib :: Ib
  assumes "length page = 512"
  defines "p \<equiv> writePageTrailer page pt bid ib"
  shows "length p = 512 \<and> take 496 p = take 496 page \<and> p ! 496 = pt \<and> p ! 497 = pt
    \<and> readU16 p 498 = pageSig pt bid ib \<and> readU32 p 500 = crc32 (take 496 p)
    \<and> readU64 p 504 = bid_value bid"
  using pageOk_reads [OF pageOk_writePageTrailer [OF assms(1), of pt bid ib]] assms(1)
  unfolding p_def by (simp add: buf_simps)

theorem writePageTrailer_correct_witness:
  "length (writePageTrailer (zeros 512) ptype_kBBT (Bid 10) (Ib 0x4800)) = 512
   \<and> readU64 (writePageTrailer (zeros 512) ptype_kBBT (Bid 10) (Ib 0x4800)) 504 = 10"
  using writePageTrailer_correct [of "zeros 512" ptype_kBBT "Bid 10" "Ib 0x4800"] by simp

section \<open>The HEADER\<close>

text \<open>
  The stores of \<open>serializeHeader\<close> before the CRCs, as one list.
\<close>

definition headerStores :: "WriterState \<Rightarrow> (nat \<times> bytes) list" where
  "headerStores s =
     (let r = ws_root s in
      [(0x000, le32 kMagicDword), (0x008, le16 kMagicClient), (0x00A, le16 kVerUnicode),
       (0x00C, le16 kVerClient), (0x00E, [kPlatformCreate]), (0x00F, [kPlatformAccess]),
       (0x010, le32 (ws_dwReserved1 s)), (0x014, le32 (ws_dwReserved2 s)),
       (0x018, le64 (ws_bidUnused s)), (0x020, le64 (bid_value (ws_bidNextP s))),
       (0x028, le32 (ws_dwUnique s)), (0x02C, concat (map le32 (ws_rgnid s))), (0x0AC, le64 0),
       (0x0B4, le32 0), (0x0B8, le64 (ib_value (root_ibFileEof r))),
       (0x0C0, le64 (ib_value (root_ibAMapLast r))), (0x0C8, le64 (root_cbAMapFree r)),
       (0x0D0, le64 (root_cbPMapFree r)), (0x0D8, le64 (bid_value (bref_bid (root_brefNbt r)))),
       (0x0E0, le64 (ib_value (bref_ib (root_brefNbt r)))),
       (0x0E8, le64 (bid_value (bref_bid (root_brefBbt r)))),
       (0x0F0, le64 (ib_value (bref_ib (root_brefBbt r)))), (0x0F8, [root_fAMapValid r]),
       (0x0F9, [0]), (0x0FA, le16 0), (0x0FC, le32 0), (0x100, replicate 128 0xFF),
       (0x180, replicate 128 0xFF), (0x200, [kSentinelByte]), (0x201, [cryptMethodVal CryptPermute]),
       (0x202, le16 0), (0x204, le64 (bid_value (ws_bidNextB s))), (0x210, le16 0), (0x212, [0]),
       (0x213, [0])])"

lemma length_rgnid_bytes: "length rs = 32 \<Longrightarrow> length (concat (map le32 rs)) = 128"
  by (subst length_concat_const [where w = 4]) simp_all

lemma fold_rgnid:
  assumes "length rs = 32" and "off + 128 \<le> length p"
  shows "fold (\<lambda>i p. writeU32 p (off + i * 4) (rs ! i)) [0..<32] p = store p off (concat (map le32 rs))"
proof -
  have "fold (\<lambda>i p. store p (off + i * 4) (le32 (rs ! i))) [0..<32] p
      = store p off (concat (map (\<lambda>i. le32 (rs ! i)) [0..<32]))"
    using assms by (intro fold_store) simp_all
  also have "map (\<lambda>i. le32 (rs ! i)) [0..<32] = map le32 rs"
    using map_nth_upt [of le32 rs] assms(1) by simp
  finally show ?thesis by (simp add: write_defs)
qed

lemma in_range_headerStores:
  "length (ws_rgnid s) = 32 \<Longrightarrow> in_range 564 (headerStores s)"
  by (simp add: headerStores_def Let_def length_rgnid_bytes)

lemma disjoint_headerStores:
  "length (ws_rgnid s) = 32 \<Longrightarrow> disjoint_stores (headerStores s)"
  by (simp add: headerStores_def Let_def length_rgnid_bytes)

lemma headerFields_stores:
  assumes "length (ws_rgnid s) = 32"
  shows "headerFields s = stores (zeros 564) (headerStores s)"
  unfolding headerFields_def headerStores_def Let_def write_defs layout_simps
  by (subst fold_rgnid [unfolded write_defs, OF assms])
     (simp, simp only: stores.simps fst_conv snd_conv arith_simps)

lemma length_headerFields [simp]: "length (ws_rgnid s) = 32 \<Longrightarrow> length (headerFields s) = 564"
  by (simp add: headerFields_stores length_stores in_range_headerStores)

lemma serializeHeader_eq:
  assumes "length (ws_rgnid s) = 32"
  shows "serializeHeader s =
    store (store (headerFields s) 4 (le32 (crc32 (slice 8 471 (headerFields s)))))
      0x20C (le32 (crc32 (slice 8 516 (headerFields s))))"
  using length_headerFields [OF assms]
  by (simp add: serializeHeader_def Let_def layout_simps write_defs slice_store flip: slice_def)

lemma length_serializeHeader: "length (ws_rgnid s) = 32 \<Longrightarrow> length (serializeHeader s) = 564"
  by (simp add: serializeHeader_eq)

text \<open>What is clear of the two CRC fields is as \<open>headerFields\<close> left it.\<close>

lemma slice_serializeHeader:
  assumes "length (ws_rgnid s) = 32"
    and "off + n \<le> 4 \<or> 8 \<le> off \<and> off + n \<le> 0x20C \<or> 0x210 \<le> off"
  shows "slice off n (serializeHeader s) = slice off n (headerFields s)"
  using assms length_headerFields [OF assms(1)]
  by (auto simp: serializeHeader_eq slice_store_before slice_store_after)

lemma slice_header_field:
  assumes "(off, bs) \<in> set (headerStores s)" and "length (ws_rgnid s) = 32" and "n = length bs"
    and "off + n \<le> 4 \<or> 8 \<le> off \<and> off + n \<le> 0x20C \<or> 0x210 \<le> off"
  shows "slice off n (serializeHeader s) = bs"
  using assms
  by (simp add: slice_serializeHeader headerFields_stores slice_stores disjoint_headerStores
      in_range_headerStores)

lemma header_crc_slices:
  assumes "length (ws_rgnid s) = 32"
  defines "h \<equiv> serializeHeader s"
  shows "slice 4 4 h = le32 (crc32 (slice 8 471 h))" "slice 0x20C 4 h = le32 (crc32 (slice 8 516 h))"
  unfolding h_def using length_headerFields [OF assms(1)]
  by (simp_all add: slice_serializeHeader assms(1))
     (simp_all add: serializeHeader_eq [OF assms(1)] slice_store assms(1))

text \<open>
  The HEADER has 564 bytes, and both CRC fields hold the CRC that a reader recomputes from
  the finished HEADER over the ranges of the format: 471 bytes and 516 bytes from offset 8.
\<close>

theorem serializeHeader_crcs:
  fixes s :: WriterState
  assumes "length (ws_rgnid s) = 32"
  defines "h \<equiv> serializeHeader s"
  shows "length h = 564
    \<and> readU32 h hdr_kCrcPartial = crc32 (slice hdr_kMagicClient kHdrCrcPartialLen h)
    \<and> readU32 h hdr_kCrcFull = crc32 (slice hdr_kMagicClient kHdrCrcFullLen h)"
proof -
  have l: "length h = 564" unfolding h_def using assms(1) by (rule length_serializeHeader)
  then show ?thesis
    using header_crc_slices [OF assms(1), folded h_def]
    by (simp add: layout_simps readU32_eq)
qed

theorem serializeHeader_crcs_witness:
  "length (serializeHeader (populateFreshRgnid defaultWriterState)) = 564"
  by (rule serializeHeader_crcs [OF length_freshRgnid, THEN conjunct1])

text \<open>
  C31: every field of the writer state, the reserved and unused ones included, can be read back from the
  HEADER at the offset that \<open>ndb.hpp\<close> names, together with the magic numbers, versions, platform and filler
  bytes, so two states with the same HEADER agree.
\<close>

theorem serializeHeader_fields:
  fixes s :: WriterState
  assumes "length (ws_rgnid s) = 32"
  defines "h \<equiv> serializeHeader s" and "r \<equiv> ws_root s"
  shows "readU32 h hdr_kMagic = kMagicDword \<and> readU16 h hdr_kMagicClient = kMagicClient
    \<and> readU16 h hdr_kVer = kVerUnicode
    \<and> readU64 h hdr_kBidNextP = bid_value (ws_bidNextP s)
    \<and> readU64 h hdr_kBidNextB = bid_value (ws_bidNextB s)
    \<and> readU32 h hdr_kDwUnique = ws_dwUnique s
    \<and> (\<forall>i < 32. readU32 h (hdr_kRgnid + i * 4) = ws_rgnid s ! i)
    \<and> readU64 h hdr_kIbFileEof = ib_value (root_ibFileEof r)
    \<and> readU64 h hdr_kIbAMapLast = ib_value (root_ibAMapLast r)
    \<and> readU64 h hdr_kCbAMapFree = root_cbAMapFree r
    \<and> readU64 h hdr_kCbPMapFree = root_cbPMapFree r
    \<and> readU64 h hdr_kBrefNbtBid = bid_value (bref_bid (root_brefNbt r))
    \<and> readU64 h hdr_kBrefNbtIb = ib_value (bref_ib (root_brefNbt r))
    \<and> readU64 h hdr_kBrefBbtBid = bid_value (bref_bid (root_brefBbt r))
    \<and> readU64 h hdr_kBrefBbtIb = ib_value (bref_ib (root_brefBbt r))
    \<and> h ! hdr_kFAMapValid = root_fAMapValid r
    \<and> h ! hdr_kBSentinel = kSentinelByte \<and> h ! hdr_kBCryptMethod = cryptMethodVal CryptPermute
    \<and> readU32 h hdr_kReserved1 = ws_dwReserved1 s \<and> readU32 h hdr_kReserved2 = ws_dwReserved2 s
    \<and> readU64 h hdr_kBidUnused = ws_bidUnused s \<and> readU16 h hdr_kVerClient = kVerClient
    \<and> h ! hdr_kPlatformCreate = kPlatformCreate \<and> h ! hdr_kPlatformAccess = kPlatformAccess
    \<and> slice hdr_kRgbFM 128 h = replicate 128 0xFF \<and> slice hdr_kRgbFP 128 h = replicate 128 0xFF"
proof -
  have l: "length h = 564" unfolding h_def using assms(1) by (rule length_serializeHeader)
  have f: "slice off (length bs) h = bs"
    if "(off, bs) \<in> set (headerStores s)"
      "off + length bs \<le> 4 \<or> 8 \<le> off \<and> off + length bs \<le> 0x20C \<or> 0x210 \<le> off" for off bs
    unfolding h_def using slice_header_field [OF that(1) assms(1) refl that(2)] .
  have rg: "readU32 h (0x2C + i * 4) = ws_rgnid s ! i" if i: "i < 32" for i
  proof (rule readU32_eq)
    show "0x2C + i * 4 + 4 \<le> length h" using l i by simp
    have "slice 0x2C 128 h = concat (map le32 (ws_rgnid s))"
      using f [of "0x2C" "concat (map le32 (ws_rgnid s))"] length_rgnid_bytes [OF assms(1)]
      by (simp add: headerStores_def Let_def)
    then have "slice (i * 4) 4 (slice 0x2C 128 h) = le32 (ws_rgnid s ! i)"
      using i assms(1) slice_concat_const [of "ws_rgnid s" le32 4 i] by simp
    then show "slice (0x2C + i * 4) 4 h = le32 (ws_rgnid s ! i)"
      using i by (simp add: slice_slice)
  qed
  note f' = f [unfolded headerStores_def Let_def, folded r_def]
  show ?thesis
    using l rg f' [of "0x000" "le32 kMagicDword"] f' [of 8 "le16 kMagicClient"]
      f' [of "0x00A" "le16 kVerUnicode"] f' [of "0x20" "le64 (bid_value (ws_bidNextP s))"]
      f' [of "0x204" "le64 (bid_value (ws_bidNextB s))"] f' [of "0x28" "le32 (ws_dwUnique s)"]
      f' [of "0x0B8" "le64 (ib_value (root_ibFileEof r))"]
      f' [of "0x0C0" "le64 (ib_value (root_ibAMapLast r))"] f' [of "0x0C8" "le64 (root_cbAMapFree r)"]
      f' [of "0x0D0" "le64 (root_cbPMapFree r)"]
      f' [of "0x0D8" "le64 (bid_value (bref_bid (root_brefNbt r)))"]
      f' [of "0x0E0" "le64 (ib_value (bref_ib (root_brefNbt r)))"]
      f' [of "0x0E8" "le64 (bid_value (bref_bid (root_brefBbt r)))"]
      f' [of "0x0F0" "le64 (ib_value (bref_ib (root_brefBbt r)))"]
      f' [of "0x0F8" "[root_fAMapValid r]"] f' [of "0x200" "[kSentinelByte]"]
      f' [of "0x201" "[cryptMethodVal CryptPermute]"]
      f' [of "0x010" "le32 (ws_dwReserved1 s)"] f' [of "0x014" "le32 (ws_dwReserved2 s)"]
      f' [of "0x018" "le64 (ws_bidUnused s)"] f' [of "0x00C" "le16 kVerClient"]
      f' [of "0x00E" "[kPlatformCreate]"] f' [of "0x00F" "[kPlatformAccess]"]
      f' [of "0x100" "replicate 128 0xFF"] f' [of "0x180" "replicate 128 0xFF"]
    by (simp add: layout_simps readU_eq nth_slice1)
qed

theorem serializeHeader_fields_witness:
  "readU64 (serializeHeader (populateFreshRgnid defaultWriterState)) hdr_kBidNextP = 0xFFFFFFFF"
  using serializeHeader_fields [OF length_freshRgnid, THEN conjunct2, THEN conjunct2, THEN conjunct2, THEN conjunct1]
  by (simp add: populateFreshRgnid_def defaultWriterState_def)

end
