(* ===== verification/Page.thy ===== *)
theory Page
  imports Ndb
begin

text \<open>
  The page builders of \<open>page.hpp\<close> and \<open>page.cpp\<close>: the allocation map, the empty leaves, and the
  filled leaf and intermediate pages of the block B-tree.  Every builder starts from a zeroed
  page of 512 bytes and ends in \<open>writePageTrailer\<close>.  \<open>btPageOk\<close> is what a reader finds in a
  B-tree page: the entries at the front, the control bytes, and a valid trailer.
\<close>

unbundle bit_operations_syntax

section \<open>Entries\<close>

record BbtEntry =
  bbt_bref :: Bref
  bbt_cb :: u16
  bbt_cRef :: u16

record BtEntry =
  bt_btkey :: u64
  bt_bref :: Bref

definition kBbtEntrySize :: nat where
  [layout_simps]: "kBbtEntrySize = 24"

definition kBtEntrySize :: nat where
  [layout_simps]: "kBtEntrySize = 24"

definition kBbtMaxEntriesPerLeaf :: nat where
  [layout_simps]: "kBbtMaxEntriesPerLeaf = kBtPageEntriesArea div kBbtEntrySize"

definition kBtMaxEntriesPerPage :: nat where
  [layout_simps]: "kBtMaxEntriesPerPage = kBtPageEntriesArea div kBtEntrySize"

section \<open>Builders\<close>

definition buildAMap :: "Ib \<Rightarrow> u64 \<Rightarrow> bytes" where
  "buildAMap ibAMap fileSize =
     (let page = zeros kPageSize;
          coverageEnd = ib_value ibAMap + word_of_nat kAMapCoverage;
          allocatedEnd = (if fileSize < coverageEnd then fileSize else coverageEnd);
          allocatedBytes =
            (if ib_value ibAMap < allocatedEnd then allocatedEnd - ib_value ibAMap else 0);
          totalBits = (allocatedBytes + word_of_nat kBytesPerAMapBit - 1)
                        div word_of_nat kBytesPerAMapBit;
          fullBytes = totalBits div 8;
          leftover = totalBits mod 8;
          cap = (if fullBytes < word_of_nat kAMapBitmapBytes then fullBytes
                 else word_of_nat kAMapBitmapBytes);
          page = fold (\<lambda>i p. writeU8 p i 0xFF) [0..<unat cap] page;
          page = (if leftover \<noteq> 0 \<and> cap < word_of_nat kAMapBitmapBytes
                  then writeU8 page (unat cap) (ucast ((push_bit (unat leftover) 1 :: u32) - 1))
                  else page)
      in writePageTrailer page ptype_kAMap (makeAmap (ib_value ibAMap)) ibAMap)"

definition buildEmptyBtLeaf :: "u8 \<Rightarrow> nat \<Rightarrow> Bid \<Rightarrow> Ib \<Rightarrow> bytes" where
  "buildEmptyBtLeaf pageType cbEnt bid ib =
     (let page = zeros kPageSize;
          page = writeU8 page kBtPageCEnt 0;
          page = writeU8 page kBtPageCEntMax (word_of_nat (kBtPageEntriesArea div cbEnt));
          page = writeU8 page kBtPageCbEnt (word_of_nat cbEnt);
          page = writeU8 page kBtPageCLevel 0;
          page = writeU32 page kBtPageDwPad 0
      in writePageTrailer page pageType bid ib)"

definition buildEmptyNbtLeaf :: "Bid \<Rightarrow> Ib \<Rightarrow> bytes" where
  "buildEmptyNbtLeaf bid ib = buildEmptyBtLeaf ptype_kNBT kNbtLeafEntrySize bid ib"

definition buildEmptyBbtLeaf :: "Bid \<Rightarrow> Ib \<Rightarrow> bytes" where
  "buildEmptyBbtLeaf bid ib = buildEmptyBtLeaf ptype_kBBT kBbtLeafEntrySize bid ib"

definition writeBbtEntry :: "BbtEntry \<Rightarrow> nat \<Rightarrow> bytes \<Rightarrow> bytes" where
  "writeBbtEntry e off page =
     (let page = writeU64 page (off + 0) (bid_value (bref_bid (bbt_bref e)));
          page = writeU64 page (off + 8) (ib_value (bref_ib (bbt_bref e)));
          page = writeU16 page (off + 16) (bbt_cb e);
          page = writeU16 page (off + 18) (bbt_cRef e)
      in writeU32 page (off + 20) 0)"

definition buildBbtLeaf :: "BbtEntry list \<Rightarrow> Bid \<Rightarrow> Ib \<Rightarrow> bytes" where
  "buildBbtLeaf entries bid ib =
     (let page = zeros kPageSize;
          count = (if length entries > kBbtMaxEntriesPerLeaf then kBbtMaxEntriesPerLeaf
                   else length entries);
          page = fold (\<lambda>i p. writeBbtEntry (entries ! i) (i * kBbtEntrySize) p) [0..<count] page;
          page = writeU8 page kBtPageCEnt (word_of_nat count);
          page = writeU8 page kBtPageCEntMax (word_of_nat kBbtMaxEntriesPerLeaf);
          page = writeU8 page kBtPageCbEnt (word_of_nat kBbtLeafEntrySize);
          page = writeU8 page kBtPageCLevel 0;
          page = writeU32 page kBtPageDwPad 0
      in writePageTrailer page ptype_kBBT bid ib)"

definition writeBtEntry :: "BtEntry \<Rightarrow> nat \<Rightarrow> bytes \<Rightarrow> bytes" where
  "writeBtEntry e off page =
     (let page = writeU64 page (off + 0) (bt_btkey e);
          page = writeU64 page (off + 8) (bid_value (bref_bid (bt_bref e)))
      in writeU64 page (off + 16) (ib_value (bref_ib (bt_bref e))))"

definition buildBbtIntermediate :: "BtEntry list \<Rightarrow> u8 \<Rightarrow> Bid \<Rightarrow> Ib \<Rightarrow> bytes" where
  "buildBbtIntermediate entries cLevel bid ib =
     (let page = zeros kPageSize;
          count = (if length entries > kBtMaxEntriesPerPage then kBtMaxEntriesPerPage
                   else length entries);
          page = fold (\<lambda>i p. writeBtEntry (entries ! i) (i * kBtEntrySize) p) [0..<count] page;
          page = writeU8 page kBtPageCEnt (word_of_nat count);
          page = writeU8 page kBtPageCEntMax (word_of_nat kBtMaxEntriesPerPage);
          page = writeU8 page kBtPageCbEnt (word_of_nat kBtEntrySize);
          page = writeU8 page kBtPageCLevel cLevel;
          page = writeU32 page kBtPageDwPad 0
      in writePageTrailer page ptype_kBBT bid ib)"

section \<open>B-tree pages\<close>

definition btPageOk :: "u8 \<Rightarrow> nat \<Rightarrow> nat \<Rightarrow> nat \<Rightarrow> u8 \<Rightarrow> bytes \<Rightarrow> Bid \<Rightarrow> Ib \<Rightarrow> bytes \<Rightarrow> bool" where
  "btPageOk pt cEnt cEntMax cbEnt cLevel body bid ib page \<longleftrightarrow>
     pageOk pt bid ib page \<and> slice 0 (length body) page = body
     \<and> page ! 488 = word_of_nat cEnt \<and> page ! 489 = word_of_nat cEntMax
     \<and> page ! 490 = word_of_nat cbEnt \<and> page ! 491 = cLevel \<and> slice 492 4 page = le32 0"

lemma btPageOk_length: "btPageOk pt n m w l body bid ib page \<Longrightarrow> length page = 512"
  by (simp add: btPageOk_def pageOk_def)

lemma btPageOk_written:
  assumes "length body \<le> 488"
  shows "btPageOk pt cEnt cEntMax cbEnt cLevel body bid ib
    (writePageTrailer
      (writeU32 (writeU8 (writeU8 (writeU8 (writeU8 (store (zeros 512) 0 body)
        488 (word_of_nat cEnt)) 489 (word_of_nat cEntMax)) 490 (word_of_nat cbEnt)) 491 cLevel) 492 0)
      pt bid ib)"
proof -
  let ?ps = "[(0, body), (488, [word_of_nat cEnt]), (489, [word_of_nat cEntMax]),
    (490, [word_of_nat cbEnt]), (491, [cLevel]), (492, le32 0)]"
  let ?p = "stores (zeros 512) ?ps"
  have r: "in_range (length (zeros 512)) ?ps" and d: "disjoint_stores ?ps" using assms by simp_all
  then have l: "length ?p = 512" by (simp only: length_stores length_zeros)
  have s: "slice off (length bs) ?p = bs" if "(off, bs) \<in> set ?ps" for off bs
    using that d r by (rule slice_stores) simp
  have n: "?p ! off = v" if "(off, [v]) \<in> set ?ps" for off v
    using s [OF that] by (intro nth_slice1) simp
  have "btPageOk pt cEnt cEntMax cbEnt cLevel body bid ib (writePageTrailer ?p pt bid ib)"
    unfolding btPageOk_def
  proof (intro conjI)
    show "pageOk pt bid ib (writePageTrailer ?p pt bid ib)"
      using l by (rule pageOk_writePageTrailer)
    show "slice 0 (length body) (writePageTrailer ?p pt bid ib) = body"
      using s [of 0 body] assms l by (simp add: slice_writePageTrailer del: stores.simps)
    show "slice 492 4 (writePageTrailer ?p pt bid ib) = le32 0"
      using s [of 492 "le32 0"] l by (simp add: slice_writePageTrailer del: stores.simps)
  qed (use n l in \<open>simp_all add: nth_writePageTrailer del: stores.simps\<close>)
  then show ?thesis by (simp add: write_defs)
qed

lemma btPageOk_entry:
  assumes "btPageOk pt n m w l (concat (map enc es)) bid ib page"
    and "\<And>e. length (enc e) = w'" and "i < length es"
  shows "slice (i * w') w' page = enc (es ! i)"
proof -
  have len: "length (concat (map enc es)) = length es * w'"
    using assms(2) by (rule length_concat_const)
  have "slice (i * w') w' (slice 0 (length es * w') page) = enc (es ! i)"
    using assms len slice_concat_const [of es enc w' i] by (simp add: btPageOk_def)
  moreover have "i * w' + w' \<le> length es * w'"
    using assms(3) mult_le_mono1 [of "Suc i" "length es" w'] by simp
  ultimately show ?thesis by (simp add: slice_slice)
qed

section \<open>The block B-tree pages\<close>

definition encBbtEntry :: "BbtEntry \<Rightarrow> bytes" where
  "encBbtEntry e = le64 (bid_value (bref_bid (bbt_bref e))) @ le64 (ib_value (bref_ib (bbt_bref e)))
     @ le16 (bbt_cb e) @ le16 (bbt_cRef e) @ le32 0"

definition encBtEntry :: "BtEntry \<Rightarrow> bytes" where
  "encBtEntry e = le64 (bt_btkey e) @ le64 (bid_value (bref_bid (bt_bref e)))
     @ le64 (ib_value (bref_ib (bt_bref e)))"

lemma length_encBbtEntry [simp]: "length (encBbtEntry e) = 24"
  by (simp add: encBbtEntry_def)

lemma length_encBtEntry [simp]: "length (encBtEntry e) = 24"
  by (simp add: encBtEntry_def)

lemma writeBbtEntry_store:
  "off + 24 \<le> length page \<Longrightarrow> writeBbtEntry e off page = store page off (encBbtEntry e)"
  by (simp add: writeBbtEntry_def Let_def write_defs store_adjacent encBbtEntry_def)

lemma writeBtEntry_store:
  "off + 24 \<le> length page \<Longrightarrow> writeBtEntry e off page = store page off (encBtEntry e)"
  by (simp add: writeBtEntry_def Let_def write_defs store_adjacent encBtEntry_def)

text \<open>The entry loops of the builders store the encoded entries at the front of the page.\<close>

lemma entry_loop:
  assumes "\<And>e off page. off + w \<le> length page \<Longrightarrow> wr e off page = store page off (enc e)"
    and "\<And>e. length (enc e) = w" and "length es * w \<le> 488"
  shows "fold (\<lambda>i p. wr (es ! i) (i * w) p) [0..<length es] (zeros 512)
    = store (zeros 512) 0 (concat (map enc es))"
proof -
  have "fold (\<lambda>i p. wr (es ! i) (i * w) p) [0..<length es] (zeros 512)
      = store (zeros 512) 0 (concat (map (\<lambda>i. enc (es ! i)) [0..<length es]))"
  proof (rule fold_store_cong)
    fix i and b :: bytes
    assume "i < length es" and "length b = length (zeros 512)"
    moreover from this have "i * w + w \<le> length es * w"
      using mult_le_mono1 [of "Suc i" "length es" w] by simp
    ultimately show "wr (es ! i) (i * w) b = store b (0 + i * w) (enc (es ! i))"
      using assms(1,3) by simp
  qed (use assms(2,3) in simp_all)
  then show ?thesis by (simp add: map_nth_upt)
qed

lemma entry_loop_prefix:
  assumes "n \<le> length es"
  shows "fold (\<lambda>i p. wr (es ! i) (i * w) p) [0..<n] page
    = fold (\<lambda>i p. wr (take n es ! i) (i * w) p) [0..<length (take n es)] page"
  using assms by (intro fold_cong) simp_all

lemma bt_constants:
  "kBbtMaxEntriesPerLeaf = 20" "kBtMaxEntriesPerPage = 20" "kBbtEntrySize = 24" "kBtEntrySize = 24"
  "kBbtLeafEntrySize = 24" "kNbtLeafEntrySize = 32" "kPageSize = 512"
  "kBtPageCEnt = 488" "kBtPageCEntMax = 489" "kBtPageCbEnt = 490" "kBtPageCLevel = 491"
  "kBtPageDwPad = 492" "kPageTrailerOffset = 496" "kPageBodySize = 496"
  by (simp_all add: layout_simps)

lemma buildBbtLeaf_ok:
  fixes entries :: "BbtEntry list" and bid :: Bid and ib :: Ib
  defines "es \<equiv> take 20 entries"
  shows "btPageOk ptype_kBBT (length es) 20 24 0 (concat (map encBbtEntry es)) bid ib
    (buildBbtLeaf entries bid ib)"
proof -
  have n: "length es \<le> length entries" "take (length es) entries = es"
    "(if length entries > 20 then 20 else length entries) = length es"
    by (simp_all add: es_def min_def)
  have loop: "fold (\<lambda>i p. writeBbtEntry (entries ! i) (i * 24) p) [0..<length es] (zeros 512)
      = store (zeros 512) 0 (concat (map encBbtEntry es))"
    unfolding entry_loop_prefix [OF n(1)] n(2)
    by (rule entry_loop) (simp_all add: writeBbtEntry_store es_def)
  have "length (concat (map encBbtEntry es)) \<le> 488"
    by (subst length_concat_const [where w = 24]) (simp_all add: es_def)
  then show ?thesis
    unfolding buildBbtLeaf_def Let_def bt_constants n(3) loop by (rule btPageOk_written)
qed

lemma buildBbtIntermediate_ok:
  fixes entries :: "BtEntry list" and bid :: Bid and ib :: Ib
  defines "es \<equiv> take 20 entries"
  shows "btPageOk ptype_kBBT (length es) 20 24 cLevel (concat (map encBtEntry es)) bid ib
    (buildBbtIntermediate entries cLevel bid ib)"
proof -
  have n: "length es \<le> length entries" "take (length es) entries = es"
    "(if length entries > 20 then 20 else length entries) = length es"
    by (simp_all add: es_def min_def)
  have loop: "fold (\<lambda>i p. writeBtEntry (entries ! i) (i * 24) p) [0..<length es] (zeros 512)
      = store (zeros 512) 0 (concat (map encBtEntry es))"
    unfolding entry_loop_prefix [OF n(1)] n(2)
    by (rule entry_loop) (simp_all add: writeBtEntry_store es_def)
  have "length (concat (map encBtEntry es)) \<le> 488"
    by (subst length_concat_const [where w = 24]) (simp_all add: es_def)
  then show ?thesis
    unfolding buildBbtIntermediate_def Let_def bt_constants n(3) loop by (rule btPageOk_written)
qed

lemma buildEmptyBtLeaf_ok:
  "btPageOk pt 0 (488 div cbEnt) cbEnt 0 [] bid ib (buildEmptyBtLeaf pt cbEnt bid ib)"
  using btPageOk_written [of "[]" pt 0 "488 div cbEnt" cbEnt 0 bid ib]
  by (simp add: buildEmptyBtLeaf_def Let_def layout_simps)

section \<open>Properties of the block B-tree pages\<close>

lemma encBbtEntry_reads:
  assumes "slice off 24 page = encBbtEntry e" and "off + 24 \<le> length page"
  shows "readU64 page off = bid_value (bref_bid (bbt_bref e))"
    "readU64 page (off + 8) = ib_value (bref_ib (bbt_bref e))"
    "readU16 page (off + 16) = bbt_cb e" "readU16 page (off + 18) = bbt_cRef e"
  using slice_field [OF assms(1), of 0 8] slice_field [OF assms(1), of 8 8]
    slice_field [OF assms(1), of 16 2] slice_field [OF assms(1), of 18 2] assms(2)
  by (simp_all add: encBbtEntry_def slice_def readU_eq)

lemma encBtEntry_reads:
  assumes "slice off 24 page = encBtEntry e" and "off + 24 \<le> length page"
  shows "readU64 page off = bt_btkey e"
    "readU64 page (off + 8) = bid_value (bref_bid (bt_bref e))"
    "readU64 page (off + 16) = ib_value (bref_ib (bt_bref e))"
  using slice_field [OF assms(1), of 0 8] slice_field [OF assms(1), of 8 8]
    slice_field [OF assms(1), of 16 8] assms(2)
  by (simp_all add: encBtEntry_def slice_def readU_eq)

text \<open>
  A block B-tree leaf built from at most 20 entries can be decoded: the count byte is the
  number of entries, entry \<open>i\<close> at offset \<open>24 * i\<close> gives back its BID, offset, size and reference
  count, and the trailer of the page is valid, with the CRC over the finished body.
\<close>

theorem buildBbtLeaf_decodes:
  fixes entries :: "BbtEntry list" and bid :: Bid and ib :: Ib
  assumes "length entries \<le> kBbtMaxEntriesPerLeaf" and "i < length entries"
  defines "p \<equiv> buildBbtLeaf entries bid ib" and "e \<equiv> entries ! i"
  shows "pageOk ptype_kBBT bid ib p \<and> unat (p ! kBtPageCEnt) = length entries \<and> p ! kBtPageCLevel = 0
    \<and> readU64 p (i * 24) = bid_value (bref_bid (bbt_bref e))
    \<and> readU64 p (i * 24 + 8) = ib_value (bref_ib (bbt_bref e))
    \<and> readU16 p (i * 24 + 16) = bbt_cb e \<and> readU16 p (i * 24 + 18) = bbt_cRef e"
proof -
  have n: "length entries \<le> 20" "take 20 entries = entries" using assms(1) by (simp_all add: bt_constants)
  note ok = buildBbtLeaf_ok [of entries bid ib, unfolded n(2), folded p_def]
  have "slice (i * 24) 24 p = encBbtEntry e"
    unfolding e_def using btPageOk_entry [OF ok _ assms(2), of 24] by simp
  moreover have "i * 24 + 24 \<le> length p"
    using btPageOk_length [OF ok] assms(2) n(1) by simp
  ultimately show ?thesis
    using ok encBbtEntry_reads n(1) by (auto simp: btPageOk_def bt_constants unat_of_nat)
qed

theorem buildBbtLeaf_decodes_witness:
  "readU16 (buildBbtLeaf [\<lparr>bbt_bref = mkBref (Bid 4) (Ib 0x4600), bbt_cb = 100, bbt_cRef = 2\<rparr>]
     (Bid 10) (Ib 0x4800)) 18 = 2"
  using buildBbtLeaf_decodes [of "[\<lparr>bbt_bref = mkBref (Bid 4) (Ib 0x4600), bbt_cb = 100, bbt_cRef = 2\<rparr>]"
      0 "Bid 10" "Ib 0x4800"]
  by (simp add: bt_constants)

text \<open>
  The builder of a leaf has a hard cap and does not report it: given more than 20 entries it
  returns the page of the first 20, so the others are not in the tree.
\<close>

theorem buildBbtLeaf_truncates:
  "buildBbtLeaf entries bid ib = buildBbtLeaf (take 20 entries) bid ib
   \<and> unat (buildBbtLeaf entries bid ib ! kBtPageCEnt) = min (length entries) 20"
proof -
  have n: "(if length entries > 20 then 20 else length entries) = length (take 20 entries)"
    "(if length (take 20 entries) > 20 then 20 else length (take 20 entries)) = length (take 20 entries)"
    by (simp_all add: min_def)
  have "fold (\<lambda>i p. writeBbtEntry (entries ! i) (i * 24) p) [0..<length (take 20 entries)] (zeros 512)
     = fold (\<lambda>i p. writeBbtEntry (take 20 entries ! i) (i * 24) p) [0..<length (take 20 entries)] (zeros 512)"
    by (intro fold_cong) simp_all
  then have "buildBbtLeaf entries bid ib = buildBbtLeaf (take 20 entries) bid ib"
    unfolding buildBbtLeaf_def Let_def bt_constants n by (simp only:)
  moreover have "unat (buildBbtLeaf entries bid ib ! 488) = min (length entries) 20"
    using buildBbtLeaf_ok [of entries bid ib] by (simp add: btPageOk_def unat_of_nat)
  ultimately show ?thesis by (simp add: bt_constants)
qed

section \<open>The allocation map\<close>

definition amapBits :: "nat \<Rightarrow> nat \<Rightarrow> nat" where
  "amapBits ib fs = (min fs (ib + 253952) - ib + 63) div 64"

lemma amapBits_iff: "k < 3968 \<Longrightarrow> k < amapBits ib fs \<longleftrightarrow> ib + k * 64 < fs"
proof -
  assume k: "k < 3968"
  have "k < amapBits ib fs \<longleftrightarrow> k * 64 < min fs (ib + 253952) - ib"
    unfolding amapBits_def by (simp add: less_eq_div_iff_mult_less_eq flip: Suc_le_eq)
  also have "\<dots> \<longleftrightarrow> ib + k * 64 < fs" using k by (auto simp: min_def)
  finally show ?thesis .
qed

lemma amapBits_le: "amapBits ib fs \<le> 3968"
  by (simp add: amapBits_def)

lemma unat_amapBits:
  fixes ib fs :: u64
  assumes "unat ib + 253952 < 2 ^ 64"
  shows "unat (((if ib < (if fs < ib + 253952 then fs else ib + 253952)
                 then (if fs < ib + 253952 then fs else ib + 253952) - ib else 0) + 64 - 1) div 64)
    = amapBits (unat ib) (unat fs)"
proof -
  let ?ae = "if fs < ib + 253952 then fs else ib + 253952"
  let ?ab = "if ib < ?ae then ?ae - ib else 0"
  have ce: "unat (ib + 253952) = unat ib + 253952"
    using assms by (simp add: unat_word_ariths)
  have ae: "unat ?ae = min (unat fs) (unat ib + 253952)"
    using ce by (auto simp: word_less_nat_alt min_def)
  have ab: "unat ?ab = min (unat fs) (unat ib + 253952) - unat ib"
    using ae by (auto simp: word_less_nat_alt unat_sub_if')
  have le: "unat ?ab \<le> 253952" using ab by simp
  have "?ab + 64 - 1 = ?ab + 63" by simp
  moreover have "unat (?ab + 63) = unat ?ab + 63"
    using le by (simp add: unat_word_ariths)
  ultimately have "unat ((?ab + 64 - 1) div 64) = (unat ?ab + 63) div 64"
    by (simp only: unat_div) simp
  then show ?thesis by (simp only: ab amapBits_def)
qed

definition amapBody :: "nat \<Rightarrow> bytes" where
  "amapBody t = (let page = store (zeros 512) 0 (replicate (t div 8) 0xFF)
     in if t mod 8 \<noteq> 0 \<and> t div 8 < 496 then store page (t div 8) [ucast ((push_bit (t mod 8) 1 :: u32) - 1)]
        else page)"

lemma bits_split: "k < t \<longleftrightarrow> k div 8 < t div 8 \<or> k div 8 = t div 8 \<and> k mod 8 < t mod 8" for k t :: nat
proof -
  have "k = 8 * (k div 8) + k mod 8" "t = 8 * (t div 8) + t mod 8" "k mod 8 < 8" "t mod 8 < 8"
    by simp_all
  then show ?thesis by (cases "k div 8" "t div 8" rule: linorder_cases) linarith+
qed

lemma bit_partial_byte:
  assumes "n < 8" shows "bit (ucast ((push_bit n 1 :: u32) - 1) :: u8) m \<longleftrightarrow> m < n"
proof -
  have "(push_bit n 1 :: u32) - 1 = mask n"
    by (simp add: mask_eq_exp_minus_1 push_bit_of_1)
  then show ?thesis using assms by (auto simp: bit_simps)
qed

lemma bit_ff: "m < 8 \<Longrightarrow> bit (0xFF :: u8) m"
  unfolding byte_mask by (simp add: bit_simps)

lemma length_amapBody [simp]: "t \<le> 3968 \<Longrightarrow> length (amapBody t) = 512"
  by (auto simp: amapBody_def Let_def)

lemma bit_amapBody:
  assumes "t \<le> 3968" and "k < 3968"
  shows "bit (amapBody t ! (k div 8)) (k mod 8) \<longleftrightarrow> k < t"
proof -
  have d: "t div 8 \<le> 496" "k div 8 < 496" using assms by auto
  have "amapBody t ! (k div 8) =
     (if k div 8 < t div 8 then 0xFF else if k div 8 = t div 8 \<and> t mod 8 \<noteq> 0
      then ucast ((push_bit (t mod 8) 1 :: u32) - 1) else 0)"
    using d by (auto simp: amapBody_def Let_def nth_store zeros_def)
  then show ?thesis
    using bits_split [of k t] bit_ff [of "k mod 8"] bit_partial_byte [of "t mod 8" "k mod 8"]
    by auto
qed

lemma amap_loop:
  assumes "n \<le> 496"
  shows "fold (\<lambda>i p. writeU8 p i 0xFF) [0..<n] (zeros 512) = store (zeros 512) 0 (replicate n 0xFF)"
proof -
  have "fold (\<lambda>i p. writeU8 p i 0xFF) [0..<n] (zeros 512)
      = store (zeros 512) 0 (concat (map (\<lambda>i. [0xFF]) [0..<n]))"
    using assms by (intro fold_store_cong [where w = 1]) (simp_all add: write_defs)
  moreover have "concat (map (\<lambda>i. [0xFF]) [0..<n]) = replicate n (0xFF :: u8)"
    by (induction n) (simp_all add: replicate_append_same)
  ultimately show ?thesis by simp
qed

lemma buildAMap_eq:
  fixes ib :: Ib and fs :: u64
  assumes "unat (ib_value ib) + 253952 < 2 ^ 64"
  shows "buildAMap ib fs = writePageTrailer (amapBody (amapBits (unat (ib_value ib)) (unat fs)))
    ptype_kAMap (makeAmap (ib_value ib)) ib"
proof -
  define t where "t = ((if ib_value ib < (if fs < ib_value ib + 253952 then fs else ib_value ib + 253952)
                 then (if fs < ib_value ib + 253952 then fs else ib_value ib + 253952) - ib_value ib else 0) + 64 - 1) div 64"
  have ut: "unat t = amapBits (unat (ib_value ib)) (unat fs)"
    unfolding t_def using assms by (rule unat_amapBits)
  have le: "unat t \<le> 3968" using ut amapBits_le by simp
  have q: "unat (t div 8) = unat t div 8" "unat (t mod 8) = unat t mod 8"
    by (simp_all add: unat_div unat_mod)
  have cap: "(if t div 8 < 496 then t div 8 else 496) = t div 8"
    using le q(1) by (auto simp: word_less_nat_alt word_unat_eq_iff)
  have z: "t mod 8 \<noteq> 0 \<longleftrightarrow> unat t mod 8 \<noteq> 0" by (simp add: word_unat_eq_iff q)
  have l: "t div 8 < 496 \<longleftrightarrow> unat t div 8 < 496" by (simp add: word_less_nat_alt q)
  have c: "word_of_nat kAMapCoverage = (253952 :: u64)" "word_of_nat kBytesPerAMapBit = (64 :: u64)"
     "word_of_nat kAMapBitmapBytes = (496 :: u64)" by (simp_all add: layout_simps)
  show ?thesis
    unfolding buildAMap_def Let_def c
    unfolding t_def [symmetric]
    unfolding cap
    unfolding z l q bt_constants
    using le amap_loop [of "unat t div 8"]
    by (simp add: ut amapBody_def Let_def write_defs)
qed
text \<open>
  The allocation map marks exactly the units of 64 bytes that start below the end of the
  file.  For every bit of the bitmap, the bit is set if and only if the unit of the map's
  coverage range that it stands for begins before \<open>fileSize\<close>.
\<close>

theorem buildAMap_bits:
  fixes ib :: Ib and fs :: u64
  assumes "unat (ib_value ib) + kAMapCoverage < 2 ^ 64" and "k < kAMapBitmapBytes * 8"
  shows "bit (buildAMap ib fs ! (k div 8)) (k mod 8)
    \<longleftrightarrow> unat (ib_value ib) + k * kBytesPerAMapBit < unat fs"
proof -
  let ?t = "amapBits (unat (ib_value ib)) (unat fs)"
  have k: "k < 3968" and ib: "unat (ib_value ib) + 253952 < 2 ^ 64"
    using assms by (simp_all add: layout_simps)
  have "buildAMap ib fs ! (k div 8) = amapBody ?t ! (k div 8)"
    unfolding buildAMap_eq [OF ib] using k amapBits_le by (intro nth_writePageTrailer) auto
  then show ?thesis
    using bit_amapBody [OF amapBits_le k] amapBits_iff [OF k] by (simp add: layout_simps)
qed

theorem buildAMap_bits_witness:
  "bit (buildAMap (Ib 0x4400) 0x4A00 ! 2) 7 \<and> \<not> bit (buildAMap (Ib 0x4400) 0x4A00 ! 3) 0"
  using buildAMap_bits [where ib = "Ib 0x4400" and k = 23 and fs = "0x4A00"]
    buildAMap_bits [where ib = "Ib 0x4400" and k = 24 and fs = "0x4A00"]
  by (simp add: layout_simps)

lemma buildAMap_pageOk:
  "unat (ib_value ib) + 253952 < 2 ^ 64 \<Longrightarrow>
    pageOk ptype_kAMap (makeAmap (ib_value ib)) ib (buildAMap ib fs)"
  by (simp add: buildAMap_eq pageOk_writePageTrailer amapBits_le)

end
