(* ===== verification/Codec.thy ===== *)
theory Codec
  imports Prelude
begin

text \<open>
  Reading fixed-size records.  \<open>checked\<close> is a read through a pointer of the source: inside the
  buffer it gives the value, outside it is the error \<open>OutOfBounds\<close> (the program would read foreign
  memory).  The locale \<open>record_codec\<close> is the contract between a builder that stores a table of
  records at a fixed stride and a reader that decodes them; every table of the format is an
  interpretation of it.
\<close>

section \<open>Checked reads\<close>

definition checked :: "nat \<Rightarrow> (bytes \<Rightarrow> nat \<Rightarrow> 'a) \<Rightarrow> bytes \<Rightarrow> nat \<Rightarrow> 'a result" where
  "checked n rd buf off = (if off + n \<le> length buf then Inr (rd buf off) else Inl OutOfBounds)"

lemma checked_in [simp]: "off + n \<le> length buf \<Longrightarrow> checked n rd buf off = Inr (rd buf off)"
  by (simp add: checked_def)

lemma checked_out [simp]: "length buf < off + n \<Longrightarrow> checked n rd buf off = Inl OutOfBounds"
  by (simp add: checked_def)

definition elemAt :: "'a list \<Rightarrow> nat \<Rightarrow> 'a result" where
  "elemAt xs i = (if i < length xs then Inr (xs ! i) else Inl OutOfBounds)"

lemma elemAt_in [simp]: "i < length xs \<Longrightarrow> elemAt xs i = Inr (xs ! i)"
  by (simp add: elemAt_def)

lemma mapM_r_elemAt: "n \<le> length xs \<Longrightarrow> mapM_r (elemAt xs) [0..<n] = Inr (take n xs)"
proof -
  assume n: "n \<le> length xs"
  have "mapM_r (elemAt xs) [0..<n] = Inr (map ((!) xs) [0..<n])"
    by (rule mapM_r_Inr) (use n in simp)
  also have "map ((!) xs) [0..<n] = take n xs"
    by (rule nth_equalityI) (use n in simp_all)
  finally show ?thesis .
qed

lemma unat_ucast_32_64 [simp]: "unat (ucast (v :: u32) :: u64) = unat v"
proof -
  have "unat v < 2 ^ LENGTH(32)" by (rule unsigned_less)
  then show ?thesis by (simp add: unsigned_ucast_eq take_bit_nat_eq_self)
qed

lemma entry_room: "i < n \<Longrightarrow> i * w + w \<le> n * w" for i n w :: nat
  using mult_le_mono1 [of "Suc i" n w] by simp

section \<open>Tables of records\<close>

locale record_codec =
  fixes w :: nat and enc :: "'e \<Rightarrow> bytes" and dec :: "bytes \<Rightarrow> nat \<Rightarrow> 'e result"
  assumes enc_length: "length (enc e) = w"
    and dec_enc: "off + w \<le> length p \<Longrightarrow> slice off w p = enc e \<Longrightarrow> dec p off = Inr e"
begin

lemma table_length: "length (concat (map enc es)) = length es * w"
  using enc_length by (rule length_concat_const)

lemma read_entry:
  assumes "slice base (length es * w) p = concat (map enc es)" and "base + length es * w \<le> length p"
    and "i < length es"
  shows "dec p (base + i * w) = Inr (es ! i)"
proof (rule dec_enc)
  have r: "i * w + w \<le> length es * w" using assms(3) by (rule entry_room)
  then show "base + i * w + w \<le> length p" using assms(2) by simp
  have "slice (base + i * w) w p = slice (i * w) w (concat (map enc es))"
    using assms(1) r by (rule slice_field)
  then show "slice (base + i * w) w p = enc (es ! i)"
    using slice_concat_const [of es enc w i] enc_length assms(3) by simp
qed

lemma read_table:
  assumes "slice base (length es * w) p = concat (map enc es)" and "base + length es * w \<le> length p"
  shows "mapM_r (\<lambda>i. dec p (base + i * w)) [0..<length es] = Inr es"
proof -
  have "mapM_r (\<lambda>i. dec p (base + i * w)) [0..<length es] = Inr (map ((!) es) [0..<length es])"
    by (rule mapM_r_Inr) (use read_entry [OF assms] in simp)
  then show ?thesis by (simp add: map_nth)
qed

end

end
