(* ===== verification/Block.thy ===== *)
theory Block
  imports Page Codec
begin

text \<open>
  The builders of \<open>src/block.cpp\<close>: data blocks (encrypted), XBLOCK and XXBLOCK (lists of child
  BIDs), SLBLOCK and SIBLOCK (subnode tables), and the reader of the block trailer.  All of them
  are framed in the same way: body, zero padding to a multiple of 64, trailer of 16 bytes with the
  size, the signature, the CRC of the body without the padding, and the BID.  A pointer and a count
  of the source are one list here; sizes (\<open>size_t\<close> of an allocated vector) are natural numbers.
  The reference reader \<open>openBlock\<close> accepts a block only when its trailer matches.
\<close>

unbundle bit_operations_syntax

section \<open>The model\<close>

definition kInternalBlockHeaderSize :: nat where
  "kInternalBlockHeaderSize = 8"

definition kSlEntrySize :: nat where
  "kSlEntrySize = 24"

definition kSiEntrySize :: nat where
  "kSiEntrySize = 16"

definition kXBlockEntrySize :: nat where
  "kXBlockEntrySize = 8"

text \<open>The mask \<open>& ~(kBlockAlignment - 1)\<close> clears the low six bits.\<close>

definition roundBlockSize :: "nat \<Rightarrow> nat" where
  "roundBlockSize body =
     (let total = body + kBlockTrailerSize
      in push_bit 6 (drop_bit 6 (total + (kBlockAlignment - 1))))"

record SlEntry =
  sl_nid :: Nid
  sl_bidData :: Bid
  sl_bidSub :: Bid

record SiEntry =
  si_nid :: Nid
  si_bid :: Bid

record BlockTrailerView =
  bt_cb :: u16
  bt_wSig :: u16
  bt_dwCRC :: u32
  bt_bid :: u64

definition buildInternalBlock :: "u8 \<Rightarrow> u8 \<Rightarrow> u16 \<Rightarrow> u32 \<Rightarrow> bytes \<Rightarrow> Bid \<Rightarrow> Ib \<Rightarrow> bytes" where
  "buildInternalBlock btype cLevel cEnt lcbTotalOrPad entriesRaw bid ib =
     (let bodyBytes = kInternalBlockHeaderSize + length entriesRaw;
          totalSize = roundBlockSize bodyBytes;
          p = zeros totalSize;
          p = writeU8 p 0 btype;
          p = writeU8 p 1 cLevel;
          p = writeU16 p 2 cEnt;
          p = writeU32 p 4 lcbTotalOrPad;
          p = (if length entriesRaw > 0 then store p kInternalBlockHeaderSize entriesRaw else p);
          trailerOff = totalSize - kBlockTrailerSize;
          dwCRC = crc32 (take bodyBytes p);
          p = writeU16 p (trailerOff + 0) (word_of_nat bodyBytes);
          p = writeU16 p (trailerOff + 2) (computeBlockSig bid ib);
          p = writeU32 p (trailerOff + 4) dwCRC
      in writeU64 p (trailerOff + 8) (bid_value bid))"

definition buildDataBlock :: "bytes \<Rightarrow> Bid \<Rightarrow> Ib \<Rightarrow> CryptMethod \<Rightarrow> bytes" where
  "buildDataBlock payload bid ib m =
     (let cbPayload = length payload;
          totalSize = roundBlockSize cbPayload;
          buf = zeros totalSize;
          buf = (if cbPayload > 0 then store buf 0 payload else buf);
          cyclicKey = ucast (bid_value bid AND 0xFFFFFFFF);
          buf = encodeBlock buf cbPayload m cyclicKey;
          trailerOff = totalSize - kBlockTrailerSize;
          dwCRC = crc32 (take cbPayload buf);
          buf = writeU16 buf (trailerOff + 0) (word_of_nat cbPayload);
          buf = writeU16 buf (trailerOff + 2) (computeBlockSig bid ib);
          buf = writeU32 buf (trailerOff + 4) dwCRC
      in writeU64 buf (trailerOff + 8) (bid_value bid))"

definition buildBidListBlock :: "u8 \<Rightarrow> Bid list \<Rightarrow> u32 \<Rightarrow> Bid \<Rightarrow> Ib \<Rightarrow> bytes" where
  "buildBidListBlock cLevel childBids lcbTotal bid ib =
     (let count = length childBids;
          rgbid = fold (\<lambda>i b. writeU64 b (i * kXBlockEntrySize) (bid_value (childBids ! i)))
                    [0..<count] (zeros (count * kXBlockEntrySize))
      in buildInternalBlock 0x01 cLevel (word_of_nat count) lcbTotal rgbid bid ib)"

definition buildXBlock :: "Bid list \<Rightarrow> u32 \<Rightarrow> Bid \<Rightarrow> Ib \<Rightarrow> bytes" where
  "buildXBlock childBids lcbTotal bid ib = buildBidListBlock 1 childBids lcbTotal bid ib"

definition buildXXBlock :: "Bid list \<Rightarrow> u32 \<Rightarrow> Bid \<Rightarrow> Ib \<Rightarrow> bytes" where
  "buildXXBlock childBids lcbTotal bid ib = buildBidListBlock 2 childBids lcbTotal bid ib"

definition writeSlEntry :: "SlEntry \<Rightarrow> nat \<Rightarrow> bytes \<Rightarrow> bytes" where
  "writeSlEntry e off rg =
     (let rg = writeU64 rg (off + 0) (ucast (nid_value (sl_nid e)));
          rg = writeU64 rg (off + 8) (bid_value (sl_bidData e))
      in writeU64 rg (off + 16) (bid_value (sl_bidSub e)))"

definition buildSlBlock :: "SlEntry list \<Rightarrow> Bid \<Rightarrow> Ib \<Rightarrow> bytes" where
  "buildSlBlock entries bid ib =
     (let count = length entries;
          rg = fold (\<lambda>i. writeSlEntry (entries ! i) (i * kSlEntrySize)) [0..<count]
                 (zeros (count * kSlEntrySize))
      in buildInternalBlock 0x02 0 (word_of_nat count) 0 rg bid ib)"

definition writeSiEntry :: "SiEntry \<Rightarrow> nat \<Rightarrow> bytes \<Rightarrow> bytes" where
  "writeSiEntry e off rg =
     (let rg = writeU64 rg (off + 0) (ucast (nid_value (si_nid e)))
      in writeU64 rg (off + 8) (bid_value (si_bid e)))"

definition buildSiBlock :: "SiEntry list \<Rightarrow> Bid \<Rightarrow> Ib \<Rightarrow> bytes" where
  "buildSiBlock entries bid ib =
     (let count = length entries;
          rg = fold (\<lambda>i. writeSiEntry (entries ! i) (i * kSiEntrySize)) [0..<count]
                 (zeros (count * kSiEntrySize))
      in buildInternalBlock 0x02 1 (word_of_nat count) 0 rg bid ib)"

definition readBlockTrailer :: "bytes \<Rightarrow> nat \<Rightarrow> BlockTrailerView" where
  "readBlockTrailer block n =
     (if n < kBlockTrailerSize then \<lparr>bt_cb = 0, bt_wSig = 0, bt_dwCRC = 0, bt_bid = 0\<rparr>
      else let off = n - kBlockTrailerSize
           in \<lparr>bt_cb = readU16 block (off + 0), bt_wSig = readU16 block (off + 2),
               bt_dwCRC = readU32 block (off + 4), bt_bid = readU64 block (off + 8)\<rparr>)"

section \<open>Sizes\<close>

lemmas block_constants = kInternalBlockHeaderSize_def kSlEntrySize_def kSiEntrySize_def
  kXBlockEntrySize_def kBlockTrailerSize_def kBlockAlignment_def

lemma roundBlockSize_eq: "roundBlockSize n = (n + 79) div 64 * 64"
  by (simp add: roundBlockSize_def Let_def block_constants push_bit_eq_mult drop_bit_eq_div)

lemma roundBlockSize_ge: "n + 16 \<le> roundBlockSize n"
  using div_mult_mod_eq [of "n + 79" 64] mod_less_divisor [of 64 "n + 79"]
  unfolding roundBlockSize_eq by linarith

lemma roundBlockSize_dvd: "64 dvd roundBlockSize n"
  by (simp add: roundBlockSize_eq)

lemma roundBlockSize_minimal:
  assumes "64 dvd m" and "n + 16 \<le> m"
  shows "roundBlockSize n \<le> m"
proof -
  obtain k where k: "m = 64 * k" using assms(1) by (rule dvdE)
  have "(n + 79) div 64 < Suc k" using assms(2) k by (simp add: div_less_iff_less_mult)
  then show ?thesis by (simp add: roundBlockSize_eq k)
qed

text \<open>On \<open>size_t\<close> the code masks with \<open>~63\<close>; below the top of the range that is the same number.\<close>

lemma roundBlockSize_mask:
  assumes "n + 79 < 2 ^ 64"
  shows "unat ((word_of_nat (n + 79) :: u64) AND NOT 63) = roundBlockSize n"
proof -
  let ?w = "word_of_nat (n + 79) :: u64"
  have m: "(63 :: u64) = mask 6" by (simp add: mask_eq_exp_minus_1)
  have u: "unat ?w = n + 79"
    using assms by (simp only: unat_of_nat) (simp add: take_bit_nat_eq_self)
  have "?w AND NOT 63 = push_bit 6 (drop_bit 6 ?w)"
    unfolding m by (rule bit_word_eqI) (auto simp: bit_simps)
  then have "unat (?w AND NOT 63) = take_bit 64 (push_bit 6 (drop_bit 6 (n + 79)))"
    using assms by (simp only: unsigned_push_bit_eq unsigned_drop_bit_eq u)
      (simp add: take_bit_nat_eq_self)
  also have "\<dots> = (n + 79) div 64 * 64"
  proof -
    have "(n + 79) div 64 * 64 < 2 ^ 64"
      using assms div_times_less_eq_dividend [of "n + 79" 64] by linarith
    then show ?thesis
      by (simp only: push_bit_eq_mult drop_bit_eq_div power_numeral) (simp add: take_bit_nat_eq_self)
  qed
  finally show ?thesis by (simp only: roundBlockSize_eq)
qed

section \<open>Framing\<close>

definition blockTrailer :: "nat \<Rightarrow> Bid \<Rightarrow> Ib \<Rightarrow> u32 \<Rightarrow> bytes" where
  "blockTrailer cb bid ib crc =
     le16 (word_of_nat cb) @ le16 (computeBlockSig bid ib) @ le32 crc @ le64 (bid_value bid)"

definition framed :: "bytes \<Rightarrow> Bid \<Rightarrow> Ib \<Rightarrow> bytes" where
  "framed body bid ib =
     body @ zeros (roundBlockSize (length body) - 16 - length body)
     @ blockTrailer (length body) bid ib (crc32 body)"

lemma length_blockTrailer [simp]: "length (blockTrailer cb bid ib crc) = 16"
  by (simp add: blockTrailer_def)

lemma length_framed [buf_simps]: "length (framed body bid ib) = roundBlockSize (length body)"
  using roundBlockSize_ge [of "length body"] by (simp add: framed_def)

lemma take_framed [buf_simps]:
  "n \<le> length body \<Longrightarrow> take n (framed body bid ib) = take n body"
  by (simp add: framed_def)

lemma slice_framed: "off + n \<le> length body \<Longrightarrow> slice off n (framed body bid ib) = slice off n body"
  by (simp add: framed_def slice_append_left)

text \<open>The four stores of a block builder, on a buffer that holds the body and zeros.\<close>

lemma writes_trailer:
  assumes "length p = t + 16"
  shows "writeU64 (writeU32 (writeU16 (writeU16 p (t + 0) a) (t + 2) b) (t + 4) c) (t + 8) d
    = take t p @ le16 a @ le16 b @ le32 c @ le64 d"
proof -
  have "writeU64 (writeU32 (writeU16 (writeU16 p (t + 0) a) (t + 2) b) (t + 4) c) (t + 8) d
    = store p t (le16 a @ le16 b @ le32 c @ le64 d)"
    using assms by (simp add: write_defs store_adjacent)
  then show ?thesis using assms by (simp add: store_def)
qed

lemma writes_framed:
  assumes "p = body @ zeros (roundBlockSize (length body) - length body)"
    and "t = roundBlockSize (length body) - 16"
  shows "writeU64 (writeU32 (writeU16 (writeU16 p (t + 0) (word_of_nat (length body))) (t + 2)
      (computeBlockSig bid ib)) (t + 4) (crc32 body)) (t + 8) (bid_value bid) = framed body bid ib"
proof -
  have ge: "length body + 16 \<le> roundBlockSize (length body)" by (rule roundBlockSize_ge)
  then have "length p = t + 16" and "take t p = body @ zeros (t - length body)"
    using assms by (simp_all add: zeros_def min_def)
  then show ?thesis
    using assms(2) by (simp only: writes_trailer framed_def blockTrailer_def append_assoc)
qed

definition internalBody :: "u8 \<Rightarrow> u8 \<Rightarrow> u16 \<Rightarrow> u32 \<Rightarrow> bytes \<Rightarrow> bytes" where
  "internalBody btype cLevel cEnt x raw = [btype, cLevel] @ le16 cEnt @ le32 x @ raw"

lemma length_internalBody [simp]: "length (internalBody bt cl n x raw) = 8 + length raw"
  by (simp add: internalBody_def)

lemma buildInternalBlock_eq:
  "buildInternalBlock bt cl n x raw bid ib = framed (internalBody bt cl n x raw) bid ib"
proof -
  let ?body = "internalBody bt cl n x raw" and ?r = "roundBlockSize (8 + length raw)"
  have ge: "8 + length raw + 16 \<le> ?r" by (rule roundBlockSize_ge)
  let ?X = "writeU32 (writeU16 (writeU8 (writeU8 (zeros ?r) 0 bt) 1 cl) 2 n) 4 x"
  have X: "?X = store (zeros ?r) 0 ([bt, cl] @ le16 n @ le32 x)"
    using ge by (simp add: write_defs store_adjacent)
  have "(if length raw > 0 then store ?X 8 raw else ?X) = store ?X 8 raw"
    by simp
  also have "\<dots> = store (zeros ?r) 0 ?body"
    unfolding X using ge by (simp add: store_adjacent internalBody_def)
  also have "\<dots> = ?body @ zeros (?r - length ?body)"
    using store_zeros_head [of ?body "?r - length ?body"] ge by simp
  finally have P: "(if length raw > 0 then store ?X 8 raw else ?X) = ?body @ zeros (?r - length ?body)" .
  have T: "take (8 + length raw) (?body @ zeros (?r - length ?body)) = ?body"
    by simp
  show ?thesis
    unfolding buildInternalBlock_def Let_def block_constants P T
    using writes_framed [OF refl refl, of ?body bid ib] by simp
qed

lemma buildDataBlock_eq:
  "buildDataBlock payload bid ib m =
     framed (encodeBlock payload (length payload) m (ucast (bid_value bid AND 0xFFFFFFFF))) bid ib"
proof -
  let ?n = "length payload" and ?k = "ucast (bid_value bid AND 0xFFFFFFFF) :: u32"
  let ?r = "roundBlockSize ?n" and ?e = "encodeBlock payload ?n m ?k"
  have ge: "?n + 16 \<le> ?r" by (rule roundBlockSize_ge)
  have P: "(if ?n > 0 then store (zeros ?r) 0 payload else zeros ?r) = payload @ zeros (?r - ?n)"
    using store_zeros_head [of payload "?r - ?n"] ge by simp
  have E: "encodeBlock (payload @ zeros (?r - ?n)) ?n m ?k = ?e @ zeros (?r - ?n)"
    by (simp add: encodeBlock_def encodePermute_def encodeCyclic_def split: CryptMethod.split)
  have T: "take ?n (?e @ zeros (?r - ?n)) = ?e"
    by simp
  show ?thesis
    unfolding buildDataBlock_def Let_def block_constants P E T
    using writes_framed [OF refl refl, of ?e bid ib] by simp
qed

section \<open>Reading a block\<close>

text \<open>
  A reader takes the trailer, checks size, CRC and signature, and decodes the body of a data
  block; the body of an internal block is not encoded.
\<close>

definition openBlock :: "bytes \<Rightarrow> Ib \<Rightarrow> CryptMethod \<Rightarrow> (Bid \<times> bytes) option" where
  "openBlock block ib m =
     (let t = readBlockTrailer block (length block);
          n = unat (bt_cb t);
          body = take n block;
          bid = Bid (bt_bid t)
      in if length block < n + 16 \<or> crc32 body \<noteq> bt_dwCRC t \<or> computeBlockSig bid ib \<noteq> bt_wSig t
         then None
         else Some (bid, if isInternal bid then body
                         else decodeBlock body n m (ucast (bid_value bid AND 0xFFFFFFFF))))"

lemma readBlockTrailer_at:
  assumes "length b = t + 16" and "drop t b = blockTrailer cb bid ib crc"
  shows "readBlockTrailer b (length b) = \<lparr>bt_cb = word_of_nat cb, bt_wSig = computeBlockSig bid ib,
    bt_dwCRC = crc, bt_bid = bid_value bid\<rparr>"
proof -
  have sl: "slice (t + k) n b = slice k n (blockTrailer cb bid ib crc)" for k n
    using assms(2) slice_drop [of k n t b] by simp
  have "readU16 b t = word_of_nat cb" "readU16 b (t + 2) = computeBlockSig bid ib"
    "readU32 b (t + 4) = crc" "readU64 b (t + 8) = bid_value bid"
    using sl [of 0 2] sl [of 2 2] sl [of 4 4] sl [of 8 8] assms(1)
    by (intro readU_eq; simp add: blockTrailer_def slice_def)+
  then show ?thesis
    using assms(1) by (simp add: readBlockTrailer_def Let_def block_constants)
qed

lemma drop_framed:
  "drop (roundBlockSize (length body) - 16) (framed body bid ib) = blockTrailer (length body) bid ib (crc32 body)"
  using roundBlockSize_ge [of "length body"] by (simp add: framed_def)

lemma readBlockTrailer_framed:
  "readBlockTrailer (framed body bid ib) (length (framed body bid ib)) =
     \<lparr>bt_cb = word_of_nat (length body), bt_wSig = computeBlockSig bid ib,
      bt_dwCRC = crc32 body, bt_bid = bid_value bid\<rparr>"
  by (rule readBlockTrailer_at [where t = "roundBlockSize (length body) - 16"])
     (use roundBlockSize_ge [of "length body"] in \<open>simp_all add: drop_framed length_framed\<close>)

lemma openBlock_framed:
  assumes "length body < 65536"
  shows "openBlock (framed body bid ib) ib m =
    Some (bid, if isInternal bid then body
               else decodeBlock body (length body) m (ucast (bid_value bid AND 0xFFFFFFFF)))"
proof -
  have n: "unat (word_of_nat (length body) :: u16) = length body"
    using assms by (simp add: unat_of_nat take_bit_nat_eq_self)
  have "Bid (bid_value bid) = bid" by simp
  then show ?thesis
    using roundBlockSize_ge [of "length body"]
    unfolding openBlock_def readBlockTrailer_framed Let_def
    by (simp add: n buf_simps)
qed

lemma openBlock_damaged:
  assumes "length body < 65536" and "i < length body" and "x \<noteq> body ! i"
  shows "openBlock ((framed body bid ib)[i := x]) ib m = None"
proof -
  let ?b = "(framed body bid ib)[i := x]" and ?t = "roundBlockSize (length body) - 16"
  have n: "unat (word_of_nat (length body) :: u16) = length body"
    using assms by (simp add: unat_of_nat take_bit_nat_eq_self)
  have ge: "length body + 16 \<le> roundBlockSize (length body)" by (rule roundBlockSize_ge)
  then have "drop ?t ?b = blockTrailer (length body) bid ib (crc32 body)"
    using assms(2) by (simp add: drop_update_cancel drop_framed)
  then have t: "readBlockTrailer ?b (length ?b) = \<lparr>bt_cb = word_of_nat (length body),
      bt_wSig = computeBlockSig bid ib, bt_dwCRC = crc32 body, bt_bid = bid_value bid\<rparr>"
    by (intro readBlockTrailer_at [where t = ?t]) (use ge in \<open>simp_all add: length_framed\<close>)
  have "take (length body) ?b = body[i := x]"
    by (simp add: take_update_swap buf_simps)
  then have "crc32 (take (length body) ?b) \<noteq> crc32 body"
    using crc32_update_neq [OF assms(2,3)] by simp
  then show ?thesis
    unfolding openBlock_def t Let_def by (simp add: n)
qed

section \<open>The entries of internal blocks\<close>

definition encSlEntry :: "SlEntry \<Rightarrow> bytes" where
  "encSlEntry e = le64 (ucast (nid_value (sl_nid e))) @ le64 (bid_value (sl_bidData e)) @ le64 (bid_value (sl_bidSub e))"

definition encSiEntry :: "SiEntry \<Rightarrow> bytes" where
  "encSiEntry e = le64 (ucast (nid_value (si_nid e))) @ le64 (bid_value (si_bid e))"

lemma length_encEntries [simp]: "length (encSlEntry e) = 24" "length (encSiEntry f) = 16"
  by (simp_all add: encSlEntry_def encSiEntry_def)

text \<open>A loop over all entries fills the whole buffer.\<close>

lemma fold_fill:
  assumes "\<And>i b. i < length es \<Longrightarrow> length b = length es * w \<Longrightarrow> f i b = store b (i * w) (enc (es ! i))"
    and "\<And>e. length (enc e) = w"
  shows "fold f [0..<length es] (zeros (length es * w)) = concat (map enc es)"
proof -
  have "fold f [0..<length es] (zeros (length es * w))
      = store (zeros (length es * w)) 0 (concat (map (\<lambda>i. enc (es ! i)) [0..<length es]))"
    by (rule fold_store_cong [where w = w]) (use assms in simp_all)
  also have "\<dots> = concat (map enc es)"
    using store_zeros_head [of "concat (map enc es)" 0]
      length_concat_const [of es enc w] assms(2)
    by (simp add: map_nth_upt zeros_def)
  finally show ?thesis .
qed

lemma buildBidListBlock_eq:
  "buildBidListBlock cl bids x bid ib =
     framed (internalBody 0x01 cl (word_of_nat (length bids)) x (concat (map (\<lambda>b. le64 (bid_value b)) bids))) bid ib"
  using fold_fill [of bids 8 "\<lambda>i b. writeU64 b (i * 8) (bid_value (bids ! i))" "\<lambda>b. le64 (bid_value b)"]
  by (simp add: buildBidListBlock_def Let_def block_constants buildInternalBlock_eq writeU64_def)

lemma buildSlBlock_eq:
  "buildSlBlock es bid ib =
     framed (internalBody 0x02 0 (word_of_nat (length es)) 0 (concat (map encSlEntry es))) bid ib"
proof -
  have "fold (\<lambda>i. writeSlEntry (es ! i) (i * 24)) [0..<length es] (zeros (length es * 24))
      = concat (map encSlEntry es)"
  proof (rule fold_fill)
    fix i b assume "i < length es" "length (b :: bytes) = length es * 24"
    then show "writeSlEntry (es ! i) (i * 24) b = store b (i * 24) (encSlEntry (es ! i))"
      using entry_room [of i "length es" 24]
      by (simp add: writeSlEntry_def Let_def write_defs store_adjacent encSlEntry_def)
  qed simp
  then show ?thesis
    by (simp add: buildSlBlock_def Let_def block_constants buildInternalBlock_eq)
qed

lemma buildSiBlock_eq:
  "buildSiBlock es bid ib =
     framed (internalBody 0x02 1 (word_of_nat (length es)) 0 (concat (map encSiEntry es))) bid ib"
proof -
  have "fold (\<lambda>i. writeSiEntry (es ! i) (i * 16)) [0..<length es] (zeros (length es * 16))
      = concat (map encSiEntry es)"
  proof (rule fold_fill)
    fix i b assume "i < length es" "length (b :: bytes) = length es * 16"
    then show "writeSiEntry (es ! i) (i * 16) b = store b (i * 16) (encSiEntry (es ! i))"
      using entry_room [of i "length es" 16]
      by (simp add: writeSiEntry_def Let_def write_defs store_adjacent encSiEntry_def)
  qed simp
  then show ?thesis
    by (simp add: buildSiBlock_def Let_def block_constants buildInternalBlock_eq)
qed

text \<open>What a reader finds at the front of an internal block, and in its entry area.\<close>

lemma internal_reads:
  assumes "b = framed (internalBody bt cl n x raw) bid ib"
  shows "b ! 0 = bt" "b ! 1 = cl" "readU16 b 2 = n" "readU32 b 4 = x"
proof -
  obtain rest where b: "b = [bt, cl] @ le16 n @ le32 x @ rest"
    using assms by (simp add: framed_def internalBody_def)
  show "b ! 0 = bt" "b ! 1 = cl" by (subst b; simp)+
  show "readU16 b 2 = n" by (rule readU16_eq; subst b) (simp_all add: slice_def)
  show "readU32 b 4 = x" by (rule readU32_eq; subst b) (simp_all add: slice_def)
qed

lemma internal_entry:
  assumes "\<And>e. length (enc e) = w" and "i < length es" and "k + n \<le> w"
  shows "slice (8 + i * w + k) n (framed (internalBody bt cl c x (concat (map enc es))) bid ib)
    = slice k n (enc (es ! i))"
proof -
  have len: "length (concat (map enc es)) = length es * w"
    using assms(1) by (rule length_concat_const)
  have "slice (8 + i * w) w (framed (internalBody bt cl c x (concat (map enc es))) bid ib)
      = slice (i * w) w (concat (map enc es))"
    using entry_room [OF assms(2), of w] len slice_append_right [of "[bt, cl] @ le16 c @ le32 x" "8 + i * w" w]
    by (simp add: slice_framed internalBody_def)
  then have "slice (8 + i * w) w (framed (internalBody bt cl c x (concat (map enc es))) bid ib) = enc (es ! i)"
    using slice_concat_const [of es enc w i] assms(1,2) by simp
  then show ?thesis using assms(3) by (rule slice_field)
qed

section \<open>Properties\<close>

text \<open>
  C16: a data block can be read back.  For every payload whose size fits the 16-bit field and every
  cipher, a reader that checks the size, the CRC of the stored bytes and the signature accepts the
  block and gets the BID and the plaintext.
\<close>

theorem buildDataBlock_roundtrip:
  assumes "length payload < 2 ^ 16" and "isData bid"
  shows "openBlock (buildDataBlock payload bid ib m) ib m = Some (bid, payload)"
proof -
  have "\<not> isInternal bid" using assms(2) by (simp add: isData_def isInternal_def)
  then show ?thesis
    using assms(1) cipher.dec_enc [where d = payload]
    by (simp add: buildDataBlock_eq openBlock_framed)
qed

theorem buildDataBlock_roundtrip_witness:
  "openBlock (buildDataBlock [1, 2, 3] (Bid 4) (Ib 0x4600) CryptCyclic) (Ib 0x4600) CryptCyclic
     = Some (Bid 4, [1, 2, 3])"
  by (rule buildDataBlock_roundtrip) (simp_all add: isData_def)

text \<open>
  C37: damage to a data block does not go unnoticed.  When any one stored byte of the payload is
  replaced by another value, the reader rejects the block.
\<close>

theorem buildDataBlock_detects_damage:
  fixes payload :: bytes
  assumes "length payload < 2 ^ 16" and "i < length payload"
    and "x \<noteq> buildDataBlock payload bid ib m ! i"
  shows "openBlock ((buildDataBlock payload bid ib m)[i := x]) ib m = None"
proof -
  let ?e = "encodeBlock payload (length payload) m (ucast (bid_value bid AND 0xFFFFFFFF))"
  have "framed ?e bid ib ! i = ?e ! i" using assms(2) by (simp add: framed_def nth_append)
  then show ?thesis
    using assms openBlock_damaged [of ?e i x bid ib m] by (simp add: buildDataBlock_eq)
qed

theorem buildDataBlock_detects_damage_witness:
  "openBlock ((buildDataBlock [7, 8] (Bid 4) (Ib 0x4600) CryptNone)[1 := 9]) (Ib 0x4600) CryptNone = None"
proof (rule buildDataBlock_detects_damage)
  show "9 \<noteq> buildDataBlock [7, 8] (Bid 4) (Ib 0x4600) CryptNone ! 1"
    by (simp add: buildDataBlock_eq framed_def encodeBlock_def)
qed simp_all

text \<open>
  The size of every block is the smallest multiple of 64 that holds the body and the 16-byte
  trailer, and the size field, CRC and BID of the trailer are those of the body: the count of
  bytes before the padding, taken modulo \<open>2 ^ 16\<close>, the CRC of exactly these bytes, and the raw BID.
\<close>

theorem internalBlock_frame:
  fixes raw :: bytes and bt cl :: u8 and n :: u16 and x :: u32 and bid :: Bid and ib :: Ib
  defines "b \<equiv> buildInternalBlock bt cl n x raw bid ib" and "k \<equiv> 8 + length raw"
  shows "64 dvd length b \<and> k + 16 \<le> length b \<and> length b < k + 16 + 64
    \<and> slice 8 (length raw) b = raw
    \<and> slice k (length b - 16 - k) b = zeros (length b - 16 - k)
    \<and> readBlockTrailer b (length b) =
        \<lparr>bt_cb = word_of_nat k, bt_wSig = computeBlockSig bid ib,
         bt_dwCRC = crc32 (take k b), bt_bid = bid_value bid\<rparr>"
proof -
  let ?body = "internalBody bt cl n x raw"
  have b: "b = framed ?body bid ib" and k: "k = length ?body"
    by (simp_all add: b_def k_def buildInternalBlock_eq)
  have l: "length b = roundBlockSize k" by (simp add: b k length_framed)
  have "roundBlockSize k < k + 16 + 64"
    using div_times_less_eq_dividend [of "k + 79" 64] by (simp add: roundBlockSize_eq)
  moreover have "slice 8 (length raw) b = raw"
    unfolding b by (simp add: slice_framed) (simp add: internalBody_def slice_def)
  moreover have "slice k (length b - 16 - k) b = zeros (length b - 16 - k)"
    using l by (simp add: b k framed_def slice_def zeros_def)
  moreover have "readBlockTrailer b (length b) =
      \<lparr>bt_cb = word_of_nat k, bt_wSig = computeBlockSig bid ib,
       bt_dwCRC = crc32 (take k b), bt_bid = bid_value bid\<rparr>"
    unfolding b k by (simp add: readBlockTrailer_framed take_framed)
  ultimately show ?thesis
    using roundBlockSize_dvd [of k] roundBlockSize_ge [of k] l by simp
qed

text \<open>
  The list of children that an XBLOCK or XXBLOCK carries can be read back: the level and total
  size fields hold the arguments, the count field the number of children, and child \<open>i\<close> is the
  64-bit number at offset \<open>8 + 8 * i\<close>.
\<close>

theorem buildXBlock_children:
  assumes "length bids < 2 ^ 16" and "i < length bids"
    and "b = buildXBlock bids lcbTotal bid ib \<and> cl = 1 \<or> b = buildXXBlock bids lcbTotal bid ib \<and> cl = 2"
  shows "b ! 0 = 0x01 \<and> b ! 1 = cl \<and> unat (readU16 b 2) = length bids \<and> readU32 b 4 = lcbTotal
    \<and> readU64 b (8 + i * 8) = bid_value (bids ! i)"
proof -
  let ?raw = "concat (map (\<lambda>b. le64 (bid_value b)) bids)"
  have b: "b = framed (internalBody 0x01 cl (word_of_nat (length bids)) lcbTotal ?raw) bid ib"
    using assms(3) by (auto simp: buildXBlock_def buildXXBlock_def buildBidListBlock_eq)
  have "length b = roundBlockSize (8 + length bids * 8)"
    by (simp add: b length_framed length_concat_const)
  then have "8 + i * 8 + 8 \<le> length b"
    using roundBlockSize_ge [of "8 + length bids * 8"] entry_room [OF assms(2), of 8] by linarith
  then have "readU64 b (8 + i * 8) = bid_value (bids ! i)"
    using internal_entry [of "\<lambda>b. le64 (bid_value b)" 8 i bids 0 8] assms(2)
    by (intro readU64_eq) (simp_all add: b slice_def)
  moreover have "unat (word_of_nat (length bids) :: u16) = length bids"
    using assms(1) by (simp add: unat_of_nat take_bit_nat_eq_self)
  ultimately show ?thesis
    using internal_reads [OF b] by simp
qed

theorem buildXBlock_children_witness:
  "readU64 (buildXBlock [Bid 4, Bid 8] 16000 (Bid 14) (Ib 0x4600)) 16 = 8"
  using buildXBlock_children [of "[Bid 4, Bid 8]" 1 _ 16000 "Bid 14" "Ib 0x4600" 1] by simp

text \<open>
  The subnode tables can be read back: entry \<open>i\<close> of an SLBLOCK gives the NID, zero-extended to
  64 bits, the BID of its data and the BID of its own subnode table, and entry \<open>i\<close> of an SIBLOCK the
  NID and the BID of the table it stands for.
\<close>

theorem buildSlBlock_entries:
  assumes "i < length es" and "b = buildSlBlock es bid ib"
    and "j < length fs" and "c = buildSiBlock fs bid ib"
  shows "unat (readU64 b (8 + i * 24)) = unat (nid_value (sl_nid (es ! i)))
    \<and> readU64 b (8 + i * 24 + 8) = bid_value (sl_bidData (es ! i))
    \<and> readU64 b (8 + i * 24 + 16) = bid_value (sl_bidSub (es ! i))
    \<and> unat (readU64 c (8 + j * 16)) = unat (nid_value (si_nid (fs ! j)))
    \<and> readU64 c (8 + j * 16 + 8) = bid_value (si_bid (fs ! j))
    \<and> b ! 0 = 0x02 \<and> b ! 1 = 0 \<and> c ! 0 = 0x02 \<and> c ! 1 = 1"
proof -
  have b: "b = framed (internalBody 0x02 0 (word_of_nat (length es)) 0 (concat (map encSlEntry es))) bid ib"
    and c: "c = framed (internalBody 0x02 1 (word_of_nat (length fs)) 0 (concat (map encSiEntry fs))) bid ib"
    using assms(2,4) by (simp_all add: buildSlBlock_eq buildSiBlock_eq)
  have "length b = roundBlockSize (8 + length es * 24)" "length c = roundBlockSize (8 + length fs * 16)"
    by (simp_all add: b c length_framed length_concat_const)
  then have l: "8 + i * 24 + 24 \<le> length b" "8 + j * 16 + 16 \<le> length c"
    using roundBlockSize_ge [of "8 + length es * 24"] entry_room [OF assms(1), of 24]
      roundBlockSize_ge [of "8 + length fs * 16"] entry_room [OF assms(3), of 16] by linarith+
  have sl: "slice (8 + i * 24 + k) 8 b = slice k 8 (encSlEntry (es ! i))" if "k + 8 \<le> 24" for k
    unfolding b using length_encEntries(1) assms(1) that by (rule internal_entry)
  have si: "slice (8 + j * 16 + k) 8 c = slice k 8 (encSiEntry (fs ! j))" if "k + 8 \<le> 16" for k
    unfolding c using length_encEntries(2) assms(3) that by (rule internal_entry)
  have "readU64 b (8 + i * 24 + 0) = ucast (nid_value (sl_nid (es ! i)))"
    "readU64 b (8 + i * 24 + 8) = bid_value (sl_bidData (es ! i))"
    "readU64 b (8 + i * 24 + 16) = bid_value (sl_bidSub (es ! i))"
    using l(1) sl [of 0] sl [of 8] sl [of 16]
    by (intro readU64_eq; simp add: encSlEntry_def slice_def)+
  moreover have "readU64 c (8 + j * 16 + 0) = ucast (nid_value (si_nid (fs ! j)))"
    "readU64 c (8 + j * 16 + 8) = bid_value (si_bid (fs ! j))"
    using l(2) si [of 0] si [of 8]
    by (intro readU64_eq; simp add: encSiEntry_def slice_def)+
  ultimately show ?thesis
    using internal_reads(1,2) [OF b] internal_reads(1,2) [OF c] by simp
qed

theorem buildSlBlock_entries_witness:
  "readU64 (buildSlBlock [\<lparr>sl_nid = Nid 0x671, sl_bidData = Bid 4, sl_bidSub = Bid 0\<rparr>] (Bid 10) (Ib 0x4600)) 16 = 4"
  using buildSlBlock_entries [of 0 "[\<lparr>sl_nid = Nid 0x671, sl_bidData = Bid 4, sl_bidSub = Bid 0\<rparr>]" _ "Bid 10"
      "Ib 0x4600" 0 "[\<lparr>si_nid = Nid 0x671, si_bid = Bid 10\<rparr>]"] by simp

end
