(* ===== verification/Allocator.thy ===== *)
theory Allocator
  imports Types
begin

text \<open>
  The NID allocation service of \<open>src/m5_allocator.cpp\<close>: the set of NIDs in use and one counter per
  NID type.  A call returns a value or an exception together with the state after it, because a
  failing \<open>allocate\<close> keeps the counter it has advanced.  The contract that clients rely on, that no
  NID is handed out twice, is the locale \<open>fresh_supply\<close>.
\<close>

unbundle bit_operations_syntax

section \<open>The contract of a supply of fresh names\<close>

text \<open>Performing operations in order collects the names they grant; a failing call grants none.\<close>

fun runOps :: "('op \<Rightarrow> 's \<Rightarrow> 'n result \<times> 's) \<Rightarrow> 'op list \<Rightarrow> 's \<Rightarrow> 'n list \<times> 's" where
  "runOps step [] s = ([], s)"
| "runOps step (op # ops) s =
     (let (r, s1) = step op s; (ns, s2) = runOps step ops s1
      in (case r of Inl _ \<Rightarrow> ns | Inr n \<Rightarrow> n # ns, s2))"

locale fresh_supply =
  fixes ok :: "'s \<Rightarrow> bool" and used :: "'s \<Rightarrow> 'n set" and step :: "'op \<Rightarrow> 's \<Rightarrow> 'n result \<times> 's"
  assumes step_ok: "ok s \<Longrightarrow> step op s = (r, s') \<Longrightarrow> ok s'"
    and step_grant: "ok s \<Longrightarrow> step op s = (Inr n, s') \<Longrightarrow> n \<notin> used s \<and> used s' = insert n (used s)"
    and step_error: "ok s \<Longrightarrow> step op s = (Inl e, s') \<Longrightarrow> used s' = used s"
begin

lemma runOps_ok: "ok s \<Longrightarrow> runOps step ops s = (ns, s') \<Longrightarrow> ok s'"
proof (induction ops arbitrary: s ns s')
  case (Cons op ops)
  then show ?case by (auto simp: Let_def split: prod.splits dest: step_ok)
qed simp

lemma runOps_fresh:
  "ok s \<Longrightarrow> runOps step ops s = (ns, s') \<Longrightarrow>
    distinct ns \<and> set ns \<inter> used s = {} \<and> used s' = used s \<union> set ns"
proof (induction ops arbitrary: s ns s')
  case (Cons op ops)
  obtain r s1 where r: "step op s = (r, s1)" by fastforce
  obtain ms s2 where m: "runOps step ops s1 = (ms, s2)" by fastforce
  have IH: "distinct ms \<and> set ms \<inter> used s1 = {} \<and> used s2 = used s1 \<union> set ms"
    using Cons.IH [OF step_ok [OF Cons.prems(1) r] m] .
  show ?case
  proof (cases r)
    case (Inl e)
    then show ?thesis using IH step_error [OF Cons.prems(1), of op e s1] Cons.prems(2) r m by simp
  next
    case (Inr n)
    then show ?thesis using IH step_grant [OF Cons.prems(1), of op n s1] Cons.prems(2) r m by auto
  qed
qed simp

end

section \<open>The model\<close>

definition kReservedTable :: "Nid list" where
  "kReservedTable =
     [Nid 0x21, Nid 0x61, Nid 0xA1, Nid 0xC1, Nid 0x122, Nid 0x1E1, Nid 0x201, Nid 0x241,
      Nid 0x261, Nid 0x281, Nid 0x2A1, Nid 0x2E1, Nid 0x301, Nid 0x321]"

definition kMaxNidIndex :: u32 where
  "kMaxNidIndex = push_bit 27 1"

definition kUserAllocStart :: u32 where
  "kUserAllocStart = 0x400"

record M5Allocator =
  m5_allocated :: "u32 set"
  m5_nextIndex :: "u32 list"

definition isValidNidType :: "NidType \<Rightarrow> bool" where
  "isValidNidType nt =
     (let v = (ucast (nidTypeVal nt) AND 0x1F :: u32)
      in if v = 0x00 \<or> v = 0x1F then True
         else if v \<ge> 0x01 \<and> v \<le> 0x08 then True
         else if v \<ge> 0x0A \<and> v \<le> 0x13 then True
         else False)"

definition typeSlot :: "NidType \<Rightarrow> nat" where
  "typeSlot nt = unat (ucast (nidTypeVal nt) AND 0x1F :: u32)"

definition newAllocator :: M5Allocator where
  "newAllocator =
     (let next = replicate 32 kUserAllocStart;
          next = next[typeSlot NtHID := 1];
          next = next[typeSlot NtInternal := 1]
      in \<lparr>m5_allocated = fold (\<lambda>n. insert (nid_value n)) kReservedTable {}, m5_nextIndex = next\<rparr>)"

lemma index_step: "idx < kMaxNidIndex \<Longrightarrow> unat (idx + 1) = unat idx + 1 \<and> unat idx < 2 ^ 27"
proof -
  assume "idx < kMaxNidIndex"
  then have "unat idx < 2 ^ 27" by (simp add: word_less_nat_alt kMaxNidIndex_def)
  then show ?thesis by (simp add: unat_word_ariths)
qed

text \<open>The loop of \<open>allocate\<close>: the result and the counter after it.\<close>

function allocLoop :: "NidType \<Rightarrow> u32 set \<Rightarrow> u32 \<Rightarrow> Nid result \<times> u32" where
  "allocLoop nt allocated idx =
     (if idx \<ge> kMaxNidIndex
      then (Inl (RuntimeError ''M5Allocator::allocate: 27-bit nidIndex counter exhausted''), idx)
      else let candidate = mkNid nt idx
           in if nid_value candidate \<notin> allocated then (Inr candidate, idx + 1)
              else allocLoop nt allocated (idx + 1))"
  by pat_completeness auto

termination
  by (relation "measure (\<lambda>(_, _, idx). 2 ^ 27 - unat idx)") (auto simp: not_le dest!: index_step)

declare allocLoop.simps [simp del]

definition allocate :: "NidType \<Rightarrow> M5Allocator \<Rightarrow> Nid result \<times> M5Allocator" where
  "allocate nt s =
     (if \<not> isValidNidType nt
      then (Inl (RuntimeError ''M5Allocator::allocate: invalid nidType''), s)
      else let typeBits = typeSlot nt;
               (r, idx) = allocLoop nt (m5_allocated s) (m5_nextIndex s ! typeBits);
               s = s\<lparr>m5_nextIndex := (m5_nextIndex s)[typeBits := idx]\<rparr>
           in case r of Inl e \<Rightarrow> (Inl e, s)
              | Inr n \<Rightarrow> (Inr n, s\<lparr>m5_allocated := insert (nid_value n) (m5_allocated s)\<rparr>))"

definition registerExternal :: "Nid \<Rightarrow> M5Allocator \<Rightarrow> unit result \<times> M5Allocator" where
  "registerExternal nid s =
     (if \<not> isValidNidType (nid_type nid)
      then (Inl (RuntimeError ''M5Allocator::registerExternal: NID has invalid nidType''), s)
      else if nid_value nid \<in> m5_allocated s
      then (Inl (RuntimeError ''M5Allocator::registerExternal: NID already allocated''), s)
      else (Inr (), s\<lparr>m5_allocated := insert (nid_value nid) (m5_allocated s)\<rparr>))"

definition isAllocated :: "Nid \<Rightarrow> M5Allocator \<Rightarrow> bool" where
  "isAllocated nid s \<longleftrightarrow> nid_value nid \<in> m5_allocated s"

definition allocatedCount :: "M5Allocator \<Rightarrow> nat" where
  "allocatedCount s = card (m5_allocated s)"

datatype ReservedNid =
    RnMessageStore | RnNameToIdMap | RnNormalFolderTemplate | RnSearchFolderTemplate | RnRootFolder
  | RnSearchManagementQueue | RnSearchActivityList | RnReserved1 | RnSearchDomainObject
  | RnSearchGathererQueue | RnSearchGathererDescriptor | RnReserved2 | RnReserved3
  | RnSearchGathererFolderQueue

fun reservedNidFor :: "ReservedNid \<Rightarrow> Nid" where
  "reservedNidFor RnMessageStore = Nid 0x21"
| "reservedNidFor RnNameToIdMap = Nid 0x61"
| "reservedNidFor RnNormalFolderTemplate = Nid 0xA1"
| "reservedNidFor RnSearchFolderTemplate = Nid 0xC1"
| "reservedNidFor RnRootFolder = Nid 0x122"
| "reservedNidFor RnSearchManagementQueue = Nid 0x1E1"
| "reservedNidFor RnSearchActivityList = Nid 0x201"
| "reservedNidFor RnReserved1 = Nid 0x241"
| "reservedNidFor RnSearchDomainObject = Nid 0x261"
| "reservedNidFor RnSearchGathererQueue = Nid 0x281"
| "reservedNidFor RnSearchGathererDescriptor = Nid 0x2A1"
| "reservedNidFor RnReserved2 = Nid 0x2E1"
| "reservedNidFor RnReserved3 = Nid 0x301"
| "reservedNidFor RnSearchGathererFolderQueue = Nid 0x321"

section \<open>The loop\<close>

lemma typeSlot_lt [simp]: "typeSlot nt < 32"
proof -
  have "ucast (nidTypeVal nt) AND 0x1F \<le> (0x1F :: u32)" by (rule word_and_le1)
  then have "unat (ucast (nidTypeVal nt) AND 0x1F :: u32) \<le> unat (0x1F :: u32)"
    by (simp only: word_le_nat_alt)
  then show ?thesis by (simp add: typeSlot_def)
qed

lemma and_mask_index: "k < kMaxNidIndex \<Longrightarrow> k AND mask 27 = k"
  using index_step [of k]
  by (simp add: word_unat_eq_iff unsigned_take_bit_eq take_bit_nat_eq_self flip: take_bit_eq_mask)

lemma mkNid_inject:
  assumes "mkNid nt i = mkNid nt' j" and "i < kMaxNidIndex" and "j < kMaxNidIndex"
  shows "i = j"
proof -
  show ?thesis
    using assms nid_index_mkNid [of nt i] nid_index_mkNid [of nt' j] by (simp add: mask27 and_mask_index)
qed

lemma allocLoop_cases:
  assumes "allocLoop nt A idx = (r, idx')" and "idx \<le> kMaxNidIndex"
  obtains (grant) k where "r = Inr (mkNid nt k)" "idx \<le> k" "k < kMaxNidIndex" "idx' = k + 1"
      "nid_value (mkNid nt k) \<notin> A" "\<And>j. idx \<le> j \<Longrightarrow> j < k \<Longrightarrow> nid_value (mkNid nt j) \<in> A"
  | (full) e where "r = Inl e" "idx' = kMaxNidIndex"
      "\<And>j. idx \<le> j \<Longrightarrow> j < kMaxNidIndex \<Longrightarrow> nid_value (mkNid nt j) \<in> A"
  using assms
proof (induction nt A idx arbitrary: thesis rule: allocLoop.induct)
  case (1 nt A idx)
  consider "idx = kMaxNidIndex" | "idx < kMaxNidIndex" "nid_value (mkNid nt idx) \<notin> A"
    | "idx < kMaxNidIndex" "nid_value (mkNid nt idx) \<in> A"
    using "1.prems"(4) by fastforce
  then show ?case
  proof cases
    case 1
    then show ?thesis using "1.prems"(2,3) by (auto simp: allocLoop.simps)
  next
    case 2
    then have "\<not> kMaxNidIndex \<le> idx" by simp
    then have "r = Inr (mkNid nt idx)" "idx' = idx + 1"
      using "1.prems"(3) 2(2) by (simp_all add: allocLoop.simps [of nt A idx])
    then show ?thesis using "1.prems"(1) 2 by force
  next
    case 3
    then have s: "idx < idx + 1" "idx + 1 \<le> kMaxNidIndex"
      using index_step [OF 3(1)] by (simp_all add: word_less_nat_alt word_le_nat_alt kMaxNidIndex_def)
    have "\<not> kMaxNidIndex \<le> idx" using 3 by simp
    then have r: "allocLoop nt A (idx + 1) = (r, idx')"
      using 3(2) "1.prems"(3) by (simp add: allocLoop.simps [of nt A idx])
    have j: "j = idx \<or> idx + 1 \<le> j" if "idx \<le> j" for j
      using that index_step [OF 3(1)] by (auto simp: word_le_nat_alt word_unat_eq_iff)
    show ?thesis
    proof (rule "1.IH" [OF _ refl _ _ _ r s(2)])
      show "\<not> kMaxNidIndex \<le> idx" "\<not> nid_value (mkNid nt idx) \<notin> A" using 3 by simp_all
    next
      fix k assume k: "r = Inr (mkNid nt k)" "idx + 1 \<le> k" "k < kMaxNidIndex" "idx' = k + 1"
        "nid_value (mkNid nt k) \<notin> A" and below: "\<And>j. idx + 1 \<le> j \<Longrightarrow> j < k \<Longrightarrow> nid_value (mkNid nt j) \<in> A"
      show thesis
      proof (rule "1.prems"(1) [OF k(1) _ k(3-5)])
        show "idx \<le> k" using s(1) k(2) by simp
        show "nid_value (mkNid nt i) \<in> A" if "idx \<le> i" "i < k" for i
          using j [OF that(1)] below [OF _ that(2)] 3(2) by blast
      qed
    next
      fix e assume e: "r = Inl e" "idx' = kMaxNidIndex"
        and above: "\<And>j. idx + 1 \<le> j \<Longrightarrow> j < kMaxNidIndex \<Longrightarrow> nid_value (mkNid nt j) \<in> A"
      show thesis
      proof (rule "1.prems"(2) [OF e])
        show "nid_value (mkNid nt i) \<in> A" if "idx \<le> i" "i < kMaxNidIndex" for i
          using j [OF that(1)] above [OF _ that(2)] 3(2) by blast
      qed
    qed
  qed
qed

section \<open>States, and what an operation does to them\<close>

text \<open>A counter for each of the 32 type slots, none past the end of the index space.\<close>

definition m5_ok :: "M5Allocator \<Rightarrow> bool" where
  "m5_ok s \<longleftrightarrow> finite (m5_allocated s) \<and> length (m5_nextIndex s) = 32
     \<and> (\<forall>c \<in> set (m5_nextIndex s). c \<le> kMaxNidIndex)"

definition m5_used :: "M5Allocator \<Rightarrow> Nid set" where
  "m5_used s = {n. isAllocated n s}"

lemma nid_value_inject [simp]: "nid_value a = nid_value b \<longleftrightarrow> a = b"
  by (auto intro: Nid.expand)

lemma m5_used_insert:
  "m5_allocated s' = insert (nid_value n) (m5_allocated s) \<Longrightarrow> m5_used s' = insert n (m5_used s)"
  by (auto simp: m5_used_def isAllocated_def)

lemma m5_used_next [simp]: "m5_used (s\<lparr>m5_nextIndex := xs\<rparr>) = m5_used s"
  by (simp add: m5_used_def isAllocated_def)

lemma m5_ok_counter: "m5_ok s \<Longrightarrow> m5_nextIndex s ! typeSlot nt \<le> kMaxNidIndex"
  by (auto simp: m5_ok_def)

lemma m5_ok_update:
  "m5_ok s \<Longrightarrow> c \<le> kMaxNidIndex \<Longrightarrow> m5_ok (s\<lparr>m5_nextIndex := (m5_nextIndex s)[t := c]\<rparr>)"
  using set_update_subset_insert [of "m5_nextIndex s" t c] by (auto simp: m5_ok_def)

lemma m5_ok_insert: "m5_ok s \<Longrightarrow> m5_ok (s\<lparr>m5_allocated := insert v (m5_allocated s)\<rparr>)"
  by (simp add: m5_ok_def)

text \<open>The two outcomes of a call of \<open>allocate\<close> with a valid type.\<close>

lemma allocate_cases:
  assumes "m5_ok s" and "isValidNidType nt" and "allocate nt s = (r, s')"
  defines "c \<equiv> m5_nextIndex s ! typeSlot nt"
  obtains (grant) k where "r = Inr (mkNid nt k)" "c \<le> k" "k < kMaxNidIndex"
      "\<not> isAllocated (mkNid nt k) s" "\<And>j. c \<le> j \<Longrightarrow> j < k \<Longrightarrow> isAllocated (mkNid nt j) s"
      "s' = s\<lparr>m5_nextIndex := (m5_nextIndex s)[typeSlot nt := k + 1],
              m5_allocated := insert (nid_value (mkNid nt k)) (m5_allocated s)\<rparr>"
  | (full) e where "r = Inl e" "\<And>j. c \<le> j \<Longrightarrow> j < kMaxNidIndex \<Longrightarrow> isAllocated (mkNid nt j) s"
      "s' = s\<lparr>m5_nextIndex := (m5_nextIndex s)[typeSlot nt := kMaxNidIndex]\<rparr>"
proof -
  obtain q idx where l: "allocLoop nt (m5_allocated s) c = (q, idx)" by fastforce
  have c: "c \<le> kMaxNidIndex" unfolding c_def using assms(1) by (rule m5_ok_counter)
  from l c show thesis
  proof (cases rule: allocLoop_cases)
    case (grant k)
    then show thesis
      using that(1) [of k] assms(2,3) l
      by (simp add: allocate_def Let_def isAllocated_def c_def)
  next
    case (full e)
    then show thesis
      using that(2) [of e] assms(2,3) l
      by (simp add: allocate_def Let_def isAllocated_def c_def)
  qed
qed

lemma allocate_invalid: "\<not> isValidNidType nt \<Longrightarrow> allocate nt s = (r, s') \<Longrightarrow> s' = s \<and> (\<exists>e. r = Inl e)"
  by (auto simp: allocate_def)

lemma registerExternal_cases:
  assumes "registerExternal n s = (r, s')"
  shows "r = Inr () \<and> \<not> isAllocated n s \<and> isValidNidType (nid_type n)
      \<and> s' = s\<lparr>m5_allocated := insert (nid_value n) (m5_allocated s)\<rparr>
    \<or> (\<exists>e. r = Inl e) \<and> s' = s \<and> (isAllocated n s \<or> \<not> isValidNidType (nid_type n))"
  using assms by (auto simp: registerExternal_def isAllocated_def split: if_splits)

text \<open>The operations that grant a NID, and their interface as a fresh supply.\<close>

datatype m5_op = Allocate NidType | Register Nid

fun m5_step :: "m5_op \<Rightarrow> M5Allocator \<Rightarrow> Nid result \<times> M5Allocator" where
  "m5_step (Allocate nt) s = allocate nt s"
| "m5_step (Register n) s = (let (r, s') = registerExternal n s in (bind_r r (\<lambda>_. Inr n), s'))"

lemma allocate_effect:
  assumes ok: "m5_ok s" and a: "allocate nt s = (r, s')"
  shows "m5_ok s' \<and> (case r of Inl e \<Rightarrow> m5_used s' = m5_used s
    | Inr n \<Rightarrow> n \<notin> m5_used s \<and> m5_used s' = insert n (m5_used s))"
proof (cases "isValidNidType nt")
  case True
  from ok True a show ?thesis
  proof (cases rule: allocate_cases)
    case (grant k)
    have "k + 1 \<le> kMaxNidIndex"
      using grant(3) index_step [of k] by (simp add: word_le_nat_alt kMaxNidIndex_def)
    then have "m5_ok s'" using ok grant(6) m5_ok_insert m5_ok_update by fastforce
    then show ?thesis
      using grant m5_used_insert [of s' "mkNid nt k" s] by (simp add: m5_used_def)
  next
    case (full e)
    then show ?thesis using m5_ok_update [OF ok] by simp
  qed
next
  case False
  then show ?thesis using allocate_invalid [OF False a] ok by auto
qed

lemma m5_step_effect:
  assumes "m5_ok s" and "m5_step op s = (r, s')"
  shows "m5_ok s' \<and> (case r of Inl e \<Rightarrow> m5_used s' = m5_used s
    | Inr n \<Rightarrow> n \<notin> m5_used s \<and> m5_used s' = insert n (m5_used s))"
proof (cases op)
  case (Allocate nt)
  then show ?thesis using assms allocate_effect by simp
next
  case (Register n)
  obtain q u where q: "registerExternal n s = (q, u)" by fastforce
  then show ?thesis
    using registerExternal_cases [OF q] assms Register m5_ok_insert [OF assms(1)]
      m5_used_insert [of u n s]
    by (auto simp: m5_used_def)
qed

interpretation m5: fresh_supply m5_ok m5_used m5_step
proof unfold_locales
  fix op s r s' assume "m5_ok s" "m5_step op s = (r, s')"
  then show "m5_ok s'" using m5_step_effect by blast
next
  fix op s n s' assume "m5_ok s" "m5_step op s = (Inr n, s')"
  then show "n \<notin> m5_used s \<and> m5_used s' = insert n (m5_used s)" using m5_step_effect by fastforce
next
  fix op s e s' assume "m5_ok s" "m5_step op s = (Inl e, s')"
  then show "m5_used s' = m5_used s" using m5_step_effect by fastforce
qed

section \<open>Reachable states\<close>

inductive m5_reachable :: "M5Allocator \<Rightarrow> bool" where
  new: "m5_reachable newAllocator"
| step: "m5_reachable s \<Longrightarrow> m5_step op s = (r, s') \<Longrightarrow> m5_reachable s'"

inductive_cases m5_reachableE: "m5_reachable s"

lemmas newAllocator_simps = newAllocator_def kReservedTable_def typeSlot_def kUserAllocStart_def
  kMaxNidIndex_def

lemma newAllocator_state:
  "m5_allocated newAllocator = nid_value ` set kReservedTable"
  "m5_nextIndex newAllocator = [1, 1] @ replicate 30 0x400"
  by (auto simp: newAllocator_simps numeral_eq_Suc)

lemma m5_ok_new: "m5_ok newAllocator"
  by (auto simp: m5_ok_def newAllocator_state kMaxNidIndex_def)

lemma m5_reachable_ok: "m5_reachable s \<Longrightarrow> m5_ok s"
  by (induction rule: m5_reachable.induct) (auto intro: m5_ok_new m5.step_ok)

lemma m5_used_new: "m5_used newAllocator = set kReservedTable"
  by (auto simp: m5_used_def isAllocated_def newAllocator_state)

text \<open>The counter of a type that users allocate never falls below \<open>0x400\<close>.\<close>

definition userType :: "NidType \<Rightarrow> bool" where
  "userType nt \<longleftrightarrow> typeSlot nt \<notin> {0, 1}"

lemma counter_mono:
  assumes "m5_ok s" and "m5_step op s = (r, s')"
  shows "m5_nextIndex s ! t \<le> m5_nextIndex s' ! t"
proof (cases op)
  case (Register n)
  obtain q u where q: "registerExternal n s = (q, u)" by fastforce
  then show ?thesis using registerExternal_cases [OF q] assms(2) Register by auto
next
  case (Allocate nt)
  then have a: "allocate nt s = (r, s')" using assms(2) by simp
  have len: "typeSlot nt < length (m5_nextIndex s)" using assms(1) by (simp add: m5_ok_def)
  show ?thesis
  proof (cases "isValidNidType nt")
    case False
    then show ?thesis using allocate_invalid [OF False a] by simp
  next
    case True
    from assms(1) True a show ?thesis
    proof (cases rule: allocate_cases)
      case (grant k)
      have "k \<le> k + 1" using index_step [OF grant(3)] by (simp add: word_le_nat_alt)
      then show ?thesis using grant(2,6) len by (auto simp: nth_list_update)
    next
      case (full e)
      then show ?thesis using len m5_ok_counter [OF assms(1), of nt] by (auto simp: nth_list_update)
    qed
  qed
qed

lemma user_counter: "m5_reachable s \<Longrightarrow> userType nt \<Longrightarrow> 0x400 \<le> m5_nextIndex s ! typeSlot nt"
proof (induction rule: m5_reachable.induct)
  case new
  then have "2 \<le> typeSlot nt" "typeSlot nt - 2 < 30"
    using typeSlot_lt [of nt] unfolding userType_def by (simp_all del: typeSlot_lt)
  then show ?case by (auto simp: newAllocator_state nth_append nth_Cons')
next
  case (step s op r s')
  then show ?case using counter_mono [OF m5_reachable_ok [OF step(1)] step(2)] by (meson order_trans)
qed

section \<open>Properties\<close>

text \<open>
  C13: no NID is handed out twice.  Whatever operations a client performs on a new allocator, in
  any order and with any failures in between, the NIDs they grant are pairwise different and none
  is reserved by the format; the NIDs in use at the end are the 14 reserved ones and the granted
  ones, and nothing else.
\<close>

theorem allocator_history:
  "let (ns, s) = runOps m5_step ops newAllocator in
     distinct ns \<and> set ns \<inter> set kReservedTable = {}
     \<and> (\<forall>n. isAllocated n s = (n \<in> set kReservedTable \<union> set ns))
     \<and> allocatedCount s = 14 + length ns"
proof -
  obtain ns s where r: "runOps m5_step ops newAllocator = (ns, s)" by fastforce
  have f: "distinct ns \<and> set ns \<inter> set kReservedTable = {} \<and> m5_used s = set kReservedTable \<union> set ns"
    using m5.runOps_fresh [OF m5_ok_new r] by (simp add: m5_used_new)
  have "m5_allocated s = nid_value ` m5_used s"
    by (auto simp: m5_used_def isAllocated_def image_iff) (metis Nid.sel)
  then have "allocatedCount s = card (m5_used s)"
    by (simp add: allocatedCount_def card_image inj_on_def)
  also have "\<dots> = card (set kReservedTable) + length ns"
    using f by (simp add: card_Un_disjoint distinct_card Int_commute)
  also have "card (set kReservedTable) = 14"
    by (simp add: kReservedTable_def)
  finally show ?thesis
    using f r by (auto simp: m5_used_def)
qed

text \<open>
  What \<open>allocate\<close> returns in every state that can be reached.  It grants the NID of the given
  type with the first index at or above the type's counter that is not in use, below the 27-bit
  ceiling, marks it as used and moves the counter just past it; it fails exactly when all indices
  from the counter to the ceiling are in use, and then nothing is marked.  The counters of the
  other types do not change.
\<close>

theorem allocate_spec:
  assumes "m5_reachable s" and "isValidNidType nt"
  defines "c \<equiv> m5_nextIndex s ! typeSlot nt"
  shows "case allocate nt s of
      (Inr n, s') \<Rightarrow> (\<exists>k. n = mkNid nt k \<and> c \<le> k \<and> k < kMaxNidIndex \<and> \<not> isAllocated n s
          \<and> (\<forall>j. c \<le> j \<longrightarrow> j < k \<longrightarrow> isAllocated (mkNid nt j) s)
          \<and> s' = \<lparr>m5_allocated = insert (nid_value n) (m5_allocated s),
                  m5_nextIndex = (m5_nextIndex s)[typeSlot nt := k + 1]\<rparr>)
    | (Inl e, s') \<Rightarrow> (\<forall>j. c \<le> j \<longrightarrow> j < kMaxNidIndex \<longrightarrow> isAllocated (mkNid nt j) s)
          \<and> m5_allocated s' = m5_allocated s"
proof -
  obtain r s' where a: "allocate nt s = (r, s')" by fastforce
  from m5_reachable_ok [OF assms(1)] assms(2) a show ?thesis
  proof (cases rule: allocate_cases)
    case (grant k)
    then show ?thesis using a by (auto simp: c_def)
  next
    case (full e)
    then show ?thesis using a by (auto simp: c_def)
  qed
qed

lemmas allocate_eval = allocate_def newAllocator_state isValidNidType_def typeSlot_def
  allocLoop.simps Let_def kMaxNidIndex_def kReservedTable_def mkNid_def word_le_nat_alt

theorem allocate_spec_witness:
  "fst (allocate NtInternal newAllocator) = Inr (mkNid NtInternal 2)
   \<and> \<not> isAllocated (mkNid NtInternal 2) newAllocator"
proof -
  obtain s' where a: "allocate NtInternal newAllocator = (Inr (mkNid NtInternal 2), s')"
    by (simp add: allocate_eval)
  have "isValidNidType NtInternal" by (simp add: isValidNidType_def)
  then show ?thesis
    using allocate_spec [OF m5_reachable.new, of NtInternal] by (auto simp: a)
qed

text \<open>
  The index of every NID that \<open>allocate\<close> grants for a folder, message, attachment or table is
  at least \<open>0x400\<close>, so it lies outside the range that the format reserves for the system, in every
  state that can be reached.
\<close>

theorem allocate_outside_reserved:
  assumes "m5_reachable s" and "userType nt" and "allocate nt s = (Inr n, s')"
  shows "0x400 \<le> nid_index n \<and> nid_index n < kMaxNidIndex"
proof -
  have v: "isValidNidType nt" using assms(3) by (auto simp: allocate_def split: if_splits)
  from m5_reachable_ok [OF assms(1)] v assms(3) show ?thesis
  proof (cases rule: allocate_cases)
    case (grant k)
    have "nid_index n = k"
      using grant(1) and_mask_index [OF grant(3)] by (simp add: nid_index_mkNid mask27)
    then show ?thesis using grant(2,3) user_counter [OF assms(1,2)] by simp
  qed simp
qed

theorem allocate_outside_reserved_witness:
  "0x400 \<le> nid_index (mkNid NtNormalMessage 0x400)"
proof -
  let ?s = "snd (allocate NtNormalMessage newAllocator)"
  have "allocate NtNormalMessage newAllocator = (Inr (mkNid NtNormalMessage 0x400), ?s)"
    by (simp add: allocate_eval)
  then show ?thesis
    using allocate_outside_reserved [OF m5_reachable.new, of NtNormalMessage]
    by (auto simp: userType_def typeSlot_def)
qed

text \<open>
  The allocator looks at the low five bits of a type code only, and accepts 20 of the 32
  codes, 0 to 8, 10 to 19 and 31, which are the codes that the enumeration of the types names.
\<close>

theorem isValidNidType_codes:
  "isValidNidType nt = (typeSlot nt \<in> set ([0..<9] @ [10..<20] @ [31]))
   \<and> map (\<lambda>v. unat (nidTypeVal v)) [NtHID, NtInternal, NtNormalFolder, NtSearchFolder, NtNormalMessage,
        NtAttachment, NtSearchUpdateQueue, NtSearchCriteriaObject, NtAssocMessage, NtContentsTableIndex,
        NtReceiveFolderTable, NtOutgoingQueueTable, NtHierarchyTable, NtContentsTable, NtAssocContentsTable,
        NtSearchContentsTable, NtAttachmentTable, NtRecipientTable, NtSearchTableIndex, NtLtpReserved]
      = [0..<9] @ [10..<20] @ [31]"
proof
  show "isValidNidType nt = (typeSlot nt \<in> set ([0..<9] @ [10..<20] @ [31]))"
    unfolding isValidNidType_def typeSlot_def Let_def set_append set_upt
    by (auto simp: word_unat_eq_iff word_le_nat_alt)
qed (simp add: upt_conv_Cons)

end
