(* ===== verification/Nbt.thy ===== *)
theory Nbt
  imports Page Codec
begin

text \<open>
  The node B-tree of \<open>src/nbt.cpp\<close>: the builder of leaf and intermediate pages and of the two-level
  tree, and the reader that validates pages, searches and enumerates.  The reader works on the bytes
  of a file; a page is the part of the file from its offset on, as the pointer of the source is, so
  that a read past a page reaches the bytes behind it and a read past the file is \<open>OutOfBounds\<close>.
  Sorting by \<open>std::sort\<close> is \<open>sort_key\<close>; the two agree when the keys are distinct.
\<close>

unbundle bit_operations_syntax

section \<open>The builders\<close>

record NbtEntry =
  nbt_nid :: Nid
  nbt_bidData :: Bid
  nbt_bidSub :: Bid
  nbt_nidParent :: Nid

definition kNbtLeafMaxEntries :: nat where
  "kNbtLeafMaxEntries = 15"

definition kBtIntermediateMaxEntries :: nat where
  "kBtIntermediateMaxEntries = 20"

definition writeNbtEntry :: "NbtEntry \<Rightarrow> nat \<Rightarrow> bytes \<Rightarrow> bytes" where
  "writeNbtEntry e off p =
     (let p = writeU32 p (off + 0) (nid_value (nbt_nid e));
          p = writeU32 p (off + 4) 0;
          p = writeU64 p (off + 8) (bid_value (nbt_bidData e));
          p = writeU64 p (off + 16) (bid_value (nbt_bidSub e));
          p = writeU32 p (off + 24) (nid_value (nbt_nidParent e))
      in writeU32 p (off + 28) 0)"

definition buildNbtLeaf :: "NbtEntry list \<Rightarrow> Bid \<Rightarrow> Ib \<Rightarrow> bytes result" where
  "buildNbtLeaf entries bid ib =
     (if length entries > kNbtLeafMaxEntries
      then Inl (RuntimeError ''buildNbtLeaf: count exceeds kNbtLeafMaxEntries (15)'')
      else let sorted = sort_key (nid_value \<circ> nbt_nid) entries;
               page = zeros kPageSize;
               page = fold (\<lambda>i p. writeNbtEntry (sorted ! i) (i * kNbtLeafEntrySize) p)
                        [0..<length sorted] page;
               page = writeU8 page kBtPageCEnt (word_of_nat (length sorted));
               page = writeU8 page kBtPageCEntMax (word_of_nat kNbtLeafMaxEntries);
               page = writeU8 page kBtPageCbEnt (word_of_nat kNbtLeafEntrySize);
               page = writeU8 page kBtPageCLevel 0;
               page = writeU32 page kBtPageDwPad 0
           in Inr (writePageTrailer page ptype_kNBT bid ib))"

definition buildBtIntermediate :: "BtEntry list \<Rightarrow> u8 \<Rightarrow> u8 \<Rightarrow> Bid \<Rightarrow> Ib \<Rightarrow> bytes result" where
  "buildBtIntermediate entries cLevel pt bid ib =
     (if length entries > kBtIntermediateMaxEntries
      then Inl (RuntimeError ''buildBtIntermediate: count exceeds kBtIntermediateMaxEntries (20)'')
      else if cLevel = 0
      then Inl (RuntimeError ''buildBtIntermediate: cLevel must be >= 1'')
      else if pt \<noteq> ptype_kNBT \<and> pt \<noteq> ptype_kBBT
      then Inl (RuntimeError ''buildBtIntermediate: ptype must be ptypeNBT (0x81) or ptypeBBT (0x80)'')
      else let sorted = sort_key bt_btkey entries;
               page = zeros kPageSize;
               page = fold (\<lambda>i p. writeBtEntry (sorted ! i) (i * kBtEntrySize) p) [0..<length sorted] page;
               page = writeU8 page kBtPageCEnt (word_of_nat (length sorted));
               page = writeU8 page kBtPageCEntMax (word_of_nat kBtIntermediateMaxEntries);
               page = writeU8 page kBtPageCbEnt (word_of_nat kBtEntrySize);
               page = writeU8 page kBtPageCLevel cLevel;
               page = writeU32 page kBtPageDwPad 0
           in Inr (writePageTrailer page pt bid ib))"

record NbtTreeInputBids =
  nti_leafBrefs :: "Bref list"
  nti_intermediateBref :: Bref

record NbtTreeOutput =
  nto_leafPages :: "bytes list"
  nto_intermediatePage :: bytes
  nto_hasIntermediate :: bool
  nto_rootBref :: Bref
  nto_treeLevel :: u8

definition leafEntries :: "NbtEntry list \<Rightarrow> nat \<Rightarrow> NbtEntry list" where
  "leafEntries srt li =
     (let lo = li * kNbtLeafMaxEntries; hi = min (lo + kNbtLeafMaxEntries) (length srt)
      in take (hi - lo) (drop lo srt))"

definition buildNbtTree :: "NbtEntry list \<Rightarrow> NbtTreeInputBids \<Rightarrow> NbtTreeOutput result" where
  "buildNbtTree entries bids =
     (let sorted = sort_key (nid_value \<circ> nbt_nid) entries;
          leafCount = (if sorted = [] then 0
                       else (length sorted + kNbtLeafMaxEntries - 1) div kNbtLeafMaxEntries)
      in if leafCount > kBtIntermediateMaxEntries
         then Inl (RuntimeError ''buildNbtTree: entry count requires more leaves than fit in one intermediate page'')
         else if sorted = []
         then bind_r (elemAt (nti_leafBrefs bids) 0) (\<lambda>br.
              bind_r (buildNbtLeaf [] (bref_bid br) (bref_ib br)) (\<lambda>page.
              Inr \<lparr>nto_leafPages = [page], nto_intermediatePage = zeros kPageSize,
                   nto_hasIntermediate = False, nto_rootBref = br, nto_treeLevel = 0\<rparr>))
         else
           bind_r (mapM_r (\<lambda>li. bind_r (elemAt (nti_leafBrefs bids) li) (\<lambda>br.
                     buildNbtLeaf (leafEntries sorted li) (bref_bid br) (bref_ib br))) [0..<leafCount])
             (\<lambda>leafPages.
           if leafCount = 1
           then bind_r (elemAt (nti_leafBrefs bids) 0) (\<lambda>br.
                Inr \<lparr>nto_leafPages = leafPages, nto_intermediatePage = zeros kPageSize,
                     nto_hasIntermediate = False, nto_rootBref = br, nto_treeLevel = 0\<rparr>)
           else
             bind_r (mapM_r (\<lambda>li. bind_r (elemAt (nti_leafBrefs bids) li) (\<lambda>br.
                       Inr \<lparr>bt_btkey = ucast (nid_value (nbt_nid (sorted ! (li * kNbtLeafMaxEntries)))),
                            bt_bref = br\<rparr>)) [0..<leafCount])
               (\<lambda>btEntries.
             bind_r (buildBtIntermediate btEntries 1 ptype_kNBT
                       (bref_bid (nti_intermediateBref bids)) (bref_ib (nti_intermediateBref bids)))
               (\<lambda>page.
             Inr \<lparr>nto_leafPages = leafPages, nto_intermediatePage = page, nto_hasIntermediate = True,
                  nto_rootBref = nti_intermediateBref bids, nto_treeLevel = 1\<rparr>))))"

section \<open>The reader\<close>

record NbtRecord =
  rec_nid :: Nid
  rec_bidData :: Bid
  rec_bidSub :: Bid
  rec_nidParent :: Nid

definition fetchAndValidatePage :: "bytes \<Rightarrow> u64 \<Rightarrow> bool \<Rightarrow> bytes result" where
  "fetchAndValidatePage file ib strictCrc =
     (if unat ib > length file \<or> unat (ib + word_of_nat kPageSize) > length file
      then Inl (RuntimeError ''nbt reader: page IB extends past EOF'')
      else let page = drop (unat ib) file in
        if page ! (kPageTrailerOffset + 0) \<noteq> ptype_kNBT
        then Inl (RuntimeError ''nbt reader: page ptype != ptypeNBT'')
        else if page ! (kPageTrailerOffset + 0) \<noteq> page ! (kPageTrailerOffset + 1)
        then Inl (RuntimeError ''nbt reader: PAGETRAILER ptype != ptypeRepeat'')
        else let cEnt = page ! kBtPageCEnt; cEntMax = page ! kBtPageCEntMax;
                 cbEnt = page ! kBtPageCbEnt; cLevel = page ! kBtPageCLevel in
        if cEnt > cEntMax
        then Inl (RuntimeError ''nbt reader: BTPAGE.cEnt > cEntMax'')
        else if cLevel = 0 \<and> unat cbEnt \<noteq> kNbtLeafEntrySize
        then Inl (RuntimeError ''nbt reader: leaf NBT page has cbEnt != 32'')
        else if cLevel \<noteq> 0 \<and> unat cbEnt \<noteq> kBtEntrySize
        then Inl (RuntimeError ''nbt reader: intermediate NBT page has cbEnt != 24'')
        else if cLevel > 1
        then Inl (RuntimeError ''nbt reader: cLevel > 1 (multi-level intermediate is M7+)'')
        else if strictCrc \<and> readU32 page (kPageTrailerOffset + 4) \<noteq> crc32 (take kPageBodySize page)
        then Inl (RuntimeError ''nbt reader: dwCRC mismatch'')
        else Inr page)"

definition decodeNbtEntry :: "bytes \<Rightarrow> nat \<Rightarrow> NbtRecord result" where
  "decodeNbtEntry page recOff =
     bind_r (checked 4 readU32 page (recOff + 0)) (\<lambda>nid.
     bind_r (checked 8 readU64 page (recOff + 8)) (\<lambda>bd.
     bind_r (checked 8 readU64 page (recOff + 16)) (\<lambda>bs.
     bind_r (checked 4 readU32 page (recOff + 24)) (\<lambda>np.
     Inr \<lparr>rec_nid = Nid nid, rec_bidData = Bid bd, rec_bidSub = Bid bs, rec_nidParent = Nid np\<rparr>))))"

primrec searchLoop :: "bytes \<Rightarrow> Nid \<Rightarrow> nat list \<Rightarrow> NbtRecord option result" where
  "searchLoop page target [] = Inr None"
| "searchLoop page target (i # is) =
     bind_r (decodeNbtEntry page (i * kNbtLeafEntrySize)) (\<lambda>r.
       if nid_value (rec_nid r) = nid_value target then Inr (Some r) else searchLoop page target is)"

definition searchLeaf :: "bytes \<Rightarrow> Nid \<Rightarrow> NbtRecord option result" where
  "searchLeaf page target = searchLoop page target [0..<unat (page ! kBtPageCEnt)]"

primrec chooseLoop :: "bytes \<Rightarrow> Nid \<Rightarrow> nat list \<Rightarrow> nat option \<Rightarrow> nat option result" where
  "chooseLoop page target [] chosen = Inr chosen"
| "chooseLoop page target (i # is) chosen =
     bind_r (checked 8 readU64 page (i * kBtEntrySize + 0)) (\<lambda>btkey.
       if btkey \<le> ucast (nid_value target) then chooseLoop page target is (Some i) else Inr chosen)"

definition readChild :: "bytes \<Rightarrow> nat \<Rightarrow> Bref result" where
  "readChild page i =
     bind_r (checked 8 readU64 page (i * kBtEntrySize + 8)) (\<lambda>b.
     bind_r (checked 8 readU64 page (i * kBtEntrySize + 16)) (\<lambda>c. Inr (mkBref (Bid b) (Ib c))))"

definition descendIntermediate :: "bytes \<Rightarrow> Nid \<Rightarrow> Bref result" where
  "descendIntermediate page target =
     (let cEnt = page ! kBtPageCEnt in
      if cEnt = 0 then Inl (RuntimeError ''nbt reader: intermediate BTPAGE has cEnt == 0'')
      else bind_r (chooseLoop page target [0..<unat cEnt] None) (\<lambda>chosen.
             case chosen of None \<Rightarrow> Inr (mkBref (Bid 0) (Ib 0)) | Some i \<Rightarrow> readChild page i))"

definition enumerateLeaf :: "bytes \<Rightarrow> NbtRecord list result" where
  "enumerateLeaf page =
     mapM_r (\<lambda>i. decodeNbtEntry page (i * kNbtLeafEntrySize)) [0..<unat (page ! kBtPageCEnt)]"

definition nbtFind :: "bytes \<Rightarrow> Bref \<Rightarrow> Nid \<Rightarrow> bool \<Rightarrow> NbtRecord option result" where
  "nbtFind file rootBref target strictCrc =
     bind_r (fetchAndValidatePage file (ib_value (bref_ib rootBref)) strictCrc) (\<lambda>page.
       if page ! kBtPageCLevel = 0 then searchLeaf page target
       else bind_r (descendIntermediate page target) (\<lambda>childBref.
         if bid_value (bref_bid childBref) = 0 \<and> ib_value (bref_ib childBref) = 0 then Inr None
         else bind_r (fetchAndValidatePage file (ib_value (bref_ib childBref)) strictCrc) (\<lambda>leaf.
           if leaf ! kBtPageCLevel \<noteq> 0
           then Inl (RuntimeError ''nbt reader: child of cLevel=1 page is not a leaf'')
           else searchLeaf leaf target)))"

definition nbtForEach :: "bytes \<Rightarrow> Bref \<Rightarrow> bool \<Rightarrow> NbtRecord list result" where
  "nbtForEach file rootBref strictCrc =
     bind_r (fetchAndValidatePage file (ib_value (bref_ib rootBref)) strictCrc) (\<lambda>root.
       if root ! kBtPageCLevel = 0 then enumerateLeaf root
       else bind_r (mapM_r (\<lambda>i. bind_r (readChild root i) (\<lambda>childBref.
                      bind_r (fetchAndValidatePage file (ib_value (bref_ib childBref)) strictCrc) (\<lambda>leaf.
                        if leaf ! kBtPageCLevel \<noteq> 0
                        then Inl (RuntimeError ''nbt reader: forEach: child of cLevel=1 page is not a leaf'')
                        else enumerateLeaf leaf)))
                    [0..<unat (root ! kBtPageCEnt)])
              (\<lambda>rs. Inr (concat rs)))"

section \<open>The tables of the tree\<close>

text \<open>The decoded record of an entry, and the 32 bytes that both sides agree on.\<close>

definition recOf :: "NbtEntry \<Rightarrow> NbtRecord" where
  "recOf e = \<lparr>rec_nid = nbt_nid e, rec_bidData = nbt_bidData e, rec_bidSub = nbt_bidSub e,
     rec_nidParent = nbt_nidParent e\<rparr>"

definition encNbtRecord :: "NbtRecord \<Rightarrow> bytes" where
  "encNbtRecord r = le32 (nid_value (rec_nid r)) @ le32 0 @ le64 (bid_value (rec_bidData r))
     @ le64 (bid_value (rec_bidSub r)) @ le32 (nid_value (rec_nidParent r)) @ le32 0"

lemma length_encNbtRecord [simp]: "length (encNbtRecord r) = 32"
  by (simp add: encNbtRecord_def)

lemma writeNbtEntry_store:
  "off + 32 \<le> length page \<Longrightarrow> writeNbtEntry e off page = store page off (encNbtRecord (recOf e))"
  by (simp add: writeNbtEntry_def Let_def write_defs store_adjacent encNbtRecord_def recOf_def)

interpretation nbt: record_codec 32 encNbtRecord decodeNbtEntry
proof
  fix off p and e :: NbtRecord
  assume r: "off + 32 \<le> length p" and s: "slice off 32 p = encNbtRecord e"
  have "readU32 p off = nid_value (rec_nid e)" "readU64 p (off + 8) = bid_value (rec_bidData e)"
    "readU64 p (off + 16) = bid_value (rec_bidSub e)" "readU32 p (off + 24) = nid_value (rec_nidParent e)"
    using slice_field [OF s, of 0 4] slice_field [OF s, of 8 8] slice_field [OF s, of 16 8]
      slice_field [OF s, of 24 4] r
    by (simp_all add: encNbtRecord_def slice_def readU_eq)
  then show "decodeNbtEntry p off = Inr e"
    using r by (simp add: decodeNbtEntry_def)
qed simp

text \<open>A B-tree entry as the reader takes it apart: the key, and the child.\<close>

definition decBtEntry :: "bytes \<Rightarrow> nat \<Rightarrow> BtEntry result" where
  "decBtEntry p off =
     bind_r (checked 8 readU64 p (off + 0)) (\<lambda>k.
     bind_r (checked 8 readU64 p (off + 8)) (\<lambda>b.
     bind_r (checked 8 readU64 p (off + 16)) (\<lambda>c.
     Inr \<lparr>bt_btkey = k, bt_bref = mkBref (Bid b) (Ib c)\<rparr>)))"

lemma mkBref_sel [simp]: "mkBref (Bid (bid_value (bref_bid b))) (Ib (ib_value (bref_ib b))) = b"
  by (simp add: mkBref_def)

interpretation bte: record_codec 24 encBtEntry decBtEntry
proof
  fix off p and e :: BtEntry
  assume r: "off + 24 \<le> length p" and s: "slice off 24 p = encBtEntry e"
  show "decBtEntry p off = Inr e"
    using encBtEntry_reads [OF s r] r by (simp add: decBtEntry_def)
qed simp

lemma decBtEntry_parts:
  assumes "decBtEntry p (i * 24) = Inr e"
  shows "checked 8 readU64 p (i * kBtEntrySize + 0) = Inr (bt_btkey e)" "readChild p i = Inr (bt_bref e)"
  using assms by (auto simp: decBtEntry_def readChild_def bind_r_Inr bt_constants)

section \<open>The pages that the builders produce\<close>

definition nbtLeafPage :: "NbtRecord list \<Rightarrow> Bid \<Rightarrow> Ib \<Rightarrow> bytes \<Rightarrow> bool" where
  "nbtLeafPage rs bid ib p \<longleftrightarrow> length rs \<le> 15
     \<and> btPageOk ptype_kNBT (length rs) 15 32 0 (concat (map encNbtRecord rs)) bid ib p"

definition nbtNodePage :: "BtEntry list \<Rightarrow> Bid \<Rightarrow> Ib \<Rightarrow> bytes \<Rightarrow> bool" where
  "nbtNodePage es bid ib p \<longleftrightarrow> length es \<le> 20
     \<and> btPageOk ptype_kNBT (length es) 20 24 1 (concat (map encBtEntry es)) bid ib p"

abbreviation sortNbt :: "NbtEntry list \<Rightarrow> NbtEntry list" where
  "sortNbt \<equiv> sort_key (nid_value \<circ> nbt_nid)"

lemma nbt_limits: "kNbtLeafMaxEntries = 15" "kBtIntermediateMaxEntries = 20"
  by (simp_all add: kNbtLeafMaxEntries_def kBtIntermediateMaxEntries_def)

lemma buildNbtLeaf_ok:
  assumes "length es \<le> 15"
  shows "\<exists>p. buildNbtLeaf es bid ib = Inr p \<and> nbtLeafPage (map recOf (sortNbt es)) bid ib p"
proof -
  let ?s = "sortNbt es" and ?enc = "\<lambda>e. encNbtRecord (recOf e)"
  have loop: "fold (\<lambda>i p. writeNbtEntry (?s ! i) (i * 32) p) [0..<length ?s] (zeros 512)
      = store (zeros 512) 0 (concat (map ?enc ?s))"
    by (rule entry_loop) (use assms in \<open>simp_all add: writeNbtEntry_store\<close>)
  have "length (concat (map ?enc ?s)) \<le> 488"
    by (subst length_concat_const [where w = 32]) (use assms in simp_all)
  note ok = btPageOk_written [OF this, of ptype_kNBT "length ?s" 15 32 0 bid ib]
  have "buildNbtLeaf es bid ib = Inr (writePageTrailer
      (writeU32 (writeU8 (writeU8 (writeU8 (writeU8 (store (zeros 512) 0 (concat (map ?enc ?s)))
        488 (word_of_nat (length ?s))) 489 (word_of_nat 15)) 490 (word_of_nat 32)) 491 0) 492 0)
      ptype_kNBT bid ib)"
    unfolding buildNbtLeaf_def Let_def bt_constants nbt_limits loop using assms by simp
  then show ?thesis
    using ok assms by (simp add: nbtLeafPage_def comp_def)
qed

lemma buildNbtLeaf_error: "15 < length es \<Longrightarrow> \<exists>e. buildNbtLeaf es bid ib = Inl e"
  by (simp add: buildNbtLeaf_def nbt_limits)

lemma buildBtIntermediate_ok:
  assumes "length es \<le> 20" and "sorted (map bt_btkey es)"
  shows "\<exists>p. buildBtIntermediate es 1 ptype_kNBT bid ib = Inr p \<and> nbtNodePage es bid ib p"
proof -
  have s: "sort_key bt_btkey es = es" using assms(2) by (rule sort_key_id_if_sorted)
  have loop: "fold (\<lambda>i p. writeBtEntry (es ! i) (i * 24) p) [0..<length es] (zeros 512)
      = store (zeros 512) 0 (concat (map encBtEntry es))"
    by (rule entry_loop) (use assms in \<open>simp_all add: writeBtEntry_store\<close>)
  have "length (concat (map encBtEntry es)) \<le> 488"
    by (subst length_concat_const [where w = 24]) (use assms in simp_all)
  note ok = btPageOk_written [OF this, of ptype_kNBT "length es" 20 24 1 bid ib]
  have "buildBtIntermediate es 1 ptype_kNBT bid ib = Inr (writePageTrailer
      (writeU32 (writeU8 (writeU8 (writeU8 (writeU8 (store (zeros 512) 0 (concat (map encBtEntry es)))
        488 (word_of_nat (length es))) 489 (word_of_nat 20)) 490 (word_of_nat 24)) 491 1) 492 0)
      ptype_kNBT bid ib)"
    unfolding buildBtIntermediate_def Let_def bt_constants nbt_limits s loop using assms by simp
  then show ?thesis
    using ok assms by (simp add: nbtNodePage_def)
qed

section \<open>Reading a page back\<close>

text \<open>A page lies at offset \<open>ib\<close> of the file.\<close>

definition pageAt :: "bytes \<Rightarrow> Ib \<Rightarrow> bytes \<Rightarrow> bool" where
  "pageAt file ib page \<longleftrightarrow> slice (unat (ib_value ib)) 512 file = page \<and> length file < 2 ^ 64"

lemma pageAt_view:
  assumes "pageAt file ib page" and "length page = 512"
  obtains rest where "drop (unat (ib_value ib)) file = page @ rest"
    and "unat (ib_value ib) + 512 \<le> length file"
proof -
  have "length (slice (unat (ib_value ib)) 512 file) = 512" using assms by (simp add: pageAt_def)
  then have "unat (ib_value ib) + 512 \<le> length file" by (simp add: length_slice)
  moreover have "drop (unat (ib_value ib)) file = page @ drop 512 (drop (unat (ib_value ib)) file)"
    using assms(1) append_take_drop_id [of 512 "drop (unat (ib_value ib)) file"]
    by (simp add: pageAt_def slice_def)
  ultimately show thesis using that by blast
qed

lemma btPageOk_view:
  assumes "btPageOk pt n m w l body bid ib page" and "P = page @ rest"
  shows "P ! 488 = word_of_nat n" "P ! 489 = word_of_nat m" "P ! 490 = word_of_nat w" "P ! 491 = l"
    "P ! 496 = pt" "P ! 497 = pt" "readU32 P 500 = crc32 (take 496 P)"
    "length body \<le> 488 \<Longrightarrow> slice 0 (length body) P = body" "512 \<le> length P"
proof -
  have ok: "pageOk pt bid ib page" and len: "length page = 512"
    using assms(1) btPageOk_length [OF assms(1)] by (simp_all add: btPageOk_def)
  show "P ! 488 = word_of_nat n" "P ! 489 = word_of_nat m" "P ! 490 = word_of_nat w" "P ! 491 = l"
    using assms len by (simp_all add: btPageOk_def nth_append)
  show "P ! 496 = pt" "P ! 497 = pt"
    using pageOk_reads(1,2) [OF ok] assms(2) len by (simp_all add: nth_append)
  show "readU32 P 500 = crc32 (take 496 P)"
    using pageOk_slices(4) [OF ok] assms(2) len
    by (intro readU32_eq) (simp_all add: slice_append_left)
  show "slice 0 (length body) P = body" if "length body \<le> 488"
    using that assms len by (simp add: btPageOk_def slice_append_left)
  show "512 \<le> length P" using assms(2) len by simp
qed

lemma unat_u8 [simp]: "n < 256 \<Longrightarrow> unat (word_of_nat n :: u8) = n"
  by (simp add: unat_of_nat take_bit_nat_eq_self)

lemma fetch_ok:
  assumes at: "pageAt file ib page" and ok: "btPageOk ptype_kNBT n m w l body bid ib' page"
    and n: "n \<le> m" "m < 256" and l: "l = 0 \<and> w = 32 \<or> l = 1 \<and> w = 24"
  shows "fetchAndValidatePage file (ib_value ib) c = Inr (drop (unat (ib_value ib)) file)"
proof -
  obtain rest where P: "drop (unat (ib_value ib)) file = page @ rest" and r: "unat (ib_value ib) + 512 \<le> length file"
    using at btPageOk_length [OF ok] by (rule pageAt_view)
  have "length file < 2 ^ 64" using at by (simp add: pageAt_def)
  then have "unat (ib_value ib + 512) = unat (ib_value ib) + 512"
    using r by (simp add: unat_word_ariths)
  moreover have "unat (word_of_nat n :: u8) \<le> unat (word_of_nat m :: u8)" using n by simp
  ultimately show ?thesis
    using r l btPageOk_view(1-7) [OF ok P]
    unfolding fetchAndValidatePage_def Let_def bt_constants
    by (auto simp: word_le_nat_alt not_less)
qed

lemma nbtLeafPage_read:
  assumes at: "pageAt file ib page" and ok: "nbtLeafPage rs bid ib' page"
  defines "P \<equiv> drop (unat (ib_value ib)) file"
  shows "fetchAndValidatePage file (ib_value ib) c = Inr P" "P ! 491 = 0"
    "enumerateLeaf P = Inr rs" "searchLeaf P t = Inr (List.find (\<lambda>r. rec_nid r = t) rs)"
proof -
  have n: "length rs \<le> 15" and bt: "btPageOk ptype_kNBT (length rs) 15 32 0 (concat (map encNbtRecord rs)) bid ib' page"
    using ok by (simp_all add: nbtLeafPage_def)
  obtain rest where P: "P = page @ rest"
    unfolding P_def using at btPageOk_length [OF bt] by (rule pageAt_view)
  note view = btPageOk_view [OF bt P]
  show "fetchAndValidatePage file (ib_value ib) c = Inr P"
    unfolding P_def using at bt by (rule fetch_ok) (use n in simp_all)
  show "P ! 491 = 0" by (rule view(4))
  have c: "unat (P ! 488) = length rs"
    using view(1) n by simp
  have tab: "slice 0 (length rs * 32) P = concat (map encNbtRecord rs)"
    using view(8) n by (simp add: nbt.table_length)
  have room: "0 + length rs * 32 \<le> length P" using view(9) n by simp
  show "enumerateLeaf P = Inr rs"
    using nbt.read_table [OF tab room] by (simp add: enumerateLeaf_def bt_constants c)
  have "searchLoop P t [j..<length rs] = Inr (List.find (\<lambda>r. rec_nid r = t) (drop j rs))"
    if "j \<le> length rs" for j
    using that
  proof (induction "length rs - j" arbitrary: j)
    case (Suc m)
    then have j: "j < length rs" by simp
    have "decodeNbtEntry P (j * 32) = Inr (rs ! j)"
      using nbt.read_entry [OF tab room j] by simp
    moreover have "searchLoop P t [Suc j..<length rs] = Inr (List.find (\<lambda>r. rec_nid r = t) (drop (Suc j) rs))"
      using Suc j by simp
    moreover have "nid_value a = nid_value b \<longleftrightarrow> a = b" for a b
      by (auto intro: Nid.expand)
    ultimately show ?case
      using j by (simp add: upt_conv_Cons bt_constants flip: Cons_nth_drop_Suc)
  qed simp
  from this [of 0] show "searchLeaf P t = Inr (List.find (\<lambda>r. rec_nid r = t) rs)"
    by (simp add: searchLeaf_def bt_constants c)
qed

text \<open>The descent: the last key that is not above the target.\<close>

definition keysUpTo :: "BtEntry list \<Rightarrow> Nid \<Rightarrow> nat" where
  "keysUpTo es t = length (takeWhile (\<lambda>e. bt_btkey e \<le> ucast (nid_value t)) es)"

lemma nbtNodePage_read:
  assumes at: "pageAt file ib page" and ok: "nbtNodePage es bid ib' page"
  defines "P \<equiv> drop (unat (ib_value ib)) file"
  shows "fetchAndValidatePage file (ib_value ib) c = Inr P" "P ! 491 = 1" "unat (P ! 488) = length es"
    "\<And>i. i < length es \<Longrightarrow> readChild P i = Inr (bt_bref (es ! i))"
    "es \<noteq> [] \<Longrightarrow> descendIntermediate P t =
      Inr (if keysUpTo es t = 0 then mkBref (Bid 0) (Ib 0) else bt_bref (es ! (keysUpTo es t - 1)))"
proof -
  have n: "length es \<le> 20" and bt: "btPageOk ptype_kNBT (length es) 20 24 1 (concat (map encBtEntry es)) bid ib' page"
    using ok by (simp_all add: nbtNodePage_def)
  obtain rest where P: "P = page @ rest"
    unfolding P_def using at btPageOk_length [OF bt] by (rule pageAt_view)
  note view = btPageOk_view [OF bt P]
  show "fetchAndValidatePage file (ib_value ib) c = Inr P"
    unfolding P_def using at bt by (rule fetch_ok) (use n in simp_all)
  show "P ! 491 = 1" by (rule view(4))
  show c: "unat (P ! 488) = length es" using view(1) n by simp
  have tab: "slice 0 (length es * 24) P = concat (map encBtEntry es)"
    using view(8) n by (simp add: bte.table_length)
  have room: "0 + length es * 24 \<le> length P" using view(9) n by simp
  have dec: "decBtEntry P (i * 24) = Inr (es ! i)" if "i < length es" for i
    using bte.read_entry [OF tab room that] by simp
  note parts = decBtEntry_parts [OF dec]
  show child: "readChild P i = Inr (bt_bref (es ! i))" if "i < length es" for i
    using parts(2) [OF that] .
  have "chooseLoop P t [j..<length es] ch = Inr (case keysUpTo (drop j es) t of 0 \<Rightarrow> ch | Suc k \<Rightarrow> Some (j + k))"
    if "j \<le> length es" for j ch
    using that
  proof (induction "length es - j" arbitrary: j ch)
    case 0
    then show ?case by (simp add: keysUpTo_def)
  next
    case (Suc m)
    then have j: "j < length es" by simp
    have "chooseLoop P t [Suc j..<length es] (Some j)
        = Inr (case keysUpTo (drop (Suc j) es) t of 0 \<Rightarrow> Some j | Suc k \<Rightarrow> Some (Suc j + k))"
      using Suc j by simp
    then show ?case
      using j parts(1) [OF j]
      by (simp add: upt_conv_Cons keysUpTo_def split: nat.splits flip: Cons_nth_drop_Suc)
  qed
  from this [of 0 None] have ch: "chooseLoop P t [0..<length es] None
      = Inr (case keysUpTo es t of 0 \<Rightarrow> None | Suc k \<Rightarrow> Some k)"
    by (simp split: nat.splits)
  show "descendIntermediate P t =
      Inr (if keysUpTo es t = 0 then mkBref (Bid 0) (Ib 0) else bt_bref (es ! (keysUpTo es t - 1)))"
    if "es \<noteq> []"
  proof -
    have "P ! 488 \<noteq> 0" using c that by (metis length_0_conv unat_0)
    moreover have "keysUpTo es t \<le> length es" by (simp add: keysUpTo_def length_takeWhile_le)
    ultimately show ?thesis
      using child by (auto simp: descendIntermediate_def bt_constants c ch split: nat.split)
  qed
qed

section \<open>Searching sorted entries\<close>

lemma find_append:
  "List.find P (xs @ ys) = (case List.find P xs of None \<Rightarrow> List.find P ys | Some x \<Rightarrow> Some x)"
  by (induction xs) simp_all

lemma find_recOf:
  "List.find (\<lambda>r. rec_nid r = t) (map recOf es) = map_option recOf (List.find (\<lambda>e. nbt_nid e = t) es)"
  by (induction es) (simp_all add: recOf_def)

text \<open>With distinct keys, the order of the entries does not matter for a search.\<close>

lemma find_unique:
  assumes "set xs = set ys" and "inj_on g (set ys)"
  shows "List.find (\<lambda>x. g x = t) xs = List.find (\<lambda>x. g x = t) ys"
proof (cases "List.find (\<lambda>x. g x = t) xs")
  case None
  then have "List.find (\<lambda>x. g x = t) ys = None"
    using assms(1) by (simp add: find_None_iff)
  then show ?thesis using None by simp
next
  case (Some x)
  then have x: "x \<in> set ys" "g x = t" using assms(1) by (auto simp: find_Some_iff)
  then obtain y where y: "List.find (\<lambda>x. g x = t) ys = Some y"
    by (metis (mono_tags, lifting) find_None_iff not_Some_eq)
  then have "y \<in> set ys" "g y = t" by (auto simp: find_Some_iff)
  then show ?thesis using x assms(2) Some y by (auto dest: inj_onD)
qed

text \<open>Splitting sorted entries into chunks: the chunk that the first keys select has the target.\<close>

lemma find_chunk:
  fixes f :: "'e \<Rightarrow> 'k :: linorder" and w :: nat
  assumes s: "sorted (map f S)" "distinct (map f S)"
    and lo: "\<And>i. i < m \<Longrightarrow> f (S ! (i * w)) \<le> t" and hi: "m < K \<Longrightarrow> t < f (S ! (m * w))"
    and m: "m \<le> K" "(K - 1) * w < length S" "length S \<le> K * w"
  shows "List.find (\<lambda>e. f e = t) S =
    (if m = 0 then None else List.find (\<lambda>e. f e = t) (take w (drop ((m - 1) * w) S)))"
proof -
  have mono: "f (S ! i) < f (S ! j)" if "i < j" "j < length S" for i j
    using s that sorted_nth_mono [of "map f S" i j] by (auto simp: distinct_conv_nth less_le)
  have above: "List.find (\<lambda>e. f e = t) (drop (m * w) S) = None"
  proof (cases "m < K")
    case True
    have "t < f (drop (m * w) S ! k)" if "k < length S - m * w" for k
      using hi [OF True] mono [of "m * w" "m * w + k"] that
      by (cases "k = 0") (auto intro: less_trans)
    then show ?thesis by (force simp: find_None_iff in_set_conv_nth)
  next
    case False
    then show ?thesis using m by simp
  qed
  show ?thesis
  proof (cases "m = 0")
    case True
    then show ?thesis using above by simp
  next
    case False
    then obtain c where c: "m = Suc c" by (cases m) auto
    have "c * w \<le> (K - 1) * w" by (rule mult_le_mono1) (use m(1) c in simp)
    then have "c * w < length S" using m(2) by linarith
    then have "f (take (c * w) S ! k) < t" if "k < c * w" for k
      using lo [of c] mono [of k "c * w"] that c by simp
    then have below: "List.find (\<lambda>e. f e = t) (take (c * w) S) = None"
      by (force simp: find_None_iff in_set_conv_nth)
    have "S = take (c * w) S @ take w (drop (c * w) S) @ drop (m * w) S"
      by (simp add: c add.commute flip: drop_drop)
    then have "List.find (\<lambda>e. f e = t) S = List.find (\<lambda>e. f e = t) (take w (drop (c * w) S))"
      using find_append [of "\<lambda>e. f e = t" "take (c * w) S" "take w (drop (c * w) S) @ drop (m * w) S"]
        find_append [of "\<lambda>e. f e = t" "take w (drop (c * w) S)" "drop (m * w) S"] above below
      by (auto split: option.splits)
    then show ?thesis by (simp add: c)
  qed
qed

section \<open>The tree\<close>

definition leafCountOf :: "nat \<Rightarrow> nat" where
  "leafCountOf n = (n + 14) div 15"

lemma leafEntries_eq: "leafEntries S li = take 15 (drop (li * 15) S)"
  by (simp add: leafEntries_def Let_def nbt_limits min_def)

lemma sorted_take_drop: "sorted (map f S) \<Longrightarrow> sorted (map f (take n (drop k S)))"
  by (simp flip: take_map drop_map add: sorted_wrt_take sorted_wrt_drop)

lemma sortNbt_leafEntries: "sortNbt (leafEntries (sortNbt es) li) = leafEntries (sortNbt es) li"
  unfolding leafEntries_eq by (rule sort_key_id_if_sorted, rule sorted_take_drop) simp

definition nodeEntries :: "NbtEntry list \<Rightarrow> Bref list \<Rightarrow> BtEntry list" where
  "nodeEntries S brs = map (\<lambda>li. \<lparr>bt_btkey = ucast (nid_value (nbt_nid (S ! (li * 15)))), bt_bref = brs ! li\<rparr>)
     [0..<leafCountOf (length S)]"

definition treeOk :: "NbtEntry list \<Rightarrow> NbtTreeInputBids \<Rightarrow> NbtTreeOutput \<Rightarrow> bool" where
  "treeOk S bids out \<longleftrightarrow>
     (let K = leafCountOf (length S); brs = nti_leafBrefs bids in
      if length S \<le> 15
      then length (nto_leafPages out) = 1 \<and> \<not> nto_hasIntermediate out \<and> nto_rootBref out = brs ! 0
         \<and> nbtLeafPage (map recOf S) (bref_bid (brs ! 0)) (bref_ib (brs ! 0)) (nto_leafPages out ! 0)
      else length (nto_leafPages out) = K \<and> nto_hasIntermediate out
         \<and> nto_rootBref out = nti_intermediateBref bids
         \<and> (\<forall>i < K. nbtLeafPage (map recOf (leafEntries S i)) (bref_bid (brs ! i)) (bref_ib (brs ! i))
                       (nto_leafPages out ! i))
         \<and> nbtNodePage (nodeEntries S brs) (bref_bid (nti_intermediateBref bids))
             (bref_ib (nti_intermediateBref bids)) (nto_intermediatePage out))"

lemma buildNbtTree_ok:
  assumes n: "length es \<le> 300" and b: "max 1 (leafCountOf (length es)) \<le> length (nti_leafBrefs bids)"
  shows "\<exists>out. buildNbtTree es bids = Inr out \<and> treeOk (sortNbt es) bids out"
proof -
  let ?S = "sortNbt es" and ?brs = "nti_leafBrefs bids"
  define K where "K = leafCountOf (length ?S)"
  have K: "K \<le> 20" "K = (length ?S + 15 - 1) div 15" using n by (simp_all add: K_def leafCountOf_def)
  have Kes: "leafCountOf (length es) = K" by (simp add: K_def)
  have b0: "elemAt ?brs 0 = Inr (?brs ! 0)" using b by (intro elemAt_in) linarith
  show ?thesis
  proof (cases "?S = []")
    case True
    then have e: "es = []" by (metis length_0_conv length_sort)
    obtain p where "buildNbtLeaf [] (bref_bid (?brs ! 0)) (bref_ib (?brs ! 0)) = Inr p"
      "nbtLeafPage [] (bref_bid (?brs ! 0)) (bref_ib (?brs ! 0)) p"
      using buildNbtLeaf_ok [of "[]"] by auto
    then show ?thesis
      using b0 e by (simp add: buildNbtTree_def Let_def nbt_limits treeOk_def)
  next
    case False
    have "\<exists>p. buildNbtLeaf (leafEntries ?S li) (bref_bid (?brs ! li)) (bref_ib (?brs ! li)) = Inr p
        \<and> nbtLeafPage (map recOf (leafEntries ?S li)) (bref_bid (?brs ! li)) (bref_ib (?brs ! li)) p" for li
      using buildNbtLeaf_ok [of "leafEntries ?S li"]
      by (simp add: sortNbt_leafEntries) (simp add: leafEntries_eq)
    then obtain pg where pg: "\<And>li. buildNbtLeaf (leafEntries ?S li) (bref_bid (?brs ! li)) (bref_ib (?brs ! li)) = Inr (pg li)"
      "\<And>li. nbtLeafPage (map recOf (leafEntries ?S li)) (bref_bid (?brs ! li)) (bref_ib (?brs ! li)) (pg li)"
      by metis
    have bK: "K \<le> length ?brs" using b by (simp add: K_def)
    have leaves: "mapM_r (\<lambda>li. bind_r (elemAt ?brs li) (\<lambda>br.
        buildNbtLeaf (leafEntries ?S li) (bref_bid br) (bref_ib br))) [0..<K] = Inr (map pg [0..<K])"
      by (rule mapM_r_Inr) (use bK pg(1) in simp)
    have nodes: "mapM_r (\<lambda>li. bind_r (elemAt ?brs li) (\<lambda>br.
        Inr \<lparr>bt_btkey = ucast (nid_value (nbt_nid (?S ! (li * 15)))), bt_bref = br\<rparr>)) [0..<K]
        = Inr (nodeEntries ?S ?brs)"
      unfolding nodeEntries_def K_def [symmetric] by (rule mapM_r_Inr) (use bK in simp)
    have keys: "sorted (map bt_btkey (nodeEntries ?S ?brs))"
    proof -
      have "(ucast a :: u64) \<le> ucast b \<longleftrightarrow> a \<le> b" for a b :: u32
        by (simp add: word_le_nat_alt)
      moreover have "nid_value (nbt_nid (?S ! i)) \<le> nid_value (nbt_nid (?S ! j))" if "i \<le> j" "j < length ?S" for i j
        using that sorted_nth_mono [of "map (nid_value \<circ> nbt_nid) ?S" i j] by simp
      moreover have "j * 15 < length ?S" if "j < K" for j
        using that K(2) by simp
      ultimately show ?thesis
        by (auto simp: sorted_iff_nth_mono nodeEntries_def Kes)
    qed
    have "length (nodeEntries ?S ?brs) \<le> 20" using K(1) by (simp add: nodeEntries_def Kes)
    from buildBtIntermediate_ok [OF this keys] obtain q
      where q: "buildBtIntermediate (nodeEntries ?S ?brs) 1 ptype_kNBT (bref_bid (nti_intermediateBref bids))
          (bref_ib (nti_intermediateBref bids)) = Inr q"
        "nbtNodePage (nodeEntries ?S ?brs) (bref_bid (nti_intermediateBref bids))
          (bref_ib (nti_intermediateBref bids)) q" by blast
    have "0 < length ?S" using False by (simp only: length_greater_0_conv) simp
    moreover have "K * 15 \<le> length ?S + 14" "length ?S + 14 < K * 15 + 15"
      unfolding K(2) using div_mult_mod_eq [of "length ?S + 14" 15] mod_less_divisor [of 15 "length ?S + 14"]
      by simp_all
    ultimately have one: "K = 1 \<longleftrightarrow> length ?S \<le> 15" "0 < K" by linarith+
    have "nbtLeafPage (map recOf ?S) (bref_bid (?brs ! 0)) (bref_ib (?brs ! 0)) (pg 0)" if "length ?S \<le> 15"
      using pg(2) [of 0] that by (simp add: leafEntries_eq)
    then show ?thesis
      using False K(1) one pg(2) q(2)
      unfolding buildNbtTree_def Let_def nbt_limits K(2) [symmetric]
      by (simp add: K(2) [symmetric] leaves nodes q(1) b0 treeOk_def Let_def Kes)
  qed
qed

section \<open>Properties\<close>

text \<open>The pages of a tree are in a file: each at the offset of its reference, none at the null one.\<close>

definition treePlaced :: "NbtTreeInputBids \<Rightarrow> NbtTreeOutput \<Rightarrow> bytes \<Rightarrow> bool" where
  "treePlaced bids out file \<longleftrightarrow>
     (\<forall>i < length (nto_leafPages out). pageAt file (bref_ib (nti_leafBrefs bids ! i)) (nto_leafPages out ! i)
        \<and> nti_leafBrefs bids ! i \<noteq> mkBref (Bid 0) (Ib 0))
     \<and> (nto_hasIntermediate out \<longrightarrow>
          pageAt file (bref_ib (nti_intermediateBref bids)) (nto_intermediatePage out))"

definition nbtInput :: "NbtEntry list \<Rightarrow> NbtTreeInputBids \<Rightarrow> bool" where
  "nbtInput es bids \<longleftrightarrow> length es \<le> 300 \<and> distinct (map nbt_nid es)
     \<and> max 1 (leafCountOf (length es)) \<le> length (nti_leafBrefs bids)"

lemma bref_null: "bid_value (bref_bid b) = 0 \<and> ib_value (bref_ib b) = 0 \<longleftrightarrow> b = mkBref (Bid 0) (Ib 0)"
  by (cases b) (auto simp: mkBref_def intro: Bid.expand Ib.expand)

lemma leafCountOf_bounds: "0 < n \<Longrightarrow> (leafCountOf n - 1) * 15 < n \<and> n \<le> leafCountOf n * 15 \<and> 0 < leafCountOf n"
proof -
  assume n: "0 < n"
  have "leafCountOf n * 15 \<le> n + 14" "n + 14 < leafCountOf n * 15 + 15"
    unfolding leafCountOf_def using div_mult_mod_eq [of "n + 14" 15] mod_less_divisor [of 15 "n + 14"] by simp_all
  then show ?thesis using n by (cases "leafCountOf n") auto
qed

text \<open>The number of keys at or below the target, in terms of the entries.\<close>

lemma keysUpTo_node:
  fixes S :: "NbtEntry list" and brs :: "Bref list" and t :: Nid
  assumes "0 < length S"
  defines "m \<equiv> keysUpTo (nodeEntries S brs) t" and "K \<equiv> leafCountOf (length S)"
  shows "m \<le> K" "\<And>i. i < m \<Longrightarrow> nid_value (nbt_nid (S ! (i * 15))) \<le> nid_value t"
    "m < K \<Longrightarrow> nid_value t < nid_value (nbt_nid (S ! (m * 15)))"
proof -
  let ?es = "nodeEntries S brs" and ?P = "\<lambda>e. bt_btkey e \<le> ucast (nid_value t)"
  have len: "length ?es = K" by (simp add: nodeEntries_def K_def)
  have key: "?P (?es ! i) \<longleftrightarrow> nid_value (nbt_nid (S ! (i * 15))) \<le> nid_value t" if "i < K" for i
    using that by (simp add: nodeEntries_def K_def word_le_nat_alt)
  show mK: "m \<le> K" unfolding m_def keysUpTo_def len [symmetric] by (rule length_takeWhile_le)
  show "nid_value (nbt_nid (S ! (i * 15))) \<le> nid_value t" if "i < m" for i
  proof -
    have "takeWhile ?P ?es ! i \<in> set (takeWhile ?P ?es)"
      using that by (simp add: m_def keysUpTo_def)
    then have "?P (?es ! i)"
      using that takeWhile_nth [of i ?P ?es] set_takeWhileD by (fastforce simp: m_def keysUpTo_def)
    then show ?thesis using key [of i] that mK by simp
  qed
  show "nid_value t < nid_value (nbt_nid (S ! (m * 15)))" if "m < K"
  proof -
    have "\<not> ?P (?es ! m)"
      using nth_length_takeWhile [of ?P ?es] that len by (simp add: m_def keysUpTo_def not_le)
    then show ?thesis using key [OF that] by simp
  qed
qed

lemma nbtFind_leaf:
  assumes "pageAt file ib page" and "nbtLeafPage (map recOf es) bid ib' page"
  shows "bind_r (fetchAndValidatePage file (ib_value ib) c) (\<lambda>p. if p ! kBtPageCLevel \<noteq> 0 then f p else searchLeaf p t)
    = Inr (map_option recOf (List.find (\<lambda>e. nbt_nid e = t) es))"
  using nbtLeafPage_read [OF assms] by (simp add: bt_constants find_recOf)

text \<open>A tree whose pages are in place answers every lookup.\<close>

lemma nbtFind_tree:
  assumes ok: "treeOk (sortNbt es) bids out" and pl: "treePlaced bids out fb" and dist: "distinct (map nbt_nid es)"
  shows "nbtFind fb (nto_rootBref out) t c = Inr (map_option recOf (List.find (\<lambda>e. nbt_nid e = t) es))"
proof -
  let ?S = "sortNbt es" and ?brs = "nti_leafBrefs bids" and ?f = "nid_value \<circ> nbt_nid"
  have inj: "inj_on nbt_nid (set es)" using dist by (simp add: distinct_map)
  have nv: "nid_value (nbt_nid e) = nid_value t \<longleftrightarrow> nbt_nid e = t" for e t by (auto intro: Nid.expand)
  have find: "List.find (\<lambda>e. nbt_nid e = t) ?S = List.find (\<lambda>e. nbt_nid e = t) es" for t
    using inj by (intro find_unique) simp_all
  have dS: "distinct (map ?f ?S)"
    using dist inj by (auto simp: distinct_map inj_on_def intro: Nid.expand)
  show ?thesis
  proof (cases "length ?S \<le> 15")
    case True
    then have lp: "nbtLeafPage (map recOf ?S) (bref_bid (?brs ! 0)) (bref_ib (?brs ! 0)) (nto_leafPages out ! 0)"
      and root: "nto_rootBref out = ?brs ! 0" and at: "pageAt fb (bref_ib (?brs ! 0)) (nto_leafPages out ! 0)"
      using ok pl by (simp_all add: treeOk_def treePlaced_def Let_def)
    show ?thesis
      using nbtLeafPage_read [OF at lp] by (simp add: nbtFind_def root bt_constants find_recOf find)
  next
    case False
    define K where "K = leafCountOf (length ?S)"
    let ?es = "nodeEntries ?S ?brs" and ?ib = "bref_ib (nti_intermediateBref bids)"
    define m where "m = keysUpTo ?es t"
    have len: "0 < length ?S" using False by linarith
    note bounds = leafCountOf_bounds [OF len, folded K_def]
      and keys = keysUpTo_node [OF len, where brs = ?brs and t = t, folded K_def m_def]
    have node: "nbtNodePage ?es (bref_bid (nti_intermediateBref bids)) ?ib (nto_intermediatePage out)"
      and leaf: "i < K \<Longrightarrow> nbtLeafPage (map recOf (leafEntries ?S i)) (bref_bid (?brs ! i)) (bref_ib (?brs ! i)) (nto_leafPages out ! i)"
      and lp: "length (nto_leafPages out) = K" "nto_rootBref out = nti_intermediateBref bids" "nto_hasIntermediate out" for i
      using ok False by (simp_all add: treeOk_def Let_def K_def)
    have at: "pageAt fb ?ib (nto_intermediatePage out)"
      and lat: "i < K \<Longrightarrow> pageAt fb (bref_ib (?brs ! i)) (nto_leafPages out ! i) \<and> ?brs ! i \<noteq> mkBref (Bid 0) (Ib 0)" for i
      using pl lp by (simp_all add: treePlaced_def)
    have les: "length ?es = K" by (simp add: nodeEntries_def K_def)
    then have "?es \<noteq> []" using bounds by auto
    note rd = nbtNodePage_read(1-3) [OF at node] nbtNodePage_read(5) [OF at node this, of t]
    have "List.find (\<lambda>e. ?f e = nid_value t) ?S =
        (if m = 0 then None else List.find (\<lambda>e. ?f e = nid_value t) (take 15 (drop ((m - 1) * 15) ?S)))"
      by (rule find_chunk [OF sorted_sort_key dS, where K = K]) (use keys bounds in simp_all)
    then have chunk: "List.find (\<lambda>e. nbt_nid e = t) es =
        (if m = 0 then None else List.find (\<lambda>e. nbt_nid e = t) (leafEntries ?S (m - 1)))"
      by (simp add: nv find leafEntries_eq)
    show ?thesis
    proof (cases "m = 0")
      case True
      then show ?thesis
        using rd chunk by (simp add: nbtFind_def lp bt_constants m_def)
    next
      case m0: False
      then have mK: "m - 1 < K" using keys(1) by simp
      have br: "bt_bref (?es ! (m - 1)) = ?brs ! (m - 1)"
        using mK by (simp add: nodeEntries_def K_def)
      have "nbtFind fb (nto_rootBref out) t c =
          bind_r (fetchAndValidatePage fb (ib_value (bref_ib (?brs ! (m - 1)))) c) (\<lambda>leaf.
             if leaf ! kBtPageCLevel \<noteq> 0
             then Inl (RuntimeError ''nbt reader: child of cLevel=1 page is not a leaf'') else searchLeaf leaf t)"
        using rd m0 br lat [OF mK] by (simp add: nbtFind_def lp bt_constants bref_null flip: m_def)
      also have "\<dots> = Inr (map_option recOf (List.find (\<lambda>e. nbt_nid e = t) (leafEntries ?S (m - 1))))"
        using lat [OF mK] leaf [OF mK] by (intro nbtFind_leaf) simp_all
      finally show ?thesis
        using chunk m0 by simp
    qed
  qed
qed

text \<open>
  C2: what the builder stores, the reader finds.  Given at most 300 entries with distinct NIDs, in
  any order, the tree builder succeeds; and when its pages are put into a file at the offsets of
  their references, a lookup of any NID, with or without CRC checks, returns the record of the
  entry with that NID, or reports that there is none.
\<close>

theorem nbt_lookup:
  assumes "nbtInput es bids"
  shows "\<exists>out. buildNbtTree es bids = Inr out \<and> (\<forall>fb t c. treePlaced bids out fb \<longrightarrow>
    nbtFind fb (nto_rootBref out) t c = Inr (map_option recOf (List.find (\<lambda>e. nbt_nid e = t) es)))"
proof -
  obtain out where out: "buildNbtTree es bids = Inr out" and ok: "treeOk (sortNbt es) bids out"
    using buildNbtTree_ok [of es bids] assms by (auto simp: nbtInput_def)
  show ?thesis
    using out nbtFind_tree [OF ok] assms by (intro exI [of _ out]) (simp add: nbtInput_def)
qed

text \<open>The page of a one-leaf tree, taken as a file of its own.\<close>

lemma single_leaf_file:
  assumes "buildNbtTree [e] bids = Inr out" and "nti_leafBrefs bids = [mkBref b (Ib 0)]" and "b \<noteq> Bid 0"
  shows "treePlaced bids out (nto_leafPages out ! 0)"
proof -
  have "treeOk [e] bids out"
    using buildNbtTree_ok [of "[e]" bids] assms by (auto simp: leafCountOf_def)
  then have "length (nto_leafPages out) = 1" "\<not> nto_hasIntermediate out"
    and "nbtLeafPage [recOf e] b (Ib 0) (nto_leafPages out ! 0)"
    using assms(2) by (simp_all add: treeOk_def Let_def)
  moreover from this have "length (nto_leafPages out ! 0) = 512"
    by (auto simp: nbtLeafPage_def dest: btPageOk_length)
  ultimately show ?thesis
    using assms(2,3) by (simp add: treePlaced_def pageAt_def slice_def mkBref_def)
qed

theorem nbt_lookup_witness:
  "\<exists>out fb. buildNbtTree [\<lparr>nbt_nid = Nid 0x21, nbt_bidData = Bid 4, nbt_bidSub = Bid 0, nbt_nidParent = Nid 0\<rparr>]
       \<lparr>nti_leafBrefs = [mkBref (Bid 6) (Ib 0)], nti_intermediateBref = mkBref (Bid 0) (Ib 0)\<rparr> = Inr out
     \<and> nbtFind fb (nto_rootBref out) (Nid 0x21) True
       = Inr (Some \<lparr>rec_nid = Nid 0x21, rec_bidData = Bid 4, rec_bidSub = Bid 0, rec_nidParent = Nid 0\<rparr>)
     \<and> nbtFind fb (nto_rootBref out) (Nid 0x41) True = Inr None"
proof -
  let ?e = "\<lparr>nbt_nid = Nid 0x21, nbt_bidData = Bid 4, nbt_bidSub = Bid 0, nbt_nidParent = Nid 0\<rparr>"
  let ?b = "\<lparr>nti_leafBrefs = [mkBref (Bid 6) (Ib 0)], nti_intermediateBref = mkBref (Bid 0) (Ib 0)\<rparr>"
  have "nbtInput [?e] ?b" by (simp add: nbtInput_def leafCountOf_def)
  from nbt_lookup [OF this] obtain out where out: "buildNbtTree [?e] ?b = Inr out"
    and find: "\<And>fb t c. treePlaced ?b out fb \<Longrightarrow> nbtFind fb (nto_rootBref out) t c
        = Inr (map_option recOf (List.find (\<lambda>e. nbt_nid e = t) [?e]))" by blast
  have "treePlaced ?b out (nto_leafPages out ! 0)"
    using out by (rule single_leaf_file [where b = "Bid 6"]) simp_all
  from find [OF this] out show ?thesis
    by (intro exI [of _ out] exI [of _ "nto_leafPages out ! 0"]) (simp add: recOf_def)
qed

lemma concat_chunks: "concat (map (\<lambda>i. take 15 (drop (i * 15) S)) [0..<K]) = take (K * 15) S"
proof (induction K)
  case (Suc K)
  have "take (Suc K * 15) S = take (K * 15) S @ take 15 (drop (K * 15) S)"
    by (simp add: add.commute [of 15] take_add)
  then show ?case using Suc by simp
qed simp

lemma nbtForEach_tree:
  assumes ok: "treeOk S bids out" and pl: "treePlaced bids out fb"
  shows "nbtForEach fb (nto_rootBref out) c = Inr (map recOf S)"
proof (cases "length S \<le> 15")
  case True
  let ?brs = "nti_leafBrefs bids"
  have lp: "nbtLeafPage (map recOf S) (bref_bid (?brs ! 0)) (bref_ib (?brs ! 0)) (nto_leafPages out ! 0)"
    and root: "nto_rootBref out = ?brs ! 0" and at: "pageAt fb (bref_ib (?brs ! 0)) (nto_leafPages out ! 0)"
    using ok pl True by (simp_all add: treeOk_def treePlaced_def Let_def)
  show ?thesis
    using nbtLeafPage_read [OF at lp] by (simp add: nbtForEach_def root bt_constants)
next
  case False
  let ?brs = "nti_leafBrefs bids" and ?ib = "bref_ib (nti_intermediateBref bids)"
  define K where "K = leafCountOf (length S)"
  let ?es = "nodeEntries S ?brs"
  have "0 < length S" using False by linarith
  from leafCountOf_bounds [OF this] have len: "length S \<le> K * 15" by (simp add: K_def)
  have node: "nbtNodePage ?es (bref_bid (nti_intermediateBref bids)) ?ib (nto_intermediatePage out)"
    and leaf: "i < K \<Longrightarrow> nbtLeafPage (map recOf (leafEntries S i)) (bref_bid (?brs ! i)) (bref_ib (?brs ! i)) (nto_leafPages out ! i)"
    and lp: "length (nto_leafPages out) = K" "nto_rootBref out = nti_intermediateBref bids" "nto_hasIntermediate out" for i
    using ok False by (simp_all add: treeOk_def Let_def K_def)
  have at: "pageAt fb ?ib (nto_intermediatePage out)"
    and lat: "i < K \<Longrightarrow> pageAt fb (bref_ib (?brs ! i)) (nto_leafPages out ! i)" for i
    using pl lp by (simp_all add: treePlaced_def)
  have les: "length ?es = K" by (simp add: nodeEntries_def K_def)
  have br: "bt_bref (?es ! i) = ?brs ! i" if "i < K" for i using that by (simp add: nodeEntries_def K_def)
  note rd = nbtNodePage_read(1-4) [OF at node, unfolded les]
  let ?P = "drop (unat (ib_value ?ib)) fb"
  have "mapM_r (\<lambda>i. bind_r (readChild ?P i) (\<lambda>childBref.
      bind_r (fetchAndValidatePage fb (ib_value (bref_ib childBref)) c) (\<lambda>leaf.
        if leaf ! kBtPageCLevel \<noteq> 0
        then Inl (RuntimeError ''nbt reader: forEach: child of cLevel=1 page is not a leaf'')
        else enumerateLeaf leaf))) [0..<K] = Inr (map (\<lambda>i. map recOf (leafEntries S i)) [0..<K])"
    by (rule mapM_r_Inr)
       (use rd(4) br nbtLeafPage_read(1,2,3) [OF lat leaf] in \<open>simp add: bt_constants\<close>)
  then have "nbtForEach fb (nto_rootBref out) c = Inr (concat (map (\<lambda>i. map recOf (leafEntries S i)) [0..<K]))"
    using rd(1-3) by (simp add: nbtForEach_def lp bt_constants)
  also have "concat (map (\<lambda>i. map recOf (leafEntries S i)) [0..<K]) = map recOf (concat (map (\<lambda>i. leafEntries S i) [0..<K]))"
    by (simp add: map_concat comp_def)
  also have "concat (map (\<lambda>i. leafEntries S i) [0..<K]) = S"
    using len by (simp add: leafEntries_eq concat_chunks)
  finally show ?thesis .
qed

text \<open>
  C32: enumeration gives back what was stored, in order.  For the pages of a tree of at most 300
  entries with distinct NIDs, \<open>nbtForEach\<close> returns the records of all entries, each once, in
  ascending order of their NIDs.
\<close>

theorem nbt_enumeration:
  assumes "nbtInput es bids" and "buildNbtTree es bids = Inr out" and "treePlaced bids out fb"
  shows "\<exists>rs. nbtForEach fb (nto_rootBref out) c = Inr rs \<and> mset rs = mset (map recOf es)
    \<and> sorted (map (\<lambda>r. nid_value (rec_nid r)) rs) \<and> distinct (map rec_nid rs)"
proof -
  let ?S = "sort_key (nid_value \<circ> nbt_nid) es"
  have "treeOk ?S bids out"
    using buildNbtTree_ok [of es bids] assms(1,2) by (auto simp: nbtInput_def)
  then have "nbtForEach fb (nto_rootBref out) c = Inr (map recOf ?S)"
    using assms(3) by (rule nbtForEach_tree)
  moreover have "mset (map recOf ?S) = mset (map recOf es)" by simp
  moreover have "map (\<lambda>r. nid_value (rec_nid r)) (map recOf ?S) = map (nid_value \<circ> nbt_nid) ?S"
    by (simp add: recOf_def)
  then have "sorted (map (\<lambda>r. nid_value (rec_nid r)) (map recOf ?S))" by (metis sorted_sort_key)
  moreover have "distinct (map nbt_nid ?S)"
    using assms(1) by (simp add: nbtInput_def distinct_map)
  then have "distinct (map rec_nid (map recOf ?S))" by (simp add: recOf_def comp_def)
  ultimately show ?thesis by blast
qed

theorem nbt_enumeration_witness:
  "\<exists>out fb rs. buildNbtTree [\<lparr>nbt_nid = Nid 0x21, nbt_bidData = Bid 4, nbt_bidSub = Bid 0, nbt_nidParent = Nid 0\<rparr>]
       \<lparr>nti_leafBrefs = [mkBref (Bid 6) (Ib 0)], nti_intermediateBref = mkBref (Bid 0) (Ib 0)\<rparr> = Inr out
     \<and> nbtForEach fb (nto_rootBref out) True = Inr rs \<and> length rs = 1"
proof -
  let ?e = "\<lparr>nbt_nid = Nid 0x21, nbt_bidData = Bid 4, nbt_bidSub = Bid 0, nbt_nidParent = Nid 0\<rparr>"
  let ?b = "\<lparr>nti_leafBrefs = [mkBref (Bid 6) (Ib 0)], nti_intermediateBref = mkBref (Bid 0) (Ib 0)\<rparr>"
  have inp: "nbtInput [?e] ?b" by (simp add: nbtInput_def leafCountOf_def)
  obtain out where out: "buildNbtTree [?e] ?b = Inr out"
    using buildNbtTree_ok [of "[?e]" ?b] by (auto simp: leafCountOf_def)
  have "treePlaced ?b out (nto_leafPages out ! 0)"
    using out by (rule single_leaf_file [where b = "Bid 6"]) simp_all
  from nbt_enumeration [OF inp out this] obtain rs where r: "nbtForEach (nto_leafPages out ! 0) (nto_rootBref out) True = Inr rs" "mset rs = mset (map recOf [?e])"
    by blast
  then have "length rs = 1" using mset_eq_length [OF r(2)] by simp
  then show ?thesis using out r(1) by blast
qed

lemma mapM_r_all: "mapM_r f xs = Inr ys \<Longrightarrow> x \<in> set xs \<Longrightarrow> \<exists>y. f x = Inr y"
  by (induction xs arbitrary: ys) (auto simp: bind_r_Inr)

lemma buildNbtTree_runtime_error:
  assumes "buildNbtTree es bids = Inl (RuntimeError msg)"
  shows "300 < length es"
proof (rule ccontr)
  assume n: "\<not> 300 < length es"
  let ?S = "sortNbt es" and ?brs = "nti_leafBrefs bids"
  define K where "K = leafCountOf (length es)"
  have K: "K \<le> 20" "K = (length ?S + 15 - 1) div 15" using n by (simp_all add: K_def leafCountOf_def)
  let ?f = "\<lambda>li. bind_r (elemAt ?brs li) (\<lambda>br. buildNbtLeaf (leafEntries ?S li) (bref_bid br) (bref_ib br))"
  have leaf: "\<exists>p. buildNbtLeaf (leafEntries ?S li) b i = Inr p" for li b i
    using buildNbtLeaf_ok [of "leafEntries ?S li"] by (auto simp: leafEntries_eq)
  have few: "length ?brs < max 1 K"
    using buildNbtTree_ok [of es bids] n assms by (fastforce simp: K_def)
  show False
  proof (cases "?S = []")
    case True
    then show False
      using assms few K
      by (auto simp: buildNbtTree_def Let_def nbt_limits elemAt_def bind_r_Inl split: if_splits)
  next
    case False
    then have "0 < K" using K(2) by (simp add: K(2) div_greater_zero_iff) (cases "length es"; simp)
    have oob: "?f li = Inl e \<Longrightarrow> e = OutOfBounds" for li e
      using leaf [of li "bref_bid (?brs ! li)" "bref_ib (?brs ! li)"]
      by (auto simp: bind_r_Inl elemAt_def split: if_splits)
    have "mapM_r ?f [0..<K] = Inl OutOfBounds"
    proof (cases "mapM_r ?f [0..<K]")
      case (Inr ys)
      have "length ?brs \<in> set [0..<K]" using few \<open>0 < K\<close> by simp
      from mapM_r_all [OF Inr this] show ?thesis by (simp add: elemAt_def)
    next
      case (Inl e)
      then show ?thesis using mapM_r_error [OF Inl] oob by blast
    qed
    then show False
      using assms False K by (simp add: buildNbtTree_def Let_def nbt_limits)
  qed
qed

text \<open>
  The limits of the builders are enforced.  A leaf of more than 15 entries, an intermediate page
  of more than 20, a level of 0 or a page type that is not a B-tree's, and a tree that needs more
  than 20 leaves, that is more than 300 entries, are refused with an exception, and nothing else is.
\<close>

theorem nbt_builders_refuse:
  "(\<exists>msg. buildNbtLeaf es bid ib = Inl (RuntimeError msg)) = (15 < length es)
   \<and> (\<exists>msg. buildBtIntermediate bs cLevel pt bid ib = Inl (RuntimeError msg))
      = (\<not> (length bs \<le> 20 \<and> cLevel \<noteq> 0 \<and> pt \<in> {ptype_kNBT, ptype_kBBT}))
   \<and> (\<exists>msg. buildNbtTree es bids = Inl (RuntimeError msg)) = (300 < length es)"
proof -
  have "\<exists>msg. buildNbtTree es bids = Inl (RuntimeError msg)" if "300 < length es"
  proof -
    have "sortNbt es \<noteq> []" using that by (metis length_sort list.size(3) not_less_zero)
    moreover have "20 < (14 + length es) div 15" using that by linarith
    ultimately show ?thesis by (simp add: buildNbtTree_def Let_def nbt_limits)
  qed
  then have "(\<exists>msg. buildNbtTree es bids = Inl (RuntimeError msg)) = (300 < length es)"
    using buildNbtTree_runtime_error by blast
  then show ?thesis
    by (auto simp: buildNbtLeaf_def buildBtIntermediate_def nbt_limits Let_def not_le)
qed

text \<open>A leaf page of zeros that announces 255 entries.\<close>

definition badPage :: "Bid \<Rightarrow> Ib \<Rightarrow> bytes" where
  "badPage bid ib = writePageTrailer
     (writeU32 (writeU8 (writeU8 (writeU8 (writeU8 (zeros 512) 488 255) 489 255) 490 32) 491 0) 492 0)
     ptype_kNBT bid ib"

lemma badPage_ok: "btPageOk ptype_kNBT 255 255 32 0 [] bid ib (badPage bid ib)"
  using btPageOk_written [of "[]" ptype_kNBT 255 255 32 0 bid ib] by (simp add: badPage_def)

lemma slice_zeros: "off + n \<le> m \<Longrightarrow> slice off n (zeros m) = zeros n"
  by (simp add: slice_def zeros_def min_def)

lemma le32_0: "le32 0 = zeros 4"
  by (simp add: le32_def zeros_def eval_nat_numeral)

lemma badPage_zero: "off + 4 \<le> 488 \<Longrightarrow> readU32 (badPage bid ib) off = 0"
  by (rule readU32_eq)
     (simp_all add: badPage_def buf_simps write_defs slice_store_before slice_zeros le32_0)

lemma searchLoop_skip:
  "(\<And>i. i \<in> set is \<Longrightarrow> \<exists>r. decodeNbtEntry p (i * 32) = Inr r \<and> rec_nid r \<noteq> t) \<Longrightarrow>
    searchLoop p t (is @ js) = searchLoop p t js"
proof (induction "is")
  case (Cons i "is")
  obtain r where "decodeNbtEntry p (i * 32) = Inr r" "rec_nid r \<noteq> t" using Cons.prems by fastforce
  moreover have "nid_value (rec_nid r) = nid_value t \<longleftrightarrow> rec_nid r = t" by (auto intro: Nid.expand)
  ultimately show ?case using Cons by (simp add: bt_constants)
qed simp

lemma searchLoop_overrun:
  assumes "16 < n"
  shows "searchLoop (badPage bid ib) (Nid 1) [0..<n] = Inl OutOfBounds"
proof -
  let ?P = "badPage bid ib"
  have len: "length ?P = 512" using badPage_ok by (rule btPageOk_length)
  have dec: "\<exists>r. decodeNbtEntry ?P (i * 32) = Inr r \<and> rec_nid r \<noteq> Nid 1" if "i < 16" for i
    using that len badPage_zero [of "i * 32" bid ib] by (simp add: decodeNbtEntry_def)
  have "[0..<n] = [0..<16] @ 16 # [Suc 16..<n]"
    using assms upt_add_eq_append [of 0 16 "n - 16"] by (simp add: upt_conv_Cons)
  moreover have "searchLoop ?P (Nid 1) ([0..<16] @ 16 # [Suc 16..<n]) = searchLoop ?P (Nid 1) (16 # [Suc 16..<n])"
    by (rule searchLoop_skip) (use dec in \<open>simp only: set_upt atLeastLessThan_iff\<close>)
  ultimately show ?thesis
    using len by (simp only: searchLoop.simps) (simp add: bt_constants decodeNbtEntry_def)
qed

text \<open>
  C38: the reader trusts the count byte of a page.  A page that passes every check of
  \<open>fetchAndValidatePage\<close>, its CRC included, can announce up to 255 entries, and a search then reads
  past the 512 bytes of the page; in a file that ends with the page the read is out of bounds.
\<close>

theorem nbtFind_overread:
  "nbtFind (badPage bid ib) (mkBref b (Ib 0)) (Nid 1) True = Inl OutOfBounds"
proof -
  let ?P = "badPage bid ib"
  have "length ?P = 512" using badPage_ok by (rule btPageOk_length)
  then have at: "pageAt ?P (Ib 0) ?P" by (simp add: pageAt_def slice_def)
  have f: "fetchAndValidatePage ?P 0 True = Inr ?P"
    using fetch_ok [OF at badPage_ok] by simp
  note v = btPageOk_view [OF badPage_ok, of ?P bid ib "[]"]
  have "unat (255 :: u8) = 255" by simp
  then show ?thesis
    using f v(1,4) searchLoop_overrun [of "unat (?P ! 488)" bid ib]
    by (simp add: nbtFind_def searchLeaf_def bt_constants)
qed

end
