(* ===== verification/Hn.thy ===== *)
theory Hn
  imports Types Codec
begin

text \<open>
  The heap-on-node of \<open>src/ltp.cpp\<close>: HIDs, the builder of a single-block heap with its 16-bit
  cursors, the BTH header and the sorted leaf records of a BTH.  A pointer and a size are one list
  of bytes; a \<open>memcpy\<close> that leaves the destination is the error \<open>OutOfBounds\<close>.  The layout equation
  \<open>buildHeapOnNode_image\<close> says what the bytes are when no cursor wraps.
\<close>

unbundle bit_operations_syntax

section \<open>HIDs\<close>

definition makeHid :: "u16 \<Rightarrow> u16 \<Rightarrow> u8 \<Rightarrow> u32" where
  "makeHid hidIndex1Based hidBlockIndex ht =
     ucast (ht AND 0x1F) OR push_bit 5 (ucast (hidIndex1Based AND 0x07FF)) OR push_bit 16 (ucast hidBlockIndex)"

definition hidType :: "u32 \<Rightarrow> u8" where
  "hidType hid = ucast (hid AND 0x1F)"

definition hidIndex :: "u32 \<Rightarrow> u16" where
  "hidIndex hid = ucast (drop_bit 5 hid AND 0x07FF)"

definition hidBlock :: "u32 \<Rightarrow> u16" where
  "hidBlock hid = ucast (drop_bit 16 hid AND 0xFFFF)"

lemma mask11: "(0x07FF :: 'a::len word) = mask 11"
  by (simp add: mask_eq_exp_minus_1)

lemma hid_fields:
  "hidType (makeHid i b t) = t AND 0x1F" "hidIndex (makeHid i b t) = i AND 0x07FF" "hidBlock (makeHid i b t) = b"
  unfolding hidType_def hidIndex_def hidBlock_def makeHid_def mask5 mask11 mask16
  by (rule bit_word_eqI; auto simp: bit_simps dest: bit_imp_le_length)+

section \<open>The heap builder\<close>

definition kHnSignature :: u8 where
  "kHnSignature = 0xEC"

definition kBthSignature :: u8 where
  "kBthSignature = 0xB5"

definition kTcSignature :: u8 where
  "kTcSignature = 0x7C"

definition kBClientSigPC :: u8 where
  "kBClientSigPC = 0xBC"

definition kBClientSigTC :: u8 where
  "kBClientSigTC = 0x7C"

definition kHnHdrSize :: nat where
  "kHnHdrSize = 12"

definition kHnPageMapHdrSize :: nat where
  "kHnPageMapHdrSize = 4"

definition kHnPageMapEntrySize :: nat where
  "kHnPageMapEntrySize = 2"

definition kHnAllocMax :: nat where
  "kHnAllocMax = 3580"

definition kMaxHnBodyBytes :: nat where
  "kMaxHnBodyBytes = kMaxBlockPayload"

text \<open>The cursor loop: the start of each allocation, and the cursor after the last one.\<close>

fun cursorLoop :: "u16 \<Rightarrow> bytes list \<Rightarrow> u16 list \<times> u16" where
  "cursorLoop cursor [] = ([], cursor)"
| "cursorLoop cursor (a # as) =
     (let (ibs, c) = cursorLoop (cursor + word_of_nat (length a)) as in (cursor # ibs, c))"

fun copyAllocs :: "u16 list \<Rightarrow> bytes list \<Rightarrow> bytes \<Rightarrow> bytes result" where
  "copyAllocs (ib # ibs) (a # as) out =
     (if length a = 0 then copyAllocs ibs as out
      else bind_r (memcpyAt out (unat ib) a) (\<lambda>out. copyAllocs ibs as out))"
| "copyAllocs _ _ out = Inr out"

definition putHnHeader :: "u16 \<Rightarrow> u8 \<Rightarrow> u32 \<Rightarrow> bytes \<Rightarrow> bytes \<Rightarrow> bytes" where
  "putHnHeader ibHnpm bClientSig hidUserRoot rgbFillLevel out =
     (let out = writeU16 out 0 ibHnpm;
          out = writeU8 out 2 kHnSignature;
          out = writeU8 out 3 bClientSig;
          out = writeU32 out 4 hidUserRoot
      in store out 8 (take 4 rgbFillLevel))"

definition putPageMap :: "bytes list \<Rightarrow> u16 \<Rightarrow> u16 \<Rightarrow> u16 list \<Rightarrow> bytes \<Rightarrow> bytes" where
  "putPageMap allocs ibHnpm cAlloc ibAlloc out =
     (let cFree = word_of_nat (length (filter (\<lambda>a. length a = 0) allocs)) :: u16;
          pmOff = unat ibHnpm;
          out = writeU16 out (pmOff + 0) cAlloc;
          out = writeU16 out (pmOff + 2) cFree
      in fold (\<lambda>i b. writeU16 b (pmOff + kHnPageMapHdrSize + i * kHnPageMapEntrySize) (ibAlloc ! i))
           [0..<unat cAlloc + 1] out)"

definition buildHeapOnNode :: "bytes list \<Rightarrow> u8 \<Rightarrow> u32 \<Rightarrow> bytes \<Rightarrow> bytes result" where
  "buildHeapOnNode allocs bClientSig hidUserRoot rgbFillLevel =
     (let (ibUser, cursorAfterUser) = cursorLoop (word_of_nat kHnHdrSize) allocs;
          ibHnpm = ucast ((ucast cursorAfterUser + 3 :: u32) AND NOT 3) :: u16;
          hasPhantom = (cursorAfterUser \<noteq> ibHnpm);
          cAlloc = word_of_nat (length allocs + (if hasPhantom then 1 else 0)) :: u16;
          ibAlloc = ibUser @ (if hasPhantom then [cursorAfterUser] else []) @ [ibHnpm];
          pageMapBytes = kHnPageMapHdrSize + (unat cAlloc + 1) * kHnPageMapEntrySize;
          totalSize = unat ibHnpm + pageMapBytes
      in if totalSize < kHnHdrSize then Inl OutOfBounds
      else bind_r (copyAllocs ibUser allocs
                     (putHnHeader ibHnpm bClientSig hidUserRoot rgbFillLevel (zeros totalSize)))
             (\<lambda>out. Inr (putPageMap allocs ibHnpm cAlloc ibAlloc out)))"

section \<open>BTH\<close>

definition encodeBthHeader :: "u8 \<Rightarrow> u8 \<Rightarrow> u8 \<Rightarrow> u32 \<Rightarrow> bytes" where
  "encodeBthHeader cbKey cbEnt bIdxLevels hidRoot =
     (let out = zeros 8;
          out = writeU8 out 0 kBthSignature;
          out = writeU8 out 1 cbKey;
          out = writeU8 out 2 cbEnt;
          out = writeU8 out 3 bIdxLevels
      in writeU32 out 4 hidRoot)"

text \<open>Keys are compared from the last byte to the first.\<close>

fun keyLess :: "bytes \<Rightarrow> bytes \<Rightarrow> nat \<Rightarrow> bool" where
  "keyLess a b 0 = False"
| "keyLess a b (Suc i) = (if a ! i \<noteq> b ! i then a ! i < b ! i else keyLess a b i)"

text \<open>Sorting with a comparison function: the stable sort that \<open>std::sort\<close> is modelled by.\<close>

fun insertBy :: "('a \<Rightarrow> 'a \<Rightarrow> bool) \<Rightarrow> 'a \<Rightarrow> 'a list \<Rightarrow> 'a list" where
  "insertBy lt x [] = [x]"
| "insertBy lt x (y # ys) = (if lt y x then y # insertBy lt x ys else x # y # ys)"

definition sortBy :: "('a \<Rightarrow> 'a \<Rightarrow> bool) \<Rightarrow> 'a list \<Rightarrow> 'a list" where
  "sortBy lt xs = foldr (insertBy lt) xs []"

lemma sortBy_key:
  fixes f :: "'a \<Rightarrow> 'k :: linorder"
  assumes "\<And>x y. lt x y \<longleftrightarrow> f x < f y"
  shows "sortBy lt xs = sort_key f xs"
proof -
  have "insertBy lt = insort_key f"
  proof (intro ext)
    fix x and ys :: "'a list"
    show "insertBy lt x ys = insort_key f x ys" by (induction ys) (auto simp: assms)
  qed
  then show ?thesis by (simp add: sortBy_def sort_key_def)
qed

record BthRecord =
  bth_keyBytes :: bytes
  bth_dataBytes :: bytes

definition putBthRecord :: "nat \<Rightarrow> nat \<Rightarrow> BthRecord \<Rightarrow> nat \<Rightarrow> bytes \<Rightarrow> bytes result" where
  "putBthRecord cbKey cbEnt r off out =
     (if length (bth_keyBytes r) < cbKey \<or> length (bth_dataBytes r) < cbEnt then Inl OutOfBounds
      else bind_r (memcpyAt out off (take cbKey (bth_keyBytes r))) (\<lambda>out.
           memcpyAt out (off + cbKey) (take cbEnt (bth_dataBytes r))))"

fun putBthRecords :: "nat \<Rightarrow> nat \<Rightarrow> BthRecord list \<Rightarrow> nat \<Rightarrow> bytes \<Rightarrow> bytes result" where
  "putBthRecords cbKey cbEnt [] i out = Inr out"
| "putBthRecords cbKey cbEnt (r # rs) i out =
     bind_r (putBthRecord cbKey cbEnt r (i * (cbKey + cbEnt)) out) (putBthRecords cbKey cbEnt rs (i + 1))"

definition buildBthLeafRecords :: "BthRecord list \<Rightarrow> u8 \<Rightarrow> u8 \<Rightarrow> bytes result" where
  "buildBthLeafRecords records cbKey cbEnt =
     (let keyOk = (cbKey = 1 \<or> cbKey = 2 \<or> cbKey = 4 \<or> cbKey = 8 \<or> cbKey = 16)
      in if \<not> keyOk
         then Inl (InvalidArgument ''buildBthLeafRecords: cbKey must be 1, 2, 4, 8, or 16'')
         else if cbEnt = 0 \<or> cbEnt > 32
         then Inl (InvalidArgument ''buildBthLeafRecords: cbEnt must be in 1..32'')
         else let recSize = unat cbKey + unat cbEnt; totalBytes = length records * recSize
           in if totalBytes > kHnAllocMax
              then Inl (LengthError ''buildBthLeafRecords: total bytes exceed kHnAllocMax (3580)'')
              else let srt = sortBy (\<lambda>a b. keyLess (bth_keyBytes a) (bth_keyBytes b) (unat cbKey)) records
                in putBthRecords (unat cbKey) (unat cbEnt) srt 0 (zeros totalBytes))"

section \<open>The layout of a heap\<close>

lemmas hn_constants = kHnHdrSize_def kHnPageMapHdrSize_def kHnPageMapEntrySize_def kHnAllocMax_def
  kMaxHnBodyBytes_def kMaxBlockPayload_def kHnSignature_def kBthSignature_def kTcSignature_def
  kBClientSigPC_def kBClientSigTC_def

text \<open>The offsets of the allocations, without a width; the end of the last; the start of the page map.\<close>

fun offsets :: "nat \<Rightarrow> bytes list \<Rightarrow> nat list" where
  "offsets c [] = []"
| "offsets c (a # as) = c # offsets (c + length a) as"

definition heapEnd :: "bytes list \<Rightarrow> nat" where
  "heapEnd allocs = 12 + length (concat allocs)"

definition mapStart :: "bytes list \<Rightarrow> nat" where
  "mapStart allocs = (heapEnd allocs + 3) div 4 * 4"

definition mapOffsets :: "bytes list \<Rightarrow> nat list" where
  "mapOffsets allocs = offsets 12 allocs
     @ (if heapEnd allocs \<noteq> mapStart allocs then [heapEnd allocs] else []) @ [mapStart allocs]"

lemma length_offsets [simp]: "length (offsets c as) = length as"
  by (induction as arbitrary: c) simp_all

lemma length_mapOffsets:
  "length (mapOffsets as) = length as + (if heapEnd as \<noteq> mapStart as then 1 else 0) + 1"
  by (simp add: mapOffsets_def)

lemma mapStart_bounds: "heapEnd as \<le> mapStart as" "mapStart as < heapEnd as + 4" "12 \<le> mapStart as"
proof -
  show a: "heapEnd as \<le> mapStart as" and "mapStart as < heapEnd as + 4"
    unfolding mapStart_def using div_mult_mod_eq [of "heapEnd as + 3" 4] mod_less_divisor [of 4 "heapEnd as + 3"]
    by linarith+
  show "12 \<le> mapStart as" using a by (simp add: heapEnd_def)
qed

lemma cursorLoop_eq:
  "cursorLoop (word_of_nat c) as = (map word_of_nat (offsets c as), word_of_nat (c + length (concat as)))"
proof (induction as arbitrary: c)
  case (Cons a as)
  then show ?case using Cons [of "c + length a"] by (simp add: ac_simps)
qed simp

lemma unat_u16 [simp]: "n < 65536 \<Longrightarrow> unat (word_of_nat n :: u16) = n"
  by (simp add: unat_of_nat take_bit_nat_eq_self)

lemma copyAllocs_eq:
  assumes "c + length (concat as) \<le> length out" and "c + length (concat as) < 65536"
  shows "copyAllocs (map word_of_nat (offsets c as)) as out = Inr (store out c (concat as))"
  using assms
proof (induction as arbitrary: c out)
  case (Cons a as)
  show ?case
  proof (cases "a = []")
    case True
    then show ?thesis using Cons by simp
  next
    case False
    have "store (store out c a) (c + length a) (concat as) = store out c (concat (a # as))"
      using Cons.prems by (simp add: store_adjacent)
    then show ?thesis
      using Cons.prems False Cons.IH [of "c + length a" "store out c a"] by (simp add: memcpyAt_def)
  qed
qed simp

lemma and_not_3: "w AND NOT 3 = push_bit 2 (drop_bit 2 w)" for w :: u32
proof -
  have m: "(3 :: u32) = mask 2" by (simp add: mask_eq_exp_minus_1)
  have s: "2 \<le> n \<Longrightarrow> Suc (Suc (n - 2)) = n" for n by simp
  show ?thesis unfolding m by (rule bit_word_eqI) (auto simp: bit_simps s not_less)
qed

lemma unat_and_not_3:
  fixes w :: u32
  shows "unat (w AND NOT 3) = unat w div 4 * 4"
proof -
  have lt: "unat w < 2 ^ 32" using unsigned_less [of w] by simp
  then have t: "take_bit 32 (unat w) = unat w" by (rule take_bit_nat_eq_self)
  have "unat (w AND NOT 3) = take_bit 32 (push_bit 2 (drop_bit 2 (unat w)))"
    by (simp only: and_not_3 unsigned_push_bit_eq unsigned_drop_bit_eq) (simp add: t)
  also have "\<dots> = take_bit 32 (unat w div 4 * 4)"
    by (simp add: push_bit_eq_mult drop_bit_eq_div)
  also have "\<dots> = unat w div 4 * 4"
    using lt div_times_less_eq_dividend [of "unat w" 4] by (intro take_bit_nat_eq_self) linarith
  finally show ?thesis .
qed

lemma ibHnpm_eq:
  assumes "t \<le> 65532"
  shows "(ucast ((ucast (word_of_nat t :: u16) + 3 :: u32) AND NOT 3) :: u16) = word_of_nat ((t + 3) div 4 * 4)"
proof -
  have "unat (ucast (word_of_nat t :: u16) :: u32) = t"
    using assms by (simp add: unsigned_ucast_eq take_bit_nat_eq_self)
  then have "unat (ucast (word_of_nat t :: u16) + 3 :: u32) = t + 3"
    using assms by (simp add: unat_word_ariths)
  then have "unat ((ucast (word_of_nat t :: u16) + 3 :: u32) AND NOT 3) = (t + 3) div 4 * 4"
    by (simp only: unat_and_not_3)
  then show ?thesis by (metis of_nat_unat)
qed

definition hnHeader :: "bytes list \<Rightarrow> u8 \<Rightarrow> u32 \<Rightarrow> bytes \<Rightarrow> bytes" where
  "hnHeader as sig root fill = le16 (word_of_nat (mapStart as)) @ [kHnSignature, sig] @ le32 root @ fill"

definition hnPageMap :: "bytes list \<Rightarrow> bytes" where
  "hnPageMap as = le16 (word_of_nat (length (mapOffsets as) - 1))
     @ le16 (word_of_nat (length (filter (\<lambda>a. length a = 0) as)))
     @ concat (map (\<lambda>n. le16 (word_of_nat n)) (mapOffsets as))"

definition hnImage :: "bytes list \<Rightarrow> u8 \<Rightarrow> u32 \<Rightarrow> bytes \<Rightarrow> bytes" where
  "hnImage as sig root fill =
     hnHeader as sig root fill @ concat as @ zeros (mapStart as - heapEnd as) @ hnPageMap as"

text \<open>The range in which no cursor wraps.\<close>

definition hnFits :: "bytes list \<Rightarrow> bool" where
  "hnFits as \<longleftrightarrow> heapEnd as \<le> 65532 \<and> length as < 65535"

lemma length_hnHeader [simp]: "length fill = 4 \<Longrightarrow> length (hnHeader as sig root fill) = 12"
  by (simp add: hnHeader_def)

lemma length_hnPageMap: "length (hnPageMap as) = 4 + length (mapOffsets as) * 2"
  by (simp add: hnPageMap_def length_concat_const [where w = 2])

lemma length_hnImage:
  "length fill = 4 \<Longrightarrow> length (hnImage as sig root fill) = mapStart as + 4 + length (mapOffsets as) * 2"
  using mapStart_bounds(1) [of as] by (simp add: hnImage_def length_hnPageMap heapEnd_def)

lemma word_of_nat_u16_eq: "a < 65536 \<Longrightarrow> b < 65536 \<Longrightarrow> (word_of_nat a :: u16) = word_of_nat b \<longleftrightarrow> a = b"
  by (metis unat_u16)

lemma page_map_writes:
  "length b = p + (4 + length x) \<Longrightarrow>
    store (writeU16 (writeU16 b (p + 0) k) (p + 2) f) (p + 4) x = store b p (le16 k @ le16 f @ x)"
  by (simp add: write_defs store_adjacent)

lemma buildHeapOnNode_image:
  assumes "hnFits as" and "length fill = 4"
  shows "buildHeapOnNode as sig root fill = Inr (hnImage as sig root fill)"
proof -
  let ?P = "mapStart as" and ?T = "heapEnd as" and ?K = "length (mapOffsets as) - 1"
  let ?H = "hnHeader as sig root fill" and ?C = "concat as"
  let ?N = "?P + (4 + (?K + 1) * 2)" and ?free = "length (filter (\<lambda>a. length a = 0) as)"
  have T: "?T \<le> 65532" "12 + length ?C = ?T" and n: "length as < 65535"
    using assms(1) by (simp_all add: hnFits_def heapEnd_def)
  note P = mapStart_bounds [of as]
  have P32: "?P \<le> 65532"
    using T(1) div_le_mono [of "?T + 3" 65535 4] by (simp add: mapStart_def)
  have cur: "cursorLoop (word_of_nat 12) as = (map word_of_nat (offsets 12 as), word_of_nat ?T)"
    unfolding heapEnd_def by (rule cursorLoop_eq)
  have ib: "(ucast ((ucast (word_of_nat ?T :: u16) + 3 :: u32) AND NOT 3) :: u16) = word_of_nat ?P"
    using ibHnpm_eq [OF T(1)] by (simp add: mapStart_def)
  have ph: "(word_of_nat ?T \<noteq> (word_of_nat ?P :: u16)) = (?T \<noteq> ?P)"
    using T(1) P32 by (simp add: word_of_nat_u16_eq)
  have K: "length as + (if ?T \<noteq> ?P then 1 else 0) = ?K" by (simp add: length_mapOffsets)
  have "?K < 65536" unfolding K [symmetric] using n by simp
  then have K16: "unat (word_of_nat ?K :: u16) = ?K" by (rule unat_u16)
  have P16: "unat (word_of_nat ?P :: u16) = ?P" using P32 by (intro unat_u16) simp
  have K1: "?K + 1 = length (mapOffsets as)" by (simp add: mapOffsets_def)
  let ?ibs = "map word_of_nat (mapOffsets as) :: u16 list"
  have ibs: "map word_of_nat (offsets 12 as) @ (if ?T \<noteq> ?P then [word_of_nat ?T] else []) @ [word_of_nat ?P] = ?ibs"
    by (simp add: mapOffsets_def)
  have hdr: "store (writeU32 (writeU8 (writeU8 (writeU16 (zeros ?N) 0 (word_of_nat ?P)) 2 kHnSignature) 3 sig) 4 root) 8 fill
      = store (zeros ?N) 0 ?H"
    using P(3) assms(2) by (simp add: write_defs store_adjacent hnHeader_def)
  have cp: "copyAllocs (map word_of_nat (offsets 12 as)) as (store (zeros ?N) 0 ?H) = Inr (store (zeros ?N) 0 (?H @ ?C))"
    using T P assms(2) copyAllocs_eq [of 12 as "store (zeros ?N) 0 ?H"] by (simp add: store_adjacent)
  let ?b = "store (zeros ?N) 0 (?H @ ?C)"
  have b: "length ?b = ?N" using T P assms(2) by simp
  have loop: "fold (\<lambda>i b. writeU16 b (?P + 4 + i * 2) (?ibs ! i)) [0..<?K + 1]
      (writeU16 (writeU16 ?b (?P + 0) (word_of_nat ?K)) (?P + 2) (word_of_nat ?free))
      = store (writeU16 (writeU16 ?b (?P + 0) (word_of_nat ?K)) (?P + 2) (word_of_nat ?free)) (?P + 4)
         (concat (map (\<lambda>i. le16 (?ibs ! i)) [0..<?K + 1]))"
    by (rule fold_store_cong [where w = 2]) (use b in \<open>simp_all add: write_defs\<close>)
  also have "concat (map (\<lambda>i. le16 (?ibs ! i)) [0..<?K + 1]) = concat (map (\<lambda>n. le16 (word_of_nat n)) (mapOffsets as))"
    unfolding K1 using map_nth_upt [of le16 ?ibs] by (simp add: comp_def)
  also have "store (writeU16 (writeU16 ?b (?P + 0) (word_of_nat ?K)) (?P + 2) (word_of_nat ?free)) (?P + 4) \<dots>
      = store ?b ?P (hnPageMap as)"
    unfolding hnPageMap_def by (rule page_map_writes) (simp only: b length_concat_const [where w = 2] length_le16, simp only: K1)
  also have "\<dots> = take ?P ?b @ hnPageMap as"
    using b K1 length_hnPageMap [of as] by (simp add: store_def)
  also have "take ?P ?b = ?H @ ?C @ zeros (?P - ?T)"
    using T P assms(2) by (simp add: store_def zeros_def min_def)
  finally have pm: "fold (\<lambda>i b. writeU16 b (?P + 4 + i * 2) (?ibs ! i)) [0..<?K + 1]
      (writeU16 (writeU16 ?b (?P + 0) (word_of_nat ?K)) (?P + 2) (word_of_nat ?free)) = hnImage as sig root fill"
    by (simp add: hnImage_def)
  have N: "\<not> ?N < 12" using P(3) by simp
  show ?thesis
    unfolding buildHeapOnNode_def putHnHeader_def putPageMap_def Let_def hn_constants(1-3) cur prod.case
      ib ph K K16 P16 ibs
    using N hdr cp pm assms(2) by simp
qed

section \<open>Resolving a HID\<close>

definition resolveHidInSingleBlockHn :: "u32 \<Rightarrow> bytes \<Rightarrow> nat \<Rightarrow> u16 \<Rightarrow> (nat \<times> nat) result" where
  "resolveHidInSingleBlockHn hid hn hnpmOff cAlloc =
     (let hType = ucast (hid AND 0x1F) :: u8;
          hIdx = ucast (drop_bit 5 hid AND 0x07FF) :: u16;
          hBlk = ucast (drop_bit 16 hid AND 0xFFFF) :: u16
      in if hType \<noteq> 0 then Inl (RuntimeError ''readPropertyContext: HID has nidType != NID_TYPE_HID'')
      else if hIdx = 0 then Inl (RuntimeError ''readPropertyContext: HID has hidIndex == 0'')
      else if hBlk \<noteq> 0 then Inl (RuntimeError ''readPropertyContext: HID has hidBlockIndex != 0'')
      else if hIdx > cAlloc then Inl (RuntimeError ''readPropertyContext: HID hidIndex exceeds cAlloc'')
      else let startOff = hnpmOff + 4 + (unat hIdx - 1) * 2; endOff = hnpmOff + 4 + unat hIdx * 2
        in if endOff + 2 > length hn
           then Inl (RuntimeError ''readPropertyContext: HNPAGEMAP rgibAlloc entry out of range'')
           else bind_r (checked 2 readU16 hn startOff) (\<lambda>s. bind_r (checked 2 readU16 hn endOff) (\<lambda>e.
             if e < s \<or> unat e > length hn
             then Inl (RuntimeError ''readPropertyContext: HN allocation bounds invalid'')
             else Inr (unat s, unat e - unat s))))"

lemma offsets_nth: "i < length as \<Longrightarrow> offsets c as ! i = c + length (concat (take i as))"
proof (induction as arbitrary: c i)
  case (Cons a as)
  then show ?case by (cases i) simp_all
qed simp

lemma mapOffsets_nth: "k \<le> length as \<Longrightarrow> mapOffsets as ! k = 12 + length (concat (take k as))"
  by (cases "k = length as") (auto simp: mapOffsets_def nth_append offsets_nth heapEnd_def)

lemma slice_hnImage_alloc:
  assumes "length fill = 4" and "i < length as"
  shows "slice (12 + length (concat (take i as))) (length (as ! i)) (hnImage as sig root fill) = as ! i"
proof -
  have r: "length (concat (take i as)) + length (as ! i) \<le> length (concat as)"
    using take_length_le [of "Suc i" as] assms(2) by (simp add: take_Suc_conv_app_nth)
  have "slice (12 + length (concat (take i as))) (length (as ! i)) (hnImage as sig root fill)
      = slice (length (concat (take i as))) (length (as ! i)) (concat as @ zeros (mapStart as - heapEnd as) @ hnPageMap as)"
    unfolding hnImage_def using assms(1) by (simp add: slice_append_right)
  also have "\<dots> = slice (length (concat (take i as))) (length (as ! i)) (concat as)"
    using r by (rule slice_append_left)
  finally show ?thesis using slice_concat_nth [OF assms(2)] by simp
qed

lemma slice_hnImage_map:
  assumes "length fill = 4" and "off + n \<le> length (hnPageMap as)"
  shows "slice (mapStart as + off) n (hnImage as sig root fill) = slice off n (hnPageMap as)"
proof -
  let ?pre = "hnHeader as sig root fill @ concat as @ zeros (mapStart as - heapEnd as)"
  have "length ?pre = mapStart as"
    using assms(1) mapStart_bounds(1) [of as] by (simp add: heapEnd_def)
  then show ?thesis
    using slice_append_right [of ?pre "mapStart as + off" n "hnPageMap as"] by (simp add: hnImage_def)
qed

lemma read_hnImage_entry:
  assumes "length fill = 4" and "k < length (mapOffsets as)"
  shows "readU16 (hnImage as sig root fill) (mapStart as + 4 + k * 2) = word_of_nat (mapOffsets as ! k)"
proof (rule readU16_eq)
  have r: "k * 2 + 2 \<le> length (mapOffsets as) * 2" using assms(2) by (rule entry_room)
  then show "mapStart as + 4 + k * 2 + 2 \<le> length (hnImage as sig root fill)"
    using assms(1) by (simp add: length_hnImage)
  have "slice (mapStart as + (4 + k * 2)) 2 (hnImage as sig root fill) = slice (4 + k * 2) 2 (hnPageMap as)"
    using assms(1) r by (intro slice_hnImage_map) (simp_all add: length_hnPageMap)
  also have "\<dots> = slice (k * 2) 2 (concat (map (\<lambda>n. le16 (word_of_nat n)) (mapOffsets as)))"
    unfolding hnPageMap_def by (simp add: slice_append_right)
  also have "\<dots> = le16 (word_of_nat (mapOffsets as ! k))"
    using assms(2) by (rule slice_concat_const [rotated]) simp
  finally show "slice (mapStart as + 4 + k * 2) 2 (hnImage as sig root fill) = le16 (word_of_nat (mapOffsets as ! k))"
    by (simp add: add.assoc)
qed

lemma hnImage_cAlloc:
  assumes "length fill = 4"
  shows "readU16 (hnImage as sig root fill) (mapStart as) = word_of_nat (length (mapOffsets as) - 1)"
proof (rule readU16_eq)
  show "slice (mapStart as) 2 (hnImage as sig root fill) = le16 (word_of_nat (length (mapOffsets as) - 1))"
    using slice_hnImage_map [OF assms, of 0 2 as] by (simp add: length_hnPageMap) (simp add: hnPageMap_def slice_def)
qed (use assms in \<open>simp add: length_hnImage\<close>)

lemma hnImage_header:
  assumes "length fill = 4"
  shows "readU16 (hnImage as sig root fill) 0 = word_of_nat (mapStart as)"
    "hnImage as sig root fill ! 2 = kHnSignature" "hnImage as sig root fill ! 3 = sig"
    "readU32 (hnImage as sig root fill) 4 = root"
proof -
  have l: "12 \<le> length (hnImage as sig root fill)"
    using assms mapStart_bounds(3) [of as] by (simp add: length_hnImage)
  have sl: "slice o' n (hnImage as sig root fill) = slice o' n (hnHeader as sig root fill)" if "o' + n \<le> 12" for o' n
    using that assms by (simp add: hnImage_def slice_append_left)
  show "readU16 (hnImage as sig root fill) 0 = word_of_nat (mapStart as)"
    "readU32 (hnImage as sig root fill) 4 = root"
    using l sl [of 0 2] sl [of 4 4] by (intro readU_eq; simp add: hnHeader_def slice_def)+
  show "hnImage as sig root fill ! 2 = kHnSignature" "hnImage as sig root fill ! 3 = sig"
    using sl [of 2 1] sl [of 3 1] by (intro nth_slice1; simp add: hnHeader_def slice_def)+
qed

lemma resolve_hnImage:
  assumes fits: "hnFits as" and fill: "length fill = 4" and i: "i < length as" "i < 2047"
  shows "resolveHidInSingleBlockHn (makeHid (word_of_nat (i + 1)) 0 0) (hnImage as sig root fill) (mapStart as)
      (word_of_nat (length (mapOffsets as) - 1))
    = Inr (12 + length (concat (take i as)), length (as ! i))"
proof -
  let ?hid = "makeHid (word_of_nat (i + 1)) 0 0" and ?hn = "hnImage as sig root fill"
  have mo: "length as + 1 \<le> length (mapOffsets as)" "length (mapOffsets as) \<le> length as + 2"
    by (simp_all add: length_mapOffsets)
  have m: "word_of_nat (i + 1) AND (0x07FF :: u16) = word_of_nat (i + 1)"
  proof -
    have "take_bit 11 (i + 1) = i + 1" using i(2) by (intro take_bit_nat_eq_self) simp
    then show ?thesis
      unfolding mask11 by (simp only: flip: take_bit_eq_mask) (metis of_nat_Suc of_nat_add of_nat_1 Suc_eq_plus1 take_bit_of_nat)
  qed
  have f: "hidType ?hid = 0" "hidIndex ?hid = word_of_nat (i + 1)" "hidBlock ?hid = 0"
    by (simp_all only: hid_fields m) simp_all
  have idx: "unat (word_of_nat (i + 1) :: u16) = i + 1" using i(2) by (intro unat_u16) simp
  then have nz: "(word_of_nat (i + 1) :: u16) \<noteq> 0" by (metis add_is_0 one_neq_zero unat_0)
  have ca: "unat (word_of_nat (length (mapOffsets as) - 1) :: u16) = length (mapOffsets as) - 1"
    using fits mo unfolding hnFits_def by (intro unat_u16) linarith
  have le: "\<not> word_of_nat (i + 1) > (word_of_nat (length (mapOffsets as) - 1) :: u16)"
    using idx ca i(1) mo by (simp add: word_less_nat_alt not_less)
  have room: "\<not> mapStart as + 4 + (i + 1) * 2 + 2 > length ?hn" "mapStart as + 4 + i * 2 + 2 \<le> length ?hn"
    using mo i(1) fill by (simp_all add: length_hnImage)
  have off: "mapOffsets as ! i = 12 + length (concat (take i as))"
    "mapOffsets as ! (i + 1) = 12 + length (concat (take i as)) + length (as ! i)"
    using i(1) by (simp_all add: mapOffsets_nth take_Suc_conv_app_nth)
  have bnd: "12 + length (concat (take i as)) + length (as ! i) \<le> heapEnd as"
    using take_length_le [of "i + 1" as] i(1) by (simp add: heapEnd_def take_Suc_conv_app_nth)
  moreover have "heapEnd as \<le> 65532" using fits by (simp add: hnFits_def)
  ultimately have u: "unat (word_of_nat (mapOffsets as ! i) :: u16) = mapOffsets as ! i"
    "unat (word_of_nat (mapOffsets as ! (i + 1)) :: u16) = mapOffsets as ! (i + 1)"
    unfolding off by (intro unat_u16; simp)+
  have s: "readU16 ?hn (mapStart as + 4 + i * 2) = word_of_nat (mapOffsets as ! i)"
    and e: "readU16 ?hn (mapStart as + 4 + (i + 1) * 2) = word_of_nat (mapOffsets as ! (i + 1))"
    by (rule read_hnImage_entry [OF fill]; use i(1) mo(1) in linarith)+
  have ok: "\<not> (word_of_nat (mapOffsets as ! (i + 1)) < (word_of_nat (mapOffsets as ! i) :: u16)
      \<or> unat (word_of_nat (mapOffsets as ! (i + 1)) :: u16) > length ?hn)"
    using u off bnd mapStart_bounds(1) [of as] fill by (simp add: word_less_nat_alt length_hnImage)
  have c: "checked 2 readU16 ?hn (mapStart as + 4 + (i + 1 - 1) * 2) = Inr (word_of_nat (mapOffsets as ! i))"
    "checked 2 readU16 ?hn (mapStart as + 4 + (i + 1) * 2) = Inr (word_of_nat (mapOffsets as ! (i + 1)))"
    using room s e by (simp_all add: checked_def)
  show ?thesis
    unfolding resolveHidInSingleBlockHn_def Let_def f [unfolded hidType_def hidIndex_def hidBlock_def] idx
    using nz le room(1) ok c u off by (simp only: bind_r.simps if_False simp_thms) simp
qed

section \<open>The leaf records of a BTH\<close>

text \<open>A key as the number that its bytes write in little-endian order.\<close>

primrec keyNum :: "nat \<Rightarrow> bytes \<Rightarrow> nat" where
  "keyNum 0 bs = 0"
| "keyNum (Suc n) bs = keyNum n bs + unat (bs ! n) * 256 ^ n"

lemma keyNum_less: "keyNum n bs < 256 ^ n"
proof (induction n)
  case (Suc n)
  have "unat (bs ! n) < 2 ^ LENGTH(8)" by (rule unsigned_less)
  then have "unat (bs ! n) \<le> 255" by simp
  then have "unat (bs ! n) * 256 ^ n \<le> 255 * 256 ^ n" by (rule mult_le_mono1)
  then have "keyNum (Suc n) bs < 256 ^ n + 255 * 256 ^ n"
    using Suc unfolding keyNum.simps by (rule add_less_le_mono [rotated])
  then show ?case by simp
qed simp

lemma keyLess_iff: "keyLess a b n \<longleftrightarrow> keyNum n a < keyNum n b"
proof (induction n)
  case (Suc n)
  have step: "keyNum n x + u * 256 ^ n < keyNum n y + v * 256 ^ n" if "u < v" for x y and u v :: nat
  proof -
    have "keyNum n x + u * 256 ^ n < (u + 1) * 256 ^ n" using keyNum_less [of n x] by simp
    also have "\<dots> \<le> v * 256 ^ n" using that by (intro mult_le_mono1) simp
    finally show ?thesis by simp
  qed
  show ?case
    using Suc step [of "unat (a ! n)" "unat (b ! n)" a b] step [of "unat (b ! n)" "unat (a ! n)" b a]
    by (cases "a ! n = b ! n") (auto simp: word_less_nat_alt neq_iff dest: less_imp_not_less)
qed simp

definition bthWidth :: "nat \<Rightarrow> nat \<Rightarrow> BthRecord list \<Rightarrow> bool" where
  "bthWidth k n rs \<longleftrightarrow> list_all (\<lambda>r. length (bth_keyBytes r) = k \<and> length (bth_dataBytes r) = n) rs"

definition encBthRecord :: "BthRecord \<Rightarrow> bytes" where
  "encBthRecord r = bth_keyBytes r @ bth_dataBytes r"

lemma putBthRecords_eq:
  assumes "bthWidth k n rs" and "(i + length rs) * (k + n) \<le> length out"
  shows "putBthRecords k n rs i out = Inr (store out (i * (k + n)) (concat (map encBthRecord rs)))"
  using assms
proof (induction rs arbitrary: i out)
  case (Cons r rs)
  let ?w = "k + n"
  have w: "length (bth_keyBytes r) = k" "length (bth_dataBytes r) = n" "bthWidth k n rs"
    using Cons.prems(1) by (simp_all add: bthWidth_def)
  have len: "length (concat (map encBthRecord rs)) = length rs * ?w"
    using w(3) by (intro length_concat_const) (auto simp: bthWidth_def list_all_iff encBthRecord_def)
  have room: "i * ?w + ?w + length rs * ?w \<le> length out"
    using Cons.prems(2) by (simp add: algebra_simps)
  have "putBthRecord k n r (i * ?w) out = Inr (store out (i * ?w) (encBthRecord r))"
    using w room by (simp add: putBthRecord_def memcpyAt_def store_adjacent encBthRecord_def)
  moreover have "store (store out (i * ?w) (encBthRecord r)) ((i + 1) * ?w) (concat (map encBthRecord rs))
      = store out (i * ?w) (concat (map encBthRecord (r # rs)))"
    using room len w by (simp add: store_adjacent encBthRecord_def)
  moreover have "length (store out (i * ?w) (encBthRecord r)) = length out"
    using room w by (simp add: encBthRecord_def)
  ultimately show ?case
    using Cons.IH [OF w(3), of "i + 1" "store out (i * ?w) (encBthRecord r)"] room by (simp add: algebra_simps)
qed simp

lemma buildBthLeafRecords_eq:
  assumes "bthWidth (unat cbKey) (unat cbEnt) rs" and "cbKey \<in> {1, 2, 4, 8, 16}" and "cbEnt \<noteq> 0" "cbEnt \<le> 32"
    and "length rs * (unat cbKey + unat cbEnt) \<le> 3580"
  shows "buildBthLeafRecords rs cbKey cbEnt =
    Inr (concat (map encBthRecord (sort_key (\<lambda>r. keyNum (unat cbKey) (bth_keyBytes r)) rs)))"
proof -
  let ?s = "sort_key (\<lambda>r. keyNum (unat cbKey) (bth_keyBytes r)) rs" and ?w = "unat cbKey + unat cbEnt"
  have srt: "sortBy (\<lambda>a b. keyLess (bth_keyBytes a) (bth_keyBytes b) (unat cbKey)) rs = ?s"
    by (rule sortBy_key) (simp add: keyLess_iff)
  have wid: "bthWidth (unat cbKey) (unat cbEnt) ?s"
    using assms(1) by (simp add: bthWidth_def list_all_iff)
  have "putBthRecords (unat cbKey) (unat cbEnt) ?s 0 (zeros (length rs * ?w))
      = Inr (store (zeros (length rs * ?w)) (0 * ?w) (concat (map encBthRecord ?s)))"
    by (rule putBthRecords_eq [OF wid]) simp
  moreover have "length (concat (map encBthRecord ?s)) = length rs * ?w"
    using wid length_concat_const [of ?s encBthRecord ?w]
    by (auto simp: bthWidth_def list_all_iff encBthRecord_def)
  then have "store (zeros (length rs * ?w)) (0 * ?w) (concat (map encBthRecord ?s)) = concat (map encBthRecord ?s)"
    using store_zeros_head [of "concat (map encBthRecord ?s)" 0] by (simp add: zeros_def)
  ultimately show ?thesis
    using assms(2-5) unfolding buildBthLeafRecords_def Let_def hn_constants srt
    by (auto simp: not_less)
qed

section \<open>Properties\<close>

text \<open>
  C17: allocations can be found again.  When the allocations end below the 16-bit limit of the
  cursors, the heap builder succeeds, and the HID of each of the first 2047 allocations, counted from
  one, resolves in the finished heap, through the page map that the header points to, to exactly the
  bytes of that allocation; the header holds the signatures and the user root.  A HID has 11 bits for
  the number of an allocation, so the ones after the first 2047 have none of their own.
\<close>

theorem buildHeapOnNode_roundtrip:
  assumes "hnFits as" and "length fill = 4" and "i < length as" and "i < 2047"
  shows "\<exists>hn off. buildHeapOnNode as sig root fill = Inr hn
    \<and> resolveHidInSingleBlockHn (makeHid (word_of_nat (i + 1)) 0 0) hn (unat (readU16 hn 0))
        (readU16 hn (unat (readU16 hn 0))) = Inr (off, length (as ! i))
    \<and> slice off (length (as ! i)) hn = as ! i \<and> hn ! 2 = kHnSignature \<and> hn ! 3 = sig \<and> readU32 hn 4 = root"
proof -
  let ?hn = "hnImage as sig root fill"
  have "mapStart as < 65536" using mapStart_bounds(2) [of as] assms(1) by (simp add: hnFits_def)
  then have "unat (readU16 ?hn 0) = mapStart as" by (simp add: hnImage_header assms(2))
  then show ?thesis
    using buildHeapOnNode_image [OF assms(1,2)] resolve_hnImage [OF assms(1-4), where sig = sig and root = root]
      slice_hnImage_alloc [OF assms(2,3), of sig root] hnImage_header [OF assms(2), of as sig root]
      hnImage_cAlloc [OF assms(2), of as sig root]
    by simp
qed

theorem buildHeapOnNode_roundtrip_witness:
  "\<exists>hn off. buildHeapOnNode [[1, 2, 3], [4]] kBClientSigPC 0x20 [0, 0, 0, 0] = Inr hn \<and> slice off 1 hn = [4]"
  using buildHeapOnNode_roundtrip [of "[[1, 2, 3], [4]]" "[0, 0, 0, 0]" 1 kBClientSigPC "0x20"]
  by (auto simp: hnFits_def heapEnd_def)

text \<open>
  The leaf of a BTH is sorted.  Records with keys and data of the declared widths that fit one
  allocation are stored without gaps, each exactly once, ordered by their keys read as
  little-endian numbers.
\<close>

theorem buildBthLeafRecords_sorted:
  assumes "bthWidth (unat cbKey) (unat cbEnt) rs" and "cbKey \<in> {1, 2, 4, 8, 16}" and "1 \<le> cbEnt" "cbEnt \<le> 32"
    and "length rs * (unat cbKey + unat cbEnt) \<le> kHnAllocMax"
  shows "\<exists>out srt. buildBthLeafRecords rs cbKey cbEnt = Inr out \<and> mset srt = mset rs
    \<and> sorted (map (\<lambda>r. keyNum (unat cbKey) (bth_keyBytes r)) srt)
    \<and> (\<forall>i < length srt. slice (i * (unat cbKey + unat cbEnt)) (unat cbKey) out = bth_keyBytes (srt ! i)
        \<and> slice (i * (unat cbKey + unat cbEnt) + unat cbKey) (unat cbEnt) out = bth_dataBytes (srt ! i))
    \<and> length out = length rs * (unat cbKey + unat cbEnt)"
proof -
  let ?k = "unat cbKey" and ?n = "unat cbEnt"
  define srt where "srt = sort_key (\<lambda>r. keyNum ?k (bth_keyBytes r)) rs"
  define out where "out = concat (map encBthRecord srt)"
  have "cbEnt \<noteq> 0" using assms(3) by auto
  then have b: "buildBthLeafRecords rs cbKey cbEnt = Inr out"
    using assms buildBthLeafRecords_eq [of cbKey cbEnt rs] by (simp add: hn_constants srt_def out_def)
  have w: "length (bth_keyBytes r) = ?k" "length (bth_dataBytes r) = ?n" if "r \<in> set srt" for r
    using assms(1) that by (auto simp: bthWidth_def list_all_iff srt_def)
  then have e: "length (encBthRecord r) = ?k + ?n" if "r \<in> set srt" for r
    using that by (simp add: encBthRecord_def)
  have "slice (i * (?k + ?n)) ?k out = bth_keyBytes (srt ! i)
      \<and> slice (i * (?k + ?n) + ?k) ?n out = bth_dataBytes (srt ! i)" if "i < length srt" for i
  proof -
    have s: "slice (i * (?k + ?n)) (?k + ?n) out = encBthRecord (srt ! i)"
      unfolding out_def using e that by (rule slice_concat_const)
    have "srt ! i \<in> set srt" using that by simp
    then show ?thesis
      using slice_field [OF s, of 0 ?k] slice_field [OF s, of ?k ?n] w [of "srt ! i"]
      by (simp add: encBthRecord_def slice_def)
  qed
  moreover have "length out = length rs * (?k + ?n)"
    unfolding out_def using e by (subst length_concat_const [where w = "?k + ?n"]) (simp_all add: srt_def)
  ultimately show ?thesis using b by (intro exI [of _ out] exI [of _ srt]) (simp add: srt_def)
qed

theorem buildBthLeafRecords_sorted_witness:
  "\<exists>out. buildBthLeafRecords [\<lparr>bth_keyBytes = [9, 1], bth_dataBytes = [5]\<rparr>, \<lparr>bth_keyBytes = [1, 0], bth_dataBytes = [6]\<rparr>] 2 1
     = Inr out \<and> length out = 6"
  using buildBthLeafRecords_sorted [where cbKey = 2 and cbEnt = 1 and rs =
      "[\<lparr>bth_keyBytes = [9, 1], bth_dataBytes = [5]\<rparr>, \<lparr>bth_keyBytes = [1, 0], bth_dataBytes = [6]\<rparr>]"]
  by (auto simp: bthWidth_def hn_constants)

end
