(* ===== verification/Pc.thy ===== *)
theory Pc
  imports Hn
begin

text \<open>
  Property contexts (\<open>src/ltp.cpp\<close>): the storage classes of property types, the writer
  \<open>buildPropertyContext\<close> and the reader \<open>readPropertyContext\<close>.  A value is the list of its bytes, so
  the null pointer with a nonzero size is not represented.
\<close>

unbundle bit_operations_syntax

section \<open>Storage classes\<close>

definition fixedSize :: "PropType \<Rightarrow> nat" where
  "fixedSize t =
     (case t of
        PtBoolean \<Rightarrow> 1
      | PtInt16 \<Rightarrow> 2
      | PtInt32 \<Rightarrow> 4 | PtFloat32 \<Rightarrow> 4 | PtErrorCode \<Rightarrow> 4
      | PtInt64 \<Rightarrow> 8 | PtFloat64 \<Rightarrow> 8 | PtCurrency \<Rightarrow> 8 | PtAppTime \<Rightarrow> 8 | PtSystemTime \<Rightarrow> 8
      | PtClassId \<Rightarrow> 16
      | _ \<Rightarrow> 0)"

definition isFixedSize :: "PropType \<Rightarrow> bool" where
  "isFixedSize t \<longleftrightarrow> fixedSize t \<noteq> 0"

datatype PropStorageHint = HintAuto | HintSubnode

datatype ResolvedStorage = RsInline | RsHnAlloc | RsSubnode

definition resolveStorage :: "PropType \<Rightarrow> nat \<Rightarrow> PropStorageHint \<Rightarrow> ResolvedStorage" where
  "resolveStorage t valueSize hint =
     (if hint = HintSubnode then RsSubnode
      else if isFixedSize t then (if fixedSize t \<le> 4 then RsInline else RsHnAlloc)
      else if valueSize \<le> kHnAllocMax then RsHnAlloc
      else RsSubnode)"

definition packInlineValue :: "PropType \<Rightarrow> bytes \<Rightarrow> u32" where
  "packInlineValue t value =
     (let buf = zeros 4; fs = fixedSize t;
          copyLen = (if fs > 0 \<and> fs \<le> 4 then fs else if length value > 4 then 4 else length value)
      in readU32 (store buf 0 (take copyLen value)) 0)"

text \<open>PT_MV_UNICODE: the count, the offset of each string, and the strings.\<close>

fun mvLoop :: "bytes list \<Rightarrow> nat \<Rightarrow> nat \<Rightarrow> bytes \<Rightarrow> bytes" where
  "mvLoop [] i cursor out = out"
| "mvLoop (s # ss) i cursor out =
     (let out = writeU32 out (4 + i * 4) (word_of_nat cursor);
          out = (if length s > 0 then store out cursor s else out)
      in mvLoop ss (i + 1) (cursor + length s) out)"

definition encodeMvUnicode :: "bytes list \<Rightarrow> bytes" where
  "encodeMvUnicode strings =
     (let headerSize = 4 + length strings * 4;
          total_size = headerSize + sum_list (map length strings);
          out = writeU32 (zeros total_size) 0 (word_of_nat (length strings))
      in mvLoop strings 0 headerSize out)"

section \<open>The writer\<close>

record PcProperty =
  pc_pidTagId :: u16
  pc_propType :: PropType
  pc_value :: bytes
  pc_storage :: PropStorageHint

record PcSubnodeOut =
  so_nid :: Nid
  so_pidTagId :: u16
  so_data :: bytes

record PcResult =
  pcr_hnBytes :: bytes
  pcr_subnodes :: "PcSubnodeOut list"

text \<open>Adjacent duplicates in the sorted order, and the checks of each property in input order.\<close>

fun hasAdjacentDup :: "PcProperty list \<Rightarrow> bool" where
  "hasAdjacentDup (p # q # ps) \<longleftrightarrow> pc_pidTagId q = pc_pidTagId p \<or> hasAdjacentDup (q # ps)"
| "hasAdjacentDup _ \<longleftrightarrow> False"

fun validateProps :: "PcProperty list \<Rightarrow> unit result" where
  "validateProps [] = Inr ()"
| "validateProps (p # ps) =
     (if isFixedSize (pc_propType p) \<and> length (pc_value p) \<noteq> fixedSize (pc_propType p)
      then Inl (InvalidArgument ''buildPropertyContext: fixed-size value has wrong byte length'')
      else if pc_storage p = HintSubnode \<and> length (pc_value p) = 0
      then Inl (InvalidArgument ''buildPropertyContext: forced-subnode prop must have a value'')
      else validateProps ps)"

definition classOf :: "PcProperty \<Rightarrow> ResolvedStorage" where
  "classOf p = resolveStorage (pc_propType p) (length (pc_value p)) (pc_storage p)"

text \<open>The assignment loop over the sorted properties: HID, NID and subnode entries.\<close>

fun assignIds :: "PcProperty list \<Rightarrow> u32 \<Rightarrow> Nid \<Rightarrow> (u32 \<times> Nid) list \<times> PcSubnodeOut list" where
  "assignIds [] nextHidIndex nextNid = ([], [])"
| "assignIds (p # ps) nextHidIndex nextNid =
     (case classOf p of
        RsInline \<Rightarrow> let (ids, subs) = assignIds ps nextHidIndex nextNid in ((0, Nid 0) # ids, subs)
      | RsHnAlloc \<Rightarrow> let (ids, subs) = assignIds ps (nextHidIndex + 1) nextNid
                    in ((makeHid (ucast nextHidIndex) 0 0, Nid 0) # ids, subs)
      | RsSubnode \<Rightarrow> let (ids, subs) = assignIds ps nextHidIndex (Nid (nid_value nextNid + push_bit 5 1))
                    in ((0, nextNid) # ids,
                        \<lparr>so_nid = nextNid, so_pidTagId = pc_pidTagId p, so_data = pc_value p\<rparr> # subs))"

definition pcRecord :: "PcProperty \<times> u32 \<times> Nid \<Rightarrow> BthRecord" where
  "pcRecord x =
     (case x of (p, hid, nid) \<Rightarrow>
        let dwValueHnid =
              (case classOf p of RsInline \<Rightarrow> packInlineValue (pc_propType p) (pc_value p)
               | RsHnAlloc \<Rightarrow> hid | RsSubnode \<Rightarrow> nid_value nid)
        in \<lparr>bth_keyBytes = writeU16 (zeros 2) 0 (pc_pidTagId p),
            bth_dataBytes = writeU32 (writeU16 (zeros 6) 0 (propTypeVal (pc_propType p))) 2 dwValueHnid\<rparr>)"

definition buildPropertyContext :: "PcProperty list \<Rightarrow> Nid \<Rightarrow> PcResult result" where
  "buildPropertyContext props firstSubnodeNid =
     (if nid_type firstSubnodeNid = NtHID
      then Inl (InvalidArgument ''buildPropertyContext: firstSubnodeNid must have nidType != HID'')
      else let srt = sort_key pc_pidTagId props in
      if hasAdjacentDup srt
      then Inl (InvalidArgument ''buildPropertyContext: duplicate pidTagId in input'')
      else bind_r (validateProps props) (\<lambda>_.
        let (ids, subs) = assignIds srt 3 firstSubnodeNid;
            bthRecs = map pcRecord (zip srt ids)
        in bind_r (buildBthLeafRecords bthRecs 2 6) (\<lambda>bthLeaf.
          let bthHdr = encodeBthHeader 2 6 0 (makeHid 2 0 0);
              allocs = bthHdr # bthLeaf # map pc_value (filter (\<lambda>p. classOf p = RsHnAlloc) srt)
          in bind_r (buildHeapOnNode allocs kBClientSigPC (makeHid 1 0 0) (zeros 4)) (\<lambda>hnBytes.
            if length hnBytes > kMaxHnBodyBytes
            then Inl (LengthError ''buildPropertyContext: HN body exceeds single-block cap (8176)'')
            else Inr \<lparr>pcr_hnBytes = hnBytes, pcr_subnodes = subs\<rparr>))))"

section \<open>The reader\<close>

datatype PcStorage = PsInline | PsHnAlloc | PsSubnode

record ReadPcProp =
  rp_pidTagId :: u16
  rp_propType :: PropType
  rp_storage :: PcStorage
  rp_inlineValue :: u32
  rp_value :: bytes
  rp_subnodeNid :: Nid

definition readPcRecord :: "bytes \<Rightarrow> nat \<Rightarrow> u16 \<Rightarrow> nat \<Rightarrow> ReadPcProp result" where
  "readPcRecord hn ibHnpm cAlloc recOff =
     bind_r (checked 2 readU16 hn (recOff + 0)) (\<lambda>tag.
     bind_r (checked 2 readU16 hn (recOff + 2)) (\<lambda>ty.
     bind_r (checked 4 readU32 hn (recOff + 4)) (\<lambda>dwValueHnid.
       let t = propTypeOf ty;
           p = \<lparr>rp_pidTagId = tag, rp_propType = t, rp_storage = PsInline, rp_inlineValue = 0,
                rp_value = [], rp_subnodeNid = Nid 0\<rparr>
       in if isFixedSize t \<and> fixedSize t \<le> 4
          then Inr (p\<lparr>rp_inlineValue := dwValueHnid\<rparr>)
          else if dwValueHnid AND 0x1F = 0
          then bind_r (resolveHidInSingleBlockHn dwValueHnid hn ibHnpm cAlloc) (\<lambda>(off, size).
                 Inr (p\<lparr>rp_storage := PsHnAlloc, rp_value := slice off size hn\<rparr>))
          else Inr (p\<lparr>rp_storage := PsSubnode, rp_subnodeNid := Nid dwValueHnid\<rparr>))))"

definition readPropertyContext :: "bytes \<Rightarrow> ReadPcProp list result" where
  "readPropertyContext hn =
     (if length hn < kHnHdrSize
      then Inl (RuntimeError ''readPropertyContext: HN body too small for HNHDR'')
      else
        bind_r (checked 2 readU16 hn 0) (\<lambda>ib.
        bind_r (checked 1 (!) hn 2) (\<lambda>bSig.
        bind_r (checked 1 (!) hn 3) (\<lambda>bClient.
        bind_r (checked 4 readU32 hn 4) (\<lambda>hidUserRoot.
        let ibHnpm = unat ib in
        if bSig \<noteq> kHnSignature then Inl (RuntimeError ''readPropertyContext: HNHDR.bSig != 0xEC'')
        else if bClient \<noteq> kBClientSigPC then Inl (RuntimeError ''readPropertyContext: bClientSig != 0xBC (not a PC)'')
        else if ibHnpm + kHnPageMapHdrSize > length hn
        then Inl (RuntimeError ''readPropertyContext: ibHnpm out of range'')
        else bind_r (checked 2 readU16 hn (ibHnpm + 0)) (\<lambda>cAlloc.
          if ibHnpm + kHnPageMapHdrSize + (unat cAlloc + 1) * kHnPageMapEntrySize > length hn
          then Inl (RuntimeError ''readPropertyContext: HNPAGEMAP extends past HN end'')
          else bind_r (resolveHidInSingleBlockHn hidUserRoot hn ibHnpm cAlloc) (\<lambda>(hoff, hsize).
            if hsize \<noteq> 8 then Inl (RuntimeError ''readPropertyContext: BTHHEADER allocation has wrong size'')
            else
              bind_r (checked 1 (!) hn (hoff + 0)) (\<lambda>bthType.
              bind_r (checked 1 (!) hn (hoff + 1)) (\<lambda>cbKey.
              bind_r (checked 1 (!) hn (hoff + 2)) (\<lambda>cbEnt.
              bind_r (checked 1 (!) hn (hoff + 3)) (\<lambda>idxLevels.
              bind_r (checked 4 readU32 hn (hoff + 4)) (\<lambda>hidRoot.
              if bthType \<noteq> kBthSignature then Inl (RuntimeError ''readPropertyContext: BTHHEADER.bType != 0xB5'')
              else if cbKey \<noteq> 2 then Inl (RuntimeError ''readPropertyContext: PC requires cbKey == 2'')
              else if cbEnt \<noteq> 6 then Inl (RuntimeError ''readPropertyContext: PC requires cbEnt == 6'')
              else if idxLevels \<noteq> 0 then Inl (RuntimeError ''readPropertyContext: bIdxLevels > 0'')
              else if drop_bit 5 hidRoot AND 0x07FF = 0 then Inr []
              else bind_r (resolveHidInSingleBlockHn hidRoot hn ibHnpm cAlloc) (\<lambda>(loff, lsize).
                if lsize mod 8 \<noteq> 0
                then Inl (RuntimeError ''readPropertyContext: BTH leaf size not divisible by record size (8)'')
                else mapM_r (\<lambda>i. readPcRecord hn ibHnpm cAlloc (loff + i * 8)) [0..<lsize div 8])))))))))))))"

section \<open>A heap that was built did not wrap\<close>

lemma length_store_ge: "length b \<le> length (store b off bs)"
  by (simp add: store_def)

lemma length_write_ge:
  "length b \<le> length (writeU8 b off v8)" "length b \<le> length (writeU16 b off v16)"
  "length b \<le> length (writeU32 b off v32)"
  by (simp_all add: write_defs length_store_ge)

lemma length_fold_ge: "(\<And>x b. length b \<le> length (f x b)) \<Longrightarrow> length b \<le> length (fold f xs b)"
  by (induction xs arbitrary: b) (auto intro: order_trans)

lemma copyAllocs_length: "copyAllocs ibs as out = Inr out' \<Longrightarrow> length out' = length out"
  by (induction ibs as out rule: copyAllocs.induct)
     (auto simp: bind_r_Inr memcpyAt_def split: if_splits)

lemma copyAllocs_success:
  assumes "copyAllocs (map word_of_nat (offsets c as)) as out = Inr out'" and "c \<le> length out" and "length out < 65536"
  shows "c + length (concat as) \<le> length out \<and> length out' = length out"
  using assms
proof (induction as arbitrary: c out)
  case (Cons a as)
  show ?case
  proof (cases "a = []")
    case True
    then show ?thesis using Cons by simp
  next
    case False
    obtain o1 where o1: "memcpyAt out c a = Inr o1"
      and rest: "copyAllocs (map word_of_nat (offsets (c + length a) as)) as o1 = Inr out'"
      using Cons.prems False by (auto simp: bind_r_Inr)
    then have r: "c + length a \<le> length out" "length o1 = length out"
      by (auto simp: memcpyAt_def split: if_splits)
    then show ?thesis using Cons.IH [OF rest] Cons.prems(3) by simp
  qed
qed simp

lemma length_putPageMap_ge: "length b \<le> length (putPageMap as ib cA ibs b)"
  unfolding putPageMap_def Let_def
  by (intro order_trans [OF _ length_fold_ge] length_write_ge order_trans [OF length_write_ge(2) length_write_ge(2)])

lemma length_putHnHeader:
  "12 \<le> length b \<Longrightarrow> length fill = 4 \<Longrightarrow> length (putHnHeader ib sig root fill b) = length b"
  by (simp add: putHnHeader_def Let_def write_defs)

lemma heap_success:
  assumes b: "buildHeapOnNode as sig root fill = Inr hn" and fill: "length fill = 4"
    and hn: "length hn \<le> 65532" and n: "length as < 65535"
  shows "hn = hnImage as sig root fill \<and> hnFits as"
proof -
  have cur: "cursorLoop (word_of_nat 12) as = (map word_of_nat (offsets 12 as), word_of_nat (12 + length (concat as)))"
    by (rule cursorLoop_eq)
  obtain N ib cA ibs out' where N: "12 \<le> N"
    and cp: "copyAllocs (map word_of_nat (offsets 12 as)) as (putHnHeader ib sig root fill (zeros N)) = Inr out'"
    and h: "hn = putPageMap as ib cA ibs out'"
    using b unfolding buildHeapOnNode_def Let_def kHnHdrSize_def cur prod.case
    by (auto simp: bind_r_Inr not_less simp del: of_nat_add split: if_split_asm)
  have len: "length (putHnHeader ib sig root fill (zeros N)) = N"
    using N fill by (simp add: length_putHnHeader)
  have "length out' \<le> length hn" unfolding h by (rule length_putPageMap_ge)
  then have NH: "N \<le> length hn" using copyAllocs_length [OF cp] len by simp
  have "12 + length (concat as) \<le> N"
    using copyAllocs_success [OF cp] NH hn N len by linarith
  then have "hnFits as" using hn n NH by (simp add: hnFits_def heapEnd_def)
  then show ?thesis using buildHeapOnNode_image [OF _ fill] b by simp
qed

section \<open>What the writer assigns\<close>

definition classCount :: "ResolvedStorage \<Rightarrow> PcProperty list \<Rightarrow> nat" where
  "classCount c ps = length (filter (\<lambda>p. classOf p = c) ps)"

definition subnodeNid :: "Nid \<Rightarrow> nat \<Rightarrow> Nid" where
  "subnodeNid n k = Nid (nid_value n + word_of_nat k * 32)"

lemma classCount_simps [simp]:
  "classCount c [] = 0"
  "classCount c (p # ps) = (if classOf p = c then 1 else 0) + classCount c ps"
  by (simp_all add: classCount_def)

lemma classCount_le: "classCount c ps \<le> length ps"
  by (simp add: classCount_def)

lemma subnodeNid_step: "subnodeNid (Nid (nid_value n + 32)) k = subnodeNid n (Suc k)"
  by (simp add: subnodeNid_def algebra_simps)

lemma subnodeNid_0 [simp]: "subnodeNid n 0 = n"
  by (simp add: subnodeNid_def)

lemma assignIds_spec:
  "assignIds ps h n = (ids, subs) \<Longrightarrow>
    length ids = length ps
    \<and> (\<forall>i < length ps. ids ! i = (case classOf (ps ! i) of RsInline \<Rightarrow> (0, Nid 0)
        | RsHnAlloc \<Rightarrow> (makeHid (ucast (h + word_of_nat (classCount RsHnAlloc (take i ps)))) 0 0, Nid 0)
        | RsSubnode \<Rightarrow> (0, subnodeNid n (classCount RsSubnode (take i ps)))))
    \<and> map so_data subs = map pc_value (filter (\<lambda>p. classOf p = RsSubnode) ps)
    \<and> map so_pidTagId subs = map pc_pidTagId (filter (\<lambda>p. classOf p = RsSubnode) ps)
    \<and> map so_nid subs = map (subnodeNid n) [0..<classCount RsSubnode ps]"
proof (induction ps arbitrary: h n ids subs)
  case (Cons p ps)
  have shift: "map (subnodeNid n) [0..<Suc k] = n # map (subnodeNid (Nid (nid_value n + 32))) [0..<k]" for k
    unfolding map_upt_Suc subnodeNid_step by simp
  show ?case
  proof (cases "classOf p")
    case RsInline
    obtain ids' subs' where r: "assignIds ps h n = (ids', subs')" by fastforce
    then show ?thesis using Cons.IH [OF r] Cons.prems RsInline
      by (auto simp: All_less_Suc2 split: ResolvedStorage.splits)
  next
    case RsHnAlloc
    obtain ids' subs' where r: "assignIds ps (h + 1) n = (ids', subs')" by fastforce
    then show ?thesis using Cons.IH [OF r] Cons.prems RsHnAlloc
      by (auto simp: All_less_Suc2 ac_simps split: ResolvedStorage.splits)
  next
    case RsSubnode
    obtain ids' subs' where r: "assignIds ps h (Nid (nid_value n + push_bit 5 1)) = (ids', subs')" by fastforce
    then show ?thesis using Cons.IH [OF r] Cons.prems RsSubnode
      by (auto simp: All_less_Suc2 shift subnodeNid_step simp del: upt_Suc split: ResolvedStorage.splits)
  qed
qed simp

lemma adjacentDup_strict:
  "sorted (map pc_pidTagId ps) \<Longrightarrow> \<not> hasAdjacentDup ps \<Longrightarrow> distinct (map pc_pidTagId ps)"
proof (induction ps rule: hasAdjacentDup.induct)
  case (1 p q ps)
  have "pc_pidTagId p < pc_pidTagId q" using 1 by (auto simp: less_le)
  moreover have "pc_pidTagId q \<le> t" if "t \<in> set (map pc_pidTagId ps)" for t using 1(2) that by auto
  ultimately have "pc_pidTagId p \<notin> set (map pc_pidTagId (q # ps))" by fastforce
  then show ?case using 1 by simp
qed simp_all

lemma adjacentDup_iff:
  "sorted (map pc_pidTagId ps) \<Longrightarrow> hasAdjacentDup ps \<longleftrightarrow> \<not> distinct (map pc_pidTagId ps)"
proof (intro iffI)
  show "hasAdjacentDup ps \<Longrightarrow> \<not> distinct (map pc_pidTagId ps)"
    by (induction ps rule: hasAdjacentDup.induct) auto
qed (use adjacentDup_strict in blast)

text \<open>The record of a property: tag, type and the 4-byte slot.\<close>

definition slotOf :: "PcProperty \<times> u32 \<times> Nid \<Rightarrow> u32" where
  "slotOf x = (case x of (p, hid, nid) \<Rightarrow>
     (case classOf p of RsInline \<Rightarrow> packInlineValue (pc_propType p) (pc_value p)
      | RsHnAlloc \<Rightarrow> hid | RsSubnode \<Rightarrow> nid_value nid))"

lemma pcRecord_eq:
  "pcRecord x = \<lparr>bth_keyBytes = le16 (pc_pidTagId (fst x)),
     bth_dataBytes = le16 (propTypeVal (pc_propType (fst x))) @ le32 (slotOf x)\<rparr>"
proof -
  obtain p hid nid where x: "x = (p, hid, nid)" by (cases x)
  have "writeU16 (zeros 2) 0 v = le16 v" for v
    using store_zeros_head [of "le16 v" 0] by (simp add: writeU16_def zeros_def)
  moreover have "writeU32 (writeU16 (zeros 6) 0 a) 2 b = le16 a @ le32 b" for a b
    using store_zeros_head [of "le16 a @ le32 b" 0] by (simp add: write_defs store_adjacent zeros_def)
  ultimately show ?thesis by (simp add: x pcRecord_def slotOf_def Let_def)
qed

lemma keyNum_le16: "keyNum 2 (le16 v) = unat v"
proof -
  have "unat (ucast (v AND 0xFF) :: u8) = unat v mod 256"
    unfolding byte_mask
    by (simp add: unsigned_ucast_eq unsigned_take_bit_eq flip: take_bit_eq_mask) (simp add: take_bit_eq_mod)
  moreover have "unat (ucast (drop_bit 8 v AND 0xFF) :: u8) = unat v div 256"
  proof -
    have "unat v < 2 ^ LENGTH(16)" by (rule unsigned_less)
    then show ?thesis
      unfolding byte_mask take_bit_eq_mask [symmetric]
      by (simp only: unsigned_ucast_eq unsigned_take_bit_eq unsigned_drop_bit_eq)
        (simp add: take_bit_eq_mod drop_bit_eq_div less_mult_imp_div_less)
  qed
  moreover have "keyNum 2 bs = unat (bs ! 0) + unat (bs ! 1) * 256" for bs
    by (simp add: numeral_2_eq_2)
  ultimately show ?thesis by (simp add: le16_def)
qed

section \<open>The heap of a property context\<close>

definition pcLeaf :: "PcProperty list \<Rightarrow> Nid \<Rightarrow> bytes" where
  "pcLeaf S nid = concat (map (\<lambda>x. encBthRecord (pcRecord x)) (zip S (fst (assignIds S 3 nid))))"

definition pcAllocs :: "PcProperty list \<Rightarrow> Nid \<Rightarrow> bytes list" where
  "pcAllocs S nid = encodeBthHeader 2 6 0 (makeHid 2 0 0) # pcLeaf S nid
     # map pc_value (filter (\<lambda>p. classOf p = RsHnAlloc) S)"

abbreviation sortPc :: "PcProperty list \<Rightarrow> PcProperty list" where
  "sortPc \<equiv> sort_key pc_pidTagId"

lemma length_assignIds [simp]: "length (fst (assignIds ps h n)) = length ps"
  using assignIds_spec [of ps h n] by (metis prod.collapse)

lemma length_pcRecord [simp]: "length (encBthRecord (pcRecord x)) = 8"
  by (simp add: encBthRecord_def pcRecord_eq)

lemma length_pcLeaf: "length (pcLeaf S nid) = length S * 8"
  by (simp add: pcLeaf_def length_concat_const [where w = 8])

lemma encodeBthHeader_eq: "encodeBthHeader k n l root = [kBthSignature, k, n, l] @ le32 root"
  using store_zeros_head [of "[kBthSignature, k, n, l] @ le32 root" 0]
  by (simp add: encodeBthHeader_def Let_def write_defs store_adjacent zeros_def)

lemma pcLeaf_built:
  assumes "sorted (map pc_pidTagId S)"
  shows "buildBthLeafRecords (map pcRecord (zip S (fst (assignIds S 3 nid)))) 2 6 =
    (if length S * 8 > 3580 then Inl (LengthError ''buildBthLeafRecords: total bytes exceed kHnAllocMax (3580)'')
     else Inr (pcLeaf S nid))"
proof (cases "length S * 8 > 3580")
  case True
  then show ?thesis by (simp add: buildBthLeafRecords_def hn_constants)
next
  case False
  let ?rs = "map pcRecord (zip S (fst (assignIds S 3 nid)))"
  have "map (\<lambda>r. keyNum 2 (bth_keyBytes r)) ?rs = map (\<lambda>p. unat (pc_pidTagId p)) S"
    by (rule nth_equalityI) (simp_all add: pcRecord_eq keyNum_le16)
  moreover have "sorted (map (\<lambda>p. unat (pc_pidTagId p)) S)"
    using assms by (simp add: sorted_iff_nth_mono word_le_nat_alt)
  ultimately have "sort_key (\<lambda>r. keyNum 2 (bth_keyBytes r)) ?rs = ?rs"
    by (intro sort_key_id_if_sorted) (simp only:)
  moreover have "bthWidth 2 6 ?rs" by (auto simp: bthWidth_def list_all_iff pcRecord_eq)
  ultimately show ?thesis
    using False buildBthLeafRecords_eq [of 2 6 ?rs] by (simp add: pcLeaf_def comp_def)
qed

lemma buildPropertyContext_success:
  assumes "buildPropertyContext props nid = Inr r"
  defines "S \<equiv> sort_key pc_pidTagId props"
  shows "distinct (map pc_pidTagId S)" "nid_type nid \<noteq> NtHID" "validateProps props = Inr ()"
    "length S * 8 \<le> 3580" "hnFits (pcAllocs S nid)" "length (pcr_hnBytes r) \<le> 8176"
    "pcr_hnBytes r = hnImage (pcAllocs S nid) kBClientSigPC (makeHid 1 0 0) (zeros 4)"
    "pcr_subnodes r = snd (assignIds S 3 nid)"
proof -
  have srt: "sorted (map pc_pidTagId S)" by (simp add: S_def)
  obtain ids subs where a: "assignIds S 3 nid = (ids, subs)" by fastforce
  note leaf = pcLeaf_built [OF srt, of nid]
  have "\<not> length S * 8 > 3580" and nd: "\<not> hasAdjacentDup S" and nid: "nid_type nid \<noteq> NtHID"
    and v: "validateProps props = Inr ()"
    and b: "buildHeapOnNode (pcAllocs S nid) kBClientSigPC (makeHid 1 0 0) (zeros 4) = Inr (pcr_hnBytes r)"
    and l: "length (pcr_hnBytes r) \<le> 8176" and s: "pcr_subnodes r = subs"
    using assms(1) leaf unfolding buildPropertyContext_def S_def [symmetric] Let_def a prod.case fst_conv
    by (auto simp: bind_r_Inr pcAllocs_def hn_constants not_less split: if_splits)
  then show "length S * 8 \<le> 3580" by simp
  then have "length (pcAllocs S nid) < 65535"
    by (simp add: pcAllocs_def le_less_trans [OF length_filter_le])
  then show "hnFits (pcAllocs S nid)" "pcr_hnBytes r = hnImage (pcAllocs S nid) kBClientSigPC (makeHid 1 0 0) (zeros 4)"
    using heap_success [OF b] l by simp_all
  show "distinct (map pc_pidTagId S)" using srt nd by (rule adjacentDup_strict)
  show "nid_type nid \<noteq> NtHID" "validateProps props = Inr ()" "length (pcr_hnBytes r) \<le> 8176" by fact+
  show "pcr_subnodes r = snd (assignIds S 3 nid)" using s a by simp
qed

section \<open>Reading it back\<close>

text \<open>What a reader is to find for property \<open>i\<close> of the sorted list.\<close>

definition expectProp :: "Nid \<Rightarrow> PcProperty list \<Rightarrow> nat \<Rightarrow> ReadPcProp" where
  "expectProp nid S i =
     (let p = S ! i;
          q = \<lparr>rp_pidTagId = pc_pidTagId p, rp_propType = pc_propType p, rp_storage = PsInline,
               rp_inlineValue = 0, rp_value = [], rp_subnodeNid = Nid 0\<rparr>
      in case classOf p of
           RsInline \<Rightarrow> q\<lparr>rp_inlineValue := packInlineValue (pc_propType p) (pc_value p)\<rparr>
         | RsHnAlloc \<Rightarrow> q\<lparr>rp_storage := PsHnAlloc, rp_value := pc_value p\<rparr>
         | RsSubnode \<Rightarrow> q\<lparr>rp_storage := PsSubnode,
                          rp_subnodeNid := subnodeNid nid (classCount RsSubnode (take i S))\<rparr>)"

text \<open>
  What the reader returns.  It takes every type of at most four bytes for inline, also where the
  writer was told to use a subnode.
\<close>

definition smallFixed :: "PropType \<Rightarrow> bool" where
  "smallFixed t \<longleftrightarrow> isFixedSize t \<and> fixedSize t \<le> 4"

definition foundProp :: "Nid \<Rightarrow> PcProperty list \<Rightarrow> nat \<Rightarrow> ReadPcProp" where
  "foundProp nid S i =
     (let q = expectProp nid S i
      in if rp_storage q = PsSubnode \<and> smallFixed (rp_propType q)
         then q\<lparr>rp_storage := PsInline, rp_inlineValue := nid_value (rp_subnodeNid q), rp_subnodeNid := Nid 0\<rparr>
         else q)"

definition pcReadable :: "PcProperty \<Rightarrow> bool" where
  "pcReadable p \<longleftrightarrow> canonicalPropType (pc_propType p)
     \<and> \<not> (pc_storage p = HintSubnode \<and> smallFixed (pc_propType p))"

lemma classOf_cases:
  "classOf p = RsInline \<longleftrightarrow> pc_storage p \<noteq> HintSubnode \<and> smallFixed (pc_propType p)"
  "classOf p = RsHnAlloc \<Longrightarrow> \<not> smallFixed (pc_propType p)"
  "pc_storage p = HintSubnode \<Longrightarrow> classOf p = RsSubnode"
  by (auto simp: classOf_def resolveStorage_def smallFixed_def split: if_splits)

lemma foundProp_eq: "pcReadable (S ! i) \<Longrightarrow> foundProp nid S i = expectProp nid S i"
  using classOf_cases(1) [of "S ! i"]
  by (auto simp: foundProp_def expectProp_def pcReadable_def classOf_def resolveStorage_def smallFixed_def Let_def
      split: if_splits ResolvedStorage.splits)

lemma readPcRecord_eq:
  assumes "slice off 8 hn = le16 tag @ le16 ty @ le32 dw" and "off + 8 \<le> length hn"
  shows "readPcRecord hn ib cA off =
    (let t = propTypeOf ty;
         p = \<lparr>rp_pidTagId = tag, rp_propType = t, rp_storage = PsInline, rp_inlineValue = 0,
              rp_value = [], rp_subnodeNid = Nid 0\<rparr>
     in if isFixedSize t \<and> fixedSize t \<le> 4 then Inr (p\<lparr>rp_inlineValue := dw\<rparr>)
        else if dw AND 0x1F = 0
        then bind_r (resolveHidInSingleBlockHn dw hn ib cA) (\<lambda>(off, size).
               Inr (p\<lparr>rp_storage := PsHnAlloc, rp_value := slice off size hn\<rparr>))
        else Inr (p\<lparr>rp_storage := PsSubnode, rp_subnodeNid := Nid dw\<rparr>))"
proof -
  have "readU16 hn off = tag" "readU16 hn (off + 2) = ty" "readU32 hn (off + 4) = dw"
    using slice_field [OF assms(1), of 0 2] slice_field [OF assms(1), of 2 2] slice_field [OF assms(1), of 4 4] assms(2)
    by (simp_all add: slice_def readU_eq)
  then show ?thesis using assms(2) by (simp add: readPcRecord_def)
qed

lemma makeHid_low: "makeHid i 0 0 AND 0x1F = 0"
  unfolding makeHid_def mask5 by (rule bit_word_eqI) (auto simp: bit_simps)

lemma unat_and_31: "unat (w AND 0x1F) = unat w mod 32" for w :: u32
  unfolding mask5 take_bit_eq_mask [symmetric] unsigned_take_bit_eq by (simp add: take_bit_eq_mod)

lemma subnodeNid_low: "nid_value (subnodeNid n k) AND 0x1F = nid_value n AND 0x1F"
proof (rule word_unat_eq_iff [THEN iffD2])
  have "(unat (nid_value n) + k * 32 mod 2 ^ 32) mod 2 ^ 32 mod 32 = (unat (nid_value n) + k * 32) mod (32 :: nat)"
    by (simp add: mod_mod_cancel mod_add_right_eq)
  moreover have "unat (nid_value n + word_of_nat k * 32) = (unat (nid_value n) + k * 32 mod 2 ^ 32) mod 2 ^ 32"
  proof -
    have "(word_of_nat k * 32 :: u32) = word_of_nat (k * 32)" by simp
    then show ?thesis by (simp only: unat_word_ariths unat_of_nat take_bit_eq_mod) simp
  qed
  ultimately show "unat (nid_value (subnodeNid n k) AND 0x1F) = unat (nid_value n AND 0x1F)"
    by (simp add: subnodeNid_def unat_and_31)
qed

lemma not_hid_low:
  assumes "nid_type n \<noteq> NtHID"
  shows "nid_value n AND 0x1F \<noteq> 0"
proof
  assume "nid_value n AND 0x1F = 0"
  then have "nid_type n = nidTypeOf 0" by (simp add: nid_type_def)
  then show False using assms by (simp add: nidTypeOf_def)
qed

lemma filter_nth_take:
  "i < length xs \<Longrightarrow> P (xs ! i) \<Longrightarrow> filter P xs ! length (filter P (take i xs)) = xs ! i"
proof (induction xs arbitrary: i)
  case (Cons x xs)
  then show ?case by (cases i) auto
qed simp

lemma filter_take_less:
  "i < length xs \<Longrightarrow> P (xs ! i) \<Longrightarrow> length (filter P (take i xs)) < length (filter P xs)"
proof (induction xs arbitrary: i)
  case (Cons x xs)
  then show ?case by (cases i) auto
qed simp

lemma ucast_of_nat_u32_u16: "ucast (word_of_nat m :: u32) = (word_of_nat m :: u16)"
  by (rule bit_word_eqI) (simp add: bit_simps)

lemma read_pc_entry:
  assumes fits: "hnFits (pcAllocs S nid)" and n: "length S * 8 \<le> 3580" and i: "i < length S"
    and rd: "canonicalPropType (pc_propType (S ! i))" and nt: "nid_type nid \<noteq> NtHID"
  defines "as \<equiv> pcAllocs S nid" and "hn \<equiv> hnImage (pcAllocs S nid) kBClientSigPC (makeHid 1 0 0) (zeros 4)"
  shows "readPcRecord hn (mapStart as) (word_of_nat (length (mapOffsets as) - 1)) (20 + i * 8)
    = Inr (foundProp nid S i)"
proof -
  let ?p = "S ! i" and ?x = "zip S (fst (assignIds S 3 nid)) ! i"
  have fill: "length (zeros 4) = 4" by simp
  have x: "fst ?x = ?p" "?x = (?p, fst (assignIds S 3 nid) ! i)" using i by simp_all
  have as: "as ! 0 = encodeBthHeader 2 6 0 (makeHid 2 0 0)" "as ! 1 = pcLeaf S nid" "1 < length as"
    by (simp_all add: as_def pcAllocs_def)
  have t1: "length (concat (take 1 as)) = 8"
    by (simp add: as_def pcAllocs_def encodeBthHeader_eq)
  have leaf: "slice 20 (length S * 8) hn = pcLeaf S nid"
    using slice_hnImage_alloc [OF fill as(3), of kBClientSigPC "makeHid 1 0 0"]
    unfolding t1 as(2) length_pcLeaf by (simp add: hn_def as_def)
  have room: "i * 8 + 8 \<le> length S * 8" using i by (rule entry_room)
  have len: "20 + length S * 8 \<le> length hn"
    using mapStart_bounds(1) [of as] by (simp add: hn_def length_hnImage heapEnd_def as_def pcAllocs_def encodeBthHeader_eq length_pcLeaf)
  have "slice (20 + i * 8) 8 hn = slice (i * 8) 8 (pcLeaf S nid)"
    using leaf room by (rule slice_field)
  also have "\<dots> = encBthRecord (pcRecord ?x)"
    unfolding pcLeaf_def using i by (intro slice_concat_const) simp_all
  also have "\<dots> = le16 (pc_pidTagId ?p) @ le16 (propTypeVal (pc_propType ?p)) @ le32 (slotOf ?x)"
    by (simp add: encBthRecord_def pcRecord_eq x(1))
  finally have sl: "slice (20 + i * 8) 8 hn = le16 (pc_pidTagId ?p) @ le16 (propTypeVal (pc_propType ?p)) @ le32 (slotOf ?x)" .
  have r: "20 + i * 8 + 8 \<le> length hn" using len room by simp
  have ty: "propTypeOf (propTypeVal (pc_propType ?p)) = pc_propType ?p"
    using rd by (simp add: canonicalPropType_def)
  have ids: "fst (assignIds S 3 nid) ! i = (case classOf ?p of RsInline \<Rightarrow> (0, Nid 0)
        | RsHnAlloc \<Rightarrow> (makeHid (ucast (3 + word_of_nat (classCount RsHnAlloc (take i S)) :: u32)) 0 0, Nid 0)
        | RsSubnode \<Rightarrow> (0, subnodeNid nid (classCount RsSubnode (take i S))))"
    using assignIds_spec [of S 3 nid] i by (cases "assignIds S 3 nid") simp
  note cls = classOf_cases [of ?p] smallFixed_def
  show ?thesis
  proof (cases "classOf ?p")
    case RsInline
    then show ?thesis
      using readPcRecord_eq [OF sl r] cls x(2) ids by (simp add: ty foundProp_def expectProp_def slotOf_def Let_def)
  next
    case RsSubnode
    then have "slotOf ?x AND 0x1F \<noteq> 0"
      using x(2) ids not_hid_low [OF nt] by (simp add: slotOf_def subnodeNid_low)
    then show ?thesis
      using RsSubnode readPcRecord_eq [OF sl r] cls x(2) ids
      by (simp add: ty foundProp_def expectProp_def slotOf_def Let_def)
  next
    case RsHnAlloc
    let ?k = "classCount RsHnAlloc (take i S)"
    have k: "?k < classCount RsHnAlloc S"
      unfolding classCount_def using i RsHnAlloc by (rule filter_take_less)
    then have kn: "?k < length S" using classCount_le [of RsHnAlloc S] by simp
    have kv: "as ! (2 + ?k) = pc_value ?p" "2 + ?k < length as"
      using k filter_nth_take [of i S "\<lambda>p. classOf p = RsHnAlloc"] i RsHnAlloc
      by (simp_all add: as_def pcAllocs_def classCount_def)
    have "ucast (3 + word_of_nat ?k :: u32) = (word_of_nat (2 + ?k + 1) :: u16)"
    proof -
      have "(3 + word_of_nat ?k :: u32) = word_of_nat (2 + ?k + 1)" by simp
      then show ?thesis by (simp only: ucast_of_nat_u32_u16)
    qed
    then have slot: "slotOf ?x = makeHid (word_of_nat (2 + ?k + 1)) 0 0"
      using RsHnAlloc x(2) ids by (simp add: slotOf_def)
    have res: "resolveHidInSingleBlockHn (slotOf ?x) hn (mapStart as) (word_of_nat (length (mapOffsets as) - 1))
        = Inr (12 + length (concat (take (2 + ?k) as)), length (as ! (2 + ?k)))"
      unfolding slot hn_def as_def [symmetric]
      by (rule resolve_hnImage) (use fits kv kn n in \<open>simp_all add: as_def\<close>)
    have val: "slice (12 + length (concat (take (2 + ?k) as))) (length (as ! (2 + ?k))) hn = pc_value ?p"
      using slice_hnImage_alloc [OF fill kv(2)] kv(1) by (simp add: hn_def as_def)
    have "slotOf ?x AND 0x1F = 0" by (simp add: slot makeHid_low)
    then show ?thesis
      using RsHnAlloc readPcRecord_eq [OF sl r] cls res val by (simp add: ty foundProp_def expectProp_def Let_def)
  qed
qed

lemma mapStart_u16: "hnFits as \<Longrightarrow> unat (word_of_nat (mapStart as) :: u16) = mapStart as"
  using mapStart_bounds(2) [of as] by (intro unat_u16) (simp add: hnFits_def)

lemma mapOffsets_u16: "hnFits as \<Longrightarrow> unat (word_of_nat (length (mapOffsets as) - 1) :: u16) = length (mapOffsets as) - 1"
  by (intro unat_u16) (simp add: hnFits_def length_mapOffsets)

lemma bth_header_fields:
  assumes "slice off 8 hn = encodeBthHeader k n l root" and "off + 8 \<le> length hn"
  shows "hn ! off = kBthSignature" "hn ! (off + 1) = k" "hn ! (off + 2) = n" "hn ! (off + 3) = l"
    "readU32 hn (off + 4) = root"
proof -
  have sl: "slice (off + i) w hn = slice i w ([kBthSignature, k, n, l] @ le32 root)" if "i + w \<le> 8" for i w
    using slice_field [OF assms(1) that] by (simp add: encodeBthHeader_eq)
  show "hn ! off = kBthSignature" "hn ! (off + 1) = k" "hn ! (off + 2) = n" "hn ! (off + 3) = l"
    using sl [of 0 1] sl [of 1 1] sl [of 2 1] sl [of 3 1] by (intro nth_slice1; simp add: slice_def)+
  show "readU32 hn (off + 4) = root"
    using sl [of 4 4] assms(2) by (intro readU_eq) (simp_all add: slice_def)
qed

lemma read_pc:
  assumes fits: "hnFits (pcAllocs S nid)" and n: "length S * 8 \<le> 3580"
    and rd: "list_all (\<lambda>p. canonicalPropType (pc_propType p)) S" and nt: "nid_type nid \<noteq> NtHID"
  shows "readPropertyContext (hnImage (pcAllocs S nid) kBClientSigPC (makeHid 1 0 0) (zeros 4))
    = Inr (map (foundProp nid S) [0..<length S])"
proof -
  let ?as = "pcAllocs S nid"
  let ?hn = "hnImage ?as kBClientSigPC (makeHid 1 0 0) (zeros 4)"
  let ?ca = "word_of_nat (length (mapOffsets ?as) - 1) :: u16"
  have fill: "length (zeros 4) = 4" by simp
  have as: "?as ! 0 = encodeBthHeader 2 6 0 (makeHid 2 0 0)" "?as ! 1 = pcLeaf S nid" "0 < length ?as" "1 < length ?as"
    by (simp_all add: pcAllocs_def)
  have l8: "length (?as ! 0) = 8" "length (concat (take 0 ?as)) = 0" "length (concat (take 1 ?as)) = 8"
    by (simp_all add: pcAllocs_def encodeBthHeader_eq)
  have len: "length ?hn = mapStart ?as + 4 + length (mapOffsets ?as) * 2" by (simp add: length_hnImage)
  have l28: "20 \<le> mapStart ?as"
    using mapStart_bounds(1) [of ?as] by (simp add: heapEnd_def pcAllocs_def encodeBthHeader_eq)
  note hd = hnImage_header [OF fill, of ?as kBClientSigPC "makeHid 1 0 0"]
  have r0: "resolveHidInSingleBlockHn (makeHid 1 0 0) ?hn (mapStart ?as) ?ca = Inr (12, 8)"
    using resolve_hnImage [OF fits fill as(3), of kBClientSigPC "makeHid 1 0 0"] unfolding l8 by simp
  have r1: "resolveHidInSingleBlockHn (makeHid 2 0 0) ?hn (mapStart ?as) ?ca = Inr (20, length S * 8)"
    using resolve_hnImage [OF fits fill as(4), of kBClientSigPC "makeHid 1 0 0"] unfolding l8 as(2) length_pcLeaf by simp
  have bth: "slice 12 8 ?hn = encodeBthHeader 2 6 0 (makeHid 2 0 0)"
    using slice_hnImage_alloc [OF fill as(3), of kBClientSigPC "makeHid 1 0 0"] unfolding l8 as(1)
    using l8(1) as(1) by simp
  note fields = bth_header_fields [OF bth]
  have l20: "12 + 8 \<le> length ?hn" using len l28 by simp
  have hid: "drop_bit 5 (makeHid 2 0 0) AND 0x07FF \<noteq> 0" by (simp add: makeHid_def)
  have map: "mapM_r (\<lambda>i. readPcRecord ?hn (mapStart ?as) ?ca (20 + i * 8)) [0..<length S]
      = Inr (map (foundProp nid S) [0..<length S])"
    using rd by (intro mapM_r_Inr read_pc_entry [OF fits n _ _ nt]) (simp_all add: list_all_length)
  have bounds: "\<not> length ?hn < kHnHdrSize" "\<not> length ?hn < mapStart ?as + kHnPageMapHdrSize"
    "\<not> length ?hn < mapStart ?as + kHnPageMapHdrSize + (unat ?ca + 1) * kHnPageMapEntrySize"
    unfolding mapOffsets_u16 [OF fits] using len l28 by (simp_all add: hn_constants length_mapOffsets)
  have c: "checked 2 readU16 ?hn 0 = Inr (word_of_nat (mapStart ?as))" "checked 1 (!) ?hn 2 = Inr kHnSignature"
    "checked 1 (!) ?hn 3 = Inr kBClientSigPC" "checked 4 readU32 ?hn 4 = Inr (makeHid 1 0 0)"
    "checked 2 readU16 ?hn (mapStart ?as + 0) = Inr ?ca"
    using len l28 hd hnImage_cAlloc [OF fill] by simp_all
  have d: "checked 1 (!) ?hn (12 + 0) = Inr kBthSignature" "checked 1 (!) ?hn (12 + 1) = Inr 2"
    "checked 1 (!) ?hn (12 + 2) = Inr 6" "checked 1 (!) ?hn (12 + 3) = Inr 0"
    "checked 4 readU32 ?hn (12 + 4) = Inr (makeHid 2 0 0)"
    using l20 fields [OF l20] by simp_all
  show ?thesis
    unfolding readPropertyContext_def Let_def c bind_r.simps mapStart_u16 [OF fits] r0 prod.case d r1
    using bounds hid map by simp
qed

lemma assignIds_subs:
  "snd (assignIds ps h n) = map (\<lambda>(k, p). \<lparr>so_nid = subnodeNid n k, so_pidTagId = pc_pidTagId p, so_data = pc_value p\<rparr>)
     (enumerate 0 (filter (\<lambda>p. classOf p = RsSubnode) ps))" (is "?subs = map ?f (enumerate 0 ?ps)")
proof (rule nth_equalityI)
  have m: "map so_data ?subs = map pc_value ?ps" "map so_pidTagId ?subs = map pc_pidTagId ?ps"
    "map so_nid ?subs = map (subnodeNid n) [0..<length ?ps]"
    using assignIds_spec [of ps h n] by (cases "assignIds ps h n"; simp add: classCount_def)+
  show l: "length ?subs = length (map ?f (enumerate 0 ?ps))" using map_eq_imp_length_eq [OF m(1)] by simp
  fix i assume i: "i < length ?subs"
  then have "i < length ?ps" using l by simp
  then have "so_data (?subs ! i) = pc_value (?ps ! i)" "so_pidTagId (?subs ! i) = pc_pidTagId (?ps ! i)"
    "so_nid (?subs ! i) = subnodeNid n i"
    using i m [THEN arg_cong, of "\<lambda>xs. xs ! i"] by simp_all
  then show "?subs ! i = map ?f (enumerate 0 ?ps) ! i"
    using \<open>i < length ?ps\<close> by (simp add: nth_enumerate_eq)
qed

lemma pc_reads:
  assumes "buildPropertyContext props nid = Inr r" and "list_all pcReadable props"
  shows "readPropertyContext (pcr_hnBytes r) = Inr (map (expectProp nid (sortPc props)) [0..<length props])
    \<and> pcr_subnodes r = map (\<lambda>(k, p). \<lparr>so_nid = subnodeNid nid k, so_pidTagId = pc_pidTagId p, so_data = pc_value p\<rparr>)
        (enumerate 0 (filter (\<lambda>p. classOf p = RsSubnode) (sortPc props)))"
proof -
  note b = buildPropertyContext_success [OF assms(1)]
  have rd: "list_all pcReadable (sortPc props)" using assms(2) by (simp add: list_all_iff)
  then have "list_all (\<lambda>p. canonicalPropType (pc_propType p)) (sortPc props)"
    by (simp add: list_all_iff pcReadable_def)
  then have "readPropertyContext (pcr_hnBytes r) = Inr (map (foundProp nid (sortPc props)) [0..<length (sortPc props)])"
    unfolding b(7) by (intro read_pc b)
  also have "map (foundProp nid (sortPc props)) [0..<length (sortPc props)]
      = map (expectProp nid (sortPc props)) [0..<length props]"
    using rd by (simp add: foundProp_eq list_all_length)
  finally have "readPropertyContext (pcr_hnBytes r) = Inr (map (expectProp nid (sortPc props)) [0..<length props])" .
  then show ?thesis unfolding b(8) by (simp add: assignIds_subs)
qed

text \<open>
  C1: a property context reads back.  For every list of properties that \<open>buildPropertyContext\<close>
  accepts and in which no value of at most four bytes is forced into a subnode,
  \<open>readPropertyContext\<close> of the produced bytes returns the properties in ascending tag order, each
  with its type and its value: packed into the slot, stored in the heap, or under the NID of the
  subnode, of which the writer hands out one for each in the same order.
\<close>

theorem pc_roundtrip:
  assumes "buildPropertyContext props nid = Inr r" and "list_all pcReadable props"
  shows "readPropertyContext (pcr_hnBytes r) = Inr (map (expectProp nid (sortPc props)) [0..<length props])
    \<and> pcr_subnodes r = map (\<lambda>(k, p). \<lparr>so_nid = subnodeNid nid k, so_pidTagId = pc_pidTagId p, so_data = pc_value p\<rparr>)
        (enumerate 0 (filter (\<lambda>p. classOf p = RsSubnode) (sortPc props)))"
  using assms by (rule pc_reads)

definition samplePc :: "PcProperty list" where
  "samplePc =
     [\<lparr>pc_pidTagId = 0x3001, pc_propType = PtUnicode, pc_value = [0x41, 0], pc_storage = HintAuto\<rparr>,
      \<lparr>pc_pidTagId = 0x0E08, pc_propType = PtInt32, pc_value = [7, 0, 0, 0], pc_storage = HintAuto\<rparr>,
      \<lparr>pc_pidTagId = 0x1013, pc_propType = PtBinary, pc_value = [1, 2, 3], pc_storage = HintSubnode\<rparr>]"

lemma samplePc_built: "\<not> isl (buildPropertyContext samplePc (Nid 0x41))"
  by code_simp

theorem pc_roundtrip_witness:
  "\<exists>r. buildPropertyContext samplePc (Nid 0x41) = Inr r
    \<and> readPropertyContext (pcr_hnBytes r) = Inr (map (expectProp (Nid 0x41) (sortPc samplePc)) [0..<3])"
proof -
  obtain r where r: "buildPropertyContext samplePc (Nid 0x41) = Inr r"
    using samplePc_built by (cases "buildPropertyContext samplePc (Nid 0x41)") simp_all
  have "list_all pcReadable samplePc" "length samplePc = 3" by code_simp+
  then show ?thesis using pc_roundtrip [OF r] r by simp
qed

text \<open>
  A value of at most four bytes that the caller forces into a subnode is lost to the reader.
  The writer gives it a subnode and stores the NID in the slot; the reader goes by the type alone
  and returns the NID as the inline value.
\<close>

theorem forced_subnode_misread:
  assumes "buildPropertyContext props nid = Inr r"
    and "list_all (\<lambda>p. canonicalPropType (pc_propType p)) props"
    and "i < length props" and "pc_storage (sortPc props ! i) = HintSubnode"
    and "smallFixed (pc_propType (sortPc props ! i))"
  shows "\<exists>qs k. readPropertyContext (pcr_hnBytes r) = Inr qs \<and> rp_storage (qs ! i) = PsInline
    \<and> k < length (pcr_subnodes r) \<and> so_data (pcr_subnodes r ! k) = pc_value (sortPc props ! i)
    \<and> rp_inlineValue (qs ! i) = nid_value (so_nid (pcr_subnodes r ! k))"
proof -
  let ?S = "sortPc props" and ?P = "\<lambda>p. classOf p = RsSubnode"
  let ?k = "length (filter ?P (take i ?S))"
  note b = buildPropertyContext_success [OF assms(1)]
  have "list_all (\<lambda>p. canonicalPropType (pc_propType p)) ?S" using assms(2) by (simp add: list_all_iff)
  then have "readPropertyContext (pcr_hnBytes r) = Inr (map (foundProp nid ?S) [0..<length ?S])"
    unfolding b(7) by (intro read_pc b)
  moreover have c: "?P (?S ! i)" using assms(4) by (rule classOf_cases(3))
  moreover have "?k < length (filter ?P ?S)" and "filter ?P ?S ! ?k = ?S ! i"
    using filter_take_less [of i ?S ?P] filter_nth_take [of i ?S ?P] assms(3) c by simp_all
  ultimately show ?thesis
    using assms(3,5) unfolding b(8) assignIds_subs
    by (intro exI [of _ "map (foundProp nid ?S) [0..<length ?S]"] exI [of _ ?k])
      (simp add: nth_enumerate_eq foundProp_def expectProp_def Let_def classCount_def)
qed

definition forcedPc :: "PcProperty list" where
  "forcedPc = [\<lparr>pc_pidTagId = 0x0E08, pc_propType = PtInt32, pc_value = [7, 0, 0, 0], pc_storage = HintSubnode\<rparr>]"

lemma forcedPc_built: "\<not> isl (buildPropertyContext forcedPc (Nid 0x41))"
  by code_simp

theorem forced_subnode_misread_witness:
  "\<exists>r qs k. buildPropertyContext forcedPc (Nid 0x41) = Inr r
    \<and> readPropertyContext (pcr_hnBytes r) = Inr qs \<and> rp_storage (qs ! 0) = PsInline
    \<and> rp_inlineValue (qs ! 0) = nid_value (so_nid (pcr_subnodes r ! k))"
proof -
  obtain r where r: "buildPropertyContext forcedPc (Nid 0x41) = Inr r"
    using forcedPc_built by (cases "buildPropertyContext forcedPc (Nid 0x41)") simp_all
  have "list_all (\<lambda>p. canonicalPropType (pc_propType p)) forcedPc" "0 < length forcedPc"
    "pc_storage (sortPc forcedPc ! 0) = HintSubnode" "smallFixed (pc_propType (sortPc forcedPc ! 0))"
    by code_simp+
  then show ?thesis using forced_subnode_misread [OF r] r by blast
qed

section \<open>The reader stays inside the buffer\<close>

lemma resolve_bounds:
  "resolveHidInSingleBlockHn hid hn ib cA \<noteq> Inl OutOfBounds"
  "resolveHidInSingleBlockHn hid hn ib cA = Inr (off, sz) \<Longrightarrow> off + sz \<le> length hn"
  by (auto simp: resolveHidInSingleBlockHn_def Let_def bind_r_Inl bind_r_Inr word_less_nat_alt not_less split: if_splits)

text \<open>A value is a view of bytes of the heap.\<close>

definition viewOf :: "bytes \<Rightarrow> ReadPcProp \<Rightarrow> bool" where
  "viewOf hn p \<longleftrightarrow>
     (if rp_storage p = PsHnAlloc
      then \<exists>off sz. off + sz \<le> length hn \<and> rp_value p = slice off sz hn
      else rp_value p = [])"

lemma readPcRecord_safe:
  assumes "off + 8 \<le> length hn"
  shows "readPcRecord hn ib cA off \<noteq> Inl OutOfBounds"
    "readPcRecord hn ib cA off = Inr p \<Longrightarrow> viewOf hn p"
  using assms
  by (auto simp: readPcRecord_def Let_def bind_r_Inl bind_r_Inr resolve_bounds(1) viewOf_def split: if_splits)
    (blast dest: resolve_bounds(2))+

definition safeRead :: "bytes \<Rightarrow> ReadPcProp list result \<Rightarrow> bool" where
  "safeRead hn m = (case m of Inl e \<Rightarrow> e \<noteq> OutOfBounds | Inr ps \<Rightarrow> list_all (viewOf hn) ps)"

lemma safeRead_bind:
  "m \<noteq> Inl OutOfBounds \<Longrightarrow> (\<And>x. m = Inr x \<Longrightarrow> safeRead hn (f x)) \<Longrightarrow> safeRead hn (bind_r m f)"
  by (cases m) (auto simp: safeRead_def)

lemma safeRead_leaf:
  assumes "off + sz \<le> length hn"
  shows "safeRead hn (mapM_r (\<lambda>i. readPcRecord hn ib cA (off + i * 8)) [0..<sz div 8])"
proof -
  have r: "off + i * 8 + 8 \<le> length hn" if "i < sz div 8" for i
    using assms entry_room [OF that, of 8] div_times_less_eq_dividend [of sz 8] by linarith
  show ?thesis
  proof (cases "mapM_r (\<lambda>i. readPcRecord hn ib cA (off + i * 8)) [0..<sz div 8]")
    case (Inl e)
    then show ?thesis using mapM_r_error [OF Inl] readPcRecord_safe(1) [OF r] by (auto simp: safeRead_def)
  next
    case (Inr ps)
    then show ?thesis using mapM_r_result [OF Inr] readPcRecord_safe(2) [OF r] by (fastforce simp: safeRead_def list_all_iff)
  qed
qed

lemma checked_safe: "off + n \<le> length buf \<Longrightarrow> checked n rd buf off \<noteq> Inl OutOfBounds"
  by simp

lemma safeRead_pc: "safeRead hn (readPropertyContext hn)"
proof (cases "length hn < kHnHdrSize")
  case True
  then show ?thesis by (simp add: readPropertyContext_def safeRead_def)
next
  case False
  have e: "safeRead hn (Inl (RuntimeError msg))" "safeRead hn (Inr [])" for msg by (simp_all add: safeRead_def)
  show ?thesis
    unfolding readPropertyContext_def Let_def using False
    by (auto simp: hn_constants e resolve_bounds(1) intro!: safeRead_bind checked_safe safeRead_leaf)
      (drule resolve_bounds(2); simp)+
qed

text \<open>
  C15: \<open>readPropertyContext\<close> is safe on every input.  Whatever the bytes, no read leaves the buffer:
  the call returns or throws one of its own errors, and every heap value it returns is a range of
  the buffer.
\<close>

theorem readPropertyContext_safe:
  "case readPropertyContext hn of Inl e \<Rightarrow> e \<noteq> OutOfBounds | Inr ps \<Rightarrow> list_all (viewOf hn) ps"
  using safeRead_pc [of hn] by (simp add: safeRead_def)

section \<open>Which inputs the writer accepts\<close>

definition validProp :: "PcProperty \<Rightarrow> bool" where
  "validProp p \<longleftrightarrow> (isFixedSize (pc_propType p) \<longrightarrow> length (pc_value p) = fixedSize (pc_propType p))
     \<and> (pc_storage p = HintSubnode \<longrightarrow> pc_value p \<noteq> [])"

text \<open>The bytes of a context before its page map, and with it.\<close>

definition pcBody :: "PcProperty list \<Rightarrow> nat" where
  "pcBody props = 20 + length props * 8
     + sum_list (map (\<lambda>p. length (pc_value p)) (filter (\<lambda>p. classOf p = RsHnAlloc) props))"

definition pcSize :: "PcProperty list \<Rightarrow> nat" where
  "pcSize props =
     (let body = pcBody props; aligned = (body + 3) div 4 * 4
      in aligned + 4 + 2 * (3 + classCount RsHnAlloc props + (if body \<noteq> aligned then 1 else 0)))"

lemma validateProps_iff: "validateProps ps = Inr () \<longleftrightarrow> list_all validProp ps"
  by (induction ps) (auto simp: validProp_def)

lemma sortPc_mset: "mset (filter P (sortPc props)) = mset (filter P props)"
  by simp

lemma sortPc_distinct: "hasAdjacentDup (sortPc props) \<longleftrightarrow> \<not> distinct (map pc_pidTagId props)"
proof -
  have "mset (map pc_pidTagId (sortPc props)) = mset (map pc_pidTagId props)" by simp
  then have "distinct (map pc_pidTagId (sortPc props)) \<longleftrightarrow> distinct (map pc_pidTagId props)"
    by (rule mset_eq_imp_distinct_iff)
  then show ?thesis by (simp add: adjacentDup_iff)
qed

lemma heapEnd_pcAllocs: "heapEnd (pcAllocs (sortPc props) nid) = pcBody props"
proof -
  have "sum_list (map (\<lambda>p. length (pc_value p)) (filter P (sortPc props)))
      = sum_list (map (\<lambda>p. length (pc_value p)) (filter P props))" for P
    by (simp only: sum_mset_sum_list [symmetric] mset_map sortPc_mset)
  then show ?thesis
    by (simp add: heapEnd_def pcAllocs_def encodeBthHeader_eq length_pcLeaf pcBody_def length_concat comp_def)
qed

lemma length_pcAllocs: "length (pcAllocs (sortPc props) nid) = 2 + classCount RsHnAlloc props"
  using mset_eq_length [OF sortPc_mset [of "\<lambda>p. classOf p = RsHnAlloc" props]]
  by (simp add: pcAllocs_def classCount_def)

lemma length_pc_image: "length (hnImage (pcAllocs (sortPc props) nid) sig root (zeros 4)) = pcSize props"
  by (simp add: length_hnImage length_mapOffsets mapStart_def heapEnd_pcAllocs length_pcAllocs pcSize_def Let_def)

text \<open>The writer on an input that passes its checks.\<close>

lemma buildPropertyContext_valid:
  assumes "nid_type nid \<noteq> NtHID" and "distinct (map pc_pidTagId props)" and "list_all validProp props"
    and "length props \<le> 447"
  shows "buildPropertyContext props nid =
    bind_r (buildHeapOnNode (pcAllocs (sortPc props) nid) kBClientSigPC (makeHid 1 0 0) (zeros 4)) (\<lambda>hnBytes.
      if length hnBytes > kMaxHnBodyBytes
      then Inl (LengthError ''buildPropertyContext: HN body exceeds single-block cap (8176)'')
      else Inr \<lparr>pcr_hnBytes = hnBytes, pcr_subnodes = snd (assignIds (sortPc props) 3 nid)\<rparr>)"
proof -
  have v: "validateProps props = Inr ()" using assms(3) by (simp add: validateProps_iff)
  have d: "\<not> hasAdjacentDup (sortPc props)" using assms(2) by (simp add: sortPc_distinct)
  obtain ids subs where a: "assignIds (sortPc props) 3 nid = (ids, subs)" by fastforce
  have leaf: "buildBthLeafRecords (map pcRecord (zip (sortPc props) ids)) 2 6 = Inr (pcLeaf (sortPc props) nid)"
    using pcLeaf_built [of "sortPc props" nid] assms(4) a by simp
  show ?thesis
    unfolding buildPropertyContext_def Let_def a prod.case leaf v bind_r.simps pcAllocs_def snd_conv
    using assms(1) d by simp
qed

lemma pc_domain:
  "(\<exists>r. buildPropertyContext props nid = Inr r) \<longleftrightarrow>
    nid_type nid \<noteq> NtHID \<and> distinct (map pc_pidTagId props) \<and> list_all validProp props
    \<and> length props * 8 \<le> 3580 \<and> pcSize props \<le> 8176" (is "?l \<longleftrightarrow> ?r")
proof
  assume ?l
  then obtain r where r: "buildPropertyContext props nid = Inr r" by blast
  note b = buildPropertyContext_success [OF r]
  have "distinct (map pc_pidTagId props)"
    using r sortPc_distinct [of props] by (auto simp: buildPropertyContext_def split: if_splits)
  then show ?r using b(2-4,6) unfolding b(7) by (simp add: validateProps_iff length_pc_image)
next
  assume r: ?r
  have "pcBody props \<le> pcSize props"
    using mapStart_bounds(1) [of "pcAllocs (sortPc props) nid"]
    by (simp add: heapEnd_pcAllocs mapStart_def pcSize_def Let_def)
  then have "hnFits (pcAllocs (sortPc props) nid)"
    using r classCount_le [of RsHnAlloc props] by (simp add: hnFits_def heapEnd_pcAllocs length_pcAllocs)
  then show ?l
    using r buildHeapOnNode_image buildPropertyContext_valid [of nid props]
    by (simp add: length_pc_image hn_constants)
qed

text \<open>
  C29: the exact domain of \<open>buildPropertyContext\<close>.  It returns a context if and only if the first
  subnode NID is not of type HID, no two properties share a tag, every value of a fixed-size type
  has that size, no empty value is forced into a subnode, the 8-byte records fit one allocation,
  and the whole body with its page map fits the 8176 bytes of a block.
\<close>

theorem buildPropertyContext_accepts:
  "(\<exists>r. buildPropertyContext props nid = Inr r) \<longleftrightarrow>
    nid_type nid \<noteq> NtHID \<and> distinct (map pc_pidTagId props) \<and> list_all validProp props
    \<and> length props * 8 \<le> 3580 \<and> pcSize props \<le> 8176"
  by (rule pc_domain)

section \<open>The 16-bit cursor\<close>

lemma copyAllocs_error: "copyAllocs ibs as out = Inl e \<Longrightarrow> e = OutOfBounds"
  by (induction ibs as out rule: copyAllocs.induct) (auto simp: bind_r_Inl memcpyAt_def split: if_splits)

lemma heap_wraps:
  assumes t: "65536 \<le> heapEnd as" "heapEnd as \<le> 130000" and n: "length as \<le> 449" and fill: "length fill = 4"
  shows "buildHeapOnNode as sig root fill = Inl OutOfBounds"
proof -
  let ?t = "heapEnd as - 65536"
  have "(word_of_nat (heapEnd as) :: u16) = word_of_nat ?t"
    using t(1) by (simp add: word_of_nat_eq_iff take_bit_eq_mod le_mod_geq)
  then have cur: "cursorLoop (word_of_nat 12) as = (map word_of_nat (offsets 12 as), word_of_nat ?t)"
    using cursorLoop_eq [of 12 as] unfolding heapEnd_def by (simp only:)
  have ib: "(ucast ((ucast (word_of_nat ?t :: u16) + 3 :: u32) AND NOT 3) :: u16) = word_of_nat ((?t + 3) div 4 * 4)"
    using t by (intro ibHnpm_eq) simp
  have P: "(?t + 3) div 4 * 4 \<le> 64467"
    using t div_times_less_eq_dividend [of "?t + 3" 4] by linarith
  then have uP: "unat (word_of_nat ((?t + 3) div 4 * 4) :: u16) = (?t + 3) div 4 * 4" by (intro unat_u16) simp
  have fail: "copyAllocs (map word_of_nat (offsets 12 as)) as (putHnHeader i sig root fill (zeros N)) = Inl OutOfBounds"
    if N: "12 \<le> N" "N < 65536" for N i
  proof (cases "copyAllocs (map word_of_nat (offsets 12 as)) as (putHnHeader i sig root fill (zeros N))")
    case (Inr out')
    have "length (putHnHeader i sig root fill (zeros N)) = N"
      using N fill by (simp add: length_putHnHeader)
    then have "12 + length (concat as) \<le> N" using copyAllocs_success [OF Inr] N by simp
    then show ?thesis using t(1) N(2) by (simp add: heapEnd_def)
  qed (simp add: copyAllocs_error)
  have ca: "unat (word_of_nat (length as + (if b then 1 else 0)) :: u16) = length as + (if b then 1 else 0)" for b
    using n by (intro unat_u16) simp
  show ?thesis
    unfolding buildHeapOnNode_def Let_def kHnHdrSize_def cur prod.case ib uP ca
    using P n fail by (simp add: hn_constants del: of_nat_add of_nat_mult)
qed

text \<open>
  A context that is too large is not always reported.  The length check of
  \<open>buildPropertyContext\<close> comes after \<open>buildHeapOnNode\<close>, whose offsets are 16 bits wide: when the
  body of a valid input is between 65536 and 130000 bytes, the cursor has wrapped, the buffer is
  too small and a copy leaves it.
\<close>

theorem pc_cursor_overflow:
  assumes "nid_type nid \<noteq> NtHID" and "distinct (map pc_pidTagId props)" and "list_all validProp props"
    and "length props \<le> 447" and "65536 \<le> pcBody props" and "pcBody props \<le> 130000"
  shows "buildPropertyContext props nid = Inl OutOfBounds"
proof -
  have "length (pcAllocs (sortPc props) nid) \<le> 449"
    using classCount_le [of RsHnAlloc props] assms(4) by (simp add: length_pcAllocs)
  then show ?thesis
    using heap_wraps [of "pcAllocs (sortPc props) nid" "zeros 4"] assms(5,6)
    by (simp add: buildPropertyContext_valid [OF assms(1-4)] heapEnd_pcAllocs)
qed

definition bigPc :: "PcProperty list" where
  "bigPc = map (\<lambda>i. \<lparr>pc_pidTagId = word_of_nat i, pc_propType = PtBinary, pc_value = zeros 3580,
                      pc_storage = HintAuto\<rparr>) [0..<19]"

theorem pc_cursor_overflow_witness:
  "length bigPc = 19 \<and> buildPropertyContext bigPc (Nid 0x41) = Inl OutOfBounds"
proof -
  have t: "map pc_pidTagId bigPc = map word_of_nat [0..<19]" by (simp add: bigPc_def)
  have "inj_on (word_of_nat :: nat \<Rightarrow> u16) {0..<19}"
    by (intro inj_onI) (simp add: word_of_nat_u16_eq)
  then have d: "distinct (map pc_pidTagId bigPc)" unfolding t by (simp add: distinct_map)
  have c: "classOf p = RsHnAlloc \<and> length (pc_value p) = 3580 \<and> validProp p" if "p \<in> set bigPc" for p
    using that by (auto simp: bigPc_def classOf_def resolveStorage_def isFixedSize_def fixedSize_def hn_constants validProp_def)
  then have "filter (\<lambda>p. classOf p = RsHnAlloc) bigPc = bigPc" "list_all validProp bigPc"
    by (simp_all add: list_all_iff)
  moreover have "map (\<lambda>p. length (pc_value p)) bigPc = replicate (length bigPc) 3580"
    using c by (intro nth_equalityI) simp_all
  moreover have l: "length bigPc = 19" by (simp add: bigPc_def)
  ultimately have "list_all validProp bigPc" "pcBody bigPc = 68192"
    by (simp_all add: pcBody_def sum_list_replicate)
  moreover have "nid_type (Nid 0x41) \<noteq> NtHID" by code_simp
  ultimately show ?thesis using pc_cursor_overflow [of "Nid 0x41" bigPc] d l by simp
qed

section \<open>Multi-valued strings\<close>

lemma store_commute:
  "o1 + length xs \<le> o2 \<Longrightarrow> o2 + length ys \<le> length b \<Longrightarrow>
    store (store b o2 ys) o1 xs = store (store b o1 xs) o2 ys"
  by (rule nth_equalityI) (auto simp: nth_store)

lemma length_le32s: "length (concat (map (\<lambda>n. le32 (word_of_nat n)) ns)) = length ns * 4"
  by (intro length_concat_const) simp

lemma mvLoop_eq:
  assumes "4 + (i + length ss) * 4 \<le> c" and "c + length (concat ss) \<le> length out"
  shows "mvLoop ss i c out =
    store (store out (4 + i * 4) (concat (map (\<lambda>n. le32 (word_of_nat n)) (offsets c ss)))) c (concat ss)"
  using assms
proof (induction ss arbitrary: i c out)
  case (Cons s ss)
  let ?os = "concat (map (\<lambda>n. le32 (word_of_nat n)) (offsets (c + length s) ss))"
  let ?o1 = "store out (4 + i * 4) (le32 (word_of_nat c))"
  have os: "length ?os = length ss * 4" by (simp add: length_le32s)
  have e: "(if length s > 0 then store ?o1 c s else ?o1) = store ?o1 c s" by simp
  have "mvLoop (s # ss) i c out = store (store (store ?o1 c s) (4 + (i + 1) * 4) ?os) (c + length s) (concat ss)"
    unfolding mvLoop.simps Let_def writeU32_def e by (rule Cons.IH) (use Cons.prems in simp_all)
  also have "store (store ?o1 c s) (4 + (i + 1) * 4) ?os = store (store ?o1 (4 + (i + 1) * 4) ?os) c s"
    using Cons.prems os by (intro store_commute) simp_all
  also have "store ?o1 (4 + (i + 1) * 4) ?os = store out (4 + i * 4) (le32 (word_of_nat c) @ ?os)"
    using Cons.prems os by (intro store_adjacent) simp_all
  also have "store (store (store out (4 + i * 4) (le32 (word_of_nat c) @ ?os)) c s) (c + length s) (concat ss)
      = store (store out (4 + i * 4) (le32 (word_of_nat c) @ ?os)) c (s @ concat ss)"
    using Cons.prems os by (intro store_adjacent) simp_all
  finally show ?case by simp
qed simp

lemma store_all: "length xs = n \<Longrightarrow> store (zeros n) 0 xs = xs"
  using store_zeros_head [of xs 0] by (simp add: zeros_def)

text \<open>
  The encoding of a list of strings is its count, the 32-bit offset of each string from the
  start of the value, and the strings one after the other, with nothing in between.
\<close>

theorem encodeMvUnicode_layout:
  "encodeMvUnicode strings = le32 (word_of_nat (length strings))
     @ concat (map (\<lambda>n. le32 (word_of_nat n)) (offsets (4 + length strings * 4) strings)) @ concat strings"
proof -
  let ?n = "length strings"
  let ?os = "concat (map (\<lambda>n. le32 (word_of_nat n)) (offsets (4 + ?n * 4) strings))"
  let ?z = "zeros (4 + ?n * 4 + length (concat strings))" and ?c = "le32 (word_of_nat ?n)"
  have os: "length ?os = ?n * 4" by (simp add: length_le32s)
  have "encodeMvUnicode strings = store (store (store ?z 0 ?c) (4 + 0 * 4) ?os) (4 + ?n * 4) (concat strings)"
    unfolding encodeMvUnicode_def Let_def writeU32_def length_concat [symmetric]
    by (intro mvLoop_eq) simp_all
  also have "store (store ?z 0 ?c) (4 + 0 * 4) ?os = store ?z 0 (?c @ ?os)"
    using os by (intro store_adjacent) simp_all
  also have "store (store ?z 0 (?c @ ?os)) (4 + ?n * 4) (concat strings) = store ?z 0 ((?c @ ?os) @ concat strings)"
    using os by (intro store_adjacent) simp_all
  also have "\<dots> = (?c @ ?os) @ concat strings"
    using os by (intro store_all) simp
  finally show ?thesis by simp
qed

end
