(* ===== verification/Json.thy ===== *)
theory Json
  imports Types
begin

text \<open>
  The JSON parser of \<open>src/internal_json.hpp\<close>.  The position \<open>pos_\<close> is represented by the part of
  the source that is still to be read, \<open>pos_ = n - length rest\<close> with \<open>n\<close> the size of the source; the
  error messages hold it in decimal.  The mutually recursive parse functions take a fuel, and
  \<open>parse_total\<close> shows that the fuel of \<open>parseTopLevel\<close> never runs out.

  \<open>std::stod\<close> and the conversion of a double to \<open>int32_t\<close> are parameters: the numbers are of any
  type \<open>'d\<close>.
\<close>

unbundle bit_operations_syntax

abbreviation asc :: "char \<Rightarrow> u8" where
  "asc \<equiv> of_char"

abbreviation ascii :: "string \<Rightarrow> bytes" where
  "ascii \<equiv> map of_char"

section \<open>Values and errors\<close>

datatype 'd JsonValue =
    JNull
  | JBool bool
  | JNumber 'd bytes
  | JString bytes
  | JObject "(bytes \<times> 'd JsonValue) list"
  | JArray "'d JsonValue list"

lemma asc_inject: "asc c = asc d \<longleftrightarrow> c = d"
proof
  have "unat (asc c) = of_char c" for c
    unfolding of_nat_of_char [where 'a = "8 word", symmetric] by (simp add: unat_of_nat)
  then show "asc c = asc d \<Longrightarrow> c = d" by (metis of_char_eqI)
qed simp

lemma ascii_inject: "ascii s = ascii t \<longleftrightarrow> s = t"
  using asc_inject by (intro inj_map_eq_map injI) simp

text \<open>\<open>std::map::emplace\<close>: sorted by key, and the first value of a key stays.\<close>

fun bytesLess :: "bytes \<Rightarrow> bytes \<Rightarrow> bool" where
  "bytesLess [] ys \<longleftrightarrow> ys \<noteq> []"
| "bytesLess (x # xs) [] \<longleftrightarrow> False"
| "bytesLess (x # xs) (y # ys) \<longleftrightarrow> x < y \<or> x = y \<and> bytesLess xs ys"

fun emplace :: "bytes \<Rightarrow> 'v \<Rightarrow> (bytes \<times> 'v) list \<Rightarrow> (bytes \<times> 'v) list" where
  "emplace k v [] = [(k, v)]"
| "emplace k v ((k', v') # m) =
     (if k = k' then (k', v') # m
      else if bytesLess k k' then (k, v) # (k', v') # m
      else (k', v') # emplace k v m)"

fun to_string :: "nat \<Rightarrow> string" where
  "to_string n = (if n < 10 then [char_of (48 + n)] else to_string (n div 10) @ [char_of (48 + n mod 10)])"

declare to_string.simps [simp del]

text \<open>
  What a message of the parser needs: the prefix, in which the two copies of the parser differ, and the size of the
  source, from which the offset is computed.
\<close>

record Source =
  src_prefix :: string
  src_size :: nat

definition jsonSource :: string where
  "jsonSource = ''graph JSON: ''"

definition fail :: "Source \<Rightarrow> bytes \<Rightarrow> string \<Rightarrow> 'a result" where
  "fail n rest msg =
     Inl (RuntimeError (src_prefix n @ msg @ '' at offset '' @ to_string (src_size n - length rest)))"

section \<open>Tokens\<close>

fun skipWs :: "bytes \<Rightarrow> bytes" where
  "skipWs [] = []"
| "skipWs (c # cs) =
     (if c = asc CHR '' '' \<or> c = 0x09 \<or> c = 0x0A \<or> c = 0x0D then skipWs cs else c # cs)"

definition consume :: "u8 \<Rightarrow> bytes \<Rightarrow> bytes option" where
  "consume c rest = (case rest of [] \<Rightarrow> None | d # ds \<Rightarrow> if d = c then Some ds else None)"

definition expect :: "Source \<Rightarrow> u8 \<Rightarrow> bytes \<Rightarrow> bytes result" where
  "expect n c rest =
     (case consume c rest of None \<Rightarrow> fail n rest ''expected character not found'' | Some r \<Rightarrow> Inr r)"

definition isDigitC :: "u8 \<Rightarrow> bool" where
  "isDigitC c \<longleftrightarrow> asc CHR ''0'' \<le> c \<and> c \<le> asc CHR ''9''"

definition parseBool :: "Source \<Rightarrow> bytes \<Rightarrow> ('d JsonValue \<times> bytes) result" where
  "parseBool n rest =
     (if 4 \<le> length rest \<and> take 4 rest = ascii ''true'' then Inr (JBool True, drop 4 rest)
      else if 5 \<le> length rest \<and> take 5 rest = ascii ''false'' then Inr (JBool False, drop 5 rest)
      else fail n rest ''expected true/false'')"

definition parseNull :: "Source \<Rightarrow> bytes \<Rightarrow> ('d JsonValue \<times> bytes) result" where
  "parseNull n rest =
     (if 4 \<le> length rest \<and> take 4 rest = ascii ''null'' then Inr (JNull, drop 4 rest)
      else fail n rest ''expected null'')"

fun skipDigits :: "bytes \<Rightarrow> bytes" where
  "skipDigits [] = []"
| "skipDigits (c # cs) = (if isDigitC c then skipDigits cs else c # cs)"

definition skipExponent :: "bytes \<Rightarrow> bytes" where
  "skipExponent rest =
     (case rest of
        [] \<Rightarrow> rest
      | c # cs \<Rightarrow>
          if c = asc CHR ''e'' \<or> c = asc CHR ''E''
          then skipDigits (case cs of [] \<Rightarrow> cs
                           | s # ss \<Rightarrow> if s = asc CHR ''+'' \<or> s = asc CHR ''-'' then ss else cs)
          else rest)"

definition skipNumber :: "bytes \<Rightarrow> bytes" where
  "skipNumber rest =
     (let rest = (case consume (asc CHR ''-'') rest of Some r \<Rightarrow> r | None \<Rightarrow> rest);
          rest = (case consume (asc CHR ''0'') rest of Some r \<Rightarrow> r | None \<Rightarrow> skipDigits rest);
          rest = (case consume (asc CHR ''.'') rest of Some r \<Rightarrow> skipDigits r | None \<Rightarrow> rest)
      in skipExponent rest)"

definition parseNumber :: "(bytes \<Rightarrow> 'd option) \<Rightarrow> Source \<Rightarrow> bytes \<Rightarrow> ('d JsonValue \<times> bytes) result" where
  "parseNumber stod n rest =
     (let rest' = skipNumber rest; s = take (length rest - length rest') rest
      in case stod s of None \<Rightarrow> fail n rest' ''malformed number'' | Some d \<Rightarrow> Inr (JNumber d s, rest'))"

section \<open>Strings\<close>

definition appendUtf8Codepoint :: "bytes \<Rightarrow> u32 \<Rightarrow> bytes" where
  "appendUtf8Codepoint dst cp =
     (if cp \<le> 0x7F then dst @ [ucast cp]
      else if cp \<le> 0x7FF
      then dst @ [ucast (0xC0 OR drop_bit 6 cp), ucast (0x80 OR (cp AND 0x3F))]
      else if cp \<le> 0xFFFF
      then dst @ [ucast (0xE0 OR drop_bit 12 cp), ucast (0x80 OR (drop_bit 6 cp AND 0x3F)),
                  ucast (0x80 OR (cp AND 0x3F))]
      else dst @ [ucast (0xF0 OR drop_bit 18 cp), ucast (0x80 OR (drop_bit 12 cp AND 0x3F)),
                  ucast (0x80 OR (drop_bit 6 cp AND 0x3F)), ucast (0x80 OR (cp AND 0x3F))])"

fun hexLoop :: "Source \<Rightarrow> nat \<Rightarrow> u32 \<Rightarrow> bytes \<Rightarrow> (u32 \<times> bytes) result" where
  "hexLoop n 0 v rest = Inr (v, rest)"
| "hexLoop n (Suc i) v [] = Inl OutOfBounds"
| "hexLoop n (Suc i) v (c # rest) =
     (let v = push_bit 4 v
      in if asc CHR ''0'' \<le> c \<and> c \<le> asc CHR ''9''
         then hexLoop n i (v OR (ucast c - ucast (asc CHR ''0''))) rest
         else if asc CHR ''a'' \<le> c \<and> c \<le> asc CHR ''f''
         then hexLoop n i (v OR (ucast c - ucast (asc CHR ''a'') + 10)) rest
         else if asc CHR ''A'' \<le> c \<and> c \<le> asc CHR ''F''
         then hexLoop n i (v OR (ucast c - ucast (asc CHR ''A'') + 10)) rest
         else fail n rest (''bad hex digit in '' @ [CHR 0x5C] @ ''u escape''))"

definition parseHex4 :: "Source \<Rightarrow> bytes \<Rightarrow> (u32 \<times> bytes) result" where
  "parseHex4 n rest =
     (if length rest < 4 then fail n rest (''truncated '' @ [CHR 0x5C] @ ''u escape'') else hexLoop n 4 0 rest)"

text \<open>The escape \<open>u\<close>: a code point, from two escapes when the first is a high surrogate.\<close>

definition parseUnicodeEscape :: "Source \<Rightarrow> bytes \<Rightarrow> (u32 \<times> bytes) result" where
  "parseUnicodeEscape n rest =
     bind_r (parseHex4 n rest) (\<lambda>(cp, rest).
       if 0xD800 \<le> cp \<and> cp \<le> 0xDBFF
       then if length rest < 2 \<or> rest ! 0 \<noteq> 0x5C \<or> rest ! 1 \<noteq> asc CHR ''u''
            then fail n rest ''expected low surrogate after high surrogate''
            else bind_r (parseHex4 n (drop 2 rest)) (\<lambda>(lo, rest).
              if lo < 0xDC00 \<or> lo > 0xDFFF then fail n rest ''invalid low surrogate value''
              else Inr (0x10000 + push_bit 10 (cp - 0xD800) + (lo - 0xDC00), rest))
       else if 0xDC00 \<le> cp \<and> cp \<le> 0xDFFF then fail n rest ''unexpected low surrogate''
       else Inr (cp, rest))"

definition simpleEscape :: "u8 \<Rightarrow> u8 option" where
  "simpleEscape e =
     (if e = 0x22 then Some 0x22
      else if e = 0x5C then Some 0x5C
      else if e = asc CHR ''/'' then Some (asc CHR ''/'')
      else if e = asc CHR ''b'' then Some 0x08
      else if e = asc CHR ''f'' then Some 0x0C
      else if e = asc CHR ''n'' then Some 0x0A
      else if e = asc CHR ''r'' then Some 0x0D
      else if e = asc CHR ''t'' then Some 0x09
      else None)"

lemma hexLoop_length: "hexLoop n i v rest = Inr (w, rest') \<Longrightarrow> length rest' + i = length rest"
  by (induction n i v rest rule: hexLoop.induct) (auto simp: Let_def fail_def split: if_splits)

lemma parseHex4_length: "parseHex4 n rest = Inr (w, rest') \<Longrightarrow> length rest' + 4 = length rest"
  by (auto simp: parseHex4_def fail_def dest: hexLoop_length split: if_splits)

lemma parseUnicodeEscape_length: "parseUnicodeEscape n rest = Inr (w, rest') \<Longrightarrow> length rest' < length rest"
  by (auto simp: parseUnicodeEscape_def bind_r_Inr fail_def dest!: parseHex4_length split: if_splits)

function stringLoop :: "Source \<Rightarrow> bytes \<Rightarrow> bytes \<Rightarrow> (bytes \<times> bytes) result" where
  "stringLoop n s [] = fail n [] ''unterminated string''"
| "stringLoop n s (c # cs) =
     (if c = 0x22 then Inr (s, cs)
      else if c = 0x5C
      then case cs of
             [] \<Rightarrow> fail n [] ''truncated escape''
           | e # es \<Rightarrow>
               if e = asc CHR ''u''
               then bind_r (parseUnicodeEscape n es) (\<lambda>(cp, rest). stringLoop n (appendUtf8Codepoint s cp) rest)
               else case simpleEscape e of
                      None \<Rightarrow> fail n es ''bad escape character''
                    | Some d \<Rightarrow> stringLoop n (s @ [d]) es
      else stringLoop n (s @ [c]) cs)"
  by pat_completeness auto
termination
  by (relation "measure (\<lambda>(_, _, rest). length rest)") (auto dest: parseUnicodeEscape_length)

definition parseString :: "Source \<Rightarrow> bytes \<Rightarrow> (bytes \<times> bytes) result" where
  "parseString n rest = bind_r (expect n 0x22 rest) (stringLoop n [])"

section \<open>Values\<close>

text \<open>A parse step that may run out of fuel (\<open>None\<close>).\<close>

fun bind_p :: "'a result option \<Rightarrow> ('a \<Rightarrow> 'b result option) \<Rightarrow> 'b result option" where
  "bind_p None f = None"
| "bind_p (Some (Inl e)) f = Some (Inl e)"
| "bind_p (Some (Inr x)) f = f x"

function (sequential) parseValue :: "nat \<Rightarrow> (bytes \<Rightarrow> 'd option) \<Rightarrow> Source \<Rightarrow> bytes \<Rightarrow> ('d JsonValue \<times> bytes) result option"
and objectLoop :: "nat \<Rightarrow> (bytes \<Rightarrow> 'd option) \<Rightarrow> Source \<Rightarrow> (bytes \<times> 'd JsonValue) list \<Rightarrow> bytes \<Rightarrow>
  ('d JsonValue \<times> bytes) result option"
and arrayLoop :: "nat \<Rightarrow> (bytes \<Rightarrow> 'd option) \<Rightarrow> Source \<Rightarrow> 'd JsonValue list \<Rightarrow> bytes \<Rightarrow>
  ('d JsonValue \<times> bytes) result option" where
  "parseValue 0 stod n rest = None"
| "parseValue (Suc k) stod n rest =
     (case skipWs rest of
        [] \<Rightarrow> Some (fail n [] ''expected value'')
      | c # cs \<Rightarrow>
          if c = asc CHR ''{''
          then (case consume (asc CHR ''}'') (skipWs cs) of
                  Some r \<Rightarrow> Some (Inr (JObject [], r))
                | None \<Rightarrow> objectLoop k stod n [] (skipWs cs))
          else if c = asc CHR ''[''
          then (case consume (asc CHR '']'') (skipWs cs) of
                  Some r \<Rightarrow> Some (Inr (JArray [], r))
                | None \<Rightarrow> arrayLoop k stod n [] (skipWs cs))
          else if c = 0x22 then Some (bind_r (parseString n (c # cs)) (\<lambda>(s, r). Inr (JString s, r)))
          else if c = asc CHR ''t'' \<or> c = asc CHR ''f'' then Some (parseBool n (c # cs))
          else if c = asc CHR ''n'' then Some (parseNull n (c # cs))
          else if c = asc CHR ''-'' \<or> isDigitC c then Some (parseNumber stod n (c # cs))
          else Some (fail n (c # cs) ''unexpected character at start of value''))"
| "objectLoop 0 stod n obj rest = None"
| "objectLoop (Suc k) stod n obj rest =
     (case skipWs rest of
        [] \<Rightarrow> Some (fail n [] ''unexpected end of input'')
      | c # cs \<Rightarrow>
          if c \<noteq> 0x22 then Some (fail n (c # cs) ''expected string key in object'')
          else bind_p (Some (parseString n (c # cs))) (\<lambda>(key, rest).
               bind_p (Some (expect n (asc CHR '':'') (skipWs rest))) (\<lambda>rest.
               bind_p (parseValue k stod n (skipWs rest)) (\<lambda>(val, rest).
                 let obj = emplace key val obj; rest = skipWs rest
                 in case consume (asc CHR '','') rest of
                      Some r \<Rightarrow> objectLoop k stod n obj r
                    | None \<Rightarrow>
                        (case consume (asc CHR ''}'') rest of
                           Some r \<Rightarrow> Some (Inr (JObject obj, r))
                         | None \<Rightarrow> Some (fail n rest (''expected '' @ [CHR 0x27, CHR 0x2C, CHR 0x27] @ '' or ''
                                                 @ [CHR 0x27, CHR 0x7D, CHR 0x27] @ '' in object'')))))))"
| "arrayLoop 0 stod n arr rest = None"
| "arrayLoop (Suc k) stod n arr rest =
     bind_p (parseValue k stod n (skipWs rest)) (\<lambda>(val, rest).
       let arr = arr @ [val]; rest = skipWs rest
       in case consume (asc CHR '','') rest of
            Some r \<Rightarrow> arrayLoop k stod n arr r
          | None \<Rightarrow>
              (case consume (asc CHR '']'') rest of
                 Some r \<Rightarrow> Some (Inr (JArray arr, r))
               | None \<Rightarrow> Some (fail n rest (''expected '' @ [CHR 0x27, CHR 0x2C, CHR 0x27] @ '' or ''
                                       @ [CHR 0x27, CHR 0x5D, CHR 0x27] @ '' in array''))))"
  by pat_completeness auto

termination
  by (relation "measure (case_sum (\<lambda>(k, _). k) (case_sum (\<lambda>(k, _). k) (\<lambda>(k, _). k)))") simp_all

definition parseTopLevel :: "string \<Rightarrow> (bytes \<Rightarrow> 'd option) \<Rightarrow> bytes \<Rightarrow> 'd JsonValue result option" where
  "parseTopLevel prefix stod src =
     (let n = \<lparr>src_prefix = prefix, src_size = length src\<rparr>
      in bind_p (parseValue (2 * src_size n + 1) stod n (skipWs src)) (\<lambda>(v, rest).
           let rest = skipWs rest
           in if rest \<noteq> [] then Some (fail n rest ''trailing data after JSON value'') else Some (Inr v)))"

section \<open>Lookup helpers\<close>

definition jsonFind :: "'d JsonValue \<Rightarrow> bytes \<Rightarrow> 'd JsonValue option" where
  "jsonFind v key = (case v of JObject m \<Rightarrow> map_of m key | _ \<Rightarrow> None)"

definition getStr :: "'d JsonValue \<Rightarrow> bytes \<Rightarrow> bytes" where
  "getStr v key = (case jsonFind v key of Some (JString s) \<Rightarrow> s | _ \<Rightarrow> [])"

definition getBool :: "'d JsonValue \<Rightarrow> bytes \<Rightarrow> bool \<Rightarrow> bool" where
  "getBool v key deflt = (case jsonFind v key of Some (JBool b) \<Rightarrow> b | _ \<Rightarrow> deflt)"

definition getInt :: "('d \<Rightarrow> u32) \<Rightarrow> 'd JsonValue \<Rightarrow> bytes \<Rightarrow> u32 \<Rightarrow> u32" where
  "getInt toInt32 v key deflt = (case jsonFind v key of Some (JNumber d s) \<Rightarrow> toInt32 d | _ \<Rightarrow> deflt)"

definition getStringArray :: "'d JsonValue \<Rightarrow> bytes \<Rightarrow> bytes list" where
  "getStringArray v key =
     (case jsonFind v key of
        Some (JArray arr) \<Rightarrow> concat (map (\<lambda>el. case el of JString s \<Rightarrow> [s] | _ \<Rightarrow> []) arr)
      | _ \<Rightarrow> [])"

section \<open>Every step reads on\<close>

lemma skipWs_length: "length (skipWs rest) \<le> length rest"
  by (induction rest) auto

lemma skipDigits_length: "length (skipDigits rest) \<le> length rest"
  by (induction rest) auto

lemma consume_Some: "consume c rest = Some r \<longleftrightarrow> rest = c # r"
  by (auto simp: consume_def split: list.splits)

lemma consume_hit: "consume c (c # r) = Some r"
  by (simp add: consume_def)

lemma consume_None: "consume c rest = None \<longleftrightarrow> (\<forall>r. rest \<noteq> c # r)"
  by (auto simp: consume_def split: list.splits)

lemma expect_Inr: "expect n c rest = Inr r \<longleftrightarrow> rest = c # r"
  by (auto simp: expect_def fail_def consume_def split: list.splits)

lemma skipExponent_length: "length (skipExponent rest) \<le> length rest"
  by (auto simp: skipExponent_def simp del: skipDigits.simps split: list.splits
      intro: le_SucI order_trans [OF skipDigits_length])

lemma skipNumber_length:
  assumes "c = asc CHR ''-'' \<or> isDigitC c"
  shows "length (skipNumber (c # cs)) \<le> length cs"
proof -
  define r1 where "r1 = (case consume (asc CHR ''-'') (c # cs) of Some r \<Rightarrow> r | None \<Rightarrow> c # cs)"
  define r2 where "r2 = (case consume (asc CHR ''0'') r1 of Some r \<Rightarrow> r | None \<Rightarrow> skipDigits r1)"
  define r3 where "r3 = (case consume (asc CHR ''.'') r2 of Some r \<Rightarrow> skipDigits r | None \<Rightarrow> r2)"
  have "r1 = cs \<or> r1 = c # cs \<and> isDigitC c" using assms by (auto simp: r1_def consume_def)
  then have "length r2 \<le> length cs"
    using skipDigits_length [of cs] by (auto simp: r2_def consume_def split: list.splits)
  moreover have "length r3 \<le> length r2"
    using skipDigits_length [of "tl r2"] by (auto simp: r3_def consume_def split: list.splits)
  moreover have "length (skipNumber (c # cs)) \<le> length r3"
    unfolding skipNumber_def Let_def r1_def [symmetric] r2_def [symmetric] r3_def [symmetric]
    by (rule skipExponent_length)
  ultimately show ?thesis by simp
qed

lemma stringLoop_length: "stringLoop n s rest = Inr (t, r) \<Longrightarrow> length r < length rest"
proof (induction n s rest rule: stringLoop.induct)
  case (2 n s c cs)
  show ?case
  proof (cases "c = 0x5C \<and> (\<exists>es. cs = asc CHR ''u'' # es)")
    case True
    then obtain es where cs: "c = 0x5C" "cs = asc CHR ''u'' # es" by blast
    obtain cp rest where u: "parseUnicodeEscape n es = Inr (cp, rest)"
      and r: "stringLoop n (appendUtf8Codepoint s cp) rest = Inr (t, r)"
      using 2(4) cs by (auto simp: bind_r_Inr)
    have "length r < length rest" by (rule 2(1)) (use cs u r in auto)
    then show ?thesis using parseUnicodeEscape_length [OF u] cs by simp
  next
    case False
    then show ?thesis using 2(2-) by (auto split: if_splits list.splits option.splits intro: less_SucI simp: fail_def)
  qed
qed (simp add: fail_def)

lemma parseString_length: "parseString n rest = Inr (t, r) \<Longrightarrow> length r < length rest"
  by (auto simp: parseString_def bind_r_Inr expect_Inr dest: stringLoop_length)

lemma parseBool_length: "parseBool n rest = Inr (v, r) \<Longrightarrow> length r < length rest"
  by (auto simp: parseBool_def fail_def split: if_splits)

lemma parseNull_length: "parseNull n rest = Inr (v, r) \<Longrightarrow> length r < length rest"
  by (auto simp: parseNull_def fail_def split: if_splits)

lemma parseNumber_length:
  "parseNumber stod n (c # cs) = Inr (v, r) \<Longrightarrow> c = asc CHR ''-'' \<or> isDigitC c \<Longrightarrow> length r \<le> length cs"
  using skipNumber_length [of c cs] by (auto simp: parseNumber_def Let_def fail_def split: option.splits)

lemma bind_p_Inr: "bind_p m f = Some (Inr y) \<longleftrightarrow> (\<exists>x. m = Some (Inr x) \<and> f x = Some (Inr y))"
  by (cases "(m, f)" rule: bind_p.cases) auto

lemma bind_p_None: "bind_p m f = None \<longleftrightarrow> m = None \<or> (\<exists>x. m = Some (Inr x) \<and> f x = None)"
  by (cases "(m, f)" rule: bind_p.cases) auto

lemma skipWs_ConsD: "skipWs rest = c # cs \<Longrightarrow> length cs < length rest"
  using skipWs_length [of rest] by simp

lemma fail_Inr [simp]: "fail n rest msg \<noteq> Inr x"
  by (simp add: fail_def)

lemma parse_length_all:
  "(\<forall>rest v r. parseValue k stod n rest = Some (Inr (v, r)) \<longrightarrow> length r < length rest)
   \<and> (\<forall>obj rest v r. objectLoop k stod n obj rest = Some (Inr (v, r)) \<longrightarrow> length r < length rest)
   \<and> (\<forall>arr rest v r. arrayLoop k stod n arr rest = Some (Inr (v, r)) \<longrightarrow> length r < length rest)"
proof (induction k)
  case (Suc k)
  have v: "parseValue k stod n rest = Some (Inr (v, r)) \<Longrightarrow> length r < length rest"
    and o: "objectLoop k stod n obj rest = Some (Inr (v, r)) \<Longrightarrow> length r < length rest"
    and a: "arrayLoop k stod n arr rest = Some (Inr (v, r)) \<Longrightarrow> length r < length rest" for obj arr rest v r
    using Suc by blast+
  note ws = skipWs_length le_less_trans less_le_trans
  have "length r < length rest" if p: "parseValue (Suc k) stod n rest = Some (Inr (v, r))" for rest v r
  proof (cases "skipWs rest")
    case (Cons c cs)
    have "length r \<le> length cs"
      using p Cons o [of _ "skipWs cs"] a [of _ "skipWs cs"] skipWs_length [of cs]
      by (auto simp: consume_Some bind_r_Inr split: if_splits option.splits
          dest!: parseString_length parseBool_length parseNull_length intro: parseNumber_length) fastforce+
    then show ?thesis using skipWs_ConsD [OF Cons] by simp
  qed (use p in simp)
  moreover have "length r < length rest" if p: "objectLoop (Suc k) stod n obj rest = Some (Inr (v, r))" for obj rest v r
  proof (cases "skipWs rest")
    case (Cons c cs)
    then obtain key r1 r2 val r3 where 1: "parseString n (c # cs) = Inr (key, r1)" and 2: "skipWs r1 = asc CHR '':'' # r2"
      and 3: "parseValue k stod n (skipWs r2) = Some (Inr (val, r3))"
      and 4: "(\<exists>r4. skipWs r3 = asc CHR '','' # r4 \<and> objectLoop k stod n (emplace key val obj) r4 = Some (Inr (v, r)))
        \<or> skipWs r3 = asc CHR ''}'' # r"
      using p by (auto simp: bind_p_Inr expect_Inr consume_Some Let_def split: if_splits option.splits)
    have "length r1 < length (c # cs)" "length r2 < length r1" "length r3 < length r2"
      using parseString_length [OF 1] skipWs_ConsD [OF 2] v [OF 3] skipWs_length [of r2] by simp_all
    moreover have "length r < length r3"
      using 4 o skipWs_ConsD [of r3] by fastforce
    ultimately show ?thesis using skipWs_ConsD [OF Cons] by simp
  qed (use p in simp)
  moreover have "length r < length rest" if p: "arrayLoop (Suc k) stod n arr rest = Some (Inr (v, r))" for arr rest v r
  proof -
    obtain val r3 where 3: "parseValue k stod n (skipWs rest) = Some (Inr (val, r3))"
      and 4: "(\<exists>r4. skipWs r3 = asc CHR '','' # r4 \<and> arrayLoop k stod n (arr @ [val]) r4 = Some (Inr (v, r)))
        \<or> skipWs r3 = asc CHR '']'' # r"
      using p by (auto simp: bind_p_Inr consume_Some Let_def split: if_splits option.splits)
    have "length r3 < length rest" using v [OF 3] skipWs_length [of rest] by simp
    moreover have "length r < length r3"
      using 4 a skipWs_ConsD [of r3] by fastforce
    ultimately show ?thesis by simp
  qed
  ultimately show ?case by blast
qed simp

lemmas parseValue_length = parse_length_all [THEN conjunct1, rule_format]

text \<open>The fuel that is enough for an input of a given length.\<close>

lemma parse_fuel:
  "(\<forall>rest. 2 * length rest + 1 \<le> k \<longrightarrow> parseValue k stod n rest \<noteq> None)
   \<and> (\<forall>obj rest. 2 * length rest + 2 \<le> k \<longrightarrow> objectLoop k stod n obj rest \<noteq> None)
   \<and> (\<forall>arr rest. 2 * length rest + 2 \<le> k \<longrightarrow> arrayLoop k stod n arr rest \<noteq> None)"
proof (induction k)
  case (Suc k)
  have v: "2 * length rest + 1 \<le> k \<Longrightarrow> parseValue k stod n rest \<noteq> None"
    and o: "2 * length rest + 2 \<le> k \<Longrightarrow> objectLoop k stod n obj rest \<noteq> None"
    and a: "2 * length rest + 2 \<le> k \<Longrightarrow> arrayLoop k stod n arr rest \<noteq> None" for obj arr rest
    using Suc by blast+
  have "parseValue (Suc k) stod n rest \<noteq> None" if f: "2 * length rest + 1 \<le> Suc k" for rest
  proof (cases "skipWs rest")
    case (Cons c cs)
    have "2 * length (skipWs cs) + 2 \<le> k"
      using f skipWs_ConsD [OF Cons] skipWs_length [of cs] by simp
    then show ?thesis using Cons o [of "skipWs cs"] a [of "skipWs cs"] by (auto split: option.splits)
  qed simp
  moreover have "objectLoop (Suc k) stod n obj rest \<noteq> None" if f: "2 * length rest + 2 \<le> Suc k" for obj rest
  proof (cases "skipWs rest")
    case (Cons c cs)
    have cs: "length (c # cs) \<le> length rest" using skipWs_ConsD [OF Cons] by simp
    have pv: "parseValue k stod n (skipWs r2) \<noteq> None"
      if "parseString n (c # cs) = Inr (key, r1)" "skipWs r1 = asc CHR '':'' # r2" for key r1 r2
      using f cs parseString_length [OF that(1)] skipWs_ConsD [OF that(2)] skipWs_length [of r2] by (intro v) simp
    have "objectLoop k stod n (emplace key val obj) r4 \<noteq> None"
      if "parseString n (c # cs) = Inr (key, r1)" "skipWs r1 = asc CHR '':'' # r2"
        "parseValue k stod n (skipWs r2) = Some (Inr (val, r3))" "skipWs r3 = asc CHR '','' # r4" for key r1 r2 val r3 r4
      using f cs parseString_length [OF that(1)] skipWs_ConsD [OF that(2)] parseValue_length [OF that(3)]
        skipWs_length [of r2] skipWs_ConsD [OF that(4)] by (intro o) simp
    then show ?thesis
      using pv Cons by (auto simp: bind_p_None expect_Inr consume_Some Let_def simp del: not_None_eq split: option.splits if_splits)
  qed simp
  moreover have "arrayLoop (Suc k) stod n arr rest \<noteq> None" if f: "2 * length rest + 2 \<le> Suc k" for arr rest
  proof -
    have "parseValue k stod n (skipWs rest) \<noteq> None" using f skipWs_length [of rest] by (intro v) simp
    moreover have "arrayLoop k stod n (arr @ [val]) r4 \<noteq> None"
      if "parseValue k stod n (skipWs rest) = Some (Inr (val, r3))" "skipWs r3 = asc CHR '','' # r4" for val r3 r4
      using f parseValue_length [OF that(1)] skipWs_length [of rest] skipWs_ConsD [OF that(2)] by (intro a) simp
    ultimately show ?thesis
      by (auto simp: bind_p_None consume_Some Let_def split: option.splits)
  qed
  ultimately show ?case by blast
qed simp

lemma parseTopLevel_returns: "parseTopLevel prefix stod src \<noteq> None"
proof -
  let ?n = "\<lparr>src_prefix = prefix, src_size = length src\<rparr>"
  have "2 * length (skipWs src) + 1 \<le> 2 * length src + 1" using skipWs_length [of src] by simp
  then have "parseValue (2 * length src + 1) stod ?n (skipWs src) \<noteq> None"
    using parse_fuel by blast
  then show ?thesis by (auto simp: parseTopLevel_def Let_def bind_p_None simp del: parseValue.simps)
qed

text \<open>
  C24: the parser terminates on every input.  The fuel of \<open>parseTopLevel\<close>, linear in the length of
  the source, is always enough: the call returns a value or throws, whatever the bytes.
\<close>

theorem parse_total: "\<exists>r. parseTopLevel prefix stod src = Some r"
  using parseTopLevel_returns by auto

section \<open>Reading what was printed\<close>

fun sepBy :: "bytes list \<Rightarrow> bytes" where
  "sepBy [] = []"
| "sepBy [x] = x"
| "sepBy (x # y # ys) = x @ [asc CHR '',''] @ sepBy (y # ys)"

definition escapeByte :: "u8 \<Rightarrow> bytes" where
  "escapeByte c = (if c = 0x22 \<or> c = 0x5C then [0x5C, c] else [c])"

definition printString :: "bytes \<Rightarrow> bytes" where
  "printString s = [0x22] @ concat (map escapeByte s) @ [0x22]"

fun printJson :: "'d JsonValue \<Rightarrow> bytes" where
  "printJson JNull = ascii ''null''"
| "printJson (JBool b) = ascii (if b then ''true'' else ''false'')"
| "printJson (JNumber d s) = s"
| "printJson (JString s) = printString s"
| "printJson (JObject m) =
     [asc CHR ''{''] @ sepBy (map (\<lambda>(k, v). printString k @ [asc CHR '':''] @ printJson v) m) @ [asc CHR ''}'']"
| "printJson (JArray vs) = [asc CHR ''[''] @ sepBy (map printJson vs) @ [asc CHR '']'']"

text \<open>Values whose numbers are number texts and whose keys are in the order of the map.\<close>

definition numberText :: "bytes \<Rightarrow> bool" where
  "numberText s \<longleftrightarrow> (case s of [] \<Rightarrow> False | c # cs \<Rightarrow> c = asc CHR ''-'' \<or> isDigitC c) \<and> skipNumber s = []"

fun canonical :: "(bytes \<Rightarrow> 'd option) \<Rightarrow> 'd JsonValue \<Rightarrow> bool" where
  "canonical stod (JNumber d s) \<longleftrightarrow> numberText s \<and> stod s = Some d"
| "canonical stod (JObject m) \<longleftrightarrow> sorted_wrt bytesLess (map fst m) \<and> (\<forall>(k, v) \<in> set m. canonical stod v)"
| "canonical stod (JArray vs) \<longleftrightarrow> (\<forall>v \<in> set vs. canonical stod v)"
| "canonical stod _ \<longleftrightarrow> True"

text \<open>What may follow a printed value.\<close>

definition delim :: "bytes \<Rightarrow> bool" where
  "delim post \<longleftrightarrow> (case post of [] \<Rightarrow> True
     | c # cs \<Rightarrow> c = asc CHR '','' \<or> c = asc CHR ''}'' \<or> c = asc CHR '']'')"

lemma delim_Nil: "delim []"
  by (simp add: delim_def)

lemma bytesLess_irrefl: "\<not> bytesLess xs xs"
  by (induction xs) auto

lemma bytesLess_asym: "bytesLess xs ys \<Longrightarrow> \<not> bytesLess ys xs"
proof (induction xs ys rule: bytesLess.induct)
  case (1 ys)
  then show ?case by (cases ys) simp_all
qed auto

lemma emplace_last: "(\<forall>k' \<in> fst ` set m. bytesLess k' k) \<Longrightarrow> emplace k v m = m @ [(k, v)]"
  by (induction m) (use bytesLess_irrefl bytesLess_asym in fastforce)+

lemma stringLoop_print: "stringLoop n acc (concat (map escapeByte s) @ 0x22 # post) = Inr (acc @ s, post)"
  by (induction s arbitrary: acc) (auto simp: escapeByte_def simpleEscape_def)

lemma parseString_print: "parseString n (printString s @ post) = Inr (s, post)"
  by (simp add: parseString_def printString_def expect_def consume_def stringLoop_print)

lemma delim_skipDigits: "delim post \<Longrightarrow> skipDigits (s @ post) = skipDigits s @ post"
  by (induction s) (auto simp: delim_def isDigitC_def split: list.splits)

lemma delim_consume:
  "delim post \<Longrightarrow> c \<noteq> asc CHR '','' \<Longrightarrow> c \<noteq> asc CHR ''}'' \<Longrightarrow> c \<noteq> asc CHR '']'' \<Longrightarrow>
    consume c (s @ post) = map_option (\<lambda>r. r @ post) (consume c s)"
  by (cases s) (auto simp: delim_def consume_def split: list.splits)

lemma delim_skipExponent: "delim post \<Longrightarrow> skipExponent (s @ post) = skipExponent s @ post"
proof (cases s)
  case Nil
  assume "delim post"
  then show ?thesis using Nil by (auto simp: skipExponent_def delim_def split: list.splits)
next
  case (Cons c cs)
  assume d: "delim post"
  show ?thesis
  proof (cases cs)
    case Nil
    then show ?thesis using d Cons delim_skipDigits [OF d, of "[]"]
      by (auto simp: skipExponent_def delim_def split: list.splits)
  next
    case (Cons e es)
    then show ?thesis
      using \<open>s = c # cs\<close> delim_skipDigits [OF d, of "e # es"] delim_skipDigits [OF d, of es]
      by (simp add: skipExponent_def del: skipDigits.simps)
  qed
qed

lemma delim_skipNumber: "delim post \<Longrightarrow> skipNumber (s @ post) = skipNumber s @ post"
proof -
  assume d: "delim post"
  show ?thesis
    unfolding skipNumber_def Let_def
    by (simp add: delim_consume [OF d] delim_skipDigits [OF d] delim_skipExponent [OF d] split: option.splits)
qed

lemma parseNumber_print:
  assumes "numberText s" and "stod s = Some d" and "delim post"
  shows "parseNumber stod n (s @ post) = Inr (JNumber d s, post)"
  using assms by (simp add: parseNumber_def Let_def delim_skipNumber numberText_def)

text \<open>A printed value starts with a byte that is not white space and closes no list.\<close>

lemma digit_bytes:
  "isDigitC c \<Longrightarrow> c \<noteq> 0x20 \<and> c \<noteq> 0x09 \<and> c \<noteq> 0x0A \<and> c \<noteq> 0x0D \<and> c \<noteq> asc CHR '']'' \<and> c \<noteq> asc CHR ''}''"
  by (auto simp: isDigitC_def)

lemma printJson_head:
  assumes "canonical stod v"
  shows "\<exists>c cs. printJson v = c # cs \<and> (\<forall>xs. skipWs (c # xs) = c # xs)
    \<and> c \<noteq> asc CHR '']'' \<and> c \<noteq> asc CHR ''}''"
proof (cases v)
  case (JNumber d s)
  then obtain c cs where "s = c # cs" "c = asc CHR ''-'' \<or> isDigitC c"
    using assms by (auto simp: numberText_def split: list.splits)
  then show ?thesis using JNumber digit_bytes [of c] by auto
qed (auto simp: printString_def)

lemma skipWs_delim: "delim post \<Longrightarrow> skipWs post = post"
  by (auto simp: delim_def split: list.splits)

lemma sepBy_Cons: "sepBy (x # xs) = x @ (if xs = [] then [] else asc CHR '','' # sepBy xs)"
  by (cases xs) simp_all

definition parses :: "(bytes \<Rightarrow> 'd option) \<Rightarrow> Source \<Rightarrow> 'd JsonValue \<Rightarrow> bool" where
  "parses stod n v \<longleftrightarrow> (\<forall>k post. delim post \<longrightarrow> 2 * length (printJson v) + 1 \<le> k \<longrightarrow>
     parseValue k stod n (printJson v @ post) = Some (Inr (v, post)))"

lemma arrayLoop_print:
  assumes "\<forall>v \<in> set (v # vs). parses stod n v \<and> canonical stod v"
    and "2 * length (sepBy (map printJson (v # vs))) + 2 \<le> k"
  shows "arrayLoop k stod n acc (sepBy (map printJson (v # vs)) @ asc CHR '']'' # post) = Some (Inr (JArray (acc @ v # vs), post))"
  using assms
proof (induction vs arbitrary: v acc k)
  case Nil
  obtain j where k: "k = Suc j" using Nil.prems by (cases k) auto
  obtain c cs where h: "printJson v = c # cs" "\<forall>xs. skipWs (c # xs) = c # xs"
    using printJson_head [of stod v] Nil.prems(1) by (auto simp del: skipWs.simps)
  have "parseValue j stod n (printJson v @ asc CHR '']'' # post) = Some (Inr (v, asc CHR '']'' # post))"
    using Nil.prems k by (simp add: parses_def delim_def)
  then show ?case using k h by (simp add: consume_def)
next
  case (Cons w vs)
  let ?rest = "asc CHR '','' # sepBy (map printJson (w # vs)) @ asc CHR '']'' # post"
  obtain j where k: "k = Suc j" using Cons.prems by (cases k) auto
  obtain c cs where h: "printJson v = c # cs" "\<forall>xs. skipWs (c # xs) = c # xs"
    using printJson_head [of stod v] Cons.prems(1) by (auto simp del: skipWs.simps)
  have "parseValue j stod n (printJson v @ ?rest) = Some (Inr (v, ?rest))"
    using Cons.prems k by (simp add: parses_def delim_def)
  moreover have "arrayLoop j stod n (acc @ [v]) (sepBy (map printJson (w # vs)) @ asc CHR '']'' # post)
      = Some (Inr (JArray ((acc @ [v]) @ w # vs), post))"
    using Cons.prems k h(1) by (intro Cons.IH) simp_all
  ultimately show ?case using k h by (simp add: consume_def)
qed

abbreviation "printPair \<equiv> \<lambda>(k, v). printString k @ [asc CHR '':''] @ printJson v"

lemma objectLoop_step:
  assumes "parses stod n v" and "canonical stod v" and "\<forall>k' \<in> fst ` set acc. bytesLess k' key" and d: "delim post"
    and "2 * length (printJson v) + 1 \<le> j"
  shows "objectLoop (Suc j) stod n acc (printPair (key, v) @ post) =
    (case consume (asc CHR '','') post of
       Some r \<Rightarrow> objectLoop j stod n (acc @ [(key, v)]) r
     | None \<Rightarrow>
         (case consume (asc CHR ''}'') post of
            Some r \<Rightarrow> Some (Inr (JObject (acc @ [(key, v)]), r))
          | None \<Rightarrow> Some (fail n post (''expected '' @ [CHR 0x27, CHR 0x2C, CHR 0x27] @ '' or ''
                                  @ [CHR 0x27, CHR 0x7D, CHR 0x27] @ '' in object''))))"
proof -
  obtain c cs where h: "printJson v = c # cs" "\<forall>xs. skipWs (c # xs) = c # xs"
    using printJson_head [OF assms(2)] by (auto simp del: skipWs.simps)
  have pv: "parseValue j stod n (c # cs @ post) = Some (Inr (v, post))"
    using assms h(1) by (simp add: parses_def)
  obtain ss where e: "printString key @ asc CHR '':'' # c # cs @ post = 0x22 # ss"
    by (simp add: printString_def)
  have ps: "parseString n (0x22 # ss) = Inr (key, asc CHR '':'' # c # cs @ post)"
    unfolding e [symmetric] by (rule parseString_print)
  have "objectLoop (Suc j) stod n acc (0x22 # ss) =
    (case consume (asc CHR '','') post of
       Some r \<Rightarrow> objectLoop j stod n (acc @ [(key, v)]) r
     | None \<Rightarrow>
         (case consume (asc CHR ''}'') post of
            Some r \<Rightarrow> Some (Inr (JObject (acc @ [(key, v)]), r))
          | None \<Rightarrow> Some (fail n post (''expected '' @ [CHR 0x27, CHR 0x2C, CHR 0x27] @ '' or ''
                                  @ [CHR 0x27, CHR 0x7D, CHR 0x27] @ '' in object''))))"
    using h(2) pv ps emplace_last [OF assms(3)] skipWs_delim [OF d]
    by (simp add: expect_def consume_hit Let_def cong: option.case_cong)
  then show ?thesis using e h(1) by (simp del: objectLoop.simps)
qed

lemma objectLoop_print:
  assumes "\<forall>x \<in> set (x # m). parses stod n (snd x) \<and> canonical stod (snd x)"
    and "sorted_wrt bytesLess (map fst (acc @ x # m))"
    and "2 * length (sepBy (map printPair (x # m))) + 2 \<le> k"
  shows "objectLoop k stod n acc (sepBy (map printPair (x # m)) @ asc CHR ''}'' # post) = Some (Inr (JObject (acc @ x # m), post))"
  using assms
proof (induction m arbitrary: x acc k)
  case Nil
  obtain j where k: "k = Suc j" using Nil.prems by (cases k) auto
  have "2 * length (printJson (snd x)) + 1 \<le> j" using Nil.prems(3) k by (cases x) simp
  then show ?case
    using Nil.prems k objectLoop_step [of stod n "snd x" acc "fst x" "asc CHR ''}'' # post" j]
    by (auto simp: sorted_wrt_append delim_def consume_def)
next
  case (Cons y m)
  let ?rest = "asc CHR '','' # sepBy (map printPair (y # m)) @ asc CHR ''}'' # post"
  obtain j where k: "k = Suc j" using Cons.prems by (cases k) auto
  have f: "2 * length (printJson (snd x)) + 1 \<le> j" "2 * length (sepBy (map printPair (y # m))) + 2 \<le> j"
    using Cons.prems(3) k by (cases x; simp)+
  have step: "objectLoop (Suc j) stod n acc (printPair x @ ?rest)
      = objectLoop j stod n (acc @ [x]) (sepBy (map printPair (y # m)) @ asc CHR ''}'' # post)"
    using Cons.prems f(1) objectLoop_step [of stod n "snd x" acc "fst x" ?rest j]
    by (auto simp: sorted_wrt_append delim_def consume_def)
  have "objectLoop j stod n (acc @ [x]) (sepBy (map printPair (y # m)) @ asc CHR ''}'' # post)
      = Some (Inr (JObject ((acc @ [x]) @ y # m), post))"
    using Cons.prems f(2) by (intro Cons.IH) simp_all
  then show ?case using k step by (simp del: objectLoop.simps)
qed

lemma parsesI:
  "(\<And>j post. parseValue (Suc j) stod n (printJson v @ post) = Some (Inr (v, post))) \<Longrightarrow> parses stod n v"
  unfolding parses_def by (metis add_is_0 le_zero_eq not0_implies_Suc one_neq_zero)

lemma parses_canonical: "canonical stod v \<Longrightarrow> parses stod n v"
proof (induction v)
  case (JNumber d s)
  then obtain c cs where s: "s = c # cs" and c: "c = asc CHR ''-'' \<or> isDigitC c"
    by (auto simp: numberText_def split: list.splits)
  show ?case unfolding parses_def
  proof (intro allI impI)
    fix k and post :: bytes
    assume d: "delim post" and "2 * length (printJson (JNumber d s)) + 1 \<le> k"
    then obtain j where k: "k = Suc j" by (cases k) auto
    have "parseNumber stod n (s @ post) = Inr (JNumber d s, post)"
      using JNumber d by (intro parseNumber_print) simp_all
    moreover have "parseValue (Suc j) stod n (c # xs) = Some (parseNumber stod n (c # xs))" for xs
      using c digit_bytes [of c] by (auto simp: isDigitC_def)
    ultimately show "parseValue k stod n (printJson (JNumber d s) @ post) = Some (Inr (JNumber d s, post))"
      using k s by (simp del: parseValue.simps)
  qed
next
  case (JString s)
  show ?case unfolding parses_def
  proof (intro allI impI)
    fix k and post :: bytes
    assume "2 * length (printJson (JString s)) + 1 \<le> k"
    then obtain j where k: "k = Suc j" by (cases k) auto
    obtain ss where e: "printString s @ post = 0x22 # ss" by (simp add: printString_def)
    then have "parseString n (0x22 # ss) = Inr (s, post)" by (metis parseString_print)
    then show "parseValue k stod n (printJson (JString s) @ post) = Some (Inr (JString s, post))"
      using k e by simp
  qed
next
  case (JObject m)
  show ?case unfolding parses_def
  proof (intro allI impI)
    fix k and post :: bytes
    assume f: "2 * length (printJson (JObject m)) + 1 \<le> k"
    then obtain j where k: "k = Suc j" by (cases k) auto
    show "parseValue k stod n (printJson (JObject m) @ post) = Some (Inr (JObject m, post))"
    proof (cases m)
      case Nil
      then show ?thesis using k by (simp add: consume_def)
    next
      case (Cons x xs)
      obtain ss where e: "sepBy (map printPair m) @ asc CHR ''}'' # post = 0x22 # ss"
        using Cons by (cases x) (simp add: sepBy_Cons printString_def)
      have "objectLoop j stod n [] (sepBy (map printPair (x # xs)) @ asc CHR ''}'' # post) = Some (Inr (JObject ([] @ x # xs), post))"
        using JObject f k Cons by (intro objectLoop_print) fastforce+
      then show ?thesis using k e Cons by (simp add: consume_def del: objectLoop.simps)
    qed
  qed
next
  case (JArray vs)
  show ?case unfolding parses_def
  proof (intro allI impI)
    fix k and post :: bytes
    assume f: "2 * length (printJson (JArray vs)) + 1 \<le> k"
    then obtain j where k: "k = Suc j" by (cases k) auto
    show "parseValue k stod n (printJson (JArray vs) @ post) = Some (Inr (JArray vs, post))"
    proof (cases vs)
      case Nil
      then show ?thesis using k by (simp add: consume_def)
    next
      case (Cons w ws)
      then obtain c cs where h: "printJson w = c # cs" "\<forall>xs. skipWs (c # xs) = c # xs" "c \<noteq> asc CHR '']''"
        using printJson_head [of stod w] JArray by (auto simp del: skipWs.simps)
      have "arrayLoop j stod n [] (sepBy (map printJson (w # ws)) @ asc CHR '']'' # post) = Some (Inr (JArray ([] @ w # ws), post))"
        using JArray f k Cons by (intro arrayLoop_print) auto
      then show ?thesis using k h Cons by (simp add: consume_def sepBy_Cons del: arrayLoop.simps)
    qed
  qed
qed (auto intro!: parsesI simp: parseBool_def parseNull_def)

lemma parse_printed:
  assumes "canonical stod v"
  shows "parseTopLevel prefix stod (printJson v) = Some (Inr v)"
proof -
  let ?n = "\<lparr>src_prefix = prefix, src_size = length (printJson v)\<rparr>"
  have "parseValue (2 * length (printJson v) + 1) stod ?n (printJson v @ []) = Some (Inr (v, []))"
    using parses_canonical [OF assms] unfolding parses_def by (blast intro: delim_Nil)
  moreover have "skipWs (printJson v) = printJson v"
    using printJson_head [OF assms] by (auto simp del: skipWs.simps)
  ultimately show ?thesis unfolding parseTopLevel_def Let_def by simp
qed

text \<open>
  C28: the parser reads back what is printed.  A value whose objects have their keys in ascending
  order and whose numbers are texts of the JSON number form that \<open>stod\<close> accepts is returned by
  \<open>parseTopLevel\<close> from its printed form: strings of any bytes, nested lists and objects.
\<close>

theorem parse_print:
  assumes "canonical stod v"
  shows "parseTopLevel prefix stod (printJson v) = Some (Inr v)"
  using assms by (rule parse_printed)

text \<open>An instance: the number parser of decimal digits only.\<close>

definition digitsOnly :: "bytes \<Rightarrow> nat option" where
  "digitsOnly s = (if list_all isDigitC s then Some (foldl (\<lambda>n c. n * 10 + (unat c - 48)) 0 s) else None)"

theorem parse_print_witness:
  "parseTopLevel jsonSource digitsOnly (ascii ''{'' @ [0x22, 0x5C, 0x22, 0x22] @ ascii '':[10,true]}'')
    = Some (Inr (JObject [([0x22], JArray [JNumber 10 (ascii ''10''), JBool True])]))"
proof -
  let ?v = "JObject [([0x22], JArray [JNumber 10 (ascii ''10''), JBool True])] :: nat JsonValue"
  have "canonical digitsOnly ?v"
    by (simp add: numberText_def skipNumber_def skipExponent_def consume_def isDigitC_def digitsOnly_def)
  then have "parseTopLevel jsonSource digitsOnly (printJson ?v) = Some (Inr ?v)" by (rule parse_print)
  then show ?thesis by (simp add: printString_def escapeByte_def)
qed

end
