(* ===== verification/GraphConvert.thy ===== *)
theory GraphConvert
  imports Json "HOL-Library.Signed_Division"
begin

text \<open>
  The conversions of \<open>src/graph_convert.cpp\<close>: UTF-8 to UTF-16-LE, ISO 8601 times to FILETIME ticks,
  base64, the one-off entry id and the search keys.  A \<open>std::string\<close> is the list of its bytes; a
  loop over an index into a string is a recursion over the part that is left.  \<open>int\<close> values of the
  code are \<open>int\<close>: all of them come from at most four decimal digits.  \<open>unsigned\<close> arithmetic that can
  wrap is written with \<open>u32wrap\<close>.  \<open>std::toupper\<close> is that of the C locale.
\<close>

unbundle bit_operations_syntax

section \<open>UTF-8 to UTF-16\<close>

definition appendU16Le :: "bytes \<Rightarrow> u32 \<Rightarrow> bytes" where
  "appendU16Le dst u16 = dst @ [ucast (u16 AND 0xFF), ucast (drop_bit 8 u16 AND 0xFF)]"

definition isCont :: "u8 \<Rightarrow> bool" where
  "isCont b \<longleftrightarrow> b AND 0xC0 = 0x80"

text \<open>One sequence at the head of the string: the code point and its number of bytes.\<close>

definition utf8Seq :: "bytes \<Rightarrow> (u32 \<times> nat) result" where
  "utf8Seq s =
     (let b0 = s ! 0
      in if b0 AND 0x80 = 0 then Inr (ucast b0, 1)
         else if b0 AND 0xE0 = 0xC0
         then if length s \<le> 1 then Inl (InvalidArgument ''utf8ToUtf16le: truncated 2-byte seq'')
              else if \<not> isCont (s ! 1) then Inl (InvalidArgument ''utf8ToUtf16le: bad continuation'')
              else Inr (push_bit 6 (ucast (b0 AND 0x1F)) OR ucast (s ! 1 AND 0x3F), 2)
         else if b0 AND 0xF0 = 0xE0
         then if length s \<le> 2 then Inl (InvalidArgument ''utf8ToUtf16le: truncated 3-byte seq'')
              else if \<not> isCont (s ! 1) \<or> \<not> isCont (s ! 2)
              then Inl (InvalidArgument ''utf8ToUtf16le: bad continuation'')
              else Inr (push_bit 12 (ucast (b0 AND 0x0F)) OR push_bit 6 (ucast (s ! 1 AND 0x3F))
                        OR ucast (s ! 2 AND 0x3F), 3)
         else if b0 AND 0xF8 = 0xF0
         then if length s \<le> 3 then Inl (InvalidArgument ''utf8ToUtf16le: truncated 4-byte seq'')
              else if \<not> isCont (s ! 1) \<or> \<not> isCont (s ! 2) \<or> \<not> isCont (s ! 3)
              then Inl (InvalidArgument ''utf8ToUtf16le: bad continuation'')
              else Inr (push_bit 18 (ucast (b0 AND 0x07)) OR push_bit 12 (ucast (s ! 1 AND 0x3F))
                        OR push_bit 6 (ucast (s ! 2 AND 0x3F)) OR ucast (s ! 3 AND 0x3F), 4)
         else Inl (InvalidArgument ''utf8ToUtf16le: invalid leading byte''))"

definition utf16Append :: "bytes \<Rightarrow> u32 \<Rightarrow> bytes result" where
  "utf16Append out cp =
     (if cp \<le> 0xFFFF
      then if cp \<ge> 0xD800 \<and> cp \<le> 0xDFFF
           then Inl (InvalidArgument ''utf8ToUtf16le: lone surrogate codepoint'')
           else Inr (appendU16Le out cp)
      else if cp \<le> 0x10FFFF
      then let v = cp - 0x10000
           in Inr (appendU16Le (appendU16Le out (0xD800 OR drop_bit 10 v)) (0xDC00 OR (v AND 0x3FF)))
      else Inl (InvalidArgument ''utf8ToUtf16le: codepoint out of range''))"

lemma utf8Seq_positive: "utf8Seq s = Inr (cp, n) \<Longrightarrow> 0 < n"
  by (auto simp: utf8Seq_def Let_def split: if_splits)

function utf8Loop :: "bytes \<Rightarrow> bytes \<Rightarrow> bytes result" where
  "utf8Loop s out =
     (if s = [] then Inr out
      else bind_r (utf8Seq s) (\<lambda>(cp, n). bind_r (utf16Append out cp) (\<lambda>out. utf8Loop (drop n s) out)))"
  by pat_completeness auto
termination
  by (relation "measure (\<lambda>(s, _). length s)") (auto dest: utf8Seq_positive)

declare utf8Loop.simps [simp del]

definition utf8ToUtf16le :: "bytes \<Rightarrow> bytes result" where
  "utf8ToUtf16le s = utf8Loop s []"

section \<open>ISO 8601 times\<close>

definition u32wrap :: "int \<Rightarrow> int" where
  "u32wrap x = x mod 2 ^ 32"

definition daysFromCivil :: "int \<Rightarrow> int \<Rightarrow> int \<Rightarrow> int" where
  "daysFromCivil y m d =
     (let y = (if m \<le> 2 then y - 1 else y);
          era = (if y \<ge> 0 then y else y - 399) sdiv 400;
          yoe = u32wrap (y - era * 400);
          doy = u32wrap ((153 * u32wrap (m + (if m > 2 then -3 else 9)) + 2) div 5 + d - 1);
          doe = u32wrap (yoe * 365 + yoe div 4 - yoe div 100 + doy)
      in era * 146097 + doe - 719468)"

fun parseIntLoop :: "bytes \<Rightarrow> nat \<Rightarrow> nat \<Rightarrow> int \<Rightarrow> int result" where
  "parseIntLoop s pos 0 v = Inr v"
| "parseIntLoop s pos (Suc k) v =
     (let c = s ! pos
      in if \<not> isDigitC c then Inl (InvalidArgument ''isoToFiletime: non-digit in numeric field'')
         else parseIntLoop s (pos + 1) k (v * 10 + (uint c - uint (asc CHR ''0''))))"

definition parseInt :: "bytes \<Rightarrow> nat \<Rightarrow> nat \<Rightarrow> (int \<times> nat) result" where
  "parseInt s pos n =
     (if pos + n > length s then Inl (InvalidArgument ''isoToFiletime: truncated numeric field'')
      else bind_r (parseIntLoop s pos n 0) (\<lambda>v. Inr (v, pos + n)))"

definition expectAt :: "bytes \<Rightarrow> nat \<Rightarrow> u8 \<Rightarrow> string \<Rightarrow> unit result" where
  "expectAt s pos c msg = (if s ! pos \<noteq> c then Inl (InvalidArgument msg) else Inr ())"

text \<open>The digits of the fraction: at most nine are read, the rest is skipped.\<close>

function fracLoop :: "bytes \<Rightarrow> nat \<Rightarrow> nat \<Rightarrow> nat \<Rightarrow> nat \<times> nat \<times> nat" where
  "fracLoop s pos frac k =
     (if pos < length s \<and> isDigitC (s ! pos) \<and> k < 9
      then fracLoop s (pos + 1) (frac * 10 + (unat (s ! pos) - unat (asc CHR ''0''))) (k + 1)
      else (frac, k, pos))"
  by pat_completeness auto
termination
  by (relation "measure (\<lambda>(s, pos, _). length s - pos)") auto

function skipDigitsAt :: "bytes \<Rightarrow> nat \<Rightarrow> nat" where
  "skipDigitsAt s pos = (if pos < length s \<and> isDigitC (s ! pos) then skipDigitsAt s (pos + 1) else pos)"
  by pat_completeness auto
termination
  by (relation "measure (\<lambda>(s, pos). length s - pos)") auto

declare fracLoop.simps [simp del] skipDigitsAt.simps [simp del]

definition parseFraction :: "bytes \<Rightarrow> nat \<Rightarrow> nat \<times> nat" where
  "parseFraction s pos =
     (if pos < length s \<and> s ! pos = asc CHR ''.''
      then let (frac, k, pos) = fracLoop s (pos + 1) 0 0;
               pos = skipDigitsAt s pos;
               (frac, k) = (if k > 7 then (frac div 10 ^ (k - 7), 7) else (frac, k))
           in (frac * 10 ^ (7 - k), pos)
      else (0, pos))"

definition parseOffset :: "bytes \<Rightarrow> nat \<Rightarrow> int result" where
  "parseOffset s pos =
     (if pos < length s
      then let c = s ! pos
           in if c = asc CHR ''Z'' \<or> c = asc CHR ''z'' then Inr 0
              else if c = asc CHR ''+'' \<or> c = asc CHR ''-''
              then let sgn = (if c = asc CHR ''+'' then 1 else -1)
                   in bind_r (parseInt s (pos + 1) 2) (\<lambda>(oh, pos).
                        let pos = (if pos < length s \<and> s ! pos = asc CHR '':'' then pos + 1 else pos)
                        in if pos + 2 \<le> length s \<and> isDigitC (s ! pos) \<and> isDigitC (s ! (pos + 1))
                           then bind_r (parseInt s pos 2) (\<lambda>(om, pos). Inr (sgn * (oh * 3600 + om * 60)))
                           else Inr (sgn * (oh * 3600)))
              else Inr 0
      else Inr 0)"

definition kDays1601To1970 :: int where
  "kDays1601To1970 = 134774"

definition isoToFiletimeTicks :: "bytes \<Rightarrow> u64 result" where
  "isoToFiletimeTicks str =
     (if str = [] then Inr 0
      else if length str < 19 then Inl (InvalidArgument ''isoToFiletime: input too short'')
      else bind_r (parseInt str 0 4) (\<lambda>(year, pos).
           bind_r (expectAt str pos (asc CHR ''-'') (''isoToFiletime: expected '' @ [CHR 0x27] @ ''-'' @ [CHR 0x27])) (\<lambda>_.
           bind_r (parseInt str (pos + 1) 2) (\<lambda>(month, pos).
           bind_r (expectAt str pos (asc CHR ''-'') (''isoToFiletime: expected '' @ [CHR 0x27] @ ''-'' @ [CHR 0x27])) (\<lambda>_.
           bind_r (parseInt str (pos + 1) 2) (\<lambda>(day, pos).
           if str ! pos \<noteq> asc CHR ''T'' \<and> str ! pos \<noteq> asc CHR '' ''
           then Inl (InvalidArgument (''isoToFiletime: expected '' @ [CHR 0x27] @ ''T'' @ [CHR 0x27] @ '' or ''
                                      @ [CHR 0x27] @ '' '' @ [CHR 0x27]))
           else
           bind_r (parseInt str (pos + 1) 2) (\<lambda>(hour, pos).
           bind_r (expectAt str pos (asc CHR '':'') (''isoToFiletime: expected '' @ [CHR 0x27] @ '':'' @ [CHR 0x27])) (\<lambda>_.
           bind_r (parseInt str (pos + 1) 2) (\<lambda>(minute, pos).
           bind_r (expectAt str pos (asc CHR '':'') (''isoToFiletime: expected '' @ [CHR 0x27] @ '':'' @ [CHR 0x27])) (\<lambda>_.
           bind_r (parseInt str (pos + 1) 2) (\<lambda>(second, pos).
             let (fracTicks, pos) = parseFraction str pos
             in bind_r (parseOffset str pos) (\<lambda>offsetSec.
                  let daysFrom1601 = daysFromCivil year month day + kDays1601To1970;
                      totalSec = daysFrom1601 * 86400 + hour * 3600 + minute * 60 + second - offsetSec
                  in if totalSec < 0 then Inl (InvalidArgument ''isoToFiletime: pre-epoch time'')
                     else Inr (word_of_int totalSec * 10000000 + word_of_nat fracTicks)))))))))))))"

definition isoToFiletime :: "bytes \<Rightarrow> bytes result" where
  "isoToFiletime str = bind_r (isoToFiletimeTicks str) (\<lambda>ticks. Inr (writeU64 (zeros 8) 0 ticks))"

section \<open>base64\<close>

definition b64Val :: "u8 \<Rightarrow> int" where
  "b64Val c =
     (if asc CHR ''A'' \<le> c \<and> c \<le> asc CHR ''Z'' then uint c - uint (asc CHR ''A'')
      else if asc CHR ''a'' \<le> c \<and> c \<le> asc CHR ''z'' then 26 + (uint c - uint (asc CHR ''a''))
      else if asc CHR ''0'' \<le> c \<and> c \<le> asc CHR ''9'' then 52 + (uint c - uint (asc CHR ''0''))
      else if c = asc CHR ''+'' then 62
      else if c = asc CHR ''/'' then 63
      else -1)"

definition isB64Space :: "u8 \<Rightarrow> bool" where
  "isB64Space c \<longleftrightarrow> c = asc CHR '' '' \<or> c = 0x0D \<or> c = 0x0A \<or> c = 0x09"

fun b64Loop :: "bytes \<Rightarrow> u32 \<Rightarrow> nat \<Rightarrow> bytes \<Rightarrow> bytes result" where
  "b64Loop [] accum bits out = Inr out"
| "b64Loop (c # cs) accum bits out =
     (let v = b64Val c
      in if v < 0 then Inl (InvalidArgument ''base64DecodeBinary: invalid char'')
         else let accum = push_bit 6 accum OR word_of_int v; bits = bits + 6
              in if bits \<ge> 8
                 then b64Loop cs accum (bits - 8) (out @ [ucast (drop_bit (bits - 8) accum AND 0xFF)])
                 else b64Loop cs accum bits out)"

definition base64DecodeBinary :: "bytes \<Rightarrow> bytes result" where
  "base64DecodeBinary b64 =
     (let s = filter (\<lambda>c. \<not> isB64Space c) b64;
          s = rev (dropWhile (\<lambda>c. c = asc CHR ''='') (rev s))
      in b64Loop s 0 0 [])"

section \<open>Entry ids and search keys\<close>

definition kOneOffProviderUid :: bytes where
  "kOneOffProviderUid =
     [0x81, 0x2B, 0x1F, 0xA4, 0xBE, 0xA3, 0x10, 0x19, 0x9D, 0x6E, 0x00, 0xDD, 0x01, 0x0F, 0x54, 0x02]"

definition appendUtf16NullTerm :: "bytes \<Rightarrow> bytes \<Rightarrow> bytes result" where
  "appendUtf16NullTerm out s = bind_r (utf8ToUtf16le s) (\<lambda>u16. Inr (out @ u16 @ [0, 0]))"

definition makeOneOffEntryId :: "bytes \<Rightarrow> bytes \<Rightarrow> bytes result" where
  "makeOneOffEntryId displayName smtpAddress =
     (let out = zeros 4 @ kOneOffProviderUid @ [0, 0] @ [0x01, 0x90]
      in bind_r (appendUtf16NullTerm out displayName) (\<lambda>out.
         bind_r (appendUtf16NullTerm out (ascii ''SMTP'')) (\<lambda>out.
         appendUtf16NullTerm out smtpAddress)))"

definition toupperC :: "u8 \<Rightarrow> u8" where
  "toupperC c = (if asc CHR ''a'' \<le> c \<and> c \<le> asc CHR ''z'' then c - 32 else c)"

definition deriveSearchKey :: "bytes \<Rightarrow> bytes" where
  "deriveSearchKey smtpAddress =
     (let s = ascii ''SMTP:'' @ map toupperC smtpAddress;
          n = (if length s < 16 then length s else 16)
      in store (zeros 16) 0 (take n s))"

definition kFnvBasisA :: u64 where
  "kFnvBasisA = 0xCBF29CE484222325"

definition kFnvBasisB :: u64 where
  "kFnvBasisB = 0x100000001B3"

definition kFnvPrime :: u64 where
  "kFnvPrime = 0x100000001B3"

fun fnvLoop :: "bytes \<Rightarrow> u64 \<Rightarrow> u64 \<Rightarrow> u64 \<times> u64" where
  "fnvLoop [] h1 h2 = (h1, h2)"
| "fnvLoop (b # bs) h1 h2 =
     fnvLoop bs ((h1 XOR ucast b) * kFnvPrime) ((h2 XOR ucast (b XOR 0xA5)) * kFnvPrime)"

definition deriveMessageSearchKey :: "bytes \<Rightarrow> bytes" where
  "deriveMessageSearchKey seed =
     (let (h1, h2) = fnvLoop seed kFnvBasisA kFnvBasisB;
          h1 = h1 XOR 0x53454152;
          h2 = h2 XOR 0x4348454B
      in map (\<lambda>i. ucast (drop_bit (i * 8) h1)) [0..<8] @ map (\<lambda>i. ucast (drop_bit (i * 8) h2)) [0..<8])"

section \<open>UTF-8 and UTF-16 as Unicode defines them\<close>

text \<open>The bits of the lead and continuation bytes.\<close>

lemma bits_below: "unat cp < 2 ^ n \<Longrightarrow> bit cp i \<Longrightarrow> i < n" for cp :: u32
proof -
  assume a: "unat cp < 2 ^ n" "bit cp i"
  have "take_bit n cp = cp"
    by (rule word_unat_eq_iff [THEN iffD2]) (use a(1) in \<open>simp add: unsigned_take_bit_eq take_bit_nat_eq_self\<close>)
  then show ?thesis using a(2) by (metis bit_take_bit_iff)
qed
lemma all8: "(\<And>k. k \<in> {0,1,2,3,4,5,6,7} \<Longrightarrow> bit a k = bit b k) \<Longrightarrow> a = b" for a b :: u8
  by (rule bit_word_eqI) (auto simp: numeral_eq_Suc less_Suc_eq)

lemma lead_bytes:
  "(ucast (0xC0 OR a) :: u8) AND 0x1F = ucast a AND 0x1F"
  "(ucast (0xE0 OR a) :: u8) AND 0x0F = ucast a AND 0x0F"
  "(ucast (0xF0 OR a) :: u8) AND 0x07 = ucast a AND 0x07"
  "(ucast (0x80 OR (a AND 0x3F)) :: u8) AND 0x3F = ucast a AND 0x3F"
  "(ucast (0x80 OR (a AND 0x3F)) :: u8) AND 0xC0 = 0x80" for a :: u32
  by (rule all8; auto simp: bit_simps)+

lemma high_zero: "unat a < 2 ^ n \<Longrightarrow> n \<le> i \<Longrightarrow> \<not> bit a i" for a :: u32
  using bits_below [of a n i] by auto

lemma lead_tests:
  "unat a < 2 ^ 5 \<Longrightarrow> (ucast (0xC0 OR a) :: u8) AND 0xE0 = 0xC0"
  "unat a < 2 ^ 4 \<Longrightarrow> (ucast (0xE0 OR a) :: u8) AND 0xF0 = 0xE0"
  "unat a < 2 ^ 3 \<Longrightarrow> (ucast (0xF0 OR a) :: u8) AND 0xF8 = 0xF0" for a :: u32
  by (rule all8; use high_zero [of a 5] high_zero [of a 4] high_zero [of a 3] in \<open>auto simp: bit_simps\<close>)+

lemma lead_bits:
  "bit ((ucast (0xC0 OR a) :: u8) AND 0x80) 7" "bit ((ucast (0xE0 OR a) :: u8) AND 0x80) 7" "bit ((ucast (0xF0 OR a) :: u8) AND 0x80) 7"
  "bit ((ucast (0xE0 OR a) :: u8) AND 0xE0) 5" "bit ((ucast (0xF0 OR a) :: u8) AND 0xE0) 5"
  "bit ((ucast (0xF0 OR a) :: u8) AND 0xF0) 4" for a :: u32
  by (simp_all add: bit_simps)

lemma lead_others:
  "(ucast (0xC0 OR a) :: u8) AND 0x80 \<noteq> 0" "(ucast (0xE0 OR a) :: u8) AND 0x80 \<noteq> 0" "(ucast (0xF0 OR a) :: u8) AND 0x80 \<noteq> 0"
  "(ucast (0xE0 OR a) :: u8) AND 0xE0 \<noteq> 0xC0" "(ucast (0xF0 OR a) :: u8) AND 0xE0 \<noteq> 0xC0"
  "(ucast (0xF0 OR a) :: u8) AND 0xF0 \<noteq> 0xE0" for a :: u32
proof -
  have ne: "x \<noteq> y" if "bit x k" "\<not> bit y k" for x y :: u8 and k using that by auto
  show "(ucast (0xC0 OR a) :: u8) AND 0x80 \<noteq> 0" "(ucast (0xE0 OR a) :: u8) AND 0x80 \<noteq> 0" "(ucast (0xF0 OR a) :: u8) AND 0x80 \<noteq> 0"
    "(ucast (0xE0 OR a) :: u8) AND 0xE0 \<noteq> 0xC0" "(ucast (0xF0 OR a) :: u8) AND 0xE0 \<noteq> 0xC0"
    "(ucast (0xF0 OR a) :: u8) AND 0xF0 \<noteq> 0xE0"
    by (rule ne [OF lead_bits(1)] ne [OF lead_bits(2)] ne [OF lead_bits(3)] ne [OF lead_bits(4)] ne [OF lead_bits(5)] ne [OF lead_bits(6)]; simp)+
qed

lemma masks: "(0x1F :: 'a::len word) = mask 5" "(0x0F :: 'a word) = mask 4" "(0x07 :: 'a word) = mask 3"
  "(0x3F :: 'a word) = mask 6"
  by (simp_all add: mask_eq_exp_minus_1)

definition low :: "u32 \<Rightarrow> u32" where
  "low a = ucast ((ucast (0x80 OR (a AND 0x3F)) :: u8) AND 0x3F)"

lemma bit_low: "bit (low a) i \<longleftrightarrow> i < 6 \<and> bit a i"
  unfolding low_def lead_bytes(4) unfolding masks by (auto simp: bit_simps)

definition lead :: "nat \<Rightarrow> u32 \<Rightarrow> u32" where
  "lead n a = (if n = 2 then ucast ((ucast (0xC0 OR a) :: u8) AND 0x1F)
     else if n = 3 then ucast ((ucast (0xE0 OR a) :: u8) AND 0x0F) else ucast ((ucast (0xF0 OR a) :: u8) AND 0x07))"

lemma bit_lead:
  "bit (lead 2 a) i \<longleftrightarrow> i < 5 \<and> bit a i" "bit (lead 3 a) i \<longleftrightarrow> i < 4 \<and> bit a i" "bit (lead 4 a) i \<longleftrightarrow> i < 3 \<and> bit a i"
  unfolding lead_def lead_bytes(1-3) unfolding masks by (auto simp: bit_simps)

lemma joins:
  "unat cp < 2 ^ 11 \<Longrightarrow> push_bit 6 (lead 2 (drop_bit 6 cp)) OR low cp = cp"
  "unat cp < 2 ^ 16 \<Longrightarrow> push_bit 12 (lead 3 (drop_bit 12 cp)) OR push_bit 6 (low (drop_bit 6 cp)) OR low cp = cp"
  "unat cp < 2 ^ 21 \<Longrightarrow> push_bit 18 (lead 4 (drop_bit 18 cp)) OR push_bit 12 (low (drop_bit 12 cp))
     OR push_bit 6 (low (drop_bit 6 cp)) OR low cp = cp"
proof -
  show "push_bit 6 (lead 2 (drop_bit 6 cp)) OR low cp = cp" if "unat cp < 2 ^ 11"
    by (rule bit_word_eqI)
      (use bits_below [OF that] in \<open>auto simp: bit_simps bit_low bit_lead not_less less_diff_conv2\<close>)
  show "push_bit 12 (lead 3 (drop_bit 12 cp)) OR push_bit 6 (low (drop_bit 6 cp)) OR low cp = cp" if u: "unat cp < 2 ^ 16"
  proof (rule bit_word_eqI)
    fix n
    show "bit (push_bit 12 (lead 3 (drop_bit 12 cp)) OR push_bit 6 (low (drop_bit 6 cp)) OR low cp) n = bit cp n"
      if "n < LENGTH(32)"
      using that bits_below [OF u, of n]
      by (cases "n < 6"; cases "n < 12") (auto simp: bit_simps bit_low bit_lead less_diff_conv2)
  qed
  show "push_bit 18 (lead 4 (drop_bit 18 cp)) OR push_bit 12 (low (drop_bit 12 cp))
     OR push_bit 6 (low (drop_bit 6 cp)) OR low cp = cp" if u: "unat cp < 2 ^ 21"
  proof (rule bit_word_eqI)
    fix n
    show "bit (push_bit 18 (lead 4 (drop_bit 18 cp)) OR push_bit 12 (low (drop_bit 12 cp))
        OR push_bit 6 (low (drop_bit 6 cp)) OR low cp) n = bit cp n" if "n < LENGTH(32)"
      using that bits_below [OF u, of n]
      by (cases "n < 6"; cases "n < 12"; cases "n < 18") (auto simp: bit_simps bit_low bit_lead less_diff_conv2)
  qed
qed

lemma drop_small: "unat cp < 2 ^ (k + n) \<Longrightarrow> unat (drop_bit k cp) < 2 ^ n" for cp :: u32
  by (simp only: unat_drop_bit_eq) (simp add: drop_bit_eq_div power_add less_mult_imp_div_less mult.commute)

definition enc8 :: "u32 \<Rightarrow> bytes" where
  "enc8 cp = appendUtf8Codepoint [] cp"

definition scalar :: "u32 \<Rightarrow> bool" where
  "scalar cp \<longleftrightarrow> cp \<le> 0x10FFFF \<and> \<not> (0xD800 \<le> cp \<and> cp \<le> 0xDFFF)"

lemma appendUtf8_eq: "appendUtf8Codepoint dst cp = dst @ enc8 cp"
  by (simp add: appendUtf8Codepoint_def enc8_def)

lemma utf8Seq_enc8:
  assumes "cp \<le> 0x10FFFF"
  shows "utf8Seq (enc8 cp @ rest) = Inr (cp, length (enc8 cp))"
proof -
  have c: "unat cp \<le> 0x10FFFF" using assms by (simp add: word_le_nat_alt)
  consider "cp \<le> 0x7F" | "\<not> cp \<le> 0x7F" "cp \<le> 0x7FF" | "\<not> cp \<le> 0x7F" "\<not> cp \<le> 0x7FF" "cp \<le> 0xFFFF"
    | "\<not> cp \<le> 0x7F" "\<not> cp \<le> 0x7FF" "\<not> cp \<le> 0xFFFF" by blast
  then show ?thesis
  proof cases
    case 1
    then have u: "unat cp < 2 ^ 7" by (simp add: word_le_nat_alt)
    have "(ucast cp :: u8) AND 0x80 = 0" by (rule all8) (use high_zero [OF u] in \<open>auto simp: bit_simps\<close>)
    moreover have "ucast (ucast cp :: u8) = cp"
      by (rule bit_word_eqI) (use bits_below [OF u] in \<open>auto simp: bit_simps intro: less_trans\<close>)
    ultimately show ?thesis using 1 by (simp add: utf8Seq_def enc8_def appendUtf8Codepoint_def)
  next
    case 2
    then have u: "unat cp < 2 ^ 11" by (simp add: word_le_nat_alt)
    then have d: "unat (drop_bit 6 cp) < 2 ^ 5" by (intro drop_small) simp
    show ?thesis using 2 lead_tests(1) [OF d] joins(1) [OF u]
      by (simp add: utf8Seq_def enc8_def appendUtf8Codepoint_def lead_others isCont_def lead_bytes(5) lead_def low_def)
  next
    case 3
    then have u: "unat cp < 2 ^ 16" by (simp add: word_le_nat_alt)
    then have d: "unat (drop_bit 12 cp) < 2 ^ 4" by (intro drop_small) simp
    show ?thesis using 3 lead_tests(2) [OF d] joins(2) [OF u]
      by (simp add: utf8Seq_def enc8_def appendUtf8Codepoint_def lead_others isCont_def lead_bytes(5) lead_def low_def)
  next
    case 4
    have u: "unat cp < 2 ^ 21" using c by simp
    then have d: "unat (drop_bit 18 cp) < 2 ^ 3" by (intro drop_small) simp
    show ?thesis using 4 lead_tests(3) [OF d] joins(3) [OF u]
      by (simp add: utf8Seq_def enc8_def appendUtf8Codepoint_def lead_others isCont_def lead_bytes(5) lead_def low_def)
  qed
qed
definition enc16 :: "u32 \<Rightarrow> bytes" where
  "enc16 cp =
     (if unat cp < 0x10000 then le16 (word_of_nat (unat cp))
      else le16 (word_of_nat (0xD800 + (unat cp - 0x10000) div 0x400))
         @ le16 (word_of_nat (0xDC00 + (unat cp - 0x10000) mod 0x400)))"

lemma appendU16Le_eq: "appendU16Le dst u = dst @ le16 (ucast u)"
proof -
  have "ucast (u AND 0xFF) = (ucast (ucast u AND 0xFF :: u16) :: u8)"
    "ucast (drop_bit 8 u AND 0xFF) = (ucast (drop_bit 8 (ucast u) AND 0xFF :: u16) :: u8)"
    unfolding byte_mask by (rule bit_word_eqI; auto simp: bit_simps)+
  then show ?thesis by (simp add: appendU16Le_def le16_def)
qed

lemma nat_drop_bit: "drop_bit 10 n = n div 0x400" for n :: nat
  by (simp add: drop_bit_eq_div)

lemma or_shifted: "x < 2 ^ k \<Longrightarrow> unat a = y * 2 ^ k \<Longrightarrow> unat b = x \<Longrightarrow> unat (a OR b) = y * 2 ^ k + x" for a b :: u32
proof -
  assume x: "x < 2 ^ k" and a: "unat a = y * 2 ^ k" and b: "unat b = x"
  have "unat (a OR b) = unat a OR unat b" by (simp add: unsigned_or_eq)
  also have "\<dots> = (y * 2 ^ k) OR x" by (simp add: a b)
  also have "\<dots> = push_bit k y OR take_bit k x" using x by (simp add: push_bit_eq_mult take_bit_nat_eq_self)
  also have "\<dots> = push_bit k y + take_bit k x"
    by (rule disjunctive_add_eq_or [symmetric]) (rule bit_eqI; simp add: bit_simps)
  finally show ?thesis using x by (simp add: push_bit_eq_mult take_bit_nat_eq_self)
qed

lemma unat_and_3FF: "unat (w AND 0x3FF) = unat w mod 0x400" for w :: u32
proof -
  have m: "(0x3FF :: u32) = mask 10" by (simp add: mask_eq_exp_minus_1)
  show ?thesis unfolding m take_bit_eq_mask [symmetric] unsigned_take_bit_eq by (simp add: take_bit_eq_mod)
qed

lemma utf16Append_eq:
  assumes "scalar cp"
  shows "utf16Append out cp = Inr (out @ enc16 cp)"
proof (cases "cp \<le> 0xFFFF")
  case True
  have "(ucast cp :: u16) = word_of_nat (unat cp)" by simp
  then show ?thesis using True assms by (simp add: utf16Append_def scalar_def appendU16Le_eq enc16_def word_le_nat_alt)
next
  case False
  define v where "v = cp - 0x10000"
  have u: "unat cp \<le> 0x10FFFF" "0xFFFF < unat cp" using assms False by (simp_all add: scalar_def word_le_nat_alt)
  then have v: "unat v = unat cp - 0x10000" by (simp add: v_def unat_sub word_le_nat_alt)
  have "unat (0xD800 OR drop_bit 10 v) = 54 * 2 ^ 10 + unat v div 0x400"
    by (rule or_shifted) (use u v in \<open>simp_all add: unat_drop_bit_eq nat_drop_bit\<close>)
  moreover have "unat (0xDC00 OR (v AND 0x3FF)) = 55 * 2 ^ 10 + unat v mod 0x400"
    by (rule or_shifted) (simp_all add: unat_and_3FF)
  moreover have w: "ucast w = (word_of_nat n :: u16)" if "unat w = n" for w :: u32 and n
    using that by (metis of_nat_unat)
  ultimately have "ucast (0xD800 OR drop_bit 10 v) = (word_of_nat (0xD800 + unat v div 0x400) :: u16)"
    "ucast (0xDC00 OR (v AND 0x3FF)) = (word_of_nat (0xDC00 + unat v mod 0x400) :: u16)"
    by (intro w; simp)+
  then show ?thesis using False assms u v
    by (simp add: utf16Append_def scalar_def appendU16Le_eq enc16_def Let_def v_def [symmetric])
qed
lemma utf16Append_scalar: "utf16Append out cp = Inr r \<Longrightarrow> scalar cp"
  by (auto simp: utf16Append_def scalar_def word_le_nat_alt Let_def split: if_splits)

lemma enc8_not_Nil: "enc8 cp \<noteq> []"
  by (simp add: enc8_def appendUtf8Codepoint_def)

lemma utf8Loop_enc:
  "list_all scalar cps \<Longrightarrow> utf8Loop (concat (map enc8 cps)) out = Inr (out @ concat (map enc16 cps))"
proof (induction cps arbitrary: out)
  case Nil
  then show ?case by (simp add: utf8Loop.simps)
next
  case (Cons cp cps)
  have "cp \<le> 0x10FFFF" using Cons.prems by (simp add: scalar_def)
  then have "utf8Seq (enc8 cp @ concat (map enc8 cps)) = Inr (cp, length (enc8 cp))" by (rule utf8Seq_enc8)
  then show ?case
    using Cons by (subst utf8Loop.simps) (simp add: enc8_not_Nil utf16Append_eq)
qed

lemma utf8Loop_result:
  "utf8Loop s out = Inr r \<Longrightarrow> \<exists>cps. list_all scalar cps \<and> r = out @ concat (map enc16 cps)"
proof (induction s out arbitrary: r rule: utf8Loop.induct)
  case (1 s out)
  show ?case
  proof (cases "s = []")
    case True
    then show ?thesis using 1(2) by (intro exI [of _ "[]"]) (simp add: utf8Loop.simps)
  next
    case False
    obtain cp n o' where a: "utf8Seq s = Inr (cp, n)" "utf16Append out cp = Inr o'" "utf8Loop (drop n s) o' = Inr r"
      using 1(2) False by (subst (asm) utf8Loop.simps) (auto simp: bind_r_Inr)
    then obtain cps where "list_all scalar cps" "r = o' @ concat (map enc16 cps)"
      using 1(1) [OF False a(1) refl a(2) a(3)] by blast
    moreover have "scalar cp" using a(2) by (rule utf16Append_scalar)
    moreover have "o' = out @ enc16 cp" using utf16Append_eq [of cp out] a(2) \<open>scalar cp\<close> by simp
    ultimately show ?thesis by (intro exI [of _ "cp # cps"]) simp
  qed
qed

lemma utf8Loop_error: "utf8Loop s out = Inl e \<Longrightarrow> \<exists>msg. e = InvalidArgument msg"
proof (induction s out rule: utf8Loop.induct)
  case (1 s out)
  show ?case
  proof (cases "s = []")
    case False
    then show ?thesis
      using 1 by (subst (asm) (2) utf8Loop.simps)
        (auto simp: bind_r_Inl utf8Seq_def utf16Append_def Let_def split: if_splits)
  qed (use 1(2) in \<open>simp add: utf8Loop.simps\<close>)
qed

text \<open>
  C35: the conversion from UTF-8 is that of Unicode.  A string that is the UTF-8 encoding of scalar
  values, as \<open>appendUtf8Codepoint\<close> of the JSON parser writes it, is converted to the UTF-16-LE code
  units of these values, with a surrogate pair for a value above 0xFFFF.
\<close>

theorem utf8ToUtf16le_encodes:
  assumes "list_all scalar cps"
  shows "utf8ToUtf16le (foldl appendUtf8Codepoint [] cps) = Inr (concat (map enc16 cps))"
proof -
  have "foldl appendUtf8Codepoint b cps = b @ concat (map enc8 cps)" for b
    by (induction cps arbitrary: b) (simp_all add: appendUtf8_eq)
  then show ?thesis using utf8Loop_enc [OF assms] by (simp add: utf8ToUtf16le_def)
qed

theorem utf8ToUtf16le_encodes_witness:
  "utf8ToUtf16le (foldl appendUtf8Codepoint [] [0x41, 0xE9, 0x20AC, 0x1F600]) = Inr (concat (map enc16 [0x41, 0xE9, 0x20AC, 0x1F600]))"
  by (rule utf8ToUtf16le_encodes) (simp add: scalar_def)

text \<open>
  Whatever the bytes, the conversion returns well-formed UTF-16 or throws
  \<open>invalid_argument\<close>: it never emits a lone surrogate or half a code unit.
\<close>

theorem utf8ToUtf16le_wellformed:
  "case utf8ToUtf16le s of
     Inl e \<Rightarrow> \<exists>msg. e = InvalidArgument msg
   | Inr out \<Rightarrow> \<exists>cps. list_all scalar cps \<and> out = concat (map enc16 cps)"
  using utf8Loop_result [of s "[]"] utf8Loop_error [of s "[]"]
  by (cases "utf8Loop s []") (simp_all add: utf8ToUtf16le_def)
section \<open>base64 as RFC 4648 defines it\<close>

definition b64Alphabet :: bytes where
  "b64Alphabet = ascii ''ABCDEFGHIJKLMNOPQRSTUVWXYZabcdefghijklmnopqrstuvwxyz0123456789+/''"

definition b64Char :: "u8 \<Rightarrow> u8" where
  "b64Char v = b64Alphabet ! unat v"

text \<open>The four groups of six bits of three bytes, and RFC 4648 without the padding.\<close>

definition sextet1 :: "u8 \<Rightarrow> u8" where
  "sextet1 a = drop_bit 2 a"

definition sextet2 :: "u8 \<Rightarrow> u8 \<Rightarrow> u8" where
  "sextet2 a b = push_bit 4 (a AND 3) OR drop_bit 4 b"

definition sextet3 :: "u8 \<Rightarrow> u8 \<Rightarrow> u8" where
  "sextet3 b c = push_bit 2 (b AND 15) OR drop_bit 6 c"

definition sextet4 :: "u8 \<Rightarrow> u8" where
  "sextet4 c = c AND 63"

lemmas sextet_defs = sextet1_def sextet2_def sextet3_def sextet4_def

fun b64Encode :: "bytes \<Rightarrow> bytes" where
  "b64Encode [] = []"
| "b64Encode [a] = [b64Char (sextet1 a), b64Char (sextet2 a 0)]"
| "b64Encode [a, b] = [b64Char (sextet1 a), b64Char (sextet2 a b), b64Char (sextet3 b 0)]"
| "b64Encode (a # b # c # bs) =
     b64Char (sextet1 a) # b64Char (sextet2 a b) # b64Char (sextet3 b c) # b64Char (sextet4 c) # b64Encode bs"

lemma upt64:
  "map int [0..<64] = [0,1,2,3,4,5,6,7,8,9,10,11,12,13,14,15,16,17,18,19,20,21,22,23,24,25,26,27,28,29,30,31,
  32,33,34,35,36,37,38,39,40,41,42,43,44,45,46,47,48,49,50,51,52,53,54,55,56,57,58,59,60,61,62,63]"
  by (simp add: upt_conv_Cons)

lemma b64Alphabet_check: "map b64Val b64Alphabet = map int [0..<64]"
  unfolding upt64 by (simp add: b64Alphabet_def b64Val_def)
lemma b64Alphabet_no_pad: "asc CHR ''='' \<notin> set b64Alphabet"
  by (simp add: b64Alphabet_def)

lemma b64Alphabet_nth: "n < 64 \<Longrightarrow> b64Val (b64Alphabet ! n) = int n \<and> b64Alphabet ! n \<noteq> asc CHR ''=''"
proof -
  assume n: "n < 64"
  have l: "length b64Alphabet = 64" by (simp add: b64Alphabet_def)
  then have "map b64Val b64Alphabet ! n = map int [0..<64] ! n" by (simp only: b64Alphabet_check)
  then show ?thesis using n l b64Alphabet_no_pad by (auto simp: in_set_conv_nth)
qed

lemma low6: "v AND 0xC0 = 0 \<Longrightarrow> unat v < 64" for v :: u8
proof -
  assume a: "v AND 0xC0 = 0"
  have "bit (v AND 0xC0) 6 = bit v 6" "bit (v AND 0xC0) 7 = bit v 7" by (simp_all add: bit_simps)
  then have "\<not> bit v 6" "\<not> bit v 7" using a by simp_all
  then have "v = take_bit 6 v" by (intro all8) (auto simp: bit_simps)
  then have "unat v = take_bit 6 (unat v)" by (metis unsigned_take_bit_eq)
  then show ?thesis using take_bit_nat_less_exp [of 6 "unat v"] by simp
qed

lemma b64Char_val: "v AND 0xC0 = 0 \<Longrightarrow> b64Val (b64Char v) = uint v \<and> b64Char v \<noteq> asc CHR ''=''"
  using low6 [of v] b64Alphabet_nth [of "unat v"] by (simp add: b64Char_def)

text \<open>The decoder as six more bits come in.\<close>

lemma b64_step:
  assumes "v AND 0xC0 = 0"
  shows "b64Loop (b64Char v # cs) accum 0 out = b64Loop cs (push_bit 6 accum OR ucast v) 6 out"
    "b64Loop (b64Char v # cs) accum 6 out = b64Loop cs (push_bit 6 accum OR ucast v) 4
       (out @ [ucast (drop_bit 4 (push_bit 6 accum OR ucast v) AND 0xFF)])"
    "b64Loop (b64Char v # cs) accum 4 out = b64Loop cs (push_bit 6 accum OR ucast v) 2
       (out @ [ucast (drop_bit 2 (push_bit 6 accum OR ucast v) AND 0xFF)])"
    "b64Loop (b64Char v # cs) accum 2 out = b64Loop cs (push_bit 6 accum OR ucast v) 0
       (out @ [ucast (drop_bit 0 (push_bit 6 accum OR ucast v) AND 0xFF)])"
  using b64Char_val [OF assms] by (simp_all add: Let_def)

lemma no_bit8: "8 \<le> n \<Longrightarrow> \<not> bit a n" for a :: u8
  by (auto dest: bit_imp_le_length)

lemma sextets: "sextet1 a AND 0xC0 = 0" "sextet2 a b AND 0xC0 = 0" "sextet3 b c AND 0xC0 = 0" "sextet4 c AND 0xC0 = 0"
  unfolding sextet_defs by (rule all8; auto simp: bit_simps no_bit8 simp flip: numeral_2_eq_2 numeral_3_eq_3)+

lemma b64_bit:
  fixes v w :: u8 and acc :: u32
  assumes w: "w AND 0xC0 = 0" and k: "k \<le> 4" and n: "n < 8"
  shows "bit (ucast (drop_bit k (push_bit 6 (push_bit 6 acc OR ucast v) OR ucast w) AND 0xFF) :: u8) n
    = (if n + k < 6 then bit w (n + k) else n + k < 12 \<and> bit v (n + k - 6))"
proof -
  have "bit (w AND 0xC0) 6 = bit w 6" "bit (w AND 0xC0) 7 = bit w 7" by (simp_all add: bit_simps)
  then have hw: "\<not> bit w m" if "6 \<le> m" for m
    using that w no_bit8 [of m w] by (cases "m = 6"; cases "m = 7") auto
  show ?thesis
    unfolding byte_mask using k n hw [of "n + k"] by (auto simp: bit_simps less_diff_conv2 no_bit8 add.commute)
qed

lemma b64_byteI:
  fixes v w x :: u8 and acc :: u32
  assumes "w AND 0xC0 = 0" and "k \<le> 4"
    and "\<And>n. n < 8 \<Longrightarrow> (if n + k < 6 then bit w (n + k) else n + k < 12 \<and> bit v (n + k - 6)) = bit x n"
  shows "ucast (drop_bit k (push_bit 6 (push_bit 6 acc OR ucast v) OR ucast w) AND 0xFF) = x"
proof (rule bit_word_eqI)
  fix n assume "n < LENGTH(8)"
  then have "n < 8" by simp
  then show "bit (ucast (drop_bit k (push_bit 6 (push_bit 6 acc OR ucast v) OR ucast w) AND 0xFF) :: u8) n = bit x n"
    unfolding b64_bit [OF assms(1,2) \<open>n < 8\<close>] by (rule assms(3))
qed

lemma sextet_bits:
  "bit (sextet1 a) i \<longleftrightarrow> bit a (i + 2)"
  "i < 8 \<Longrightarrow> bit (sextet2 a b) i \<longleftrightarrow> (if i < 4 then bit b (i + 4) else i < 6 \<and> bit a (i - 4))"
  "i < 8 \<Longrightarrow> bit (sextet3 b c) i \<longleftrightarrow> (if i < 2 then bit c (i + 6) else i < 6 \<and> bit b (i - 2))"
  "bit (sextet4 c) i \<longleftrightarrow> i < 6 \<and> bit c i"
proof -
  have m: "(3 :: u8) = mask 2" "(15 :: u8) = mask 4" "(63 :: u8) = mask 6"
    by (simp_all add: mask_eq_exp_minus_1)
  show "bit (sextet1 a) i \<longleftrightarrow> bit a (i + 2)" "bit (sextet4 c) i \<longleftrightarrow> i < 6 \<and> bit c i"
    unfolding sextet_defs m by (auto simp: bit_simps no_bit8 add.commute)
  show "bit (sextet2 a b) i \<longleftrightarrow> (if i < 4 then bit b (i + 4) else i < 6 \<and> bit a (i - 4))" if "i < 8"
    using that unfolding sextet_defs m by (auto simp: bit_simps no_bit8 add.commute)
  show "bit (sextet3 b c) i \<longleftrightarrow> (if i < 2 then bit c (i + 6) else i < 6 \<and> bit b (i - 2))" if "i < 8"
    using that unfolding sextet_defs m by (auto simp: bit_simps no_bit8 add.commute)
qed

lemma Suc_Suc_diff2: "\<not> n < 2 \<Longrightarrow> Suc (Suc (n - 2)) = n"
  by simp

lemma b64_bytes:
  "ucast (drop_bit 4 (push_bit 6 (push_bit 6 acc OR ucast (sextet1 a)) OR ucast (sextet2 a b)) AND 0xFF) = a"
  "ucast (drop_bit 2 (push_bit 6 (push_bit 6 acc OR ucast (sextet2 a b)) OR ucast (sextet3 b c)) AND 0xFF) = b"
  "ucast (drop_bit 0 (push_bit 6 (push_bit 6 acc OR ucast (sextet3 b c)) OR ucast (sextet4 c)) AND 0xFF) = c"
  for acc :: u32
  by (rule b64_byteI; auto simp: sextets sextet_bits Suc_Suc_diff2)+

lemma b64Loop_encode:
  "\<exists>accum' bits'. b64Loop (b64Encode bs @ cs) accum 0 out = b64Loop cs accum' bits' (out @ bs)"
proof (induction bs arbitrary: accum out rule: b64Encode.induct)
  case (4 a b c bs)
  have "b64Loop (b64Encode (a # b # c # bs) @ cs) accum 0 out = b64Loop (b64Encode bs @ cs) acc' 0 (out @ [a, b, c])"
    if "acc' = push_bit 6 (push_bit 6 (push_bit 6 (push_bit 6 accum OR ucast (sextet1 a)) OR ucast (sextet2 a b))
      OR ucast (sextet3 b c)) OR ucast (sextet4 c)" for acc'
    unfolding that b64Encode.simps append_Cons b64_step [OF sextets(1)] b64_step [OF sextets(2)] b64_step [OF sextets(3)]
      b64_step [OF sextets(4)] b64_bytes append_assoc append_Nil ..
  then show ?case using 4 [of _ "out @ [a, b, c]"] by simp
next
  case (2 a)
  show ?case
    unfolding b64Encode.simps append_Cons b64_step [OF sextets(1)] b64_step [OF sextets(2)] b64_bytes append_Nil by blast
next
  case (3 a b)
  show ?case
    unfolding b64Encode.simps append_Cons b64_step [OF sextets(1)] b64_step [OF sextets(2)] b64_step [OF sextets(3)]
      b64_bytes append_Nil append_assoc by blast
qed auto

lemma b64Encode_no_pad: "asc CHR ''='' \<notin> set (b64Encode bs)"
proof -
  have "b64Char v \<noteq> asc CHR ''=''" if "v AND 0xC0 = 0" for v using b64Char_val [OF that] by blast
  from this [OF sextets(1)] this [OF sextets(2)] this [OF sextets(3)] this [OF sextets(4)] show ?thesis
    by (induction bs rule: b64Encode.induct) (simp_all add: eq_commute [of "61 :: u8"])
qed

lemma base64_decodes:
  assumes "filter (\<lambda>c. \<not> isB64Space c) s = b64Encode bs @ replicate k (asc CHR ''='')"
  shows "base64DecodeBinary s = Inr bs"
proof -
  let ?p = "\<lambda>c. c = asc CHR ''=''"
  have "dropWhile ?p (rev (b64Encode bs @ replicate k (asc CHR ''=''))) = rev (b64Encode bs)"
  proof -
    have "dropWhile ?p (rev (b64Encode bs)) = rev (b64Encode bs)"
      using b64Encode_no_pad [of bs] by (intro dropWhile_eq_self_iff [THEN iffD2]) (metis hd_in_set set_rev)
    moreover have "dropWhile ?p (replicate k (asc CHR ''='') @ xs) = dropWhile ?p xs" for xs
      by (induction k) simp_all
    ultimately show ?thesis by simp
  qed
  moreover obtain a n where "b64Loop (b64Encode bs @ []) 0 0 [] = b64Loop [] a n ([] @ bs)"
    using b64Loop_encode [of bs "[]" 0 "[]"] by blast
  ultimately show ?thesis using assms by (simp add: base64DecodeBinary_def Let_def)
qed

lemma b64Encode_no_space: "filter (\<lambda>c. \<not> isB64Space c) (b64Encode bs) = b64Encode bs"
proof -
  have "\<not> isB64Space (b64Char v)" if "v AND 0xC0 = 0" for v
  proof
    assume "isB64Space (b64Char v)"
    then have "b64Val (b64Char v) = - 1" by (auto simp: isB64Space_def b64Val_def)
    moreover have "0 \<le> b64Val (b64Char v)" using b64Char_val [OF that] by simp
    ultimately show False by simp
  qed
  from this [OF sextets(1)] this [OF sextets(2)] this [OF sextets(3)] this [OF sextets(4)] show ?thesis
    by (induction bs rule: b64Encode.induct) simp_all
qed

text \<open>
  C36: base64 decoding undoes RFC 4648 encoding.  A text that is, white space aside, the encoding of
  some bytes followed by any number of padding characters decodes to these bytes.
\<close>

theorem base64_roundtrip:
  assumes "filter (\<lambda>c. \<not> isB64Space c) s = b64Encode bs @ replicate k (asc CHR ''='')"
  shows "base64DecodeBinary s = Inr bs"
  using assms by (rule base64_decodes)

theorem base64_roundtrip_witness:
  "base64DecodeBinary (ascii ''TWFu TQ=='') = Inr (ascii ''ManM'')"
  by (rule base64_roundtrip [where k = 2]) code_simp

section \<open>The Gregorian calendar\<close>

definition leap :: "nat \<Rightarrow> bool" where
  "leap y \<longleftrightarrow> 4 dvd y \<and> (\<not> 100 dvd y \<or> 400 dvd y)"

definition yearDays :: "nat \<Rightarrow> nat" where
  "yearDays y = (if leap y then 366 else 365)"

definition monthDays :: "nat \<Rightarrow> nat \<Rightarrow> nat" where
  "monthDays y m = [31, if leap y then 29 else 28, 31, 30, 31, 30, 31, 31, 30, 31, 30, 31] ! (m - 1)"

definition daysSince1601 :: "nat \<Rightarrow> nat \<Rightarrow> nat \<Rightarrow> nat" where
  "daysSince1601 y m d = sum_list (map yearDays [1601..<y]) + sum_list (map (monthDays y) [1..<m]) + (d - 1)"

lemma leap_count: "(if leap (Suc n) then 1 else 0) + Suc n div 100 + n div 4 + n div 400 = Suc n div 4 + n div 100 + Suc n div 400"
proof -
  have s: "Suc n div k = n div k + (if k dvd Suc n then 1 else 0)" for k
    by (simp add: div_Suc dvd_eq_mod_eq_0)
  have "100 dvd Suc n \<Longrightarrow> 4 dvd Suc n" by (rule dvd_trans [of 4 100]) simp
  moreover have "400 dvd Suc n \<Longrightarrow> 100 dvd Suc n" by (rule dvd_trans [of 100 400]) simp
  ultimately show ?thesis
    unfolding leap_def s by (cases "4 dvd Suc n"; cases "100 dvd Suc n"; cases "400 dvd Suc n"; simp only: if_True if_False simp_thms; linarith)
qed

lemma year_sum:
  "1601 \<le> y \<Longrightarrow> sum_list (map yearDays [1601..<y]) + 388 + (y - 1) div 100 = 365 * (y - 1601) + (y - 1) div 4 + (y - 1) div 400"
proof (induction y rule: dec_induct)
  case (step n)
  then obtain k where k: "n = Suc k" by (cases n) auto
  have "365 * (Suc n - 1601) = 365 * (n - 1601) + 365" using step(1) by simp
  moreover have "sum_list (map yearDays [1601..<Suc n]) = sum_list (map yearDays [1601..<n]) + 365 + (if leap n then 1 else 0)"
    using step(1) by (simp add: yearDays_def)
  moreover have "n - 1 = k" "Suc n - 1 = n" using k by simp_all
  ultimately show ?case
    using step(3) leap_count [of k, folded k] by (simp only:)
qed simp

lemma era_split: "0 \<le> Y \<Longrightarrow> Y div 400 * 146097 + (Y mod 400 * 365 + Y mod 400 div 4 - Y mod 400 div 100)
   = 365 * Y + Y div 4 - Y div 100 + Y div 400" for Y :: int
proof -
  define q r where "q = Y div 400" and "r = Y mod 400"
  have Y: "Y = 400 * q + r" by (simp add: q_def r_def)
  have "Y div 4 = 100 * q + r div 4" "Y div 100 = 4 * q + r div 100" unfolding Y by simp_all
  then show ?thesis unfolding q_def [symmetric] r_def [symmetric] by (simp add: Y)
qed

lemma u32wrap_id: "0 \<le> x \<Longrightarrow> x < 4294967296 \<Longrightarrow> u32wrap x = x"
  by (simp add: u32wrap_def)

lemma daysFromCivil_eq:
  assumes Y: "0 \<le> Y" and Ym: "Y = (if m \<le> 2 then y - 1 else y)" and m: "1 \<le> m" "m \<le> 12" and d: "1 \<le> d" "d \<le> 31"
    and k: "k = (if m > 2 then m - 3 else m + 9)"
  shows "daysFromCivil y m d = 365 * Y + Y div 4 - Y div 100 + Y div 400 + (153 * k + 2) div 5 + (d - 1) - 719468"
proof -
  have kb: "0 \<le> k" "k \<le> 11" using m k by auto
  have mk: "u32wrap (m + (if m > 2 then -3 else 9)) = k" using m k by (auto intro!: u32wrap_id)
  have doy: "u32wrap ((153 * k + 2) div 5 + d - 1) = (153 * k + 2) div 5 + d - 1" using kb d by (intro u32wrap_id) auto
  have e: "Y sdiv 400 = Y div 400" using Y by (cases "Y = 0") (simp_all add: signed_divide_int_def)
  have r: "0 \<le> Y mod 400" "Y mod 400 < 400" by simp_all
  have yoe: "u32wrap (Y - Y div 400 * 400) = Y mod 400"
    using r by (simp add: minus_div_mult_eq_mod u32wrap_id)
  have "0 \<le> Y mod 400 * 365 + Y mod 400 div 4 - Y mod 400 div 100 + ((153 * k + 2) div 5 + d - 1)"
    "Y mod 400 * 365 + Y mod 400 div 4 - Y mod 400 div 100 + ((153 * k + 2) div 5 + d - 1) < 4294967296"
  proof -
    have "0 \<le> Y mod 400 div 100" "Y mod 400 div 100 \<le> 3" "0 \<le> Y mod 400 div 4" "Y mod 400 div 4 \<le> 99"
      "0 \<le> (153 * k + 2) div 5" "(153 * k + 2) div 5 \<le> 337"
      using r kb by auto
    then show "0 \<le> Y mod 400 * 365 + Y mod 400 div 4 - Y mod 400 div 100 + ((153 * k + 2) div 5 + d - 1)"
      "Y mod 400 * 365 + Y mod 400 div 4 - Y mod 400 div 100 + ((153 * k + 2) div 5 + d - 1) < 4294967296"
      using r d by linarith+
  qed
  then have doe: "u32wrap (Y mod 400 * 365 + Y mod 400 div 4 - Y mod 400 div 100 + ((153 * k + 2) div 5 + d - 1))
      = Y mod 400 * 365 + Y mod 400 div 4 - Y mod 400 div 100 + ((153 * k + 2) div 5 + d - 1)" by (rule u32wrap_id)
  show ?thesis
    unfolding daysFromCivil_def Let_def Ym [symmetric] mk doy
    using Y e yoe doe era_split [OF Y] by simp
qed

text \<open>The length of the year before a month, and its form with March as the first month.\<close>

lemma month_sum_Suc:
  "1 \<le> m \<Longrightarrow> sum_list (map (monthDays y) [1..<Suc m]) = sum_list (map (monthDays y) [1..<m]) + monthDays y m"
  by simp

lemma monthDays_vals:
  "monthDays y (Suc 0) = 31" "monthDays y 2 = (if leap y then 29 else 28)" "monthDays y 3 = 31" "monthDays y 4 = 30"
  "monthDays y 5 = 31" "monthDays y 6 = 30" "monthDays y 7 = 31" "monthDays y 8 = 31" "monthDays y 9 = 30"
  "monthDays y 10 = 31" "monthDays y 11 = 30"
  by (simp_all add: monthDays_def)

lemma month_sum:
  assumes "1 \<le> m" "m \<le> 12"
  shows "int (sum_list (map (monthDays y) [1..<m])) =
    (if m \<le> 2 then (153 * (int m + 9) + 2) div 5 - 306
     else (153 * (int m - 3) + 2) div 5 + 59 + (if leap y then 1 else 0))"
  using assms
proof (induction m rule: dec_induct)
  case (step m)
  have "m \<in> {1, 2, 3, 4, 5, 6, 7, 8, 9, 10, 11}"
    using step(1,2,4) by (simp add: numeral_eq_Suc le_Suc_eq)
  then show ?case
    using step month_sum_Suc [of m y] by (elim insertE; simp add: monthDays_vals del: upt_Suc)
qed simp

lemma epoch_arith:
  fixes S a b c a' b' c' x d y l :: int
  assumes "S + 388 + b = 365 * (y - 1601) + a + c"
  shows "365 * (y - 1) + a - b + c + x + d - 719468 + 134774 = S + (x - 306) + d"
    and "a' - b' + c' = a - b + c + l \<Longrightarrow> 365 * y + a' - b' + c' + x + d - 719468 + 134774 = S + (x + 59 + l) + d"
proof -
  show "365 * (y - 1) + a - b + c + x + d - 719468 + 134774 = S + (x - 306) + d" using assms by simp
  show "365 * y + a' - b' + c' + x + d - 719468 + 134774 = S + (x + 59 + l) + d" if "a' - b' + c' = a - b + c + l"
    using assms that by simp
qed

text \<open>The code counts from 1970; 134774 days lie between the epochs.\<close>

lemma days_correct:
  assumes y: "1601 \<le> y" and m: "1 \<le> m" "m \<le> 12" and d: "1 \<le> d" "d \<le> 31"
  shows "daysFromCivil (int y) (int m) (int d) + kDays1601To1970 = int (daysSince1601 y m d)"
proof -
  define S where "S = sum_list (map yearDays [1601..<y])"
  have S: "int S + 388 + (int y - 1) div 100 = 365 * (int y - 1601) + (int y - 1) div 4 + (int y - 1) div 400"
  proof -
    have "int (S + 388 + (y - 1) div 100) = int (365 * (y - 1601) + (y - 1) div 4 + (y - 1) div 400)"
      unfolding S_def using year_sum [OF y] by simp
    then show ?thesis using y by (simp add: of_nat_diff zdiv_int)
  qed
  have L: "int y div 4 - int y div 100 + int y div 400 = (int y - 1) div 4 - (int y - 1) div 100 + (int y - 1) div 400 + (if leap y then 1 else 0)"
  proof -
    obtain n where n: "y = Suc n" using y by (cases y) auto
    have "int ((if leap (Suc n) then 1 else 0) + Suc n div 100 + n div 4 + n div 400) = int (Suc n div 4 + n div 100 + Suc n div 400)"
      by (simp only: leap_count)
    moreover have "int (Suc n) - 1 = int n" by simp
    ultimately show ?thesis unfolding n by (simp only: zdiv_int of_nat_add of_nat_numeral) (cases "leap (Suc n)"; simp only: if_True if_False of_nat_1 of_nat_0; linarith)
  qed
  have y1: "0 \<le> (if int m \<le> 2 then int y - 1 else int y)" using y by simp
  note eq = daysFromCivil_eq [OF y1 refl, of "int d", OF _ _ _ _ refl]
  have e: "daysFromCivil (int y) (int m) (int d) = 365 * (if int m \<le> 2 then int y - 1 else int y)
      + (if int m \<le> 2 then int y - 1 else int y) div 4 - (if int m \<le> 2 then int y - 1 else int y) div 100
      + (if int m \<le> 2 then int y - 1 else int y) div 400
      + (153 * (if int m > 2 then int m - 3 else int m + 9) + 2) div 5 + (int d - 1) - 719468"
    by (rule eq) (use m d in simp_all)
  have D: "int (daysSince1601 y m d) = int S + int (sum_list (map (monthDays y) [1..<m])) + (int d - 1)"
    using d by (simp add: daysSince1601_def S_def of_nat_diff)
  show ?thesis
  proof (cases "m \<le> 2")
    case True
    then show ?thesis
      unfolding e D month_sum [OF m] kDays1601To1970_def using epoch_arith(1) [OF S] by simp
  next
    case False
    then show ?thesis
      unfolding e D month_sum [OF m] kDays1601To1970_def using epoch_arith(2) [OF S L] by simp
  qed
qed
section \<open>Timestamps\<close>

definition dig :: "nat \<Rightarrow> u8" where
  "dig n = word_of_nat (48 + n)"

definition d2 :: "nat \<Rightarrow> bytes" where
  "d2 n = [dig (n div 10), dig (n mod 10)]"

definition d4 :: "nat \<Rightarrow> bytes" where
  "d4 n = [dig (n div 1000), dig (n div 100 mod 10), dig (n div 10 mod 10), dig (n mod 10)]"

text \<open>A time as text: date, time, optional fraction, optional zone.\<close>

datatype zone = NoZone | Zulu | Offset bool nat nat

fun zoneText :: "zone \<Rightarrow> bytes" where
  "zoneText NoZone = []"
| "zoneText Zulu = ascii ''Z''"
| "zoneText (Offset east oh om) = ascii (if east then ''+'' else ''-'') @ d2 oh @ ascii '':'' @ d2 om"

fun zoneSeconds :: "zone \<Rightarrow> int" where
  "zoneSeconds (Offset east oh om) = (if east then 1 else -1) * int (oh * 3600 + om * 60)"
| "zoneSeconds _ = 0"

fun zoneOk :: "zone \<Rightarrow> bool" where
  "zoneOk (Offset east oh om) \<longleftrightarrow> oh < 24 \<and> om < 60"
| "zoneOk _ \<longleftrightarrow> True"

definition fracText :: "nat list \<Rightarrow> bytes" where
  "fracText fs = (if fs = [] then [] else ascii ''.'' @ map dig fs)"

definition fracTicks :: "nat list \<Rightarrow> nat" where
  "fracTicks fs = foldl (\<lambda>n d. n * 10 + d) 0 fs * 10 ^ (7 - length fs)"

definition isoText :: "nat \<Rightarrow> nat \<Rightarrow> nat \<Rightarrow> nat \<Rightarrow> nat \<Rightarrow> nat \<Rightarrow> nat list \<Rightarrow> zone \<Rightarrow> bytes" where
  "isoText y m d h mi s fs z =
     d4 y @ ascii ''-'' @ d2 m @ ascii ''-'' @ d2 d @ ascii ''T'' @ d2 h @ ascii '':'' @ d2 mi @ ascii '':'' @ d2 s
       @ fracText fs @ zoneText z"

lemma dig_digit: "n < 10 \<Longrightarrow> isDigitC (dig n)" "n < 10 \<Longrightarrow> uint (dig n) - 48 = int n" "n < 10 \<Longrightarrow> unat (dig n) - 48 = n"
proof -
  assume n: "n < 10"
  then have u: "unat (dig n) = 48 + n" unfolding dig_def by (subst unat_of_nat) (simp add: take_bit_nat_eq_self)
  then show "isDigitC (dig n)" "unat (dig n) - 48 = n" using n by (simp_all add: isDigitC_def word_le_nat_alt)
  have "uint (dig n) = int (unat (dig n))" by simp
  then show "uint (dig n) - 48 = int n" using u by simp
qed

lemma not_digit: "\<not> isDigitC (asc CHR ''Z'')" "\<not> isDigitC (asc CHR ''+'')" "\<not> isDigitC (asc CHR ''-'')" "\<not> isDigitC (asc CHR ''.'')"
  by (simp_all add: isDigitC_def)

lemma parseIntLoop_dig:
  assumes "s ! pos = dig n" and "n < 10"
  shows "parseIntLoop s pos (Suc k) v = parseIntLoop s (pos + 1) k (v * 10 + int n)"
proof -
  have "uint (asc CHR ''0'') = 48" by simp
  then show ?thesis
    using dig_digit [OF assms(2)] unfolding parseIntLoop.simps(2) Let_def assms(1) by (simp only: if_False simp_thms)
qed

lemma parse2:
  assumes "n < 100" and "slice pos 2 s = d2 n" and "pos + 2 \<le> length s"
  shows "parseInt s pos 2 = Inr (int n, pos + 2)"
proof -
  have d: "s ! pos = dig (n div 10)" "s ! (pos + 1) = dig (n mod 10)"
    using nth_slice [of 0 2 pos s] nth_slice [of 1 2 pos s] assms(2,3) by (simp_all add: d2_def)
  have n: "n div 10 < 10" "n mod 10 < 10" using assms(1) by simp_all
  have "parseIntLoop s pos (Suc (Suc 0)) 0 = Inr (int n)"
    unfolding parseIntLoop_dig [OF d(1) n(1)] parseIntLoop_dig [OF d(2) n(2)] by (simp add: zdiv_int zmod_int)
  then show ?thesis using assms(3) by (simp add: parseInt_def numeral_2_eq_2)
qed

lemma digits4: "n = ((n div 1000 * 10 + n div 100 mod 10) * 10 + n div 10 mod 10) * 10 + n mod 10" for n :: nat
proof -
  have "n div 100 = n div 10 div 10" "n div 1000 = n div 10 div 10 div 10" by (simp_all add: div_mult2_eq [symmetric])
  then show ?thesis by (simp only: div_mult_mod_eq)
qed

lemma parse4:
  assumes "n < 10000" and "slice pos 4 s = d4 n" and "pos + 4 \<le> length s"
  shows "parseInt s pos 4 = Inr (int n, pos + 4)"
proof -
  have d: "s ! pos = dig (n div 1000)" "s ! (pos + 1) = dig (n div 100 mod 10)" "s ! (pos + 2) = dig (n div 10 mod 10)"
    "s ! (pos + 3) = dig (n mod 10)"
    using nth_slice [of 0 4 pos s] nth_slice [of 1 4 pos s] nth_slice [of 2 4 pos s] nth_slice [of 3 4 pos s] assms(2,3)
    by (simp_all add: d4_def)
  have p: "pos + 1 + 1 = pos + 2" "pos + 2 + 1 = pos + 3" by simp_all
  have n: "n div 1000 < 10" "n div 100 mod 10 < 10" "n div 10 mod 10 < 10" "n mod 10 < 10" using assms(1) by simp_all
  have "parseIntLoop s pos (Suc (Suc (Suc (Suc 0)))) 0
      = Inr (int (((n div 1000 * 10 + n div 100 mod 10) * 10 + n div 10 mod 10) * 10 + n mod 10))"
    unfolding parseIntLoop_dig [OF d(1) n(1)] parseIntLoop_dig [OF d(2) n(2)] p parseIntLoop_dig [OF d(3) n(3)]
      parseIntLoop_dig [OF d(4) n(4)] by simp
  moreover have "4 = Suc (Suc (Suc (Suc 0)))" by simp
  ultimately have "parseIntLoop s pos 4 0 = Inr (int n)" by (simp only: digits4 [symmetric])
  then show ?thesis using assms(3) by (simp add: parseInt_def)
qed

lemma skipDigitsAt_stop: "\<not> (pos < length s \<and> isDigitC (s ! pos)) \<Longrightarrow> skipDigitsAt s pos = pos"
  by (subst skipDigitsAt.simps) auto

lemma fracLoop_digits:
  assumes "list_all (\<lambda>d. d < 10) fs" and "k + length fs < 9" and "rest = [] \<or> \<not> isDigitC (hd rest)"
  shows "fracLoop (pre @ map dig fs @ rest) (length pre) v k
    = (foldl (\<lambda>n d. n * 10 + d) v fs, k + length fs, length pre + length fs)"
  using assms
proof (induction fs arbitrary: pre v k)
  case Nil
  then show ?case by (cases rest) (simp_all add: fracLoop.simps [of _ "length pre"] nth_append)
next
  case (Cons d fs)
  have "fracLoop ((pre @ [dig d]) @ map dig fs @ rest) (length (pre @ [dig d])) (v * 10 + d) (k + 1)
      = (foldl (\<lambda>n d. n * 10 + d) (v * 10 + d) fs, k + 1 + length fs, length (pre @ [dig d]) + length fs)"
    using Cons.prems by (intro Cons.IH) simp_all
  then show ?case
    using Cons.prems dig_digit [of d] by (subst fracLoop.simps) (simp add: nth_append)
qed

lemma parseFraction_text:
  assumes "list_all (\<lambda>d. d < 10) fs" and "length fs \<le> 7"
  shows "parseFraction (pre @ fracText fs @ zoneText z) (length pre) = (fracTicks fs, length pre + length (fracText fs))"
proof -
  have z: "zoneText z = [] \<or> \<not> isDigitC (hd (zoneText z)) \<and> hd (zoneText z) \<noteq> asc CHR ''.''"
    by (cases z) (use not_digit in auto)
  show ?thesis
  proof (cases "fs = []")
    case True
    then show ?thesis
      using z by (cases "zoneText z") (simp_all add: parseFraction_def fracText_def fracTicks_def nth_append)
  next
    case False
    let ?s = "(pre @ ascii ''.'') @ map dig fs @ zoneText z"
    have "fracLoop ?s (length (pre @ ascii ''.'')) 0 0
        = (foldl (\<lambda>n d. n * 10 + d) 0 fs, length fs, length (pre @ ascii ''.'') + length fs)"
      using assms z by (subst fracLoop_digits) auto
    moreover have "skipDigitsAt ?s (length pre + length (fracText fs)) = length pre + length (fracText fs)"
      using z False by (intro skipDigitsAt_stop) (cases "zoneText z"; simp add: fracText_def nth_append)
    ultimately show ?thesis
      using False assms(2) by (simp add: parseFraction_def fracText_def fracTicks_def nth_append)
  qed
qed

lemma length_d2 [simp]: "length (d2 n) = 2" and length_d4 [simp]: "length (d4 n) = 4"
  by (simp_all add: d2_def d4_def)

lemma parseOffset_signed:
  assumes c: "s ! pos = asc (if east then CHR ''+'' else CHR ''-'')" and p: "parseInt s (pos + 1) 2 = Inr (int oh, pos + 3)"
    and col: "s ! (pos + 3) = asc CHR '':''" and d: "isDigitC (s ! (pos + 4))" "isDigitC (s ! (pos + 5))"
    and q: "parseInt s (pos + 4) 2 = Inr (int om, pos + 6)" and l: "length s = pos + 6"
  shows "parseOffset s pos = Inr ((if east then 1 else -1) * (int oh * 3600 + int om * 60))"
proof -
  have e: "pos + 3 + 1 = pos + 4" "pos + 4 + 1 = pos + 5" "pos + 4 + 2 \<le> pos + 6" "pos + 3 < pos + 6" "pos < pos + 6" by simp_all
  show ?thesis
  proof (cases east)
    case True
    then have c': "s ! pos = 0x2B" using c by simp
    show ?thesis unfolding parseOffset_def Let_def c' l p bind_r.simps prod.case col using e d q True by (simp add: add.commute [of pos])
  next
    case False
    then have c': "s ! pos = 0x2D" using c by simp
    show ?thesis unfolding parseOffset_def Let_def c' l p bind_r.simps prod.case col using e d q False by (simp add: add.commute [of pos])
  qed
qed

lemma parseOffset_text:
  assumes "zoneOk z"
  shows "parseOffset (pre @ zoneText z) (length pre) = Inr (zoneSeconds z)"
proof (cases z)
  case (Offset east oh om)
  define str where "str = pre @ [asc (if east then CHR ''+'' else CHR ''-'')] @ d2 oh @ ascii '':'' @ d2 om"
  have "slice (length pre + 1) 2 str = d2 oh" "slice (length pre + 4) 2 str = d2 om"
    unfolding str_def by (simp_all add: slice_def)
  moreover have l: "length str = length pre + 6" by (simp add: str_def)
  ultimately have p: "parseInt str (length pre + 1) 2 = Inr (int oh, length pre + 1 + 2)"
    "parseInt str (length pre + 4) 2 = Inr (int om, length pre + 4 + 2)"
    using assms Offset by (intro parse2; simp)+
  have n: "str ! length pre = asc (if east then CHR ''+'' else CHR ''-'')" "str ! (length pre + 3) = asc CHR '':''"
    "str ! (length pre + 4) = dig (om div 10)" "str ! (length pre + 5) = dig (om mod 10)"
    unfolding str_def by (simp_all add: nth_append d2_def)
  have "om div 10 < 10" using assms Offset by (intro less_mult_imp_div_less) simp
  then have "isDigitC (str ! (length pre + 4))" "isDigitC (str ! (length pre + 5))" using n by (simp_all add: dig_digit)
  then have "parseOffset str (length pre) = Inr ((if east then 1 else -1) * (int oh * 3600 + int om * 60))"
    using parseOffset_signed [OF n(1) _ n(2)] p l by simp
  then show ?thesis using Offset by (cases east) (simp_all add: str_def)
qed (simp_all add: parseOffset_def)

text \<open>
  C27: a timestamp is converted to its FILETIME.  For every date of the Gregorian calendar from 1601
  to 9999, time of day, fraction of at most seven digits and zone (none, Z, or an offset), the text
  yields the number of 100 ns ticks since the start of 1601, counted by the lengths of the years
  and months, provided that it is not negative.
\<close>

theorem iso_ticks:
  assumes "1601 \<le> y" "y \<le> 9999" and "1 \<le> m" "m \<le> 12" and "1 \<le> d" "d \<le> monthDays y m"
    and "h < 24" "mi < 60" "s < 60" and "list_all (\<lambda>d. d < 10) fs" "length fs \<le> 7" and "zoneOk z"
    and "zoneSeconds z \<le> int (daysSince1601 y m d * 86400 + h * 3600 + mi * 60 + s)"
  shows "isoToFiletimeTicks (isoText y m d h mi s fs z) =
    Inr (word_of_int ((int (daysSince1601 y m d * 86400 + h * 3600 + mi * 60 + s) - zoneSeconds z) * 10000000 + int (fracTicks fs)))"
proof -
  let ?t = "isoText y m d h mi s fs z"
  let ?H = "d4 y @ ascii ''-'' @ d2 m @ ascii ''-'' @ d2 d @ ascii ''T'' @ d2 h @ ascii '':'' @ d2 mi @ ascii '':'' @ d2 s"
  have t: "?t = ?H @ fracText fs @ zoneText z" by (simp add: isoText_def)
  have l: "19 \<le> length ?t" by (simp add: t)
  have d31: "monthDays y m \<le> 31"
  proof -
    have "m - 1 < 12" using assms by simp
    then show ?thesis unfolding monthDays_def by (auto simp: less_Suc_eq numeral_eq_Suc)
  qed
  have sl: "slice 0 4 ?t = d4 y" "slice 5 2 ?t = d2 m" "slice 8 2 ?t = d2 d" "slice 11 2 ?t = d2 h" "slice 14 2 ?t = d2 mi" "slice 17 2 ?t = d2 s"
    unfolding t by (simp_all add: slice_def)
  have p: "parseInt ?t 0 4 = Inr (int y, 0 + 4)" "parseInt ?t 5 2 = Inr (int m, 5 + 2)" "parseInt ?t 8 2 = Inr (int d, 8 + 2)"
    "parseInt ?t 11 2 = Inr (int h, 11 + 2)" "parseInt ?t 14 2 = Inr (int mi, 14 + 2)" "parseInt ?t 17 2 = Inr (int s, 17 + 2)"
    using sl l assms d31 by (intro parse2 parse4; simp)+
  have n: "?t ! 4 = asc CHR ''-''" "?t ! 7 = asc CHR ''-''" "?t ! 10 = asc CHR ''T''" "?t ! 13 = asc CHR '':''" "?t ! 16 = asc CHR '':''"
    unfolding t d4_def d2_def by simp_all
  have f: "parseFraction ?t 19 = (fracTicks fs, 19 + length (fracText fs))"
    using parseFraction_text [OF assms(10,11), of ?H z] by (simp add: t)
  have o: "parseOffset ?t (19 + length (fracText fs)) = Inr (zoneSeconds z)"
    using parseOffset_text [OF assms(12), of "?H @ fracText fs"] by (simp add: t)
  have days: "daysFromCivil (int y) (int m) (int d) + kDays1601To1970 = int (daysSince1601 y m d)"
    using assms d31 by (intro days_correct) simp_all
  have ne: "?t \<noteq> []" using l by auto
  show ?thesis
    unfolding isoToFiletimeTicks_def Let_def expectAt_def
    using ne l p n f o days assms(13) by simp
qed

theorem iso_ticks_witness:
  "isoToFiletimeTicks (isoText 2024 2 29 12 34 56 [5] (Offset True 1 30)) =
    Inr (word_of_int ((int (daysSince1601 2024 2 29 * 86400 + 12 * 3600 + 34 * 60 + 56) - 5400) * 10000000 + 5000000))"
  using iso_ticks [of 2024 2 29 12 34 56 "[5]" "Offset True 1 30"]
  by (simp add: monthDays_vals leap_def fracTicks_def)

text \<open>A day of 0 is not rejected: the unsigned day of the year wraps, and the result is meaningless.\<close>

lemma iso_day_zero: "isoToFiletimeTicks (ascii ''2000-03-00T00:00:00Z'') = Inr 3182147488380125184"
  by code_simp
end
