(* ===== verification/Tc.thy ===== *)
theory Tc
  imports Pc
begin

text \<open>
  Table contexts (\<open>src/ltp.cpp\<close>): the row regions \<open>computeTcRgib\<close> with its 16-bit ends, and the writer
  \<open>buildTableContext\<close> with the estimate of the heap size, the promotion of the row matrix to a
  subnode, the patching of the HIDs of variable-length cells and the assembly of the heap.  A row is
  the list of its bytes, so the null pointer is not represented.
\<close>

unbundle bit_operations_syntax

section \<open>Data\<close>

record TcColumn =
  tcc_pidTagId :: u16
  tcc_propType :: PropType
  tcc_ibData :: u16
  tcc_cbData :: u8
  tcc_iBit :: u8

record TcVarlenCell =
  tvc_colIndex :: nat
  tvc_bytes :: bytes

record TcRow =
  tcr_rowId :: u32
  tcr_rowBytes :: bytes
  tcr_varlenCells :: "TcVarlenCell list"

record TcRgib =
  end4b :: u16
  end2b :: u16
  end1b :: u16
  endBm :: u16

record TcResult =
  tcres_hnBytes :: bytes
  tcres_subnodes :: "PcSubnodeOut list"

section \<open>Row regions\<close>

record RgibState =
  rs_4b :: "u16 option"
  rs_2b :: "u16 option"
  rs_1b :: "u16 option"

text \<open>The end of a region and the flag that it has a column are one option.\<close>

definition growEnd :: "u16 option \<Rightarrow> u16 \<Rightarrow> u16 option" where
  "growEnd cur x = (case cur of None \<Rightarrow> Some x | Some e \<Rightarrow> if x > e then Some x else Some e)"

definition rgibStep :: "TcColumn \<Rightarrow> RgibState \<Rightarrow> RgibState" where
  "rgibStep c st =
     (let x = tcc_ibData c + ucast (tcc_cbData c)
      in if tcc_cbData c = 4 \<or> tcc_cbData c = 8 then st\<lparr>rs_4b := growEnd (rs_4b st) x\<rparr>
         else if tcc_cbData c = 2 then st\<lparr>rs_2b := growEnd (rs_2b st) x\<rparr>
         else if tcc_cbData c = 1 then st\<lparr>rs_1b := growEnd (rs_1b st) x\<rparr>
         else st)"

definition computeTcRgib :: "TcColumn list \<Rightarrow> TcRgib" where
  "computeTcRgib cols =
     (let st = fold rgibStep cols \<lparr>rs_4b = None, rs_2b = None, rs_1b = None\<rparr>;
          e4 = (case rs_4b st of None \<Rightarrow> 0 | Some e \<Rightarrow> e);
          e2 = (case rs_2b st of None \<Rightarrow> e4 | Some e \<Rightarrow> e);
          e1 = (case rs_1b st of None \<Rightarrow> e2 | Some e \<Rightarrow> e);
          cebBytes = word_of_nat ((length cols + 7) div 8)
      in \<lparr>end4b = e4, end2b = e2, end1b = e1, endBm = e1 + cebBytes\<rparr>)"

section \<open>The writer\<close>

definition columnTag :: "TcColumn \<Rightarrow> u32" where
  "columnTag c = push_bit 16 (ucast (tcc_pidTagId c)) OR ucast (propTypeVal (tcc_propType c))"

fun validateCols :: "TcColumn list \<Rightarrow> unit result" where
  "validateCols [] = Inr ()"
| "validateCols (c # cs) =
     (if tcc_cbData c \<noteq> 1 \<and> tcc_cbData c \<noteq> 2 \<and> tcc_cbData c \<noteq> 4 \<and> tcc_cbData c \<noteq> 8
      then Inl (InvalidArgument ''buildTableContext: cbData must be 1, 2, 4, or 8'')
      else validateCols cs)"

fun validateCells :: "TcColumn list \<Rightarrow> TcVarlenCell list \<Rightarrow> unit result" where
  "validateCells cols [] = Inr ()"
| "validateCells cols (v # vs) =
     (if tvc_colIndex v \<ge> length cols
      then Inl (InvalidArgument ''buildTableContext: varlen cell colIndex out of range'')
      else if tcc_cbData (cols ! tvc_colIndex v) \<noteq> 4
      then Inl (InvalidArgument ''buildTableContext: varlen cell column must have cbData == 4'')
      else validateCells cols vs)"

fun validateRows :: "TcColumn list \<Rightarrow> u16 \<Rightarrow> TcRow list \<Rightarrow> unit result" where
  "validateRows cols bm [] = Inr ()"
| "validateRows cols bm (r # rs) =
     (if length (tcr_rowBytes r) \<noteq> unat bm
      then Inl (InvalidArgument (''buildTableContext: row size doesn'' @ [CHR 0x27] @ ''t match computed endBm''))
      else bind_r (validateCells cols (tcr_varlenCells r)) (\<lambda>_. validateRows cols bm rs))"

definition rowIdxLeafOf :: "TcRow list \<Rightarrow> bytes" where
  "rowIdxLeafOf srt =
     fold (\<lambda>s b. writeU32 (writeU32 b (s * 8 + 0) (tcr_rowId (srt ! s))) (s * 8 + 4) (word_of_nat s))
       [0..<length srt] (zeros (length srt * 8))"

text \<open>The row matrix before patching, and the variable-length cells in row-major order.\<close>

definition rowMatrixOf :: "nat \<Rightarrow> TcRow list \<Rightarrow> bytes" where
  "rowMatrixOf bm srt =
     fold (\<lambda>s b. store b (s * bm) (tcr_rowBytes (srt ! s))) [0..<length srt] (zeros (length srt * bm))"

definition varlenAllocs :: "TcColumn list \<Rightarrow> nat \<Rightarrow> TcRow list \<Rightarrow> (nat \<times> bytes) list" where
  "varlenAllocs cols bm srt =
     concat (map (\<lambda>s. map (\<lambda>v. (s * bm + unat (tcc_ibData (cols ! tvc_colIndex v)), tvc_bytes v))
                          (tcr_varlenCells (srt ! s))) [0..<length srt])"

definition estimateHnSize :: "nat \<Rightarrow> nat \<Rightarrow> nat \<Rightarrow> (nat \<times> bytes) list \<Rightarrow> bool \<Rightarrow> nat" where
  "estimateHnSize tcInfoSize rowCount rowMatrixSize varlens promoted =
     (let total = 8 + tcInfoSize + rowCount * 8 + sum_list (map (\<lambda>v. length (snd v)) varlens);
          allocCount = 3 + length varlens;
          total = (if promoted then total else total + rowMatrixSize);
          allocCount = (if promoted then allocCount else allocCount + 1);
          cursorRaw = kHnHdrSize + total;
          cursorAligned = (cursorRaw + 3) div 4 * 4;
          allocCount = (if cursorRaw \<noteq> cursorAligned then allocCount + 1 else allocCount);
          hnpmSize = 4 + 2 * (allocCount + 1)
      in cursorAligned + hnpmSize)"

text \<open>The patch loop: a write outside the row matrix is \<open>OutOfBounds\<close>.\<close>

fun patchVarlens :: "(nat \<times> bytes) list \<Rightarrow> u16 \<Rightarrow> bytes \<Rightarrow> bytes result" where
  "patchVarlens [] slot matrix = Inr matrix"
| "patchVarlens (v # vs) slot matrix =
     bind_r (memcpyAt matrix (fst v) (le32 (makeHid slot 0 0))) (patchVarlens vs (slot + 1))"

definition putTcolDesc :: "TcColumn list \<Rightarrow> nat \<Rightarrow> bytes \<Rightarrow> bytes" where
  "putTcolDesc scols s b =
     (let c = scols ! s; dst = 22 + s * 8;
          b = writeU32 b (dst + 0) (columnTag c);
          b = writeU16 b (dst + 4) (tcc_ibData c);
          b = writeU8 b (dst + 6) (tcc_cbData c)
      in writeU8 b (dst + 7) (tcc_iBit c))"

definition tcInfoOf :: "TcColumn list \<Rightarrow> TcRgib \<Rightarrow> u32 \<Rightarrow> bytes" where
  "tcInfoOf scols rg hnidRowsValue =
     (let b = zeros (22 + 8 * length scols);
          b = writeU8 b 0 kTcSignature;
          b = writeU8 b 1 (word_of_nat (length scols));
          b = writeU16 b 2 (end4b rg);
          b = writeU16 b 4 (end2b rg);
          b = writeU16 b 6 (end1b rg);
          b = writeU16 b 8 (endBm rg);
          b = writeU32 b 10 (makeHid 1 0 0);
          b = writeU32 b 14 hnidRowsValue;
          b = writeU32 b 18 0
      in fold (putTcolDesc scols) [0..<length scols] b)"

definition decidePromotion :: "nat \<Rightarrow> nat \<Rightarrow> nat \<Rightarrow> (nat \<times> bytes) list \<Rightarrow> Nid \<Rightarrow> bool result" where
  "decidePromotion tcInfoSize rowCount rowMatrixSize varlens firstSubnodeNid =
     (if estimateHnSize tcInfoSize rowCount rowMatrixSize varlens False > kMaxHnBodyBytes \<and> rowCount > 0
      then if nid_value firstSubnodeNid = 0
           then Inl (LengthError ''buildTableContext: HN body exceeds single-block cap (8176)'')
           else if estimateHnSize tcInfoSize rowCount rowMatrixSize varlens True > kMaxHnBodyBytes
           then Inl (LengthError ''buildTableContext: HN body exceeds single-block cap (8176) even after row-matrix promotion'')
           else Inr True
      else Inr False)"

definition buildTableContext :: "TcColumn list \<Rightarrow> TcRow list \<Rightarrow> Nid \<Rightarrow> TcResult result" where
  "buildTableContext cols rows firstSubnodeNid =
     (if length cols = 0 then Inl (InvalidArgument ''buildTableContext: must have at least one column'')
      else if nid_value firstSubnodeNid \<noteq> 0 \<and> nid_type firstSubnodeNid = NtHID
      then Inl (InvalidArgument ''buildTableContext: firstSubnodeNid must have nidType != HID'')
      else bind_r (validateCols cols) (\<lambda>_.
        let scols = sort_key columnTag cols; rg = computeTcRgib cols
        in bind_r (validateRows cols (endBm rg) rows) (\<lambda>_.
          let srt = sort_key tcr_rowId rows; rowCount = length rows; bm = unat (endBm rg);
              rowIdxHdr = encodeBthHeader 4 4 0 (if rowCount > 0 then makeHid 3 0 0 else 0);
              rowIdxLeaf = rowIdxLeafOf srt;
              rowMatrix = rowMatrixOf bm srt;
              varlens = varlenAllocs cols bm srt;
              tcInfoSize = 22 + 8 * length cols
          in bind_r (decidePromotion tcInfoSize rowCount (rowCount * bm) varlens firstSubnodeNid) (\<lambda>promote.
             bind_r (patchVarlens varlens (if promote then 4 else 5) rowMatrix) (\<lambda>rowMatrix.
               let hnidRowsValue = (if rowCount > 0
                                    then if promote then nid_value firstSubnodeNid else makeHid 4 0 0
                                    else 0);
                   tcInfo = tcInfoOf scols rg hnidRowsValue;
                   allocs = [rowIdxHdr, tcInfo, rowIdxLeaf] @ (if promote then [] else [rowMatrix]) @ map snd varlens
               in bind_r (buildHeapOnNode allocs kBClientSigTC (makeHid 2 0 0) (zeros 4)) (\<lambda>hnBytes.
                    if length hnBytes > kMaxHnBodyBytes
                    then Inl (LengthError ''buildTableContext: HN body exceeds single-block cap (8176) after layout decision'')
                    else Inr \<lparr>tcres_hnBytes = hnBytes,
                              tcres_subnodes =
                                (if promote
                                 then [\<lparr>so_nid = firstSubnodeNid, so_pidTagId = 0, so_data = rowMatrix\<rparr>]
                                 else [])\<rparr>))))))"

section \<open>The blocks of the table as bytes\<close>

definition colDesc :: "TcColumn \<Rightarrow> bytes" where
  "colDesc c = le32 (columnTag c) @ le16 (tcc_ibData c) @ [tcc_cbData c, tcc_iBit c]"

definition tcInfoBytes :: "TcColumn list \<Rightarrow> TcRgib \<Rightarrow> u32 \<Rightarrow> bytes" where
  "tcInfoBytes scols rg hnid =
     ([kTcSignature, word_of_nat (length scols)] @ le16 (end4b rg) @ le16 (end2b rg) @ le16 (end1b rg)
      @ le16 (endBm rg) @ le32 (makeHid 1 0 0) @ le32 hnid @ le32 0) @ concat (map colDesc scols)"

lemma length_colDesc [simp]: "length (colDesc c) = 8"
  by (simp add: colDesc_def)

lemma putTcolDesc_store: "22 + s * 8 + 8 \<le> length b \<Longrightarrow> putTcolDesc scols s b = store b (22 + s * 8) (colDesc (scols ! s))"
  by (simp add: putTcolDesc_def colDesc_def Let_def write_defs store_adjacent)

lemma tcInfoOf_eq: "tcInfoOf scols rg hnid = tcInfoBytes scols rg hnid"
proof -
  let ?n = "length scols"
  let ?H = "[kTcSignature, word_of_nat ?n] @ le16 (end4b rg) @ le16 (end2b rg) @ le16 (end1b rg)
      @ le16 (endBm rg) @ le32 (makeHid 1 0 0) @ le32 hnid @ le32 0"
  let ?z = "zeros (22 + 8 * ?n)" and ?C = "concat (map colDesc scols)"
  have C: "length ?C = ?n * 8" by (simp add: length_concat_const [where w = 8])
  have f: "fold (putTcolDesc scols) [0..<?n] b = store b 22 ?C" if "length b = 22 + 8 * ?n" for b
  proof -
    have "fold (putTcolDesc scols) [0..<?n] b = store b 22 (concat (map (\<lambda>s. colDesc (scols ! s)) [0..<?n]))"
      using that by (intro fold_store_cong [where w = 8]) (auto intro!: putTcolDesc_store dest: entry_room [where w = 8])
    also have "map (\<lambda>s. colDesc (scols ! s)) [0..<?n] = map colDesc scols" by (rule map_nth_upt)
    finally show ?thesis .
  qed
  have "tcInfoOf scols rg hnid = fold (putTcolDesc scols) [0..<?n] (store ?z 0 ?H)"
    by (simp add: tcInfoOf_def Let_def write_defs store_adjacent)
  also have "\<dots> = store (store ?z 0 ?H) 22 ?C" by (intro f) simp
  also have "\<dots> = store ?z 0 (?H @ ?C)" using C by (intro store_adjacent) simp_all
  also have "\<dots> = ?H @ ?C" using C by (intro store_all) simp
  finally show ?thesis by (simp add: tcInfoBytes_def)
qed

lemma length_tcInfo: "length (tcInfoOf scols rg hnid) = 22 + 8 * length scols"
  by (simp add: tcInfoOf_eq tcInfoBytes_def length_concat_const [where w = 8])

definition rowIdxBytes :: "TcRow list \<Rightarrow> bytes" where
  "rowIdxBytes srt = concat (map (\<lambda>s. le32 (tcr_rowId (srt ! s)) @ le32 (word_of_nat s)) [0..<length srt])"

lemma rowIdxLeafOf_eq: "rowIdxLeafOf srt = rowIdxBytes srt"
proof -
  let ?z = "zeros (length srt * 8)"
  have "rowIdxLeafOf srt = store ?z 0 (rowIdxBytes srt)"
    unfolding rowIdxLeafOf_def rowIdxBytes_def
    by (rule fold_store_cong [where w = 8])
      (auto simp: write_defs store_adjacent dest: entry_room [where w = 8])
  also have "\<dots> = rowIdxBytes srt"
    unfolding rowIdxBytes_def by (intro store_all) (simp add: length_concat_const [where w = 8])
  finally show ?thesis .
qed

lemma length_rowIdxLeaf: "length (rowIdxLeafOf srt) = length srt * 8"
  unfolding rowIdxLeafOf_eq rowIdxBytes_def by (subst length_concat_const [where w = 8]) simp_all

lemma rowMatrixOf_eq:
  assumes "\<And>r. r \<in> set srt \<Longrightarrow> length (tcr_rowBytes r) = bm"
  shows "rowMatrixOf bm srt = concat (map tcr_rowBytes srt)"
proof -
  let ?z = "zeros (length srt * bm)"
  have "rowMatrixOf bm srt = store ?z 0 (concat (map (\<lambda>s. tcr_rowBytes (srt ! s)) [0..<length srt]))"
    unfolding rowMatrixOf_def using assms by (intro fold_store_cong [where w = bm]) simp_all
  also have "map (\<lambda>s. tcr_rowBytes (srt ! s)) [0..<length srt] = map tcr_rowBytes srt" by (rule map_nth_upt)
  also have "store ?z 0 (concat (map tcr_rowBytes srt)) = concat (map tcr_rowBytes srt)"
    using assms by (intro store_all length_concat_const) simp_all
  finally show ?thesis .
qed

lemma validateRows_lengths: "validateRows cols bm rows = Inr () \<Longrightarrow> r \<in> set rows \<Longrightarrow> length (tcr_rowBytes r) = unat bm"
  by (induction rows) (auto simp: bind_r_Inr split: if_splits)

text \<open>The patched matrix: one HID after another.\<close>

fun hidStores :: "u16 \<Rightarrow> (nat \<times> bytes) list \<Rightarrow> (nat \<times> bytes) list" where
  "hidStores slot [] = []"
| "hidStores slot (v # vs) = (fst v, le32 (makeHid slot 0 0)) # hidStores (slot + 1) vs"

lemma length_hidStores [simp]: "length (hidStores slot vs) = length vs"
  by (induction vs arbitrary: slot) simp_all

lemma hidStores_nth: "k < length vs \<Longrightarrow> hidStores slot vs ! k = (fst (vs ! k), le32 (makeHid (slot + word_of_nat k) 0 0))"
proof (induction vs arbitrary: slot k)
  case (Cons v vs)
  then show ?case by (cases k) (simp_all add: ac_simps)
qed simp

lemma patchVarlens_eq:
  "patchVarlens vs slot M = Inr M' \<Longrightarrow>
    M' = stores M (hidStores slot vs) \<and> in_range (length M) (hidStores slot vs) \<and> length M' = length M"
proof (induction vs arbitrary: slot M)
  case (Cons v vs)
  then obtain M1 where m: "memcpyAt M (fst v) (le32 (makeHid slot 0 0)) = Inr M1" "patchVarlens vs (slot + 1) M1 = Inr M'"
    by (auto simp: bind_r_Inr)
  then have "fst v + 4 \<le> length M" "M1 = store M (fst v) (le32 (makeHid slot 0 0))"
    by (auto simp: memcpyAt_def split: if_splits)
  then show ?case using Cons.IH [OF m(2)] by auto
qed simp

section \<open>The size estimate\<close>

definition tcAllocs :: "TcColumn list \<Rightarrow> TcRow list \<Rightarrow> u32 \<Rightarrow> bytes option \<Rightarrow> bytes list" where
  "tcAllocs cols rows hnid matrix =
     (let srt = sort_key tcr_rowId rows; rg = computeTcRgib cols
      in [encodeBthHeader 4 4 0 (if length rows > 0 then makeHid 3 0 0 else 0),
          tcInfoOf (sort_key columnTag cols) rg hnid, rowIdxLeafOf srt]
         @ (case matrix of None \<Rightarrow> [] | Some M \<Rightarrow> [M]) @ map snd (varlenAllocs cols (unat (endBm rg)) srt))"

abbreviation tcVarlens :: "TcColumn list \<Rightarrow> TcRow list \<Rightarrow> (nat \<times> bytes) list" where
  "tcVarlens cols rows \<equiv> varlenAllocs cols (unat (endBm (computeTcRgib cols))) (sort_key tcr_rowId rows)"

abbreviation tcMatrix :: "TcColumn list \<Rightarrow> TcRow list \<Rightarrow> bytes" where
  "tcMatrix cols rows \<equiv> rowMatrixOf (unat (endBm (computeTcRgib cols))) (sort_key tcr_rowId rows)"

abbreviation tcEstimate :: "TcColumn list \<Rightarrow> TcRow list \<Rightarrow> bool \<Rightarrow> nat" where
  "tcEstimate cols rows \<equiv> estimateHnSize (22 + 8 * length cols) (length rows)
     (length rows * unat (endBm (computeTcRgib cols))) (tcVarlens cols rows)"

lemma estimate_exact:
  assumes M: "case matrix of None \<Rightarrow> True | Some M \<Rightarrow> length M = length rows * unat (endBm (computeTcRgib cols))"
    and fill: "length fill = 4"
  shows "length (hnImage (tcAllocs cols rows hnid matrix) sig root fill) = tcEstimate cols rows (matrix = None)"
proof -
  let ?as = "tcAllocs cols rows hnid matrix"
  have e: "heapEnd ?as = kHnHdrSize + (8 + (22 + 8 * length cols) + length rows * 8
      + sum_list (map (\<lambda>v. length (snd v)) (tcVarlens cols rows))
      + (if matrix = None then 0 else length rows * unat (endBm (computeTcRgib cols))))"
    using M by (cases matrix)
      (simp_all add: heapEnd_def tcAllocs_def Let_def encodeBthHeader_eq length_tcInfo length_rowIdxLeaf length_concat comp_def hn_constants)
  have n: "length ?as = 3 + length (tcVarlens cols rows) + (if matrix = None then 0 else 1)"
    by (cases matrix) (simp_all add: tcAllocs_def Let_def)
  show ?thesis
  proof (cases matrix)
    case None
    show ?thesis
      using e n unfolding length_hnImage [OF fill] length_mapOffsets mapStart_def estimateHnSize_def Let_def
      by (simp add: None ac_simps)
  next
    case (Some M)
    show ?thesis
      using e n unfolding length_hnImage [OF fill] length_mapOffsets mapStart_def estimateHnSize_def Let_def
      by (simp add: Some ac_simps)
  qed
qed

lemma hnImage_fits: "length fill = 4 \<Longrightarrow> length (hnImage as sig root fill) \<le> 8176 \<Longrightarrow> hnFits as"
  using mapStart_bounds(1) [of as] by (simp add: length_hnImage length_mapOffsets hnFits_def)

text \<open>What \<open>buildTableContext\<close> does on a table with rows, in one equation.\<close>

lemma length_rowMatrix:
  "validateRows cols (endBm (computeTcRgib cols)) rows = Inr () \<Longrightarrow>
    tcMatrix cols rows = concat (map tcr_rowBytes (sort_key tcr_rowId rows))
    \<and> length (tcMatrix cols rows) = length rows * unat (endBm (computeTcRgib cols))"
proof -
  assume v: "validateRows cols (endBm (computeTcRgib cols)) rows = Inr ()"
  have l: "length (tcr_rowBytes r) = unat (endBm (computeTcRgib cols))" if "r \<in> set (sort_key tcr_rowId rows)" for r
    using validateRows_lengths [OF v] that by simp
  then show ?thesis
    using rowMatrixOf_eq [of "sort_key tcr_rowId rows" "unat (endBm (computeTcRgib cols))"]
      length_concat_const [of "sort_key tcr_rowId rows" tcr_rowBytes "unat (endBm (computeTcRgib cols))"] by simp
qed

definition tcHnid :: "TcRow list \<Rightarrow> Nid \<Rightarrow> bool \<Rightarrow> u32" where
  "tcHnid rows nid promote = (if length rows > 0 then if promote then nid_value nid else makeHid 4 0 0 else 0)"

lemma decidePromotion_fits:
  "rc > 0 \<Longrightarrow> decidePromotion ti rc rm vs nid = Inr p \<Longrightarrow> estimateHnSize ti rc rm vs p \<le> 8176"
  by (auto simp: decidePromotion_def hn_constants not_less split: if_splits)

abbreviation tcImage :: "TcColumn list \<Rightarrow> TcRow list \<Rightarrow> Nid \<Rightarrow> bool \<Rightarrow> bytes \<Rightarrow> bytes" where
  "tcImage cols rows nid promote M \<equiv>
     hnImage (tcAllocs cols rows (tcHnid rows nid promote) (if promote then None else Some M))
       kBClientSigTC (makeHid 2 0 0) (zeros 4)"

definition tcAccepts :: "TcColumn list \<Rightarrow> TcRow list \<Rightarrow> Nid \<Rightarrow> bool \<Rightarrow> bytes \<Rightarrow> bool" where
  "tcAccepts cols rows nid promote M \<longleftrightarrow>
     length cols \<noteq> 0 \<and> \<not> (nid_value nid \<noteq> 0 \<and> nid_type nid = NtHID) \<and> validateCols cols = Inr ()
     \<and> validateRows cols (endBm (computeTcRgib cols)) rows = Inr ()
     \<and> decidePromotion (22 + 8 * length cols) (length rows) (length rows * unat (endBm (computeTcRgib cols)))
          (tcVarlens cols rows) nid = Inr promote
     \<and> patchVarlens (tcVarlens cols rows) (if promote then 4 else 5) (tcMatrix cols rows) = Inr M"

lemma tcImage_estimate:
  assumes "rows \<noteq> []" and "tcAccepts cols rows nid promote M"
  shows "length (tcImage cols rows nid promote M) = tcEstimate cols rows promote"
    and "tcEstimate cols rows promote \<le> 8176"
    and "hnFits (tcAllocs cols rows (tcHnid rows nid promote) (if promote then None else Some M))"
proof -
  have M: "length M = length rows * unat (endBm (computeTcRgib cols))"
    using assms(2) patchVarlens_eq length_rowMatrix unfolding tcAccepts_def by metis
  show e: "length (tcImage cols rows nid promote M) = tcEstimate cols rows promote"
    using estimate_exact [of rows cols "if promote then None else Some M" "zeros 4"] M by (cases promote) simp_all
  show f: "tcEstimate cols rows promote \<le> 8176"
    using assms by (intro decidePromotion_fits [where nid = nid]) (simp_all add: tcAccepts_def)
  show "hnFits (tcAllocs cols rows (tcHnid rows nid promote) (if promote then None else Some M))"
    using e f by (intro hnImage_fits [where fill = "zeros 4" and sig = kBClientSigTC and root = "makeHid 2 0 0"]) simp_all
qed

lemma buildTableContext_unfold:
  "buildTableContext cols rows nid =
     (if length cols = 0 then Inl (InvalidArgument ''buildTableContext: must have at least one column'')
      else if nid_value nid \<noteq> 0 \<and> nid_type nid = NtHID
      then Inl (InvalidArgument ''buildTableContext: firstSubnodeNid must have nidType != HID'')
      else bind_r (validateCols cols) (\<lambda>_.
        bind_r (validateRows cols (endBm (computeTcRgib cols)) rows) (\<lambda>_.
          bind_r (decidePromotion (22 + 8 * length cols) (length rows) (length rows * unat (endBm (computeTcRgib cols)))
             (tcVarlens cols rows) nid) (\<lambda>promote.
          bind_r (patchVarlens (tcVarlens cols rows) (if promote then 4 else 5) (tcMatrix cols rows)) (\<lambda>M.
          bind_r (buildHeapOnNode (tcAllocs cols rows (tcHnid rows nid promote) (if promote then None else Some M))
             kBClientSigTC (makeHid 2 0 0) (zeros 4)) (\<lambda>hn.
            if length hn > kMaxHnBodyBytes
            then Inl (LengthError ''buildTableContext: HN body exceeds single-block cap (8176) after layout decision'')
            else Inr \<lparr>tcres_hnBytes = hn,
                      tcres_subnodes = (if promote then [\<lparr>so_nid = nid, so_pidTagId = 0, so_data = M\<rparr>] else [])\<rparr>))))))"
proof -
  have a: "tcAllocs cols rows (tcHnid rows nid promote) (if promote then None else Some M) =
      [encodeBthHeader 4 4 0 (if length rows > 0 then makeHid 3 0 0 else 0),
       tcInfoOf (sort_key columnTag cols) (computeTcRgib cols)
         (if length rows > 0 then if promote then nid_value nid else makeHid 4 0 0 else 0),
       rowIdxLeafOf (sort_key tcr_rowId rows)]
      @ (if promote then [] else [M]) @ map snd (tcVarlens cols rows)" for promote M
    by (simp add: tcAllocs_def tcHnid_def Let_def)
  show ?thesis
    unfolding a buildTableContext_def Let_def by (rule refl)
qed

lemma buildTableContext_accepts:
  assumes "rows \<noteq> []" and "tcAccepts cols rows nid promote M"
  shows "buildTableContext cols rows nid =
    Inr \<lparr>tcres_hnBytes = tcImage cols rows nid promote M,
         tcres_subnodes = (if promote then [\<lparr>so_nid = nid, so_pidTagId = 0, so_data = M\<rparr>] else [])\<rparr>"
  using assms(2) buildHeapOnNode_image [OF tcImage_estimate(3) [OF assms], of "zeros 4" kBClientSigTC "makeHid 2 0 0"]
    tcImage_estimate(1,2) [OF assms]
  unfolding buildTableContext_unfold by (simp add: tcAccepts_def hn_constants)

lemma buildTableContext_Inr:
  assumes "rows \<noteq> []" and "buildTableContext cols rows nid = Inr r"
  obtains promote M where "tcAccepts cols rows nid promote M"
proof -
  have "\<exists>promote M. tcAccepts cols rows nid promote M"
    using assms(2) unfolding buildTableContext_unfold tcAccepts_def
    by (auto simp: bind_r_Inr split: if_split_asm)
  then show ?thesis using that by blast
qed

section \<open>Reading a table\<close>

text \<open>
  The value under a HID, by the resolver of \<open>readPropertyContext\<close>, and the row matrix as a reader finds
  it: from the user root of the heap to TCINFO, and by its \<open>hnidRows\<close> to an allocation or a subnode.
\<close>

definition hnValue :: "bytes \<Rightarrow> u32 \<Rightarrow> bytes option" where
  "hnValue hn hid =
     (case resolveHidInSingleBlockHn hid hn (unat (readU16 hn 0)) (readU16 hn (unat (readU16 hn 0))) of
        Inl e \<Rightarrow> None | Inr (off, len) \<Rightarrow> Some (slice off len hn))"

definition tcReadInfo :: "TcResult \<Rightarrow> bytes option" where
  "tcReadInfo r = hnValue (tcres_hnBytes r) (readU32 (tcres_hnBytes r) 4)"

definition tcReadMatrix :: "TcResult \<Rightarrow> bytes option" where
  "tcReadMatrix r =
     (case tcReadInfo r of None \<Rightarrow> None
      | Some info \<Rightarrow> let hnid = readU32 info 14 in
          if hnid AND 0x1F = 0 then hnValue (tcres_hnBytes r) hnid
          else map_option so_data (find (\<lambda>s. nid_value (so_nid s) = hnid) (tcres_subnodes r)))"

definition tcReadIndex :: "TcResult \<Rightarrow> bytes option" where
  "tcReadIndex r =
     (case tcReadInfo r of None \<Rightarrow> None
      | Some info \<Rightarrow> (case hnValue (tcres_hnBytes r) (readU32 info 10) of None \<Rightarrow> None
          | Some hdr \<Rightarrow> hnValue (tcres_hnBytes r) (readU32 hdr 4)))"

lemma hnValue_image:
  assumes "hnFits as" and "length fill = 4" and "k < length as" and "k < 2047"
  shows "hnValue (hnImage as sig root fill) (makeHid (word_of_nat (k + 1)) 0 0) = Some (as ! k)"
  using buildHeapOnNode_image [OF assms(1,2)] mapStart_bounds(2) [of as] assms(1)
    resolve_hnImage [OF assms(1-4), of sig root] slice_hnImage_alloc [OF assms(2,3), of sig root]
    hnImage_header(1) [OF assms(2), of as sig root] hnImage_cAlloc [OF assms(2), of as sig root]
  by (simp add: hnValue_def hnFits_def)

primrec cellsApart :: "(nat \<times> bytes) list \<Rightarrow> bool" where
  "cellsApart [] = True"
| "cellsApart (v # vs) = (list_all (\<lambda>w. fst v + 4 \<le> fst w \<or> fst w + 4 \<le> fst v) vs \<and> cellsApart vs)"

lemma clear_hidStores:
  "clear_of off n (hidStores slot vs) \<longleftrightarrow> list_all (\<lambda>w. off + n \<le> fst w \<or> fst w + 4 \<le> off) vs"
  by (induction vs arbitrary: slot) simp_all

lemma disjoint_hidStores: "disjoint_stores (hidStores slot vs) \<longleftrightarrow> cellsApart vs"
  by (induction vs arbitrary: slot) (simp_all add: clear_hidStores)

lemma tcInfoBytes_fields:
  "readU32 (tcInfoBytes scols rg hnid) 10 = makeHid 1 0 0" "readU32 (tcInfoBytes scols rg hnid) 14 = hnid"
  by (rule readU32_eq; simp add: tcInfoBytes_def slice_def)+

lemma validation_errors:
  "validateCols cols \<noteq> Inl (LengthError m)" "validateRows cols bm rows \<noteq> Inl (LengthError m)"
  "patchVarlens vs slot M \<noteq> Inl (LengthError m)"
proof -
  have c: "validateCells cols cells \<noteq> Inl (LengthError m)" for cells by (induction cells) simp_all
  show "validateCols cols \<noteq> Inl (LengthError m)" by (induction cols) simp_all
  show "validateRows cols bm rows \<noteq> Inl (LengthError m)" by (induction rows) (simp_all add: bind_r_Inl c)
  show "patchVarlens vs slot M \<noteq> Inl (LengthError m)"
    by (induction vs arbitrary: slot M) (simp_all add: bind_r_Inl memcpyAt_def)
qed

lemma tc_read_parts:
  assumes a: "rows \<noteq> []" "tcAccepts cols rows nid promote M"
    and r: "r = \<lparr>tcres_hnBytes = tcImage cols rows nid promote M,
              tcres_subnodes = (if promote then [\<lparr>so_nid = nid, so_pidTagId = 0, so_data = M\<rparr>] else [])\<rparr>"
  shows "tcReadInfo r = Some (tcInfoBytes (sort_key columnTag cols) (computeTcRgib cols) (tcHnid rows nid promote))"
    and "tcReadIndex r = Some (rowIdxBytes (sort_key tcr_rowId rows))"
    and "tcReadMatrix r = Some M"
    and "\<And>k. k < length (tcVarlens cols rows) \<Longrightarrow> k < 2042 \<Longrightarrow>
      hnValue (tcres_hnBytes r) (makeHid ((if promote then 4 else 5) + word_of_nat k) 0 0) = Some (snd (tcVarlens cols rows ! k))"
proof -
  let ?as = "tcAllocs cols rows (tcHnid rows nid promote) (if promote then None else Some M)"
  have as: "?as = [[kBthSignature, 4, 4, 0] @ le32 (makeHid 3 0 0),
      tcInfoBytes (sort_key columnTag cols) (computeTcRgib cols) (tcHnid rows nid promote), rowIdxBytes (sort_key tcr_rowId rows)]
      @ (if promote then [] else [M]) @ map snd (tcVarlens cols rows)"
    using a(1) by (simp add: tcAllocs_def Let_def encodeBthHeader_eq tcInfoOf_eq rowIdxLeafOf_eq)
  have v: "hnValue (tcres_hnBytes r) (makeHid (word_of_nat (k + 1)) 0 0) = Some (?as ! k)" if "k < length ?as" "k < 2047" for k
    using hnValue_image [OF tcImage_estimate(3) [OF a] _ that] by (simp add: r)
  have root: "readU32 (tcres_hnBytes r) 4 = makeHid 2 0 0" by (simp add: r hnImage_header(4))
  show info: "tcReadInfo r = Some (tcInfoBytes (sort_key columnTag cols) (computeTcRgib cols) (tcHnid rows nid promote))"
    using v [of 1] by (simp add: tcReadInfo_def root as)
  have hdr: "readU32 (kBthSignature # 4 # 4 # 0 # le32 (makeHid 3 0 0)) 4 = makeHid 3 0 0"
    by (rule readU32_eq) (simp_all add: slice_def)
  show "tcReadIndex r = Some (rowIdxBytes (sort_key tcr_rowId rows))"
    using v [of 0] v [of 2] by (simp add: tcReadIndex_def info tcInfoBytes_fields as hdr)
  show "tcReadMatrix r = Some M"
  proof (cases promote)
    case True
    have "nid_value nid \<noteq> 0" using a True by (auto simp: tcAccepts_def decidePromotion_def split: if_splits)
    then have "nid_value nid AND 0x1F \<noteq> 0" using a(2) by (intro not_hid_low) (auto simp: tcAccepts_def)
    then show ?thesis
      using True a(1) by (simp add: tcReadMatrix_def info tcInfoBytes_fields tcHnid_def Let_def) (simp add: r)
  next
    case False
    have "makeHid 4 0 0 AND 0x1F = 0" by (simp add: makeHid_def)
    moreover have "hnValue (tcres_hnBytes r) (makeHid 4 0 0) = Some M" using v [of 3] unfolding as by (simp add: False)
    ultimately show ?thesis
      using False a(1) by (simp add: tcReadMatrix_def info tcInfoBytes_fields tcHnid_def Let_def)
  qed
  show "hnValue (tcres_hnBytes r) (makeHid ((if promote then 4 else 5) + word_of_nat k) 0 0) = Some (snd (tcVarlens cols rows ! k))"
    if "k < length (tcVarlens cols rows)" "k < 2042" for k
  proof (cases promote)
    case True
    then show ?thesis using v [of "3 + k"] that unfolding as by (simp add: ac_simps)
  next
    case False
    then show ?thesis using v [of "4 + k"] that unfolding as by (simp add: ac_simps)
  qed
qed

section \<open>Tables without rows, and tables that fit\<close>

lemma buildTableContext_norows:
  assumes "cols \<noteq> []" and "length cols \<le> 900" and "validateCols cols = Inr ()" and "\<not> (nid_value nid \<noteq> 0 \<and> nid_type nid = NtHID)"
  shows "buildTableContext cols [] nid = Inr \<lparr>tcres_hnBytes = tcImage cols [] nid False [], tcres_subnodes = []\<rparr>"
    and "length (tcImage cols [] nid False []) = tcEstimate cols [] False" and "tcEstimate cols [] False \<le> 8176"
proof -
  have z: "rowMatrixOf bm [] = []" "varlenAllocs cols bm [] = []" for bm by (simp_all add: rowMatrixOf_def varlenAllocs_def zeros_def)
  show e: "length (tcImage cols [] nid False []) = tcEstimate cols [] False"
    using estimate_exact [of "[]" cols "Some []" "zeros 4"] by simp
  show len: "tcEstimate cols [] False \<le> 8176"
  proof -
    have "(45 + 8 * length cols) div 4 \<le> 7245 div 4" using assms(2) by (intro div_le_mono) simp
    then show ?thesis using assms(2) by (simp add: estimateHnSize_def z hn_constants add.commute Let_def)
  qed
  have "hnFits (tcAllocs cols [] (tcHnid [] nid False) (Some []))"
    using len e by (intro hnImage_fits [where fill = "zeros 4" and sig = kBClientSigTC and root = "makeHid 2 0 0"]) simp_all
  from buildHeapOnNode_image [OF this, of "zeros 4"] len e
  show "buildTableContext cols [] nid = Inr \<lparr>tcres_hnBytes = tcImage cols [] nid False [], tcres_subnodes = []\<rparr>"
    unfolding buildTableContext_unfold using assms by (simp add: z decidePromotion_def hn_constants)
qed

lemma buildTableContext_empty:
  assumes "cols \<noteq> []" and "length cols \<le> 900" and "validateCols cols = Inr ()"
  shows "buildTableContext cols [] (Nid 0) = Inr \<lparr>tcres_hnBytes = tcImage cols [] (Nid 0) False [], tcres_subnodes = []\<rparr>"
    and "length (tcImage cols [] (Nid 0) False []) \<le> 8176"
  using buildTableContext_norows [OF assms, of "Nid 0"] by simp_all

definition cellFits :: "TcColumn list \<Rightarrow> TcVarlenCell \<Rightarrow> bool" where
  "cellFits cols v \<longleftrightarrow> tvc_colIndex v < length cols \<and> tcc_cbData (cols ! tvc_colIndex v) = 4
     \<and> unat (tcc_ibData (cols ! tvc_colIndex v)) + 4 \<le> unat (endBm (computeTcRgib cols))"

definition rowFits :: "TcColumn list \<Rightarrow> TcRow \<Rightarrow> bool" where
  "rowFits cols r \<longleftrightarrow> length (tcr_rowBytes r) = unat (endBm (computeTcRgib cols)) \<and> list_all (cellFits cols) (tcr_varlenCells r)"

lemma validateRows_fits: "list_all (rowFits cols) rows \<Longrightarrow> validateRows cols (endBm (computeTcRgib cols)) rows = Inr ()"
proof (induction rows)
  case (Cons r rows)
  have "validateCells cols vs = Inr ()" if "list_all (cellFits cols) vs" for vs
    using that by (induction vs) (simp_all add: cellFits_def)
  then show ?case using Cons by (simp add: rowFits_def)
qed simp

lemma patchVarlens_ok: "list_all (\<lambda>v. fst v + 4 \<le> length M) vs \<Longrightarrow> \<exists>M'. patchVarlens vs slot M = Inr M'"
proof (induction vs arbitrary: slot M)
  case (Cons v vs)
  then have "memcpyAt M (fst v) (le32 (makeHid slot 0 0)) = Inr (store M (fst v) (le32 (makeHid slot 0 0)))"
    by (simp add: memcpyAt_def)
  moreover have "length (store M (fst v) (le32 (makeHid slot 0 0))) = length M" using Cons.prems by simp
  ultimately show ?case using Cons.IH [of "store M (fst v) (le32 (makeHid slot 0 0))" "slot + 1"] Cons.prems by simp
qed simp

lemma varlens_in_range:
  assumes "list_all (rowFits cols) srt" and "v \<in> set (varlenAllocs cols (unat (endBm (computeTcRgib cols))) srt)"
  shows "fst v + 4 \<le> length srt * unat (endBm (computeTcRgib cols))"
proof -
  let ?bm = "unat (endBm (computeTcRgib cols))"
  obtain s c where s: "s < length srt" "c \<in> set (tcr_varlenCells (srt ! s))" "fst v = s * ?bm + unat (tcc_ibData (cols ! tvc_colIndex c))"
    using assms(2) by (auto simp: varlenAllocs_def)
  have "srt ! s \<in> set srt" using s(1) by simp
  then have "cellFits cols c" using assms(1) s(2) by (auto simp: list_all_iff rowFits_def)
  moreover have "s * ?bm + ?bm \<le> length srt * ?bm" using s(1) by (rule entry_room)
  ultimately show ?thesis using s(3) by (simp add: cellFits_def)
qed

text \<open>Without a subnode NID a table of fitting rows is accepted when its estimate is within the block, and refused otherwise.\<close>

lemma tc_plain:
  assumes "rows \<noteq> []" and "cols \<noteq> []" and "validateCols cols = Inr ()" and "list_all (rowFits cols) rows"
  shows "tcEstimate cols rows False \<le> 8176 \<Longrightarrow> \<exists>M. tcAccepts cols rows (Nid 0) False M"
    and "\<not> tcEstimate cols rows False \<le> 8176 \<Longrightarrow>
      buildTableContext cols rows (Nid 0) = Inl (LengthError ''buildTableContext: HN body exceeds single-block cap (8176)'')"
proof -
  note v = validateRows_fits [OF assms(4)]
  have srt: "list_all (rowFits cols) (sort_key tcr_rowId rows)" using assms(4) by (simp add: list_all_iff)
  have "\<exists>M. patchVarlens (tcVarlens cols rows) 5 (tcMatrix cols rows) = Inr M"
    using varlens_in_range [OF srt] conjunct2 [OF length_rowMatrix [OF v]]
    by (intro patchVarlens_ok) (simp only: list_all_iff length_sort, blast)
  then show "\<exists>M. tcAccepts cols rows (Nid 0) False M" if "tcEstimate cols rows False \<le> 8176"
    using that assms v by (auto simp: tcAccepts_def decidePromotion_def hn_constants)
  show "buildTableContext cols rows (Nid 0) = Inl (LengthError ''buildTableContext: HN body exceeds single-block cap (8176)'')"
    if "\<not> tcEstimate cols rows False \<le> 8176"
    using that assms v unfolding buildTableContext_unfold by (simp add: decidePromotion_def hn_constants)
qed

text \<open>Cells of different rows never overlap.\<close>

lemma cellsApart_append:
  "cellsApart (xs @ ys) \<longleftrightarrow> cellsApart xs \<and> cellsApart ys \<and> (\<forall>x \<in> set xs. \<forall>y \<in> set ys. fst x + 4 \<le> fst y \<or> fst y + 4 \<le> fst x)"
  by (induction xs) (auto simp: list_all_iff)

lemma cellsApart_shift: "cellsApart (map (\<lambda>v. (k + f v, g v)) vs) \<longleftrightarrow> cellsApart (map (\<lambda>v. (f v, g v)) vs)"
  by (induction vs) (auto simp: list_all_iff)

lemma cellsApart_varlens:
  assumes "list_all (rowFits cols) srt"
    and "\<And>r. r \<in> set srt \<Longrightarrow> cellsApart (map (\<lambda>v. (unat (tcc_ibData (cols ! tvc_colIndex v)), tvc_bytes v)) (tcr_varlenCells r))"
  shows "cellsApart (varlenAllocs cols (unat (endBm (computeTcRgib cols))) srt)"
proof -
  let ?bm = "unat (endBm (computeTcRgib cols))"
  let ?row = "\<lambda>s. map (\<lambda>v. (s * ?bm + unat (tcc_ibData (cols ! tvc_colIndex v)), tvc_bytes v)) (tcr_varlenCells (srt ! s))"
  have range: "s * ?bm \<le> fst x \<and> fst x + 4 \<le> s * ?bm + ?bm" if "s < length srt" "x \<in> set (?row s)" for s x
  proof -
    have "srt ! s \<in> set srt" using that(1) by simp
    then show ?thesis using that(2) assms(1) by (auto simp: list_all_iff rowFits_def cellFits_def)
  qed
  have "cellsApart (concat (map ?row [0..<m]))" if "m \<le> length srt" for m
    using that
  proof (induction m)
    case (Suc m)
    have "fst x + 4 \<le> fst y" if "x \<in> set (concat (map ?row [0..<m]))" "y \<in> set (?row m)" for x y
    proof -
      have "\<exists>s \<in> {0..<m}. x \<in> set (?row s)" using that(1) by (simp only: set_concat set_map set_upt UN_iff)  simp
      then obtain s where s: "s < m" "x \<in> set (?row s)" by (meson atLeastLessThan_iff)
      then show ?thesis using range [of s x] range [of m y] that(2) Suc.prems entry_room [of s m ?bm] by fastforce
    qed
    moreover have "cellsApart (?row m)" unfolding cellsApart_shift using assms(2) Suc.prems by simp
    ultimately show ?case using Suc by (auto simp: cellsApart_append)
  qed simp
  then show ?thesis by (simp add: varlenAllocs_def)
qed

section \<open>Properties\<close>

text \<open>The error for a heap that outgrew its estimate.\<close>

abbreviation driftError :: error where
  "driftError \<equiv> LengthError ''buildTableContext: HN body exceeds single-block cap (8176) after layout decision''"

lemma no_drift_error:
  assumes "\<And>promote M. \<not> tcAccepts cols rows nid promote M" and "buildTableContext cols rows nid = Inl e"
  shows "e \<noteq> LengthError ''buildTableContext: HN body exceeds single-block cap (8176) after layout decision''" (is "e \<noteq> LengthError ?m")
  using assms(2,1) validation_errors [where m = ?m] unfolding buildTableContext_unfold tcAccepts_def
  by (auto simp: bind_r_Inl decidePromotion_def split: if_split_asm)

lemma norows_errors:
  assumes "length cols \<le> 900" and "buildTableContext cols [] nid = Inl e"
  shows "e \<noteq> driftError"
proof (cases "cols \<noteq> [] \<and> validateCols cols = Inr () \<and> \<not> (nid_value nid \<noteq> 0 \<and> nid_type nid = NtHID)")
  case True
  then show ?thesis using buildTableContext_norows(1) [of cols nid] assms by auto
next
  case False
  then have "\<not> tcAccepts cols [] nid promote M" for promote M by (auto simp: tcAccepts_def)
  then show ?thesis using assms(2) by (rule no_drift_error)
qed

text \<open>
  C26: the size estimate is exact.  For every table with at least one row, and for every table without rows that has at
  most 900 columns, the layout decided from the estimate is the layout built: whatever \<open>buildTableContext\<close> returns, its heap
  has exactly the estimated number of bytes for the chosen placement of the row matrix, at most 8176, and the
  error for a heap that outgrew its estimate is never raised.
\<close>

theorem tc_estimate_exact:
  assumes "rows \<noteq> [] \<or> length cols \<le> 900"
  shows "case buildTableContext cols rows nid of
    Inr r \<Rightarrow> length (tcres_hnBytes r) = tcEstimate cols rows (tcres_subnodes r \<noteq> [])
      \<and> length (tcres_hnBytes r) \<le> 8176
  | Inl e \<Rightarrow> e \<noteq> LengthError ''buildTableContext: HN body exceeds single-block cap (8176) after layout decision''"
proof (cases "rows = []")
  case True
  then have c: "length cols \<le> 900" using assms by simp
  show ?thesis
  proof (cases "buildTableContext cols rows nid")
    case (Inl e)
    then show ?thesis using norows_errors [OF c] True by simp
  next
    case (Inr r)
    then have "cols \<noteq> []" "validateCols cols = Inr ()" "\<not> (nid_value nid \<noteq> 0 \<and> nid_type nid = NtHID)"
      unfolding buildTableContext_unfold by (auto simp: bind_r_Inr split: if_split_asm)
    note e = buildTableContext_norows [OF this(1) c this(2,3)]
    have "r = \<lparr>tcres_hnBytes = tcImage cols [] nid False [], tcres_subnodes = []\<rparr>" using e(1) Inr True by simp
    then show ?thesis using e(2,3) Inr True by simp
  qed
next
  case rows: False
  show ?thesis
  proof (cases "buildTableContext cols rows nid")
    case (Inr r)
    obtain promote M where a: "tcAccepts cols rows nid promote M" using buildTableContext_Inr [OF rows Inr] .
    show ?thesis
      using buildTableContext_accepts [OF rows a] Inr tcImage_estimate(1,2) [OF rows a] by (cases promote) auto
  next
    case (Inl e)
    then have "\<not> tcAccepts cols rows nid promote M" for promote M
      using buildTableContext_accepts [OF rows] by (metis Inr_not_Inl)
    then have "e \<noteq> driftError" using Inl by (rule no_drift_error)
    then show ?thesis using Inl by simp
  qed
qed

lemma tc_reads:
  assumes "buildTableContext cols rows nid = Inr r" and "rows \<noteq> []"
    and "cellsApart (tcVarlens cols rows)" and "length (tcVarlens cols rows) \<le> 2042"
  shows "(\<exists>hnid. tcReadInfo r = Some (tcInfoBytes (sort_key columnTag cols) (computeTcRgib cols) hnid))
    \<and> tcReadIndex r = Some (rowIdxBytes (sort_key tcr_rowId rows))
    \<and> (\<exists>M. tcReadMatrix r = Some M
        \<and> length M = length rows * unat (endBm (computeTcRgib cols))
        \<and> list_all (\<lambda>v. hnValue (tcres_hnBytes r) (readU32 M (fst v)) = Some (snd v)) (tcVarlens cols rows)
        \<and> (\<forall>off. list_all (\<lambda>v. off < fst v \<or> fst v + 4 \<le> off) (tcVarlens cols rows) \<and> off < length M
            \<longrightarrow> M ! off = concat (map tcr_rowBytes (sort_key tcr_rowId rows)) ! off))"
proof -
  obtain promote M where a: "tcAccepts cols rows nid promote M" using buildTableContext_Inr [OF assms(2,1)] .
  have "r = \<lparr>tcres_hnBytes = tcImage cols rows nid promote M,
      tcres_subnodes = (if promote then [\<lparr>so_nid = nid, so_pidTagId = 0, so_data = M\<rparr>] else [])\<rparr>"
    using buildTableContext_accepts [OF assms(2) a] assms(1) by simp
  note r = tc_read_parts [OF assms(2) a this]
  let ?slot = "if promote then 4 else 5 :: u16" and ?vs = "tcVarlens cols rows"
  have v: "validateRows cols (endBm (computeTcRgib cols)) rows = Inr ()"
    and p: "patchVarlens ?vs ?slot (tcMatrix cols rows) = Inr M" using a by (simp_all add: tcAccepts_def)
  note M = patchVarlens_eq [OF p] and m = length_rowMatrix [OF v]
  have cell: "hnValue (tcres_hnBytes r) (readU32 M (fst (?vs ! k))) = Some (snd (?vs ! k))" if k: "k < length ?vs" for k
  proof -
    have in_hid: "hidStores ?slot ?vs ! k \<in> set (hidStores ?slot ?vs)" using k by simp
    have "slice (fst (?vs ! k)) 4 M = le32 (makeHid (?slot + word_of_nat k) 0 0)"
      using slice_stores [of "fst (?vs ! k)" _ "hidStores ?slot ?vs" "tcMatrix cols rows" 4] in_hid k M assms(3)
      by (auto simp: hidStores_nth disjoint_hidStores)
    moreover have "fst (?vs ! k) + 4 \<le> length M"
      using in_hid k M by (auto simp: in_range_def list_all_iff hidStores_nth)
    ultimately have "readU32 M (fst (?vs ! k)) = makeHid (?slot + word_of_nat k) 0 0" by (intro readU32_eq)
    then show ?thesis using r(4) k assms(4) by simp
  qed
  have other: "M ! off = tcMatrix cols rows ! off"
    if "list_all (\<lambda>v. off < fst v \<or> fst v + 4 \<le> off) ?vs" "off < length M" for off
  proof -
    have "slice off 1 M = slice off 1 (tcMatrix cols rows)"
      using that M by (auto intro!: slice_stores_out simp: clear_hidStores Suc_le_eq)
    then have "slice off 1 M ! 0 = slice off 1 (tcMatrix cols rows) ! 0" by (rule arg_cong)
    then show ?thesis using that M by (simp add: nth_slice)
  qed
  show ?thesis
    using r(1-3) M m cell other by (auto simp: list_all_length)
qed

text \<open>
  C11: a table reads back.  When \<open>buildTableContext\<close> accepts a table with at least one row, at most 2042
  variable-length cells, each with its slot inside the rows and no two in overlapping slots, a reader that starts at the user
  root of the heap finds the column descriptors in tag order, finds through them the row index, which
  lists the row identifiers in ascending order with their positions, and finds the row matrix, in the
  heap or in the subnode; the slot of each variable-length cell holds a HID of this heap under which
  the bytes of the cell are stored, and every byte of the matrix outside these slots is the byte the
  caller gave in the row.
\<close>

theorem tc_roundtrip:
  assumes "buildTableContext cols rows nid = Inr r" and "rows \<noteq> []"
    and "cellsApart (tcVarlens cols rows)" and "length (tcVarlens cols rows) \<le> 2042"
  shows "(\<exists>hnid. tcReadInfo r = Some (tcInfoBytes (sort_key columnTag cols) (computeTcRgib cols) hnid))
    \<and> tcReadIndex r = Some (rowIdxBytes (sort_key tcr_rowId rows))
    \<and> (\<exists>M. tcReadMatrix r = Some M
        \<and> length M = length rows * unat (endBm (computeTcRgib cols))
        \<and> list_all (\<lambda>v. hnValue (tcres_hnBytes r) (readU32 M (fst v)) = Some (snd v)) (tcVarlens cols rows)
        \<and> (\<forall>off. list_all (\<lambda>v. off < fst v \<or> fst v + 4 \<le> off) (tcVarlens cols rows) \<and> off < length M
            \<longrightarrow> M ! off = concat (map tcr_rowBytes (sort_key tcr_rowId rows)) ! off))"
  using assms by (rule tc_reads)

definition sampleCols :: "TcColumn list" where
  "sampleCols =
     [\<lparr>tcc_pidTagId = 0x3001, tcc_propType = PtUnicode, tcc_ibData = 8, tcc_cbData = 4, tcc_iBit = 2\<rparr>,
      \<lparr>tcc_pidTagId = 0x67F2, tcc_propType = PtInt32, tcc_ibData = 0, tcc_cbData = 4, tcc_iBit = 0\<rparr>,
      \<lparr>tcc_pidTagId = 0x360A, tcc_propType = PtBoolean, tcc_ibData = 12, tcc_cbData = 1, tcc_iBit = 1\<rparr>]"

definition sampleRows :: "TcRow list" where
  "sampleRows =
     [\<lparr>tcr_rowId = 9, tcr_rowBytes = [9, 0, 0, 0, 0, 0, 0, 0, 0, 0, 0, 0, 1, 0xE0],
       tcr_varlenCells = [\<lparr>tvc_colIndex = 0, tvc_bytes = [0x41, 0]\<rparr>]\<rparr>,
      \<lparr>tcr_rowId = 2, tcr_rowBytes = [2, 0, 0, 0, 0, 0, 0, 0, 0, 0, 0, 0, 0, 0xE0],
       tcr_varlenCells = [\<lparr>tvc_colIndex = 0, tvc_bytes = [0x42, 0, 0x43, 0]\<rparr>]\<rparr>]"

lemma sampleTable_parts:
  "validateCols sampleCols = Inr ()" "computeTcRgib sampleCols = \<lparr>end4b = 12, end2b = 12, end1b = 13, endBm = 14\<rparr>"
  "validateRows sampleCols 14 sampleRows = Inr ()"
  "varlenAllocs sampleCols 14 (sort_key tcr_rowId sampleRows) = [(8, [0x42, 0, 0x43, 0]), (22, [0x41, 0])]"
  "rowMatrixOf 14 (sort_key tcr_rowId sampleRows) =
    [2, 0, 0, 0, 0, 0, 0, 0, 0, 0, 0, 0, 0, 0xE0, 9, 0, 0, 0, 0, 0, 0, 0, 0, 0, 0, 0, 1, 0xE0]"
  by code_simp+

lemma sampleTable_built:
  "\<not> isl (buildTableContext sampleCols sampleRows (Nid 0))" "sampleRows \<noteq> []"
  "cellsApart (tcVarlens sampleCols sampleRows)" "length (tcVarlens sampleCols sampleRows) \<le> 2042"
proof -
  note p = sampleTable_parts
  have n: "length sampleCols = 3" "length sampleRows = 2" by (simp_all add: sampleCols_def sampleRows_def)
  show r: "sampleRows \<noteq> []" by (simp add: sampleRows_def)
  have d: "decidePromotion 46 2 28 [(8, [0x42, 0, 0x43, 0]), (22, [0x41, 0])] (Nid 0) = Inr False"
    by (simp add: decidePromotion_def estimateHnSize_def hn_constants)
  have "tcAccepts sampleCols sampleRows (Nid 0) False
      ([2, 0, 0, 0, 0, 0, 0, 0] @ le32 (makeHid 5 0 0) @ [0, 0xE0, 9, 0, 0, 0, 0, 0, 0, 0]
       @ le32 (makeHid 6 0 0) @ [1, 0xE0])"
    using n d by (simp add: tcAccepts_def p memcpyAt_def store_def le32_def)
  then show "\<not> isl (buildTableContext sampleCols sampleRows (Nid 0))"
    using buildTableContext_accepts [OF r] by simp
  show "cellsApart (tcVarlens sampleCols sampleRows)" "length (tcVarlens sampleCols sampleRows) \<le> 2042"
    by (simp_all add: p)
qed

theorem tc_roundtrip_witness:
  "\<exists>r. buildTableContext sampleCols sampleRows (Nid 0) = Inr r
    \<and> tcReadIndex r = Some [2, 0, 0, 0, 0, 0, 0, 0, 9, 0, 0, 0, 1, 0, 0, 0]"
proof -
  obtain r where r: "buildTableContext sampleCols sampleRows (Nid 0) = Inr r"
    using sampleTable_built(1) by (cases "buildTableContext sampleCols sampleRows (Nid 0)") simp_all
  have "rowIdxBytes (sort_key tcr_rowId sampleRows) = [2, 0, 0, 0, 0, 0, 0, 0, 9, 0, 0, 0, 1, 0, 0, 0]"
    by code_simp
  then show ?thesis using tc_roundtrip [OF r sampleTable_built(2-4)] r by simp
qed

theorem tc_estimate_exact_witness:
  "\<exists>r. buildTableContext sampleCols sampleRows (Nid 0) = Inr r \<and> length (tcres_hnBytes r) \<le> 8176"
proof -
  obtain r where r: "buildTableContext sampleCols sampleRows (Nid 0) = Inr r"
    using sampleTable_built(1) by (cases "buildTableContext sampleCols sampleRows (Nid 0)") simp_all
  then show ?thesis using tc_estimate_exact [of sampleRows sampleCols "Nid 0"] sampleTable_built(2) by simp
qed

end
