(* ===== verification/BlockTree.thy ===== *)
theory BlockTree
  imports Nbt
begin

text \<open>
  A reader of the block B-tree.  The program writes this tree (\<open>src/page.cpp\<close>, \<open>src/writer.cpp\<close>) and
  never searches it; the reader here is the one of the format, written from the layout of the pages
  and not from the builders, so that the theorems on the writers can say what an application finds
  under a BID.  A page is accepted when it lies in the file, both type bytes are those of the block
  B-tree, the CRC of its trailer is that of its body and its entries have 24 bytes and fit the page.
\<close>

section \<open>The reader\<close>

definition bbtPage :: "bytes \<Rightarrow> Ib \<Rightarrow> bytes result" where
  "bbtPage file ib =
     (if length file < unat (ib_value ib) + 512 then Inl OutOfBounds
      else let p = slice (unat (ib_value ib)) 512 file in
        if p ! 496 \<noteq> 0x80 \<or> p ! 497 \<noteq> 0x80 then Inl (RuntimeError ''block B-tree: page type'')
        else if readU32 p 500 \<noteq> crc32 (take 496 p) then Inl (RuntimeError ''block B-tree: CRC'')
        else if p ! 490 \<noteq> 24 \<or> 20 < p ! 488 then Inl (RuntimeError ''block B-tree: entries'')
        else Inr p)"

definition bbtEntryAt :: "bytes \<Rightarrow> nat \<Rightarrow> BbtEntry" where
  "bbtEntryAt p off =
     \<lparr>bbt_bref = mkBref (Bid (readU64 p off)) (Ib (readU64 p (off + 8))),
      bbt_cb = readU16 p (off + 16), bbt_cRef = readU16 p (off + 18)\<rparr>"

definition btEntryAt :: "bytes \<Rightarrow> nat \<Rightarrow> BtEntry" where
  "btEntryAt p off =
     \<lparr>bt_btkey = readU64 p off, bt_bref = mkBref (Bid (readU64 p (off + 8))) (Ib (readU64 p (off + 16)))\<rparr>"

definition pageEntries :: "(bytes \<Rightarrow> nat \<Rightarrow> 'e) \<Rightarrow> bytes \<Rightarrow> 'e list" where
  "pageEntries rd p = map (\<lambda>i. rd p (i * 24)) [0..<unat (p ! 488)]"

definition findBid :: "Bid \<Rightarrow> BbtEntry list \<Rightarrow> BbtEntry option" where
  "findBid t es = List.find (\<lambda>e. bref_bid (bbt_bref e) = t) es"

definition bbtFind :: "bytes \<Rightarrow> Bref \<Rightarrow> Bid \<Rightarrow> BbtEntry option result" where
  "bbtFind file root t =
     bind_r (bbtPage file (bref_ib root)) (\<lambda>p.
       if p ! 491 = 0 then Inr (findBid t (pageEntries bbtEntryAt p))
       else let below = takeWhile (\<lambda>e. bt_btkey e \<le> bid_value t) (pageEntries btEntryAt p) in
         if below = [] then Inr None
         else bind_r (bbtPage file (bref_ib (bt_bref (last below)))) (\<lambda>leaf.
           if leaf ! 491 \<noteq> 0 then Inl (RuntimeError ''block B-tree: depth'')
           else Inr (findBid t (pageEntries bbtEntryAt leaf))))"

section \<open>The pages of the builders\<close>

lemma bbtPage_ok:
  assumes at: "pageAt file ib page" and ok: "btPageOk ptype_kBBT n 20 24 l body bid ib' page" and n: "n \<le> 20"
  shows "bbtPage file ib = Inr page"
proof -
  have len: "length page = 512" using ok by (rule btPageOk_length)
  obtain rest where "unat (ib_value ib) + 512 \<le> length file" using at len by (rule pageAt_view)
  moreover have "slice (unat (ib_value ib)) 512 file = page" using at by (simp add: pageAt_def)
  moreover have "page = page @ []" by simp
  note view = btPageOk_view [OF ok this]
  have "\<not> 20 < page ! 488" using view(1) n by (simp add: word_less_nat_alt)
  ultimately show ?thesis
    using view by (simp add: bbtPage_def ptype_kBBT_def)
qed

lemma pageEntries_ok:
  assumes ok: "btPageOk pt (length es) m w l (concat (map enc es)) bid ib page" and n: "length es \<le> 20"
    and enc: "\<And>e. length (enc e) = 24"
    and rd: "\<And>off e. slice off 24 page = enc e \<Longrightarrow> off + 24 \<le> length page \<Longrightarrow> rd page off = e"
  shows "pageEntries rd page = es"
proof -
  have "page ! 488 = word_of_nat (length es)" using ok by (simp add: btPageOk_def)
  then have c: "unat (page ! 488) = length es" using n by simp
  have "rd page (i * 24) = es ! i" if "i < length es" for i
    by (rule rd) (use btPageOk_entry [OF ok enc that] btPageOk_length [OF ok] that n in simp_all)
  then show ?thesis
    unfolding pageEntries_def c by (intro nth_equalityI) simp_all
qed

lemma bbtEntryAt_enc:
  "slice off 24 page = encBbtEntry e \<Longrightarrow> off + 24 \<le> length page \<Longrightarrow> bbtEntryAt page off = e"
  by (cases e) (simp add: bbtEntryAt_def encBbtEntry_reads)

lemma btEntryAt_enc:
  "slice off 24 page = encBtEntry e \<Longrightarrow> off + 24 \<le> length page \<Longrightarrow> btEntryAt page off = e"
  by (cases e) (simp add: btEntryAt_def encBtEntry_reads)

text \<open>A leaf page with the entries \<open>es\<close>, and an upper page with the entries \<open>is\<close>.\<close>

definition bbtLeafPage :: "BbtEntry list \<Rightarrow> bytes \<Rightarrow> bool" where
  "bbtLeafPage es page \<longleftrightarrow> length es \<le> 20
     \<and> (\<exists>bid ib. btPageOk ptype_kBBT (length es) 20 24 0 (concat (map encBbtEntry es)) bid ib page)"

definition bbtNodePage :: "BtEntry list \<Rightarrow> bytes \<Rightarrow> bool" where
  "bbtNodePage es page \<longleftrightarrow> length es \<le> 20
     \<and> (\<exists>bid ib. btPageOk ptype_kBBT (length es) 20 24 1 (concat (map encBtEntry es)) bid ib page)"

lemma bbtLeafPage_read:
  assumes "pageAt file ib page" and "bbtLeafPage es page"
  shows "bbtPage file ib = Inr page" "page ! 491 = 0" "pageEntries bbtEntryAt page = es"
proof -
  obtain bid ib' where n: "length es \<le> 20"
    and ok: "btPageOk ptype_kBBT (length es) 20 24 0 (concat (map encBbtEntry es)) bid ib' page"
    using assms(2) by (auto simp: bbtLeafPage_def)
  show "bbtPage file ib = Inr page" using assms(1) ok n by (rule bbtPage_ok)
  show "page ! 491 = 0" using ok by (simp add: btPageOk_def)
  show "pageEntries bbtEntryAt page = es" using ok n by (rule pageEntries_ok) (simp_all add: bbtEntryAt_enc)
qed

lemma bbtNodePage_read:
  assumes "pageAt file ib page" and "bbtNodePage es page"
  shows "bbtPage file ib = Inr page" "page ! 491 = 1" "pageEntries btEntryAt page = es"
proof -
  obtain bid ib' where n: "length es \<le> 20"
    and ok: "btPageOk ptype_kBBT (length es) 20 24 1 (concat (map encBtEntry es)) bid ib' page"
    using assms(2) by (auto simp: bbtNodePage_def)
  show "bbtPage file ib = Inr page" using assms(1) ok n by (rule bbtPage_ok)
  show "page ! 491 = 1" using ok by (simp add: btPageOk_def)
  show "pageEntries btEntryAt page = es" using ok n by (rule pageEntries_ok) (simp_all add: btEntryAt_enc)
qed

section \<open>Lookup in a tree\<close>

definition bbtKey :: "BbtEntry \<Rightarrow> u64" where
  "bbtKey e = bid_value (bref_bid (bbt_bref e))"

lemma bbtKey_eq: "bbtKey e = bid_value t \<longleftrightarrow> bref_bid (bbt_bref e) = t"
  by (auto simp: bbtKey_def intro: Bid.expand)

lemma findBid_key: "findBid t es = List.find (\<lambda>e. bbtKey e = bid_value t) es"
  by (simp add: findBid_def bbtKey_eq)

text \<open>The entries above the leaves: the first key of each, and where it lies.\<close>

definition upperEntries :: "BbtEntry list \<Rightarrow> (nat \<Rightarrow> Bref) \<Rightarrow> nat \<Rightarrow> BtEntry list" where
  "upperEntries E ref K = map (\<lambda>i. \<lparr>bt_btkey = bbtKey (E ! (i * 20)), bt_bref = ref i\<rparr>) [0..<K]"

lemma bbtFind_one:
  assumes "pageAt file (bref_ib root) page" and "bbtLeafPage E page"
  shows "bbtFind file root t = Inr (findBid t E)"
  using bbtLeafPage_read [OF assms] by (simp add: bbtFind_def)

lemma bbtFind_two:
  assumes E: "sorted (map bbtKey E)" "distinct (map bbtKey E)"
    and K: "(K - 1) * 20 < length E" "length E \<le> K * 20"
    and root: "pageAt file (bref_ib root) rp" "bbtNodePage (upperEntries E ref K) rp"
    and leaf: "\<And>i. i < K \<Longrightarrow> pageAt file (bref_ib (ref i)) (pg i) \<and> bbtLeafPage (take 20 (drop (i * 20) E)) (pg i)"
  shows "bbtFind file root t = Inr (findBid t E)"
proof -
  let ?U = "upperEntries E ref K" and ?P = "\<lambda>e. bt_btkey e \<le> bid_value t"
  define m where "m = length (takeWhile ?P ?U)"
  have len: "length ?U = K" by (simp add: upperEntries_def)
  have mK: "m \<le> K" using length_takeWhile_le [of ?P ?U] by (simp only: m_def len)
  have key: "?P (?U ! i) \<longleftrightarrow> bbtKey (E ! (i * 20)) \<le> bid_value t" if "i < K" for i
    using that by (simp add: upperEntries_def)
  have lo: "bbtKey (E ! (i * 20)) \<le> bid_value t" if "i < m" for i
  proof -
    have "takeWhile ?P ?U ! i \<in> set (takeWhile ?P ?U)" using that by (simp add: m_def)
    then have "?P (takeWhile ?P ?U ! i)" by (rule set_takeWhileD [THEN conjunct2])
    then show ?thesis using that mK key [of i] by (simp add: m_def takeWhile_nth)
  qed
  have hi: "bid_value t < bbtKey (E ! (m * 20))" if "m < K"
  proof -
    have "\<not> ?P (?U ! m)" unfolding m_def by (rule nth_length_takeWhile) (use that len in \<open>simp add: m_def\<close>)
    then show ?thesis by (simp only: key [OF that] not_le)
  qed
  have find: "findBid t E = (if m = 0 then None else findBid t (take 20 (drop ((m - 1) * 20) E)))"
    unfolding findBid_key by (rule find_chunk [OF E lo hi mK K])
  note rd = bbtNodePage_read [OF root]
  show ?thesis
  proof (cases "m = 0")
    case True
    then have "takeWhile ?P ?U = []" by (simp add: m_def)
    then show ?thesis using rd find True by (simp add: bbtFind_def)
  next
    case False
    then have i: "m - 1 < K" using mK by linarith
    have ne: "takeWhile ?P ?U \<noteq> []" using False by (simp add: m_def)
    have "last (takeWhile ?P ?U) = ?U ! (m - 1)"
      using ne False by (simp add: last_conv_nth takeWhile_nth m_def)
    then have "bt_bref (last (takeWhile ?P ?U)) = ref (m - 1)" using i by (simp add: upperEntries_def)
    then show ?thesis
      using rd ne find False bbtLeafPage_read [OF leaf [OF i, THEN conjunct1] leaf [OF i, THEN conjunct2]]
      by (simp add: bbtFind_def)
  qed
qed

end
