(* ===== verification/Writer.thy ===== *)
theory Writer
  imports Block BlockTree
begin

text \<open>
  The file writers of \<open>src/writer.cpp\<close>: the layout of the file, the page BIDs, the block and node
  B-tree pages, and the calls on the file in the order the code makes them.  The operating system is a
  parameter: \<open>Io\<close> says whether \<open>fopen\<close> and \<open>fclose\<close> succeed and how many bytes each
  \<open>fwrite\<close> takes.  A writer returns its \<open>WriteResult\<close> with the bytes of the file, or no bytes when no file
  was opened.  The writers are \<open>noexcept\<close>: an error value is the end of the process.
\<close>

unbundle bit_operations_syntax

section \<open>Offsets\<close>

definition kIbAMap :: u64 where [layout_simps]: "kIbAMap = 0x4400"
definition kIbNbt :: u64 where [layout_simps]: "kIbNbt = 0x4600"
definition kIbBbt :: u64 where [layout_simps]: "kIbBbt = 0x4800"
definition kIbEof :: u64 where [layout_simps]: "kIbEof = 0x4A00"

definition kHeaderPadBytes :: nat where
  "kHeaderPadBytes = unat kIbAMap - kHeaderSize"

definition kBlocksStart :: u64 where
  "kBlocksStart = kIbAMap + word_of_nat kPageSize"

definition alignUp :: "u64 \<Rightarrow> u64 \<Rightarrow> u64" where
  "alignUp v a = (v + (a - 1)) AND NOT (a - 1)"

definition cbAMapFreeFor :: "u64 \<Rightarrow> u64" where
  "cbAMapFreeFor fileEof =
     (let coverageEnd = kIbAMap + word_of_nat kAMapCoverage;
          allocatedEnd = (if fileEof < coverageEnd then fileEof else coverageEnd);
          allocatedBytes = (if allocatedEnd > kIbAMap then allocatedEnd - kIbAMap else 0);
          allocatedBits = (allocatedBytes + word_of_nat kBytesPerAMapBit - 1) div word_of_nat kBytesPerAMapBit;
          totalBits = word_of_nat kAMapBitmapBytes * 8
      in (totalBits - allocatedBits) * word_of_nat kBytesPerAMapBit)"

section \<open>The file\<close>

record WriteResult =
  wr_ok :: bool
  wr_message :: string

definition okResult :: WriteResult where
  "okResult = \<lparr>wr_ok = True, wr_message = []\<rparr>"

definition failWith :: "string \<Rightarrow> WriteResult" where
  "failWith what = \<lparr>wr_ok = False, wr_message = what\<rparr>"

text \<open>
  What the system does: the outcome of \<open>fopen\<close> and \<open>fclose\<close>, and the number of bytes that the \<open>k\<close>-th
  \<open>fwrite\<close> takes of \<open>n\<close>.
\<close>

record Io =
  io_open :: bool
  io_fwrite :: "nat \<Rightarrow> nat \<Rightarrow> nat"
  io_close :: bool

text \<open>The state of a writer between \<open>fopen\<close> and \<open>fclose\<close>: its variables \<open>ok\<close> and \<open>writtenIb\<close>, and the file.\<close>

record OutState =
  os_ok :: bool
  os_writtenIb :: u64
  os_file :: bytes
  os_calls :: nat

definition writeAll :: "Io \<Rightarrow> bytes \<Rightarrow> OutState \<Rightarrow> bool \<times> OutState" where
  "writeAll io d st =
     (let n = min (io_fwrite io (os_calls st) (length d)) (length d)
      in (n = length d, st\<lparr>os_file := os_file st @ take n d, os_calls := os_calls st + 1\<rparr>))"

definition andWrite :: "Io \<Rightarrow> bytes \<Rightarrow> OutState \<Rightarrow> OutState" where
  "andWrite io d st =
     (if os_ok st then let (r, st) = writeAll io d st in st\<lparr>os_ok := r\<rparr> else st)"

definition padTo :: "Io \<Rightarrow> u64 \<Rightarrow> OutState \<Rightarrow> OutState" where
  "padTo io targetIb st =
     (if targetIb > os_writtenIb st
      then let n = unat (targetIb - os_writtenIb st)
           in (andWrite io (zeros n) st)\<lparr>os_writtenIb := targetIb\<rparr>
      else st)"

definition emit :: "Io \<Rightarrow> bytes \<Rightarrow> OutState \<Rightarrow> OutState" where
  "emit io d st = (let st = andWrite io d st in st\<lparr>os_writtenIb := os_writtenIb st + word_of_nat (length d)\<rparr>)"

text \<open>\<open>fopen\<close>, the calls between, \<open>fclose\<close>, and the result.\<close>

definition writeFile :: "Io \<Rightarrow> (OutState \<Rightarrow> OutState) \<Rightarrow> WriteResult \<times> bytes option" where
  "writeFile io body =
     (if \<not> io_open io then (failWith ''fopen failed'', None)
      else let st = body \<lparr>os_ok = True, os_writtenIb = 0, os_file = [], os_calls = 0\<rparr>
           in (if \<not> io_close io then failWith ''fclose failed''
               else if \<not> os_ok st then failWith ''fwrite truncated''
               else okResult, Some (os_file st)))"

section \<open>The empty store\<close>

definition headerState :: "Bid \<Rightarrow> Bid \<Rightarrow> u64 \<Rightarrow> Bref \<Rightarrow> Bref \<Rightarrow> WriterState" where
  "headerState bidNextP bidNextB eof brefNbt brefBbt =
     populateFreshRgnid
       (defaultWriterState\<lparr>ws_dwUnique := 1, ws_bidNextP := bidNextP, ws_bidNextB := bidNextB,
          ws_root := \<lparr>root_ibFileEof = Ib eof, root_ibAMapLast = Ib kIbAMap,
            root_cbAMapFree = cbAMapFreeFor eof, root_cbPMapFree = 0, root_brefNbt = brefNbt,
            root_brefBbt = brefBbt, root_fAMapValid = kAMapValid2\<rparr>\<rparr>)"

definition writeEmptyPst :: "Io \<Rightarrow> WriteResult \<times> bytes option" where
  "writeEmptyPst io =
     (let bidNbt = makeInternal 2; bidBbt = makeInternal 3; bidNextP = makeInternal 4; bidNextB = makeData 1;
          header = serializeHeader (headerState bidNextP bidNextB kIbEof (mkBref bidNbt (Ib kIbNbt)) (mkBref bidBbt (Ib kIbBbt)));
          amap = buildAMap (Ib kIbAMap) kIbEof;
          nbt = buildEmptyNbtLeaf bidNbt (Ib kIbNbt);
          bbt = buildEmptyBbtLeaf bidBbt (Ib kIbBbt)
      in writeFile io (\<lambda>st.
           let st = andWrite io header st;
               st = andWrite io (zeros kHeaderPadBytes) st;
               st = andWrite io amap st;
               st = andWrite io nbt st
           in andWrite io bbt st))"

section \<open>Offsets of blocks and pages, page BIDs\<close>

fun packFrom :: "u64 \<Rightarrow> nat list \<Rightarrow> u64 list \<times> u64" where
  "packFrom cursor [] = ([], cursor)"
| "packFrom cursor (n # ns) = (let (ibs, e) = packFrom (cursor + word_of_nat n) ns in (cursor # ibs, e))"

fun takeBids :: "nat \<Rightarrow> Bid \<Rightarrow> Bid list \<times> Bid" where
  "takeBids 0 next = ([], next)"
| "takeBids (Suc n) next = (let (bs, e) = takeBids n (Bid (bid_value next + 4)) in (next # bs, e))"

text \<open>The entries of a tree, pushed one by one to the leaf they belong to.\<close>

definition perLeafOf :: "nat \<Rightarrow> nat \<Rightarrow> 'a list \<Rightarrow> 'a list list" where
  "perLeafOf n k xs = fold (\<lambda>i ls. ls[i div k := ls ! (i div k) @ [xs ! i]]) [0..<length xs] (replicate n [])"

definition leavesFor :: "nat \<Rightarrow> nat \<Rightarrow> nat" where
  "leavesFor n k = (if n = 0 then 1 else (n + k - 1) div k)"

definition bbtEntryOf :: "Bid \<Rightarrow> u64 \<Rightarrow> u16 \<Rightarrow> BbtEntry" where
  "bbtEntryOf bid ib cb = \<lparr>bbt_bref = mkBref bid (Ib ib), bbt_cb = cb, bbt_cRef = 2\<rparr>"

abbreviation sortBbt :: "BbtEntry list \<Rightarrow> BbtEntry list" where
  "sortBbt \<equiv> sort_key (\<lambda>e. bid_value (bref_bid (bbt_bref e)))"

text \<open>The leaf pages of the block B-tree, and the entries of the page above them.\<close>

definition bbtLeavesOf :: "BbtEntry list \<Rightarrow> Bid list \<Rightarrow> u64 list \<Rightarrow> bytes list \<times> BtEntry list" where
  "bbtLeavesOf srt bids ibs =
     (let perLeaf = perLeafOf (length bids) kBbtMaxEntriesPerLeaf srt
      in (map (\<lambda>i. buildBbtLeaf (perLeaf ! i) (bids ! i) (Ib (ibs ! i))) [0..<length bids],
          concat (map (\<lambda>i. if perLeaf ! i = [] then []
                           else [\<lparr>bt_btkey = bid_value (bref_bid (bbt_bref (hd (perLeaf ! i)))),
                                  bt_bref = mkBref (bids ! i) (Ib (ibs ! i))\<rparr>]) [0..<length bids])))"

section \<open>Stores with blocks only\<close>

record Layout =
  lay_blockOffsets :: "u64 list"
  lay_blocksEndIb :: u64
  lay_bbtLeafIbs :: "u64 list"
  lay_bbtRootIb :: u64
  lay_nbtLeafIb :: u64
  lay_ibFileEof :: u64

definition layoutOf :: "nat list \<Rightarrow> nat \<Rightarrow> Layout" where
  "layoutOf sizes nLeaves =
     (let (offs, cursor) = packFrom kBlocksStart sizes;
          blocksEnd = cursor;
          cursor = alignUp cursor (word_of_nat kPageSize);
          (leafIbs, cursor) = packFrom cursor (replicate nLeaves kPageSize);
          rootIb = (if nLeaves = 1 then hd leafIbs else cursor);
          cursor = (if nLeaves = 1 then cursor else cursor + word_of_nat kPageSize);
          nbtIb = cursor;
          cursor = cursor + word_of_nat kPageSize
      in \<lparr>lay_blockOffsets = offs, lay_blocksEndIb = blocksEnd, lay_bbtLeafIbs = leafIbs,
          lay_bbtRootIb = rootIb, lay_nbtLeafIb = nbtIb, lay_ibFileEof = cursor\<rparr>)"

text \<open>The pages of the block B-tree: leaves, root page and the BID of the root.\<close>

definition m3BbtPages :: "BbtEntry list \<Rightarrow> Bid list \<Rightarrow> Bid \<Rightarrow> Layout \<Rightarrow> bytes list \<times> bytes \<times> Bid" where
  "m3BbtPages srt bidBbtLeaves bidBbtRoot L =
     (let (pages, inter) = bbtLeavesOf srt bidBbtLeaves (lay_bbtLeafIbs L)
      in if length bidBbtLeaves = 1 then (pages, hd pages, hd bidBbtLeaves)
         else (pages, buildBbtIntermediate inter 1 bidBbtRoot (Ib (lay_bbtRootIb L)), bidBbtRoot))"

definition buildAndWriteBlocksPst :: "Io \<Rightarrow> Bid list \<Rightarrow> bytes list \<Rightarrow> Bid \<Rightarrow> Bid \<Rightarrow> Bid list \<Rightarrow> WriteResult \<times> bytes option" where
  "buildAndWriteBlocksPst io blockBids blockBuffers bidNbtLeaf bidBbtRoot bidBbtLeaves =
     (let L = layoutOf (map length blockBuffers) (length bidBbtLeaves);
          entries = map (\<lambda>i. bbtEntryOf (blockBids ! i) (lay_blockOffsets L ! i)
                              (bt_cb (readBlockTrailer (blockBuffers ! i) (length (blockBuffers ! i)))))
                        [0..<length blockBids];
          (pages, rootPage, rootBid) = m3BbtPages (sortBbt entries) bidBbtLeaves bidBbtRoot L;
          nbtPage = buildEmptyNbtLeaf bidNbtLeaf (Ib (lay_nbtLeafIb L));
          amap = buildAMap (Ib kIbAMap) (lay_ibFileEof L);
          header = serializeHeader (headerState (makeInternal 0x10) (makeData (word_of_nat (length blockBids) + 1))
                     (lay_ibFileEof L) (mkBref bidNbtLeaf (Ib (lay_nbtLeafIb L)))
                     (mkBref rootBid (Ib (lay_bbtRootIb L))))
      in writeFile io (\<lambda>st.
           let st = emit io header st;
               st = padTo io kIbAMap st;
               st = emit io amap st;
               st = padTo io kBlocksStart st;
               st = fold (emit io) blockBuffers st;
               st = padTo io (if lay_bbtLeafIbs L = [] then lay_bbtRootIb L else hd (lay_bbtLeafIbs L)) st;
               st = (if length bidBbtLeaves = 1 then st else fold (emit io) pages st);
               st = padTo io (lay_bbtRootIb L) st;
               st = emit io rootPage st;
               st = padTo io (lay_nbtLeafIb L) st
           in emit io nbtPage st))"

definition writeBlocksPst :: "Io \<Rightarrow> bytes list \<Rightarrow> WriteResult \<times> bytes option" where
  "writeBlocksPst io dataBlocks =
     (if length dataBlocks > kBbtMaxEntriesPerLeaf * kBtMaxEntriesPerPage
      then (failWith ''M3 BBT supports at most 400 blocks (1 intermediate level)'', None)
      else let n = length dataBlocks;
               blockBids = map (\<lambda>i. makeData (word_of_nat i + 1)) [0..<n];
               ibs = fst (packFrom kBlocksStart (map (\<lambda>d. roundBlockSize (length d)) dataBlocks));
               built = map (\<lambda>i. buildDataBlock (dataBlocks ! i) (blockBids ! i) (Ib (ibs ! i)) CryptPermute) [0..<n];
               nLeaves = leavesFor n kBbtMaxEntriesPerLeaf;
               (leafBids, next) = takeBids nLeaves (makeInternal 2);
               rootBid = (if nLeaves = 1 then hd leafBids else next);
               next = (if nLeaves > 1 then Bid (bid_value next + 4) else next)
           in buildAndWriteBlocksPst io blockBids built next rootBid leafBids)"

text \<open>The number of payload bytes in block \<open>i\<close> of \<open>n\<close>.\<close>

definition chunkLen :: "nat \<Rightarrow> nat \<Rightarrow> nat \<Rightarrow> nat \<Rightarrow> nat" where
  "chunkLen cbPayload chunkSize n i = (if i + 1 = n then cbPayload - i * chunkSize else chunkSize)"

definition writeXBlockPst :: "Io \<Rightarrow> bytes \<Rightarrow> nat \<Rightarrow> WriteResult \<times> bytes option" where
  "writeXBlockPst io payload chunkSize =
     (let cbPayload = length payload; n = (cbPayload + chunkSize - 1) div chunkSize in
      if chunkSize = 0 then (failWith ''chunkSize must be > 0'', None)
      else if chunkSize > kMaxBlockPayload then (failWith ''chunkSize too large'', None)
      else if cbPayload = 0 then (failWith ''XBLOCK requires a non-empty payload'', None)
      else if n > 1019 then (failWith ''XBLOCK can address at most ~1019 children'', None)
      else let dataBids = map (\<lambda>i. makeData (word_of_nat i + 1)) [0..<n];
               xblockBid = makeInternal (word_of_nat n + 1);
               (ibs, xblockIb) = packFrom kBlocksStart (map (\<lambda>i. roundBlockSize (chunkLen cbPayload chunkSize n i)) [0..<n]);
               built = map (\<lambda>i. buildDataBlock (slice (i * chunkSize) (chunkLen cbPayload chunkSize n i) payload)
                                  (dataBids ! i) (Ib (ibs ! i)) CryptPermute) [0..<n]
                       @ [buildXBlock dataBids (word_of_nat cbPayload) xblockBid (Ib xblockIb)];
               blockBids = dataBids @ [xblockBid];
               nLeaves = (n + 1 + kBbtMaxEntriesPerLeaf - 1) div kBbtMaxEntriesPerLeaf;
               (leafBids, next) = takeBids nLeaves (makeInternal 0x100);
               rootBid = (if nLeaves = 1 then hd leafBids else next);
               next = (if nLeaves > 1 then Bid (bid_value next + 4) else next)
           in buildAndWriteBlocksPst io blockBids built next rootBid leafBids)"

section \<open>Stores with blocks and nodes\<close>

record M5DataBlockSpec =
  m5b_bid :: Bid
  m5b_encodedBlock :: bytes
  m5b_cb :: u16

record M5Node =
  m5n_nid :: Nid
  m5n_bidData :: Bid
  m5n_bidSub :: Bid
  m5n_nidParent :: Nid

record M5Layout =
  m5l_blockIbs :: "u64 list"
  m5l_bbtLeafIbs :: "u64 list"
  m5l_bbtRootIb :: u64
  m5l_nbtLeafIbs :: "u64 list"
  m5l_nbtRootIb :: u64
  m5l_ibFileEof :: u64

definition m5Layout :: "M5DataBlockSpec list \<Rightarrow> M5Node list \<Rightarrow> M5Layout" where
  "m5Layout blocks nodes =
     (let (blockIbs, cursor) = packFrom kBlocksStart (map (length \<circ> m5b_encodedBlock) blocks);
          cursor = alignUp cursor (word_of_nat kPageSize);
          nBbtLeaves = leavesFor (length blocks) kBbtMaxEntriesPerLeaf;
          (bbtLeafIbs, cursor) = packFrom cursor (replicate nBbtLeaves kPageSize);
          bbtRootIb = (if nBbtLeaves > 1 then cursor else hd bbtLeafIbs);
          cursor = (if nBbtLeaves > 1 then cursor + word_of_nat kPageSize else cursor);
          nNbtLeaves = leavesFor (length nodes) kNbtLeafMaxEntries;
          (nbtLeafIbs, cursor) = packFrom cursor (replicate nNbtLeaves kPageSize);
          nbtRootIb = (if nNbtLeaves > 1 then cursor else hd nbtLeafIbs);
          cursor = (if nNbtLeaves > 1 then cursor + word_of_nat kPageSize else cursor)
      in \<lparr>m5l_blockIbs = blockIbs, m5l_bbtLeafIbs = bbtLeafIbs, m5l_bbtRootIb = bbtRootIb,
          m5l_nbtLeafIbs = nbtLeafIbs, m5l_nbtRootIb = nbtRootIb, m5l_ibFileEof = cursor\<rparr>)"

record M5PageBids =
  m5p_bbtLeafBids :: "Bid list"
  m5p_bbtRootBid :: Bid
  m5p_nbtLeafBids :: "Bid list"
  m5p_nbtRootBid :: Bid
  m5p_nextPageBid :: Bid

definition m5PageBids :: "nat \<Rightarrow> nat \<Rightarrow> M5PageBids" where
  "m5PageBids nBbtLeaves nNbtLeaves =
     (let (bbtLeafBids, next) = takeBids nBbtLeaves (makeInternal 2);
          bbtRootBid = (if nBbtLeaves > 1 then next else hd bbtLeafBids);
          next = (if nBbtLeaves > 1 then Bid (bid_value next + 4) else next);
          (nbtLeafBids, next) = takeBids nNbtLeaves next;
          nbtRootBid = (if nNbtLeaves > 1 then next else hd nbtLeafBids);
          next = (if nNbtLeaves > 1 then Bid (bid_value next + 4) else next)
      in \<lparr>m5p_bbtLeafBids = bbtLeafBids, m5p_bbtRootBid = bbtRootBid, m5p_nbtLeafBids = nbtLeafBids,
          m5p_nbtRootBid = nbtRootBid, m5p_nextPageBid = next\<rparr>)"

definition m5BbtPages :: "M5DataBlockSpec list \<Rightarrow> M5Layout \<Rightarrow> M5PageBids \<Rightarrow> bytes list \<times> bytes" where
  "m5BbtPages blocks L B =
     (let entries = sortBbt (map (\<lambda>i. bbtEntryOf (m5b_bid (blocks ! i)) (m5l_blockIbs L ! i) (m5b_cb (blocks ! i)))
                                 [0..<length blocks]);
          (pages, inter) = bbtLeavesOf entries (m5p_bbtLeafBids B) (m5l_bbtLeafIbs L)
      in (pages, if length (m5p_bbtLeafBids B) > 1
                 then buildBbtIntermediate inter 1 (m5p_bbtRootBid B) (Ib (m5l_bbtRootIb L))
                 else hd pages))"

definition m5NbtEntries :: "M5Node list \<Rightarrow> NbtEntry list" where
  "m5NbtEntries nodes =
     map (\<lambda>n. \<lparr>nbt_nid = m5n_nid n, nbt_bidData = m5n_bidData n, nbt_bidSub = m5n_bidSub n,
               nbt_nidParent = m5n_nidParent n\<rparr>) nodes"

definition m5NbtPages :: "M5Node list \<Rightarrow> M5Layout \<Rightarrow> M5PageBids \<Rightarrow> (bytes list \<times> bytes) result" where
  "m5NbtPages nodes L B =
     (let bids = m5p_nbtLeafBids B; ibs = m5l_nbtLeafIbs L; n = length bids;
          perLeaf = perLeafOf n kNbtLeafMaxEntries (sortNbt (m5NbtEntries nodes))
      in bind_r (mapM_r (\<lambda>i. buildNbtLeaf (perLeaf ! i) (bids ! i) (Ib (ibs ! i))) [0..<n]) (\<lambda>pages.
         if n > 1
         then bind_r (buildBtIntermediate
                (concat (map (\<lambda>i. if perLeaf ! i = [] then []
                                  else [\<lparr>bt_btkey = ucast (nid_value (nbt_nid (hd (perLeaf ! i)))),
                                         bt_bref = mkBref (bids ! i) (Ib (ibs ! i))\<rparr>]) [0..<n]))
                1 ptype_kNBT (m5p_nbtRootBid B) (Ib (m5l_nbtRootIb L)))
              (\<lambda>root. Inr (pages, root))
         else Inr (pages, hd pages)))"

definition m5Header :: "M5DataBlockSpec list \<Rightarrow> M5Layout \<Rightarrow> M5PageBids \<Rightarrow> bytes" where
  "m5Header blocks L B =
     serializeHeader (headerState (m5p_nextPageBid B) (makeData (word_of_nat (length blocks) + 1)) (m5l_ibFileEof L)
       (mkBref (m5p_nbtRootBid B) (Ib (m5l_nbtRootIb L))) (mkBref (m5p_bbtRootBid B) (Ib (m5l_bbtRootIb L))))"

text \<open>The leaves of a tree with an upper page, each at its offset; then the root.\<close>

definition emitPages :: "Io \<Rightarrow> u64 list \<Rightarrow> bytes list \<Rightarrow> OutState \<Rightarrow> OutState" where
  "emitPages io ibs pages st =
     fold (\<lambda>i st. emit io (pages ! i) (padTo io (ibs ! i) st)) (if length pages > 1 then [0..<length pages] else []) st"

definition writeM5Pst :: "Io \<Rightarrow> M5DataBlockSpec list \<Rightarrow> M5Node list \<Rightarrow> (WriteResult \<times> bytes option) result" where
  "writeM5Pst io blocks nodes =
     (if length blocks > kBbtMaxEntriesPerLeaf * kBtMaxEntriesPerPage
      then Inr (failWith ''M5: BBT supports at most 400 blocks (1 intermediate level)'', None)
      else if length nodes > kNbtLeafMaxEntries * kBtIntermediateMaxEntries
      then Inr (failWith ''M5: NBT supports at most 300 nodes (1 intermediate level)'', None)
      else let L = m5Layout blocks nodes;
               B = m5PageBids (leavesFor (length blocks) kBbtMaxEntriesPerLeaf)
                     (leavesFor (length nodes) kNbtLeafMaxEntries);
               (bbtLeafPages, bbtRootPage) = m5BbtPages blocks L B
           in bind_r (m5NbtPages nodes L B) (\<lambda>(nbtLeafPages, nbtRootPage).
              let amap = buildAMap (Ib kIbAMap) (m5l_ibFileEof L);
                  header = m5Header blocks L B
              in Inr (writeFile io (\<lambda>st.
                   let st = emit io header st;
                       st = padTo io kIbAMap st;
                       st = emit io amap st;
                       st = padTo io kBlocksStart st;
                       st = fold (emit io) (map m5b_encodedBlock blocks) st;
                       st = emitPages io (m5l_bbtLeafIbs L) bbtLeafPages st;
                       st = padTo io (m5l_bbtRootIb L) st;
                       st = emit io bbtRootPage st;
                       st = emitPages io (m5l_nbtLeafIbs L) nbtLeafPages st;
                       st = padTo io (m5l_nbtRootIb L) st
                   in emit io nbtRootPage st))))"

section \<open>What the calls leave in the file\<close>

text \<open>
  \<open>outRel st P\<close>: the calls so far were to produce \<open>P\<close>.  The file holds a prefix of it, all of it while no
  write was short, and \<open>writtenIb\<close> counts its bytes either way.
\<close>

definition outRel :: "OutState \<Rightarrow> bytes \<Rightarrow> bool" where
  "outRel st P \<longleftrightarrow> (\<exists>k. os_file st = take k P) \<and> (os_ok st \<longrightarrow> os_file st = P) \<and> unat (os_writtenIb st) = length P"

lemma andWrite_rel:
  assumes "(\<exists>k. os_file st = take k P) \<and> (os_ok st \<longrightarrow> os_file st = P)"
  shows "(\<exists>k. os_file (andWrite io d st) = take k (P @ d)) \<and> (os_ok (andWrite io d st) \<longrightarrow> os_file (andWrite io d st) = P @ d)"
proof (cases "os_ok st")
  case True
  have e: "\<exists>k. P @ take n d = take k (P @ d)" for n by (rule exI [of _ "length P + n"]) simp
  have "os_file st = P" using assms True by simp
  then show ?thesis using True e by (simp add: andWrite_def writeAll_def Let_def)
next
  case False
  obtain k where "os_file st = take k P" using assms by blast
  then have "os_file st = take (min k (length P)) (P @ d)" by (simp add: min_def)
  then show ?thesis using False by (simp only: andWrite_def if_False) blast
qed

lemma andWrite_written [simp]: "os_writtenIb (andWrite io d st) = os_writtenIb st"
  by (simp add: andWrite_def writeAll_def Let_def)

lemma emit_rel:
  assumes "outRel st P" and "length P + length d < 2 ^ 64"
  shows "outRel (emit io d st) (P @ d)"
  using assms andWrite_rel [of st P io d]
  by (simp add: outRel_def emit_def Let_def unat_word_ariths unat_of_nat)

lemma padTo_rel: "outRel st P \<Longrightarrow> outRel (padTo io t st) (P @ zeros (unat t - length P))"
  using andWrite_rel [of st P io "zeros (unat t - length P)"]
  by (cases "length P < unat t") (simp_all add: outRel_def padTo_def Let_def word_less_nat_alt unat_sub_if' zeros_def)

lemma emits_rel:
  "outRel st P \<Longrightarrow> length P + length (concat ds) < 2 ^ 64 \<Longrightarrow> outRel (fold (emit io) ds st) (P @ concat ds)"
proof (induction ds arbitrary: st P)
  case (Cons d ds)
  have "outRel (emit io d st) (P @ d)" using Cons.prems by (intro emit_rel) simp_all
  from Cons.IH [OF this] show ?case using Cons.prems(2) by simp
qed simp

text \<open>The pages of a tree: the leaves when there is more than one, padded to the first, and the root.\<close>

lemma emitTree_rel:
  assumes "outRel st P" and "base + length pages * 512 + 512 < 2 ^ 64" and "length P \<le> base" and "length root = 512"
    and "\<And>i. i < length pages \<Longrightarrow> length (pages ! i) = 512 \<and> unat (ibs ! i) = base + i * 512"
    and "unat rootIb = base + (if length pages > 1 then length pages * 512 else 0)"
  shows "outRel (emit io root (padTo io rootIb (emitPages io ibs pages st)))
    (P @ zeros (base - length P) @ (if length pages > 1 then concat pages else []) @ root)"
proof -
  let ?f = "\<lambda>i st. emit io (pages ! i) (padTo io (ibs ! i) st)" and ?Z = "zeros (base - length P)"
  have len: "length (concat (take n pages)) = n * 512" if "n \<le> length pages" for n
  proof -
    have "length x = 512" if "x \<in> set (take n pages)" for x
      using that assms(5) by (metis in_set_conv_nth in_set_takeD)
    then show ?thesis using that length_concat_const [of "take n pages" "\<lambda>x. x" 512] by simp
  qed
  have leaves: "outRel (fold ?f [0..<n] st) (P @ (if n = 0 then [] else ?Z @ concat (take n pages)))" if "n \<le> length pages" for n
    using that
  proof (induction n)
    case 0
    then show ?case using assms(1) by simp
  next
    case (Suc n)
    have n: "n < length pages" "length (pages ! n) = 512" "unat (ibs ! n) = base + n * 512"
      "length (concat (take n pages)) = n * 512" using Suc.prems assms(5) [of n] len by simp_all
    let ?st = "padTo io (ibs ! n) (fold ?f [0..<n] st)"
    have "outRel ?st (P @ ?Z @ concat (take n pages))"
      using padTo_rel [OF Suc.IH, of io "ibs ! n"] Suc.prems n assms(3) by (cases "n = 0") (simp_all add: zeros_def)
    then have "outRel (emit io (pages ! n) ?st) ((P @ ?Z @ concat (take n pages)) @ pages ! n)"
      using n assms(2,3) by (intro emit_rel) simp_all
    then show ?case using n(1) by (simp add: take_Suc_conv_app_nth)
  qed
  let ?st = "emitPages io ibs pages st" and ?C = "if length pages > 1 then concat pages else []"
  have "outRel (padTo io rootIb ?st) (P @ ?Z @ ?C)"
  proof (cases "length pages > 1")
    case True
    then have "pages \<noteq> []" by auto
    then have "outRel ?st (P @ ?Z @ concat pages)" using leaves [of "length pages"] True by (simp add: emitPages_def)
    then show ?thesis
      using padTo_rel [of ?st "P @ ?Z @ concat pages" io rootIb] True assms(3,6) len [of "length pages"] by (simp add: zeros_def)
  next
    case False
    then show ?thesis using padTo_rel [OF assms(1), of io rootIb] assms(6) by (simp add: emitPages_def)
  qed
  then have "outRel (emit io root (padTo io rootIb ?st)) ((P @ ?Z @ ?C) @ root)"
    using assms(2-4) len [of "length pages"] by (intro emit_rel) simp_all
  then show ?thesis by simp
qed

definition idealIo :: Io where
  "idealIo = \<lparr>io_open = True, io_fwrite = (\<lambda>k n. n), io_close = True\<rparr>"

text \<open>With an ideal file no call fails.\<close>

lemma ideal_ok:
  "os_ok (andWrite idealIo d st) = os_ok st" "os_ok (emit idealIo d st) = os_ok st" "os_ok (padTo idealIo t st) = os_ok st"
proof -
  show a: "os_ok (andWrite idealIo d st) = os_ok st" for d
    by (simp add: andWrite_def writeAll_def Let_def idealIo_def)
  then show "os_ok (emit idealIo d st) = os_ok st" "os_ok (padTo idealIo t st) = os_ok st"
    by (simp_all add: emit_def padTo_def Let_def)
qed

lemma ideal_fold_ok: "os_ok (fold (emit idealIo) ds st) = os_ok st"
  by (induction ds arbitrary: st) (simp_all add: ideal_ok)

lemma ideal_pages_ok: "os_ok (emitPages idealIo ibs pages st) = os_ok st"
proof -
  have "os_ok (fold (\<lambda>i st. emit idealIo (pages ! i) (padTo idealIo (ibs ! i) st)) is st) = os_ok st" for "is"
    by (induction "is" arbitrary: st) (simp_all add: ideal_ok)
  then show ?thesis by (simp add: emitPages_def)
qed

lemma outRel_init: "outRel \<lparr>os_ok = True, os_writtenIb = 0, os_file = [], os_calls = 0\<rparr> []"
  by (simp add: outRel_def)

text \<open>A writer whose calls produce \<open>P\<close> on every system.\<close>

lemma writeFile_image:
  assumes "\<And>io. outRel (body io \<lparr>os_ok = True, os_writtenIb = 0, os_file = [], os_calls = 0\<rparr>) P"
  shows "writeFile io (body io) = (r, Some f) \<Longrightarrow> (\<exists>k. f = take k P) \<and> (wr_ok r \<longrightarrow> f = P \<and> io_open io \<and> io_close io)"
    and "os_ok (body idealIo \<lparr>os_ok = True, os_writtenIb = 0, os_file = [], os_calls = 0\<rparr>) \<Longrightarrow>
      writeFile idealIo (body idealIo) = (okResult, Some P)"
proof -
  let ?i = "\<lparr>os_ok = True, os_writtenIb = 0, os_file = [], os_calls = 0\<rparr>"
  have a: "(\<exists>k. os_file (body io ?i) = take k P) \<and> (os_ok (body io ?i) \<longrightarrow> os_file (body io ?i) = P)" for io
    using assms [of io] by (simp only: outRel_def) blast
  show "(\<exists>k. f = take k P) \<and> (wr_ok r \<longrightarrow> f = P \<and> io_open io \<and> io_close io)" if "writeFile io (body io) = (r, Some f)"
  proof -
    have "f = os_file (body io ?i)" "wr_ok r \<longrightarrow> os_ok (body io ?i) \<and> io_open io \<and> io_close io"
      using that by (auto simp: writeFile_def Let_def failWith_def split: if_splits)
    then show ?thesis using a [of io] by metis
  qed
  show "writeFile idealIo (body idealIo) = (okResult, Some P)" if "os_ok (body idealIo ?i)"
    using that a [of idealIo] by (simp add: writeFile_def Let_def) (simp add: idealIo_def)
qed

section \<open>Layout\<close>

lemma packFrom_eq:
  "packFrom (word_of_nat c) ns = (map (\<lambda>i. word_of_nat (c + sum_list (take i ns))) [0..<length ns], word_of_nat (c + sum_list ns))"
proof (induction ns arbitrary: c)
  case (Cons n ns)
  have "packFrom (word_of_nat c + word_of_nat n) ns =
      (map (\<lambda>i. word_of_nat (c + n + sum_list (take i ns))) [0..<length ns], word_of_nat (c + n + sum_list ns))"
    using Cons.IH [of "c + n"] by simp
  then show ?case
    by (simp only: packFrom.simps sum_list.Cons length_Cons map_upt_Suc take_Suc_Cons) (simp add: add.assoc)
qed simp

lemma packFrom_pages:
  "packFrom (word_of_nat c) (replicate n 512) = (map (\<lambda>i. word_of_nat (c + i * 512)) [0..<n], word_of_nat (c + n * 512))"
  unfolding packFrom_eq by (simp add: sum_list_replicate min_def)

lemma len64_eq: "LENGTH(64) = 64"
  by simp

lemma unat_round9: "unat (push_bit 9 (drop_bit 9 w)) = unat w div 512 * 512" for w :: u64
proof -
  have "unat w < 2 ^ 64" using unsigned_less [of w] by simp
  then have "unat w div 512 * 512 < 2 ^ 64"
    using div_times_less_eq_dividend [of "unat w" 512] by (rule le_less_trans [rotated])
  then have "take_bit 64 (unat w div 512 * 512) = unat w div 512 * 512" by (rule take_bit_nat_eq_self)
  moreover have "take_bit 64 (unat w) = unat w" using \<open>unat w < 2 ^ 64\<close> by (rule take_bit_nat_eq_self)
  ultimately show ?thesis
    unfolding unsigned_push_bit_eq unsigned_drop_bit_eq by (simp add: push_bit_eq_mult drop_bit_eq_div)
qed

lemma alignUp_page:
  assumes "v + 511 < 2 ^ 64"
  shows "alignUp (word_of_nat v) (word_of_nat kPageSize) = word_of_nat ((v + 511) div 512 * 512)"
proof -
  have m: "x AND NOT (mask 9) = push_bit 9 (drop_bit 9 x)" for x :: u64
    by (auto intro!: bit_word_eqI simp: bit_simps)
  have "alignUp (word_of_nat v) (word_of_nat kPageSize) = word_of_nat (v + 511) AND NOT (mask 9)"
    by (simp add: alignUp_def layout_simps kPageSize_def mask_eq_exp_minus_1)
  also have "\<dots> = push_bit 9 (drop_bit 9 (word_of_nat (v + 511)))" by (rule m)
  finally have a: "alignUp (word_of_nat v) (word_of_nat kPageSize) = push_bit 9 (drop_bit 9 (word_of_nat (v + 511)))" .
  have "(v + 511) div 512 * 512 \<le> v + 511" by simp
  then have "(v + 511) div 512 * 512 mod 2 ^ 64 = (v + 511) div 512 * 512"
    using assms by (intro mod_less) linarith
  have "unat (word_of_nat (v + 511) :: u64) = v + 511" using assms by (simp only: unat_of_nat len64_eq mod_less)
  then have "unat (push_bit 9 (drop_bit 9 (word_of_nat (v + 511) :: u64))) = (v + 511) div 512 * 512"
    by (simp only: unat_round9)
  then show ?thesis unfolding a
    using \<open>(v + 511) div 512 * 512 mod 2 ^ 64 = (v + 511) div 512 * 512\<close>
    by (intro word_unat_eq_iff [THEN iffD2]) (simp only: unat_of_nat len64_eq)
qed

text \<open>The pages of a tree with \<open>n\<close> leaves: the leaves and, above more than one, the upper page.\<close>

definition treeSize :: "nat \<Rightarrow> nat" where
  "treeSize n = (if n > 1 then n + 1 else n)"

definition roundPage :: "nat \<Rightarrow> nat" where
  "roundPage v = (v + 511) div 512 * 512"

lemma roundPage_bounds: "v \<le> roundPage v" "roundPage v < v + 512"
proof -
  have "v + 511 = roundPage v + (v + 511) mod 512" "(v + 511) mod 512 < 512"
    unfolding roundPage_def by (simp_all add: div_mult_mod_eq)
  then show "v \<le> roundPage v" "roundPage v < v + 512" by linarith+
qed

abbreviation blockSizes :: "M5DataBlockSpec list \<Rightarrow> nat list" where
  "blockSizes blocks \<equiv> map (length \<circ> m5b_encodedBlock) blocks"

abbreviation bbtLeafCount :: "M5DataBlockSpec list \<Rightarrow> nat" where
  "bbtLeafCount blocks \<equiv> leavesFor (length blocks) 20"

abbreviation nbtLeafCount :: "M5Node list \<Rightarrow> nat" where
  "nbtLeafCount nodes \<equiv> leavesFor (length nodes) 15"

definition bbtStart :: "M5DataBlockSpec list \<Rightarrow> nat" where
  "bbtStart blocks = roundPage (0x4600 + sum_list (blockSizes blocks))"

definition nbtStart :: "M5DataBlockSpec list \<Rightarrow> nat" where
  "nbtStart blocks = bbtStart blocks + treeSize (bbtLeafCount blocks) * 512"

definition m5Eof :: "M5DataBlockSpec list \<Rightarrow> M5Node list \<Rightarrow> nat" where
  "m5Eof blocks nodes = nbtStart blocks + treeSize (nbtLeafCount nodes) * 512"

lemma leavesFor_bounds:
  assumes "0 < k"
  shows "0 < leavesFor n k" "n \<le> m * k \<Longrightarrow> 0 < m \<Longrightarrow> leavesFor n k \<le> m" "n \<le> leavesFor n k * k"
proof -
  have d: "(n + k - 1) div k * k \<le> n + k - 1" "n + k - 1 < (n + k - 1) div k * k + k"
    using div_mult_mod_eq [of "n + k - 1" k] mod_less_divisor [of k "n + k - 1"] assms by linarith+
  show a: "n \<le> leavesFor n k * k" using d assms by (simp add: leavesFor_def) linarith
  show "0 < leavesFor n k"
  proof (cases "n = 0")
    case False
    then have "k \<le> n + k - 1" using assms by simp
    then show ?thesis using assms False by (simp add: leavesFor_def div_greater_zero_iff)
  qed (simp add: leavesFor_def)
  show "leavesFor n k \<le> m" if "n \<le> m * k" "0 < m"
  proof (rule ccontr)
    assume "\<not> leavesFor n k \<le> m"
    then have "0 < n" "m + 1 \<le> (n + k - 1) div k" using that by (auto simp: leavesFor_def split: if_splits)
    then have "(m + 1) * k \<le> n + k - 1" using d(1) mult_le_mono1 le_trans by blast
    then show False using that assms \<open>0 < n\<close> by simp
  qed
qed

lemma writer_limits: "kBbtMaxEntriesPerLeaf = 20" "kBtMaxEntriesPerPage = 20" "kNbtLeafMaxEntries = 15"
  "kBtIntermediateMaxEntries = 20" "kBlocksStart = 0x4600" "kIbAMap = 0x4400" "kPageSize = 512"
  by (simp_all add: layout_simps nbt_limits kBlocksStart_def)

lemma m5Layout_eq:
  assumes "sum_list (blockSizes blocks) < 2 ^ 60"
  shows "m5Layout blocks nodes =
    \<lparr>m5l_blockIbs = map (\<lambda>i. word_of_nat (0x4600 + sum_list (take i (blockSizes blocks)))) [0..<length blocks],
     m5l_bbtLeafIbs = map (\<lambda>i. word_of_nat (bbtStart blocks + i * 512)) [0..<bbtLeafCount blocks],
     m5l_bbtRootIb = word_of_nat (nbtStart blocks - 512),
     m5l_nbtLeafIbs = map (\<lambda>i. word_of_nat (nbtStart blocks + i * 512)) [0..<nbtLeafCount nodes],
     m5l_nbtRootIb = word_of_nat (m5Eof blocks nodes - 512),
     m5l_ibFileEof = word_of_nat (m5Eof blocks nodes)\<rparr>"
proof -
  let ?S = "sum_list (blockSizes blocks)" and ?nb = "bbtLeafCount blocks" and ?nn = "nbtLeafCount nodes"
  have s: "packFrom kBlocksStart (blockSizes blocks) =
      (map (\<lambda>i. word_of_nat (0x4600 + sum_list (take i (blockSizes blocks)))) [0..<length blocks], word_of_nat (0x4600 + ?S))"
    using packFrom_eq [of "0x4600" "blockSizes blocks"] by (simp add: writer_limits)
  have a: "alignUp (word_of_nat (0x4600 + ?S)) (word_of_nat 512) = word_of_nat (bbtStart blocks)"
    using assms alignUp_page [of "0x4600 + ?S", unfolded writer_limits(7)] by (simp add: bbtStart_def roundPage_def del: of_nat_add)
  have n: "0 < ?nb" "0 < ?nn" by (simp_all add: leavesFor_bounds)
  have hd: "hd (map f [0..<m]) = f 0" if "0 < m" for f :: "nat \<Rightarrow> u64" and m using that by (simp add: upt_conv_Cons)
  have p: "word_of_nat x + word_of_nat 512 = (word_of_nat (x + 512) :: u64)" for x by simp
  have root: "s + treeSize m * 512 - 512 = (if m > 1 then s + m * 512 else s + 0 * 512)"
    "s + treeSize m * 512 = (if m > 1 then s + m * 512 + 512 else s + m * 512)" if "0 < m" for s m
    using that by (auto simp: treeSize_def)
  have b: "(if ?nb > 1 then word_of_nat (bbtStart blocks + ?nb * 512) else word_of_nat (bbtStart blocks + 0 * 512)) = (word_of_nat (nbtStart blocks - 512) :: u64)"
    "(if ?nb > 1 then word_of_nat (bbtStart blocks + ?nb * 512 + 512) else word_of_nat (bbtStart blocks + ?nb * 512)) = (word_of_nat (nbtStart blocks) :: u64)"
    using root [OF n(1), of "bbtStart blocks", folded nbtStart_def] by (simp_all only: split: if_split) simp_all
  have c: "(if ?nn > 1 then word_of_nat (nbtStart blocks + ?nn * 512) else word_of_nat (nbtStart blocks + 0 * 512)) = (word_of_nat (m5Eof blocks nodes - 512) :: u64)"
    "(if ?nn > 1 then word_of_nat (nbtStart blocks + ?nn * 512 + 512) else word_of_nat (nbtStart blocks + ?nn * 512)) = (word_of_nat (m5Eof blocks nodes) :: u64)"
    using root [OF n(2), of "nbtStart blocks", folded m5Eof_def] by (simp_all only: split: if_split) simp_all
  show ?thesis
    unfolding m5Layout_def Let_def s prod.case a writer_limits(1,3,7) packFrom_pages p b hd [OF n(1)] hd [OF n(2)] c ..
qed

lemma takeBids_eq:
  "takeBids n (Bid v) = (map (\<lambda>i. Bid (v + word_of_nat (4 * i))) [0..<n], Bid (v + word_of_nat (4 * n)))"
proof (induction n arbitrary: v)
  case (Suc n)
  then show ?case
    by (simp only: takeBids.simps Bid.sel map_upt_Suc Let_def prod.case) (simp add: add.assoc)
qed simp

lemma perLeafOf_eq:
  assumes "length xs \<le> n * k" and "0 < k"
  shows "perLeafOf n k xs = map (\<lambda>i. take k (drop (i * k) xs)) [0..<n]"
proof -
  let ?f = "\<lambda>i ls. ls[i div k := ls ! (i div k) @ [xs ! i]]"
  have "fold ?f [0..<m] (replicate n []) = map (\<lambda>i. take k (drop (i * k) (take m xs))) [0..<n]" if "m \<le> length xs" for m
    using that
  proof (induction m)
    case 0
    then show ?case by (simp add: map_replicate_const)
  next
    case (Suc m)
    have q: "m div k < n" using Suc.prems assms by (simp add: div_less_iff_less_mult)
    have t: "take (Suc m) xs = take m xs @ [xs ! m]" using Suc.prems by (simp add: take_Suc_conv_app_nth)
    have step: "take k (drop (i * k) (take (Suc m) xs)) =
        (if i = m div k then take k (drop (i * k) (take m xs)) @ [xs ! m] else take k (drop (i * k) (take m xs)))" for i
    proof -
      have mm: "m = m div k * k + m mod k" "m mod k < k" using assms by simp_all
      consider "i < m div k" | "i = m div k" | "m div k < i" by linarith
      then show ?thesis
      proof cases
        case 1
        then have "(i + 1) * k \<le> m div k * k" by (intro mult_le_mono1) simp
        moreover have "(i + 1) * k = i * k + k" "m div k * k \<le> m" by simp_all
        ultimately have "i * k + k \<le> m" by linarith
        then have "k \<le> m - i * k" "i * k \<le> m" by linarith+
        then show ?thesis using 1 Suc.prems by (simp add: t)
      next
        case 2
        then have "i * k = m div k * k" by simp
        then have "i * k \<le> m" "m - i * k < k" using mm by linarith+
        then show ?thesis using 2 Suc.prems by (simp add: t)
      next
        case 3
        then have "(m div k + 1) * k \<le> i * k" by (intro mult_le_mono1) simp
        moreover have "(m div k + 1) * k = m div k * k + k" by simp
        ultimately have "m < i * k" using mm by linarith
        then show ?thesis using 3 Suc.prems by (simp add: t)
      qed
    qed
    have "fold ?f [0..<Suc m] (replicate n []) = ?f m (map (\<lambda>i. take k (drop (i * k) (take m xs))) [0..<n])"
      using Suc by simp
    also have "\<dots> = map (\<lambda>i. take k (drop (i * k) (take (Suc m) xs))) [0..<n]"
      using q by (intro nth_equalityI) (auto simp: nth_list_update step)
    finally show ?case .
  qed
  from this [of "length xs"] show ?thesis by (simp add: perLeafOf_def)
qed

section \<open>The node B-tree of \<open>writeM5Pst\<close>\<close>

definition m5NbtRefs :: "M5Layout \<Rightarrow> M5PageBids \<Rightarrow> NbtTreeInputBids" where
  "m5NbtRefs L B =
     \<lparr>nti_leafBrefs = map (\<lambda>i. mkBref (m5p_nbtLeafBids B ! i) (Ib (m5l_nbtLeafIbs L ! i))) [0..<length (m5p_nbtLeafBids B)],
      nti_intermediateBref = mkBref (m5p_nbtRootBid B) (Ib (m5l_nbtRootIb L))\<rparr>"

definition m5TreePages :: "NbtTreeOutput \<Rightarrow> bytes list \<times> bytes" where
  "m5TreePages out = (nto_leafPages out, if nto_hasIntermediate out then nto_intermediatePage out else hd (nto_leafPages out))"

lemma m5NbtPages_tree:
  assumes n: "length nodes \<le> 300" and B: "length (m5p_nbtLeafBids B) = nbtLeafCount nodes"
  shows "m5NbtPages nodes L B = bind_r (buildNbtTree (m5NbtEntries nodes) (m5NbtRefs L B)) (\<lambda>out. Inr (m5TreePages out))"
proof -
  let ?S = "sortNbt (m5NbtEntries nodes)" and ?n = "nbtLeafCount nodes"
  have S: "length ?S = length nodes" by (simp add: m5NbtEntries_def)
  have pl: "perLeafOf ?n 15 ?S = map (leafEntries ?S) [0..<?n]"
    using leavesFor_bounds(3) [of 15 "length nodes"] S by (subst perLeafOf_eq) (simp_all add: leafEntries_eq m5NbtEntries_def)
  have n20: "?n \<le> 20" using leavesFor_bounds(2) [of 15 "length nodes" 20] n by simp
  show ?thesis
  proof (cases "nodes = []")
    case True
    then have "?S = []" "?n = 1" by (simp_all add: m5NbtEntries_def leavesFor_def)
    then show ?thesis
      using True B
      by (simp add: m5NbtPages_def Let_def writer_limits pl buildNbtTree_def m5NbtRefs_def m5TreePages_def leafEntries_eq
          m5NbtEntries_def bind_r_assoc mkBref_def perLeafOf_def)
  next
    case False
    then have ne: "?S \<noteq> []" using S by (metis length_0_conv)
    have nn: "?n = (length ?S + 15 - 1) div 15" unfolding S using False by (simp add: leavesFor_def)
    have full: "leafEntries ?S i \<noteq> []" "hd (leafEntries ?S i) = ?S ! (i * 15)" if "i < ?n" for i
    proof -
      have "i * 15 < length ?S" using that unfolding nn by simp
      then show "leafEntries ?S i \<noteq> []" "hd (leafEntries ?S i) = ?S ! (i * 15)"
        unfolding leafEntries_eq by (simp_all add: hd_drop_conv_nth)
    qed
    let ?refs = "nti_leafBrefs (m5NbtRefs L B)"
    have el: "elemAt ?refs i = Inr (mkBref (m5p_nbtLeafBids B ! i) (Ib (m5l_nbtLeafIbs L ! i)))" if "i < ?n" for i
      using that B by (simp add: m5NbtRefs_def)
    have leaves: "mapM_r (\<lambda>i. buildNbtLeaf (map (leafEntries ?S) [0..<?n] ! i) (m5p_nbtLeafBids B ! i) (Ib (m5l_nbtLeafIbs L ! i))) [0..<?n]
        = mapM_r (\<lambda>li. bind_r (elemAt ?refs li) (\<lambda>br. buildNbtLeaf (leafEntries ?S li) (bref_bid br) (bref_ib br))) [0..<?n]"
      by (rule mapM_r_cong) (simp_all add: el mkBref_def)
    let ?node = "\<lambda>i. \<lparr>bt_btkey = ucast (nid_value (nbt_nid (?S ! (i * 15)))), bt_bref = mkBref (m5p_nbtLeafBids B ! i) (Ib (m5l_nbtLeafIbs L ! i))\<rparr>"
    have nodes: "mapM_r (\<lambda>li. bind_r (elemAt ?refs li) (\<lambda>br.
        Inr \<lparr>bt_btkey = ucast (nid_value (nbt_nid (?S ! (li * 15)))), bt_bref = br\<rparr>)) [0..<?n] = Inr (map ?node [0..<?n])"
      by (rule mapM_r_Inr) (simp add: el)
    have "map (\<lambda>i. if map (leafEntries ?S) [0..<?n] ! i = [] then []
        else [\<lparr>bt_btkey = ucast (nid_value (nbt_nid (hd (map (leafEntries ?S) [0..<?n] ! i)))),
               bt_bref = mkBref (m5p_nbtLeafBids B ! i) (Ib (m5l_nbtLeafIbs L ! i))\<rparr>]) [0..<?n]
        = map (\<lambda>i. [?node i]) [0..<?n]"
      using full by (intro map_cong) simp_all
    then have inner: "concat (map (\<lambda>i. if map (leafEntries ?S) [0..<?n] ! i = [] then []
        else [\<lparr>bt_btkey = ucast (nid_value (nbt_nid (hd (map (leafEntries ?S) [0..<?n] ! i)))),
               bt_bref = mkBref (m5p_nbtLeafBids B ! i) (Ib (m5l_nbtLeafIbs L ! i))\<rparr>]) [0..<?n])
        = map ?node [0..<?n]"
      by (simp only: concat_map_singleton)
    have el0: "elemAt ?refs 0 = Inr (?refs ! 0)" using leavesFor_bounds(1) [of 15 "length nodes"] B by (intro elemAt_in) (simp add: m5NbtRefs_def)
    have root: "bref_bid (nti_intermediateBref (m5NbtRefs L B)) = m5p_nbtRootBid B"
      "bref_ib (nti_intermediateBref (m5NbtRefs L B)) = Ib (m5l_nbtRootIb L)" by (simp_all add: m5NbtRefs_def mkBref_def)
    have pos: "0 < ?n" by (rule leavesFor_bounds(1)) simp
    show ?thesis
      unfolding m5NbtPages_def buildNbtTree_def Let_def writer_limits B pl leaves inner nn [symmetric] nodes root
      using ne n20 pos by (auto simp: m5TreePages_def el0 bind_r_assoc nodes intro!: bind_r_cong)
  qed
qed

section \<open>The file of \<open>writeM5Pst\<close>\<close>

abbreviation m5L :: "M5DataBlockSpec list \<Rightarrow> M5Node list \<Rightarrow> M5Layout" where
  "m5L \<equiv> m5Layout"

abbreviation m5B :: "M5DataBlockSpec list \<Rightarrow> M5Node list \<Rightarrow> M5PageBids" where
  "m5B blocks nodes \<equiv> m5PageBids (bbtLeafCount blocks) (nbtLeafCount nodes)"

definition m5Image :: "M5DataBlockSpec list \<Rightarrow> M5Node list \<Rightarrow> bytes list \<times> bytes \<Rightarrow> bytes" where
  "m5Image blocks nodes nbt =
     (let L = m5L blocks nodes; B = m5B blocks nodes; (bbtLeaves, bbtRoot) = m5BbtPages blocks L B
      in m5Header blocks L B @ zeros (0x4400 - 564) @ buildAMap (Ib kIbAMap) (m5l_ibFileEof L)
         @ concat (map m5b_encodedBlock blocks)
         @ zeros (bbtStart blocks - (0x4600 + sum_list (blockSizes blocks)))
         @ (if length bbtLeaves > 1 then concat bbtLeaves else []) @ bbtRoot
         @ (if length (fst nbt) > 1 then concat (fst nbt) else []) @ snd nbt)"

lemma length_headerState [simp]: "length (ws_rgnid (headerState a b c d e)) = 32"
proof -
  have "length (fold (\<lambda>t r. r[t := g t]) ts r) = length r" for g ts and r :: "u32 list"
    by (induction ts arbitrary: r) simp_all
  then show ?thesis by (simp add: headerState_def populateFreshRgnid_def defaultWriterState_def)
qed

lemma length_m5Header: "length (m5Header blocks L B) = 564"
  by (simp add: m5Header_def length_serializeHeader)

lemma length_amap: "length (buildAMap (Ib kIbAMap) eof) = 512"
  using buildAMap_pageOk [of "Ib kIbAMap" eof] by (simp add: pageOk_def writer_limits)

lemma bbtLeavesOf_length:
  "length (fst (bbtLeavesOf srt bids ibs)) = length bids"
  "i < length bids \<Longrightarrow> length (fst (bbtLeavesOf srt bids ibs) ! i) = 512"
  using buildBbtLeaf_ok by (auto simp: bbtLeavesOf_def Let_def dest: btPageOk_length)

lemma m5PageBids_lengths:
  "length (m5p_bbtLeafBids (m5PageBids n m)) = n" "length (m5p_nbtLeafBids (m5PageBids n m)) = m"
  by (simp_all add: m5PageBids_def makeInternal_def takeBids_eq)

lemma m5BbtPages_length:
  assumes "fst (m5BbtPages blocks L B) = pages" and "snd (m5BbtPages blocks L B) = root" and "0 < length (m5p_bbtLeafBids B)"
  shows "length pages = length (m5p_bbtLeafBids B)" "\<And>i. i < length pages \<Longrightarrow> length (pages ! i) = 512" "length root = 512"
proof -
  let ?E = "sortBbt (map (\<lambda>i. bbtEntryOf (m5b_bid (blocks ! i)) (m5l_blockIbs L ! i) (m5b_cb (blocks ! i))) [0..<length blocks])"
  let ?p = "bbtLeavesOf ?E (m5p_bbtLeafBids B) (m5l_bbtLeafIbs L)"
  have e: "m5BbtPages blocks L B = (fst ?p, if length (m5p_bbtLeafBids B) > 1
      then buildBbtIntermediate (snd ?p) 1 (m5p_bbtRootBid B) (Ib (m5l_bbtRootIb L)) else hd (fst ?p))"
    by (simp add: m5BbtPages_def Let_def split: prod.split)
  show p: "length pages = length (m5p_bbtLeafBids B)" "\<And>i. i < length pages \<Longrightarrow> length (pages ! i) = 512"
    using assms(1) bbtLeavesOf_length by (auto simp: e)
  have "pages \<noteq> []" using p(1) assms(3) by auto
  then have "length (hd pages) = 512" using p(2) [of 0] by (simp add: hd_conv_nth)
  then show "length root = 512"
    using assms(1,2) buildBbtIntermediate_ok [THEN btPageOk_length] by (auto simp: e)
qed

definition m5Body :: "Io \<Rightarrow> M5DataBlockSpec list \<Rightarrow> M5Node list \<Rightarrow> bytes list \<times> bytes \<Rightarrow> OutState \<Rightarrow> OutState" where
  "m5Body io blocks nodes nbt st =
     (let L = m5L blocks nodes; B = m5B blocks nodes; bbt = m5BbtPages blocks L B;
          st = emit io (m5Header blocks L B) st;
          st = padTo io kIbAMap st;
          st = emit io (buildAMap (Ib kIbAMap) (m5l_ibFileEof L)) st;
          st = padTo io kBlocksStart st;
          st = fold (emit io) (map m5b_encodedBlock blocks) st;
          st = emitPages io (m5l_bbtLeafIbs L) (fst bbt) st;
          st = padTo io (m5l_bbtRootIb L) st;
          st = emit io (snd bbt) st;
          st = emitPages io (m5l_nbtLeafIbs L) (fst nbt) st;
          st = padTo io (m5l_nbtRootIb L) st
      in emit io (snd nbt) st)"

lemma writeM5Pst_unfold:
  assumes "length blocks \<le> 400" and "length nodes \<le> 300"
    and "m5NbtPages nodes (m5L blocks nodes) (m5B blocks nodes) = Inr nbt"
  shows "writeM5Pst io blocks nodes = Inr (writeFile io (m5Body io blocks nodes nbt))"
  using assms unfolding writeM5Pst_def Let_def m5Body_def writer_limits
  by (simp add: split_beta)

text \<open>A tree of pages of 512 bytes, one per leaf.\<close>

definition pagesFit :: "nat \<Rightarrow> bytes list \<times> bytes \<Rightarrow> bool" where
  "pagesFit n t \<longleftrightarrow> length (fst t) = n \<and> (\<forall>i < n. length (fst t ! i) = 512) \<and> length (snd t) = 512"

lemma m5Bbt_fit: "pagesFit (bbtLeafCount blocks) (m5BbtPages blocks L (m5B blocks nodes))"
  using m5BbtPages_length [OF refl refl, where B = "m5B blocks nodes"] leavesFor_bounds(1) [of 20 "length blocks"]
  by (simp add: pagesFit_def m5PageBids_lengths)

lemma leafCount_le: "max 1 (leafCountOf n) \<le> leavesFor n 15"
  using leavesFor_bounds(1) [of 15 n] by (cases "n = 0") (simp_all add: leavesFor_def leafCountOf_def)

lemma m5Nbt_tree:
  assumes "length nodes \<le> 300"
  obtains out where "m5NbtPages nodes (m5L blocks nodes) (m5B blocks nodes) = Inr (m5TreePages out)"
    and "treeOk (sortNbt (m5NbtEntries nodes)) (m5NbtRefs (m5L blocks nodes) (m5B blocks nodes)) out"
proof -
  let ?refs = "m5NbtRefs (m5L blocks nodes) (m5B blocks nodes)"
  have "max 1 (leafCountOf (length (m5NbtEntries nodes))) \<le> length (nti_leafBrefs ?refs)"
    using leafCount_le [of "length nodes"] by (simp add: m5NbtRefs_def m5PageBids_lengths m5NbtEntries_def)
  then obtain out where "buildNbtTree (m5NbtEntries nodes) ?refs = Inr out" "treeOk (sortNbt (m5NbtEntries nodes)) ?refs out"
    using buildNbtTree_ok [of "m5NbtEntries nodes" ?refs] assms by (auto simp: m5NbtEntries_def)
  then show ?thesis
    using that m5NbtPages_tree [OF assms, of "m5B blocks nodes" "m5L blocks nodes"] by (simp add: m5PageBids_lengths)
qed

lemma leafCount_cases: "n \<le> 15 \<longleftrightarrow> leavesFor n 15 = 1" "15 < n \<Longrightarrow> leavesFor n 15 = leafCountOf n"
proof -
  have "leavesFor n 15 \<le> 1" if "n \<le> 15" using leavesFor_bounds(2) [of 15 n 1] that by simp
  then show "n \<le> 15 \<longleftrightarrow> leavesFor n 15 = 1"
    using leavesFor_bounds(1) [of 15 n] leavesFor_bounds(3) [of 15 n] by force
  show "leavesFor n 15 = leafCountOf n" if "15 < n" using that by (simp add: leavesFor_def leafCountOf_def)
qed

lemma tree_fit:
  assumes "treeOk S bids out" and "length S = length nodes"
  shows "pagesFit (nbtLeafCount nodes) (m5TreePages out)" "nto_hasIntermediate out \<longleftrightarrow> nbtLeafCount nodes > 1"
    "length (nto_leafPages out) = nbtLeafCount nodes"
proof -
  let ?k = "nbtLeafCount nodes" and ?lp = "nto_leafPages out"
  have k: "0 < ?k" "?k = 1 \<longleftrightarrow> length nodes \<le> 15" using leavesFor_bounds(1) [of 15 "length nodes"] leafCount_cases by auto
  have all: "length ?lp = ?k \<and> (nto_hasIntermediate out \<longleftrightarrow> ?k > 1) \<and> (\<forall>i < ?k. length (?lp ! i) = 512)
    \<and> (?k > 1 \<longrightarrow> length (nto_intermediatePage out) = 512)"
  proof (cases "length nodes \<le> 15")
    case True
    then show ?thesis using assms k by (auto simp: treeOk_def Let_def nbtLeafPage_def dest: btPageOk_length)
  next
    case False
    then have "?k > 1" using k by linarith
    have "?k = leafCountOf (length nodes)" using leafCount_cases(2) [of "length nodes"] False by simp
    then show ?thesis using assms False \<open>?k > 1\<close> by (auto simp: treeOk_def Let_def nbtLeafPage_def nbtNodePage_def dest: btPageOk_length)
  qed
  then show "nto_hasIntermediate out \<longleftrightarrow> ?k > 1" "length ?lp = ?k" by simp_all
  have "hd ?lp = ?lp ! 0" using all k by (intro hd_conv_nth) auto
  then show "pagesFit ?k (m5TreePages out)" using all k by (auto simp: pagesFit_def m5TreePages_def)
qed

lemma emitFitted_rel:
  assumes "outRel st P" and "pagesFit n t" and "length P \<le> base" and "base + n * 512 + 512 < 2 ^ 64"
    and "ibs = map (\<lambda>i. word_of_nat (base + i * 512)) [0..<n]"
    and "rootIb = word_of_nat (base + treeSize n * 512 - 512)" and "0 < n"
  shows "outRel (emit io (snd t) (padTo io rootIb (emitPages io ibs (fst t) st)))
    (P @ zeros (base - length P) @ (if length (fst t) > 1 then concat (fst t) else []) @ snd t)"
proof -
  have u: "unat (word_of_nat x :: u64) = x" if "x < 2 ^ 64" for x
    using that by (simp add: unat_of_nat)
  have i: "base + i * 512 < 2 ^ 64" if "i < n" for i
    using that assms(4) mult_le_mono1 [of i n 512] by linarith
  have r: "base + treeSize n * 512 - 512 = base + (if n > 1 then n * 512 else 0)"
    using assms(7) by (auto simp: treeSize_def)
  have "unat (word_of_nat (base + treeSize n * 512 - 512) :: u64) = base + (if n > 1 then n * 512 else 0)"
    unfolding r using assms(4) by (intro u) simp
  moreover have "unat (ibs ! k) = base + k * 512" if "k < n" for k
    using u [OF i [OF that]] that by (simp add: assms(5) del: of_nat_add)
  ultimately show ?thesis
    using assms by (intro emitTree_rel) (auto simp: pagesFit_def)
qed

lemma m5_sizes:
  assumes "length blocks \<le> 400" and "length nodes \<le> 300" and "sum_list (blockSizes blocks) < 2 ^ 60"
  shows "0x4600 + sum_list (blockSizes blocks) \<le> bbtStart blocks" "bbtStart blocks + bbtLeafCount blocks * 512 + 512 < 2 ^ 63"
    "nbtStart blocks + nbtLeafCount nodes * 512 + 512 < 2 ^ 63" "m5Eof blocks nodes < 2 ^ 63" "0 < bbtLeafCount blocks"
    "0 < nbtLeafCount nodes"
proof -
  have n: "bbtLeafCount blocks \<le> 20" "nbtLeafCount nodes \<le> 20"
    using leavesFor_bounds(2) [of 20 "length blocks" 20] leavesFor_bounds(2) [of 15 "length nodes" 20] assms by simp_all
  have t: "treeSize (bbtLeafCount blocks) \<le> 21" "treeSize (nbtLeafCount nodes) \<le> 21"
    using n by (auto simp: treeSize_def)
  note b = roundPage_bounds [of "0x4600 + sum_list (blockSizes blocks)", folded bbtStart_def]
  have c: "bbtStart blocks < 2 ^ 60 + 0x4800" using b(2) assms(3) by linarith
  have d: "nbtStart blocks < 2 ^ 60 + 0x8000" using c t(1) unfolding nbtStart_def by linarith
  show "0x4600 + sum_list (blockSizes blocks) \<le> bbtStart blocks" by (rule b(1))
  show "bbtStart blocks + bbtLeafCount blocks * 512 + 512 < 2 ^ 63" using c n by simp
  show "nbtStart blocks + nbtLeafCount nodes * 512 + 512 < 2 ^ 63" using d n by simp
  show "m5Eof blocks nodes < 2 ^ 63" using d t(2) unfolding m5Eof_def by simp
  show "0 < bbtLeafCount blocks" "0 < nbtLeafCount nodes" by (simp_all add: leavesFor_bounds)
qed

text \<open>The bytes before the tree of the nodes, and its length.\<close>

lemma length_tree: "pagesFit n t \<Longrightarrow> 0 < n \<Longrightarrow>
  length ((if length (fst t) > 1 then concat (fst t) else []) @ snd t) = treeSize n * 512"
proof -
  assume t: "pagesFit n t" "0 < n"
  then have "length x = 512" if "x \<in> set (fst t)" for x using that by (auto simp: pagesFit_def in_set_conv_nth)
  then have "length (concat (fst t)) = n * 512" using t length_concat_const [of "fst t" "\<lambda>x. x" 512] by (simp add: pagesFit_def)
  then show ?thesis using t by (auto simp: pagesFit_def treeSize_def)
qed

lemma length_blocks: "length (concat (map m5b_encodedBlock blocks)) = sum_list (blockSizes blocks)"
  by (simp add: length_concat comp_def)

lemma m5Body_rel:
  assumes lim: "length blocks \<le> 400" "length nodes \<le> 300" "sum_list (blockSizes blocks) < 2 ^ 60"
    and nbt: "pagesFit (nbtLeafCount nodes) nbt"
  shows "outRel (m5Body io blocks nodes nbt \<lparr>os_ok = True, os_writtenIb = 0, os_file = [], os_calls = 0\<rparr>) (m5Image blocks nodes nbt)"
    and "length (m5Image blocks nodes nbt) = m5Eof blocks nodes"
proof -
  let ?L = "m5L blocks nodes" and ?B = "m5B blocks nodes"
  define bbt where "bbt = m5BbtPages blocks ?L ?B"
  let ?t = "\<lambda>t. (if length (fst t) > 1 then concat (fst t) else []) @ snd t"
  let ?Z = "zeros (bbtStart blocks - (0x4600 + sum_list (blockSizes blocks)))"
  note sz = m5_sizes [OF lim] and L = m5Layout_eq [OF lim(3), of nodes]
  have bf: "pagesFit (bbtLeafCount blocks) bbt" unfolding bbt_def by (rule m5Bbt_fit)
  let ?init = "\<lparr>os_ok = True, os_writtenIb = 0, os_file = [], os_calls = 0\<rparr>"
  let ?H = "m5Header blocks ?L ?B" and ?A = "buildAMap (Ib kIbAMap) (m5l_ibFileEof ?L)" and ?C = "concat (map m5b_encodedBlock blocks)"
  define P1 where "P1 = ?H @ zeros (0x4400 - 564) @ ?A"
  define P2 where "P2 = P1 @ ?C"
  define P3 where "P3 = P2 @ ?Z @ ?t bbt"
  have l1: "length P1 = 0x4600" by (simp add: P1_def length_m5Header length_amap)
  have l2: "length P2 = 0x4600 + sum_list (blockSizes blocks)" by (simp add: P2_def l1 length_blocks)
  have l3: "length P3 = nbtStart blocks"
    using sz(1) length_tree [OF bf sz(5)] by (simp add: P3_def l2 nbtStart_def)
  have img: "m5Image blocks nodes nbt = P3 @ ?t nbt"
    by (simp add: m5Image_def Let_def P3_def P2_def P1_def bbt_def split: prod.split)
  then show "length (m5Image blocks nodes nbt) = m5Eof blocks nodes"
    using length_tree [OF nbt sz(6)] by (simp add: l3 m5Eof_def)
  define s1 where "s1 = padTo io kBlocksStart (emit io ?A (padTo io kIbAMap (emit io ?H ?init)))"
  have "outRel (emit io ?H ?init) ([] @ ?H)"
    by (rule emit_rel [OF outRel_init]) (simp add: length_m5Header)
  then have "outRel (padTo io kIbAMap (emit io ?H ?init)) (?H @ zeros (0x4400 - 564))"
    using padTo_rel [where io = io and t = kIbAMap] by (fastforce simp: length_m5Header writer_limits)
  then have "outRel (emit io ?A (padTo io kIbAMap (emit io ?H ?init))) ((?H @ zeros (0x4400 - 564)) @ ?A)"
    by (rule emit_rel) (simp add: length_m5Header length_amap)
  then have r1: "outRel s1 P1"
    using padTo_rel [where io = io and t = kBlocksStart and P = P1] l1
    by (fastforce simp: s1_def P1_def writer_limits zeros_def)
  have r2: "outRel (fold (emit io) (map m5b_encodedBlock blocks) s1) P2"
    unfolding P2_def using emits_rel [OF r1] lim(3) l1 by (simp add: length_blocks)
  let ?s2 = "fold (emit io) (map m5b_encodedBlock blocks) s1"
  define s3 where "s3 = emit io (snd bbt) (padTo io (m5l_bbtRootIb ?L) (emitPages io (m5l_bbtLeafIbs ?L) (fst bbt) ?s2))"
  have r3: "outRel s3 P3"
    unfolding s3_def P3_def l2 [symmetric]
    by (rule emitFitted_rel [OF r2 bf]) (use sz in \<open>simp_all add: l2 L nbtStart_def\<close>)
  have "outRel (emit io (snd nbt) (padTo io (m5l_nbtRootIb ?L) (emitPages io (m5l_nbtLeafIbs ?L) (fst nbt) s3)))
      (P3 @ zeros (nbtStart blocks - length P3) @ ?t nbt)"
    by (rule emitFitted_rel [OF r3 nbt]) (use sz in \<open>simp_all add: l3 L m5Eof_def\<close>)
  then show "outRel (m5Body io blocks nodes nbt ?init) (m5Image blocks nodes nbt)"
    by (simp add: m5Body_def Let_def img l3 s3_def s1_def bbt_def zeros_def)
qed

section \<open>Reading the file back\<close>

lemma pageAt_tree:
  assumes "pagesFit n t" and "i < n" and "n > 1"
  shows "slice (length P + i * 512) 512 (P @ (if length (fst t) > 1 then concat (fst t) else []) @ snd t) = fst t ! i"
proof -
  have l: "length (fst t) = n" "length (concat (fst t)) = n * 512" "\<And>x. x \<in> set (fst t) \<Longrightarrow> length x = 512"
    using assms(1) length_concat_const [of "fst t" "\<lambda>x. x" 512] by (auto simp: pagesFit_def in_set_conv_nth)
  have "i * 512 + 512 \<le> n * 512" using assms(2) by (rule entry_room)
  then have "slice (length P + i * 512) 512 (P @ concat (fst t) @ snd t) = slice (i * 512) 512 (concat (fst t))"
    using l by (simp add: slice_append_right slice_append_left)
  also have "\<dots> = fst t ! i" using slice_concat_const [of "fst t" "\<lambda>x. x" 512 i] l assms(2) by simp
  finally show ?thesis using assms(3) l by simp
qed

lemma pageAt_root:
  assumes "pagesFit n t" and "0 < n"
  shows "slice (length P + treeSize n * 512 - 512) 512 (P @ (if length (fst t) > 1 then concat (fst t) else []) @ snd t) = snd t"
proof -
  let ?C = "if length (fst t) > 1 then concat (fst t) else []"
  have l: "length ?C + 512 = treeSize n * 512" "length (snd t) = 512"
    using length_tree [OF assms] assms(1) by (simp_all add: pagesFit_def)
  then have "length P + treeSize n * 512 - 512 = length (P @ ?C)" by simp
  then show ?thesis using slice_append_right [of "P @ ?C" "length (P @ ?C)" 512 "snd t"] l(2) by (simp add: slice_full [of "snd t", unfolded l])
qed

lemma m5RootBref:
  assumes "sum_list (blockSizes blocks) < 2 ^ 60" and "treeOk (sortNbt (m5NbtEntries nodes)) (m5NbtRefs (m5L blocks nodes) (m5B blocks nodes)) out"
  shows "nto_rootBref out = mkBref (m5p_nbtRootBid (m5B blocks nodes)) (Ib (m5l_nbtRootIb (m5L blocks nodes)))"
proof -
  have e: "length (sortNbt (m5NbtEntries nodes)) = length nodes" by (simp add: m5NbtEntries_def)
  have n: "0 < nbtLeafCount nodes" by (simp add: leavesFor_bounds)
  show ?thesis
  proof (cases "length nodes \<le> 15")
    case True
    then have "nbtLeafCount nodes = 1" using leafCount_cases by blast
    then show ?thesis
      using assms True e
      by (simp add: treeOk_def Let_def m5NbtRefs_def m5PageBids_lengths m5Layout_eq m5Eof_def treeSize_def)
        (simp add: m5PageBids_def makeInternal_def takeBids_eq Let_def)
  next
    case False
    then show ?thesis using assms(2) e by (simp add: treeOk_def Let_def m5NbtRefs_def)
  qed
qed

lemma m5_placed:
  assumes lim: "length blocks \<le> 400" "length nodes \<le> 300" "sum_list (blockSizes blocks) < 2 ^ 60"
    and ok: "treeOk (sortNbt (m5NbtEntries nodes)) (m5NbtRefs (m5L blocks nodes) (m5B blocks nodes)) out"
  shows "treePlaced (m5NbtRefs (m5L blocks nodes) (m5B blocks nodes)) out (m5Image blocks nodes (m5TreePages out))"
proof -
  let ?L = "m5L blocks nodes" and ?B = "m5B blocks nodes" and ?n = "nbtLeafCount nodes"
  let ?nbt = "m5TreePages out" and ?bbt = "m5BbtPages blocks (m5L blocks nodes) (m5B blocks nodes)"
  let ?t = "\<lambda>t. (if length (fst t) > 1 then concat (fst t) else []) @ snd t"
  define P where "P = m5Header blocks ?L ?B @ zeros (0x4400 - 564) @ buildAMap (Ib kIbAMap) (m5l_ibFileEof ?L)
     @ concat (map m5b_encodedBlock blocks) @ zeros (bbtStart blocks - (0x4600 + sum_list (blockSizes blocks))) @ ?t ?bbt"
  note sz = m5_sizes [OF lim] and L = m5Layout_eq [OF lim(3), of nodes]
  have fit: "pagesFit ?n ?nbt" "nto_hasIntermediate out \<longleftrightarrow> ?n > 1" "length (nto_leafPages out) = ?n"
    using tree_fit [OF ok] by (simp_all add: m5NbtEntries_def)
  have img: "m5Image blocks nodes ?nbt = P @ ?t ?nbt"
    by (simp add: m5Image_def Let_def P_def split: prod.split)
  have lP: "length P = nbtStart blocks"
    using m5Body_rel(2) [OF lim fit(1)] length_tree [OF fit(1) sz(6)] unfolding img by (simp add: m5Eof_def)
  have len: "length (m5Image blocks nodes ?nbt) < 2 ^ 64" using m5Body_rel(2) [OF lim fit(1)] sz(4) by simp
  have leafIb: "unat (m5l_nbtLeafIbs ?L ! i) = nbtStart blocks + i * 512" if "i < ?n" for i
  proof -
    have "nbtStart blocks + i * 512 < 2 ^ 63" using sz(3) mult_le_mono1 [OF less_imp_le [OF that], of 512] by linarith
    then show ?thesis using that by (simp add: L unat_of_nat del: of_nat_add)
  qed
  have rootIb: "unat (m5l_nbtRootIb ?L) = nbtStart blocks + treeSize ?n * 512 - 512"
    using sz(4) by (simp add: L m5Eof_def unat_of_nat)
  have root: "slice (nbtStart blocks + treeSize ?n * 512 - 512) 512 (m5Image blocks nodes ?nbt) = snd ?nbt"
    unfolding img lP [symmetric] by (rule pageAt_root [OF fit(1) sz(6)])
  have leaf: "slice (nbtStart blocks + i * 512) 512 (m5Image blocks nodes ?nbt) = nto_leafPages out ! i" if "i < ?n" for i
  proof (cases "?n > 1")
    case True
    then show ?thesis unfolding img lP [symmetric] using pageAt_tree [OF fit(1) that True] by (simp add: m5TreePages_def)
  next
    case False
    then have "?n = 1" "i = 0" "nto_leafPages out \<noteq> []" using that fit(3) by auto
    then show ?thesis using root fit(2) by (simp add: m5TreePages_def treeSize_def hd_conv_nth)
  qed
  have pos: "0 < nbtStart blocks" using sz(1) by (simp add: nbtStart_def)
  show ?thesis
    unfolding treePlaced_def pageAt_def fit(3)
  proof (intro conjI allI impI)
    fix i assume i: "i < ?n"
    then have r: "nti_leafBrefs (m5NbtRefs ?L ?B) ! i = mkBref (m5p_nbtLeafBids ?B ! i) (Ib (m5l_nbtLeafIbs ?L ! i))"
      by (simp add: m5NbtRefs_def m5PageBids_lengths)
    show "slice (unat (ib_value (bref_ib (nti_leafBrefs (m5NbtRefs ?L ?B) ! i)))) 512 (m5Image blocks nodes ?nbt) = nto_leafPages out ! i"
      unfolding r using leaf [OF i] leafIb [OF i] by (simp add: mkBref_def)
    show "nti_leafBrefs (m5NbtRefs ?L ?B) ! i \<noteq> mkBref (Bid 0) (Ib 0)"
      unfolding r using leafIb [OF i] pos by (auto simp: mkBref_def)
  next
    assume "nto_hasIntermediate out"
    then show "slice (unat (ib_value (bref_ib (nti_intermediateBref (m5NbtRefs ?L ?B))))) 512 (m5Image blocks nodes ?nbt) = nto_intermediatePage out"
      using root rootIb by (simp add: m5NbtRefs_def mkBref_def m5TreePages_def)
  qed (use len in simp_all)
qed

lemma m5Image_header: "off + n \<le> 564 \<Longrightarrow> slice off n (m5Image blocks nodes nbt) = slice off n (m5Header blocks (m5L blocks nodes) (m5B blocks nodes))"
  by (simp add: m5Image_def Let_def slice_append_left length_m5Header split: prod.split)

lemma m5Image_block:
  assumes "i < length blocks"
  shows "slice (0x4600 + sum_list (take i (blockSizes blocks))) (length (m5b_encodedBlock (blocks ! i))) (m5Image blocks nodes nbt)
    = m5b_encodedBlock (blocks ! i)"
proof -
  let ?L = "m5L blocks nodes" and ?B = "m5B blocks nodes" and ?as = "map m5b_encodedBlock blocks"
  define P where "P = m5Header blocks ?L ?B @ zeros (0x4400 - 564) @ buildAMap (Ib kIbAMap) (m5l_ibFileEof ?L)"
  have l: "length P = 0x4600" by (simp add: P_def length_m5Header length_amap)
  obtain lv rt where "m5BbtPages blocks ?L ?B = (lv, rt)" by fastforce
  then have "\<exists>rest. m5Image blocks nodes nbt = P @ concat ?as @ rest" by (simp add: m5Image_def Let_def P_def)
  then obtain rest where img: "m5Image blocks nodes nbt = P @ concat ?as @ rest" by blast
  have t: "sum_list (take i (blockSizes blocks)) = length (concat (take i ?as))"
    by (simp add: length_concat take_map comp_def)
  have "slice (length (concat (take i ?as))) (length (?as ! i)) (concat ?as @ rest) = ?as ! i"
  proof -
    have "slice (length (concat (take i ?as))) (length (?as ! i)) (concat ?as) = ?as ! i"
      using assms by (intro slice_concat_nth) simp
    moreover have "length (concat (take i ?as)) + length (?as ! i) \<le> length (concat ?as)"
      using assms take_length_le [of "Suc i" ?as] by (simp add: take_Suc_conv_app_nth)
    ultimately show ?thesis by (simp only: slice_append_left)
  qed
  then show ?thesis
    using assms slice_append_right [of P "0x4600 + length (concat (take i ?as))"] by (simp add: img t l)
qed

definition m5Record :: "M5Node \<Rightarrow> NbtRecord" where
  "m5Record n = \<lparr>rec_nid = m5n_nid n, rec_bidData = m5n_bidData n, rec_bidSub = m5n_bidSub n, rec_nidParent = m5n_nidParent n\<rparr>"

lemma find_m5: "map_option recOf (List.find (\<lambda>e. nbt_nid e = t) (m5NbtEntries nodes)) = map_option m5Record (List.find (\<lambda>n. m5n_nid n = t) nodes)"
  by (induction nodes) (simp_all add: m5NbtEntries_def recOf_def m5Record_def)

lemma header_u64:
  assumes "\<And>off n. off + n \<le> 564 \<Longrightarrow> slice off n f = slice off n (serializeHeader st)" and "564 \<le> length f"
    and "(off, le64 v) \<in> set (headerStores st)" and "length (ws_rgnid st) = 32" and "8 \<le> off" and "off + 8 \<le> 0x20C"
  shows "readU64 f off = v"
  using assms(1) [of off 8] assms(2,5,6) slice_header_field [OF assms(3,4), of 8] by (intro readU64_eq) simp_all

lemma m5Header_reads:
  assumes "\<And>off n. off + n \<le> 564 \<Longrightarrow> slice off n f = slice off n (m5Header blocks L B)" and "564 \<le> length f"
  shows "readU64 f hdr_kIbFileEof = m5l_ibFileEof L" "readU64 f hdr_kBrefNbtBid = bid_value (m5p_nbtRootBid B)"
    "readU64 f hdr_kBrefNbtIb = m5l_nbtRootIb L" "readU64 f hdr_kBrefBbtBid = bid_value (m5p_bbtRootBid B)"
    "readU64 f hdr_kBrefBbtIb = m5l_bbtRootIb L"
  unfolding layout_simps
  by (rule header_u64 [OF assms [unfolded m5Header_def] _ length_headerState];
      simp add: headerStores_def Let_def headerState_def populateFreshRgnid_def mkBref_def)+

section \<open>The block B-tree of the file\<close>

definition m5BbtEntries :: "M5DataBlockSpec list \<Rightarrow> M5Layout \<Rightarrow> BbtEntry list" where
  "m5BbtEntries blocks L =
     map (\<lambda>i. bbtEntryOf (m5b_bid (blocks ! i)) (m5l_blockIbs L ! i) (m5b_cb (blocks ! i))) [0..<length blocks]"

abbreviation m5BbtRef :: "M5Layout \<Rightarrow> M5PageBids \<Rightarrow> nat \<Rightarrow> Bref" where
  "m5BbtRef L B i \<equiv> mkBref (m5p_bbtLeafBids B ! i) (Ib (m5l_bbtLeafIbs L ! i))"

lemma m5BbtPages_eq:
  fixes blocks :: "M5DataBlockSpec list" and L :: M5Layout
  assumes B: "length (m5p_bbtLeafBids B) = bbtLeafCount blocks"
  defines "E \<equiv> sortBbt (m5BbtEntries blocks L)" and "N \<equiv> bbtLeafCount blocks"
  shows "fst (m5BbtPages blocks L B) =
      map (\<lambda>i. buildBbtLeaf (take 20 (drop (i * 20) E)) (m5p_bbtLeafBids B ! i) (Ib (m5l_bbtLeafIbs L ! i))) [0..<N]"
    "N > 1 \<Longrightarrow> snd (m5BbtPages blocks L B) =
      buildBbtIntermediate (upperEntries E (m5BbtRef L B) N) 1 (m5p_bbtRootBid B) (Ib (m5l_bbtRootIb L))"
    "N = 1 \<Longrightarrow> snd (m5BbtPages blocks L B) = hd (fst (m5BbtPages blocks L B))"
proof -
  have lE: "length E = length blocks" by (simp add: E_def m5BbtEntries_def)
  have pl: "perLeafOf N 20 E = map (\<lambda>i. take 20 (drop (i * 20) E)) [0..<N]"
    using leavesFor_bounds(3) [of 20 "length blocks"] lE by (intro perLeafOf_eq) (simp_all add: N_def)
  have up: "concat (map (\<lambda>i. if perLeafOf N 20 E ! i = [] then []
       else [\<lparr>bt_btkey = bid_value (bref_bid (bbt_bref (hd (perLeafOf N 20 E ! i)))), bt_bref = m5BbtRef L B i\<rparr>]) [0..<N])
     = upperEntries E (m5BbtRef L B) N" if "N > 1"
  proof -
    have N: "N = (length blocks + 19) div 20" using that by (auto simp: N_def leavesFor_def split: if_splits)
    have "perLeafOf N 20 E ! i \<noteq> []" "hd (perLeafOf N 20 E ! i) = E ! (i * 20)" if "i < N" for i
    proof -
      have "i * 20 < length E" using that by (simp add: N lE)
      then show "perLeafOf N 20 E ! i \<noteq> []" "hd (perLeafOf N 20 E ! i) = E ! (i * 20)"
        using that by (simp_all add: pl hd_drop_conv_nth)
    qed
    then have "map (\<lambda>i. if perLeafOf N 20 E ! i = [] then []
       else [\<lparr>bt_btkey = bid_value (bref_bid (bbt_bref (hd (perLeafOf N 20 E ! i)))), bt_bref = m5BbtRef L B i\<rparr>]) [0..<N]
      = map (\<lambda>i. [\<lparr>bt_btkey = bbtKey (E ! (i * 20)), bt_bref = m5BbtRef L B i\<rparr>]) [0..<N]"
      by (intro map_cong) (simp_all add: bbtKey_def)
    then show ?thesis by (simp only: concat_map_singleton upperEntries_def)
  qed
  have len: "length (m5p_bbtLeafBids B) = N" using B by (simp only: N_def)
  show "fst (m5BbtPages blocks L B) =
      map (\<lambda>i. buildBbtLeaf (take 20 (drop (i * 20) E)) (m5p_bbtLeafBids B ! i) (Ib (m5l_bbtLeafIbs L ! i))) [0..<N]"
    unfolding m5BbtPages_def Let_def bbtLeavesOf_def writer_limits len m5BbtEntries_def [symmetric] E_def [symmetric] pl
    by (simp cong: map_cong)
  show "snd (m5BbtPages blocks L B) =
      buildBbtIntermediate (upperEntries E (m5BbtRef L B) N) 1 (m5p_bbtRootBid B) (Ib (m5l_bbtRootIb L))" if "N > 1"
    unfolding m5BbtPages_def Let_def bbtLeavesOf_def writer_limits len m5BbtEntries_def [symmetric] E_def [symmetric] up [OF that]
    using that by simp
  show "snd (m5BbtPages blocks L B) = hd (fst (m5BbtPages blocks L B))" if "N = 1"
    unfolding m5BbtPages_def Let_def bbtLeavesOf_def len using that by simp
qed

lemma m5_bbtPages_placed:
  assumes lim: "length blocks \<le> 400" "length nodes \<le> 300" "sum_list (blockSizes blocks) < 2 ^ 60"
    and nbt: "pagesFit (nbtLeafCount nodes) nbt"
  defines "L \<equiv> m5L blocks nodes" and "f \<equiv> m5Image blocks nodes nbt"
    and "bbt \<equiv> m5BbtPages blocks (m5L blocks nodes) (m5B blocks nodes)"
  shows "pageAt f (Ib (m5l_bbtRootIb L)) (snd bbt)"
    "\<And>i. bbtLeafCount blocks > 1 \<Longrightarrow> i < bbtLeafCount blocks \<Longrightarrow> pageAt f (Ib (m5l_bbtLeafIbs L ! i)) (fst bbt ! i)"
proof -
  let ?N = "bbtLeafCount blocks" and ?t = "\<lambda>t. (if length (fst t) > 1 then concat (fst t) else []) @ snd t"
  define P where "P = m5Header blocks L (m5B blocks nodes) @ zeros (0x4400 - 564) @ buildAMap (Ib kIbAMap) (m5l_ibFileEof L)
     @ concat (map m5b_encodedBlock blocks) @ zeros (bbtStart blocks - (0x4600 + sum_list (blockSizes blocks)))"
  note sz = m5_sizes [OF lim] and eq = m5Layout_eq [OF lim(3), of nodes]
  have fit: "pagesFit ?N bbt" unfolding bbt_def by (rule m5Bbt_fit)
  have img: "f = (P @ ?t bbt) @ ?t nbt"
    by (simp add: f_def m5Image_def Let_def P_def bbt_def L_def split: prod.split)
  have lP: "length P = bbtStart blocks"
    using sz(1) by (simp add: P_def length_m5Header length_amap length_blocks)
  have lt: "length (?t bbt) = treeSize ?N * 512" using fit sz(5) by (rule length_tree)
  have len: "length f < 2 ^ 64" using m5Body_rel(2) [OF lim nbt] sz(4) by (simp add: f_def)
  have "unat (m5l_bbtRootIb L) = bbtStart blocks + treeSize ?N * 512 - 512"
    using sz(3) by (simp add: L_def eq nbtStart_def unat_of_nat)
  moreover have "0 < treeSize ?N" using sz(5) by (simp add: treeSize_def)
  then have "slice (bbtStart blocks + treeSize ?N * 512 - 512) 512 f = slice (bbtStart blocks + treeSize ?N * 512 - 512) 512 (P @ ?t bbt)"
    unfolding img by (intro slice_append_left) (use lP lt in simp)
  ultimately show "pageAt f (Ib (m5l_bbtRootIb L)) (snd bbt)"
    using pageAt_root [OF fit sz(5), of P] len by (simp add: pageAt_def lP)
  fix i assume i: "?N > 1" "i < ?N"
  have r: "bbtStart blocks + i * 512 < 2 ^ 63" using sz(2) mult_le_mono1 [OF less_imp_le [OF i(2)], of 512] by linarith
  then have "unat (m5l_bbtLeafIbs L ! i) = bbtStart blocks + i * 512"
    using i by (simp add: L_def eq unat_of_nat del: of_nat_add)
  moreover have "i * 512 + 512 \<le> treeSize ?N * 512"
    using entry_room [OF i(2), of 512] i by (simp add: treeSize_def)
  then have "slice (bbtStart blocks + i * 512) 512 f = slice (bbtStart blocks + i * 512) 512 (P @ ?t bbt)"
    unfolding img by (intro slice_append_left) (use lP lt in simp)
  ultimately show "pageAt f (Ib (m5l_bbtLeafIbs L ! i)) (fst bbt ! i)"
    using pageAt_tree [OF fit i(2) i(1), of P] len by (simp add: pageAt_def lP)
qed

lemma m5_bbtFind:
  assumes lim: "length blocks \<le> 400" "length nodes \<le> 300" "sum_list (blockSizes blocks) < 2 ^ 60"
    and nbt: "pagesFit (nbtLeafCount nodes) nbt" and dist: "distinct (map m5b_bid blocks)"
  shows "bbtFind (m5Image blocks nodes nbt) (mkBref (m5p_bbtRootBid (m5B blocks nodes)) (Ib (m5l_bbtRootIb (m5L blocks nodes)))) t
    = Inr (findBid t (m5BbtEntries blocks (m5L blocks nodes)))"
proof -
  let ?L = "m5L blocks nodes" and ?B = "m5B blocks nodes" and ?N = "bbtLeafCount blocks"
  let ?f = "m5Image blocks nodes nbt" and ?root = "mkBref (m5p_bbtRootBid ?B) (Ib (m5l_bbtRootIb ?L))"
  define bbt where "bbt = m5BbtPages blocks ?L ?B"
  define E where "E = sortBbt (m5BbtEntries blocks ?L)"
  note pages = m5BbtPages_eq [of ?B blocks ?L, unfolded m5PageBids_lengths, OF refl, folded E_def bbt_def]
    and placed = m5_bbtPages_placed [OF lim nbt, folded bbt_def]
  have N: "0 < ?N" "?N \<le> 20" using leavesFor_bounds(1,2) [of 20 "length blocks"] lim(1) by simp_all
  have lE: "length E = length blocks" by (simp add: E_def m5BbtEntries_def)
  have bids: "map (\<lambda>e. bref_bid (bbt_bref e)) (m5BbtEntries blocks ?L) = map m5b_bid blocks"
    by (intro nth_equalityI) (simp_all add: m5BbtEntries_def bbtEntryOf_def mkBref_def)
  have inj: "inj_on (\<lambda>e. bref_bid (bbt_bref e)) (set (m5BbtEntries blocks ?L))"
    and d: "distinct (m5BbtEntries blocks ?L)"
    using dist unfolding bids [symmetric] by (simp_all add: distinct_map)
  have key: "sortBbt = sort_key bbtKey" by (rule arg_cong [where f = sort_key]) (simp add: bbtKey_def fun_eq_iff)
  have "inj_on bbtKey (set E)"
    using inj by (auto simp: inj_on_def bbtKey_def E_def intro: Bid.expand)
  then have dE: "distinct (map bbtKey E)" and sE: "sorted (map bbtKey E)"
    using d by (simp_all add: distinct_map E_def key)
  have find: "findBid t E = findBid t (m5BbtEntries blocks ?L)"
    unfolding findBid_def using inj by (intro find_unique) (simp_all add: E_def)
  have leaf: "bbtLeafPage (take 20 (drop (i * 20) E)) (fst bbt ! i)" if "i < ?N" for i
    using that buildBbtLeaf_ok [of "take 20 (drop (i * 20) E)" "m5p_bbtLeafBids ?B ! i" "Ib (m5l_bbtLeafIbs ?L ! i)"]
    by (auto simp: bbtLeafPage_def pages(1))
  show ?thesis
  proof (cases "?N > 1")
    case True
    have "length (upperEntries E (m5BbtRef ?L ?B) ?N) = ?N" by (simp add: upperEntries_def)
    then have node: "bbtNodePage (upperEntries E (m5BbtRef ?L ?B) ?N) (snd bbt)"
      using buildBbtIntermediate_ok [of "upperEntries E (m5BbtRef ?L ?B) ?N" 1 "m5p_bbtRootBid ?B" "Ib (m5l_bbtRootIb ?L)"] N
      by (auto simp: bbtNodePage_def pages(2) [OF True])
    have n: "?N = (length E + 19) div 20" using True by (auto simp: lE leavesFor_def split: if_splits)
    have "(?N - 1) * 20 < length E" "length E \<le> ?N * 20"
      using True n by linarith+
    then have "bbtFind ?f ?root t = Inr (findBid t E)"
      by (rule bbtFind_two [OF sE dE _ _ _ node, where pg = "\<lambda>i. fst bbt ! i"]) (use leaf placed True in \<open>simp_all add: mkBref_def\<close>)
    then show ?thesis by (simp only: find)
  next
    case False
    then have one: "?N = 1" using N by linarith
    have "fst bbt \<noteq> []" using one by (simp add: pages(1))
    then have "snd bbt = fst bbt ! 0" using pages(3) one by (simp add: hd_conv_nth)
    moreover have "take 20 (drop (0 * 20) E) = E" using leavesFor_bounds(3) [of 20 "length blocks"] one by (simp add: lE)
    ultimately have "bbtLeafPage E (snd bbt)" using leaf [of 0] one by simp
    then show ?thesis
      using bbtFind_one [of ?f ?root "snd bbt" E t] placed(1) find by (simp add: mkBref_def)
  qed
qed

section \<open>The file of \<open>buildAndWriteBlocksPst\<close>\<close>

definition m3Start :: "nat list \<Rightarrow> nat" where
  "m3Start sizes = roundPage (0x4600 + sum_list sizes)"

definition m3Eof :: "nat list \<Rightarrow> nat \<Rightarrow> nat" where
  "m3Eof sizes n = m3Start sizes + treeSize n * 512 + 512"

lemma layoutOf_eq:
  assumes "sum_list sizes < 2 ^ 60" and n: "0 < n"
  shows "layoutOf sizes n =
    \<lparr>lay_blockOffsets = map (\<lambda>i. word_of_nat (0x4600 + sum_list (take i sizes))) [0..<length sizes],
     lay_blocksEndIb = word_of_nat (0x4600 + sum_list sizes),
     lay_bbtLeafIbs = map (\<lambda>i. word_of_nat (m3Start sizes + i * 512)) [0..<n],
     lay_bbtRootIb = word_of_nat (m3Start sizes + treeSize n * 512 - 512),
     lay_nbtLeafIb = word_of_nat (m3Start sizes + treeSize n * 512),
     lay_ibFileEof = word_of_nat (m3Eof sizes n)\<rparr>"
proof -
  have s: "packFrom kBlocksStart sizes =
      (map (\<lambda>i. word_of_nat (0x4600 + sum_list (take i sizes))) [0..<length sizes], word_of_nat (0x4600 + sum_list sizes))"
    using packFrom_eq [of "0x4600" sizes] by (simp add: writer_limits)
  have a: "alignUp (word_of_nat (0x4600 + sum_list sizes)) (word_of_nat 512) = word_of_nat (m3Start sizes)"
    using assms alignUp_page [of "0x4600 + sum_list sizes", unfolded writer_limits(7)]
    by (simp add: m3Start_def roundPage_def del: of_nat_add)
  have hd: "hd (map f [0..<n]) = f 0" for f :: "nat \<Rightarrow> u64" using n by (simp add: upt_conv_Cons)
  have p: "word_of_nat x + word_of_nat 512 = (word_of_nat (x + 512) :: u64)" for x by simp
  have root: "(if n = 1 then word_of_nat (s + 0 * 512) else word_of_nat (s + n * 512)) = (word_of_nat (s + treeSize n * 512 - 512) :: u64)"
    "(if n = 1 then word_of_nat (s + n * 512) else word_of_nat (s + n * 512 + 512)) = (word_of_nat (s + treeSize n * 512) :: u64)" for s
  proof -
    have "s + treeSize n * 512 - 512 = (if n = 1 then s + 0 * 512 else s + n * 512)"
      "s + treeSize n * 512 = (if n = 1 then s + n * 512 else s + n * 512 + 512)"
      using n by (auto simp: treeSize_def)
    then show "(if n = 1 then word_of_nat (s + 0 * 512) else word_of_nat (s + n * 512)) = (word_of_nat (s + treeSize n * 512 - 512) :: u64)"
      "(if n = 1 then word_of_nat (s + n * 512) else word_of_nat (s + n * 512 + 512)) = (word_of_nat (s + treeSize n * 512) :: u64)"
      by (simp_all only: split: if_split) simp_all
  qed
  show ?thesis
    unfolding layoutOf_def Let_def s prod.case writer_limits(7) a packFrom_pages p hd root m3Eof_def ..
qed

definition m3Body :: "Io \<Rightarrow> bytes \<Rightarrow> bytes \<Rightarrow> bytes list \<Rightarrow> Layout \<Rightarrow> bytes list \<times> bytes \<Rightarrow> bytes \<Rightarrow> OutState \<Rightarrow> OutState" where
  "m3Body io header amap bufs L t nbtPage st =
     (let st = emit io header st;
          st = padTo io kIbAMap st;
          st = emit io amap st;
          st = padTo io kBlocksStart st;
          st = fold (emit io) bufs st;
          st = padTo io (if lay_bbtLeafIbs L = [] then lay_bbtRootIb L else hd (lay_bbtLeafIbs L)) st;
          st = (if length (fst t) = 1 then st else fold (emit io) (fst t) st);
          st = padTo io (lay_bbtRootIb L) st;
          st = emit io (snd t) st;
          st = padTo io (lay_nbtLeafIb L) st
      in emit io nbtPage st)"

lemma m3Body_rel:
  assumes sum: "sum_list (map length bufs) < 2 ^ 60" and n: "0 < n" "n \<le> 100"
    and h: "length header = 564" "length amap = 512" "length nbtPage = 512" and t: "pagesFit n t"
  defines "img \<equiv> header @ zeros (0x4400 - 564) @ amap @ concat bufs
      @ zeros (m3Start (map length bufs) - (0x4600 + sum_list (map length bufs)))
      @ (if length (fst t) > 1 then concat (fst t) else []) @ snd t @ nbtPage"
  shows "outRel (m3Body io header amap bufs (layoutOf (map length bufs) n) t nbtPage
      \<lparr>os_ok = True, os_writtenIb = 0, os_file = [], os_calls = 0\<rparr>) img"
    and "length img = m3Eof (map length bufs) n"
proof -
  let ?init = "\<lparr>os_ok = True, os_writtenIb = 0, os_file = [], os_calls = 0\<rparr>" and ?sizes = "map length bufs"
  let ?S = "m3Start (map length bufs)" and ?C = "if length (fst t) > 1 then concat (fst t) else []"
  let ?Z = "zeros (?S - (0x4600 + sum_list ?sizes))"
  have u: "unat (word_of_nat x :: u64) = x" if "x < 2 ^ 64" for x using that by (simp add: unat_of_nat)
  note b = roundPage_bounds [of "0x4600 + sum_list ?sizes", folded m3Start_def]
  have ts: "treeSize n \<le> 101" "0 < treeSize n" using n by (auto simp: treeSize_def)
  have S: "?S < 2 ^ 60 + 0x4800" using b(2) sum by linarith
  note L = layoutOf_eq [OF sum n(1)]
  have ibs: "unat (word_of_nat ?S :: u64) = ?S" "unat (word_of_nat (?S + treeSize n * 512 - 512) :: u64) = ?S + treeSize n * 512 - 512"
    "unat (word_of_nat (?S + treeSize n * 512) :: u64) = ?S + treeSize n * 512"
    by (intro u; use S ts in simp)+
  have first: "(if lay_bbtLeafIbs (layoutOf ?sizes n) = [] then lay_bbtRootIb (layoutOf ?sizes n) else hd (lay_bbtLeafIbs (layoutOf ?sizes n)))
      = word_of_nat ?S"
    using n(1) by (simp add: L upt_conv_Cons)
  have lC: "length (?C @ snd t) = treeSize n * 512" using length_tree [OF t n(1)] .
  then have lC': "length ?C = treeSize n * 512 - 512" using t by (simp add: pagesFit_def)
  have lt: "length (fst t) = n" "length (snd t) = 512" using t by (simp_all add: pagesFit_def)
  define P1 where "P1 = header @ zeros (0x4400 - 564) @ amap"
  define P2 where "P2 = (P1 @ concat bufs) @ ?Z"
  have l1: "length P1 = 0x4600" by (simp add: P1_def h)
  have lb: "length (concat bufs) = sum_list ?sizes" by (simp add: length_concat)
  have l2: "length P2 = ?S" using b(1) by (simp add: P2_def l1 lb)
  define s1 where "s1 = padTo io kBlocksStart (emit io amap (padTo io kIbAMap (emit io header ?init)))"
  have "outRel (emit io header ?init) ([] @ header)" by (rule emit_rel [OF outRel_init]) (simp add: h)
  then have "outRel (padTo io kIbAMap (emit io header ?init)) (header @ zeros (0x4400 - 564))"
    using padTo_rel [where io = io and t = kIbAMap] by (fastforce simp: h writer_limits)
  then have "outRel (emit io amap (padTo io kIbAMap (emit io header ?init))) ((header @ zeros (0x4400 - 564)) @ amap)"
    by (rule emit_rel) (simp add: h)
  then have r1: "outRel s1 P1"
    using padTo_rel [where io = io and t = kBlocksStart and P = P1] l1
    by (fastforce simp: s1_def P1_def writer_limits zeros_def)
  define s2 where "s2 = padTo io (word_of_nat ?S) (fold (emit io) bufs s1)"
  have "outRel (fold (emit io) bufs s1) (P1 @ concat bufs)" using emits_rel [OF r1] sum by (simp add: lb l1)
  then have r2: "outRel s2 P2"
    unfolding s2_def P2_def using padTo_rel [where io = io and t = "word_of_nat ?S"] ibs(1) by (fastforce simp: lb l1)
  define s3 where "s3 = (if length (fst t) = 1 then s2 else fold (emit io) (fst t) s2)"
  have r3: "outRel s3 (P2 @ ?C)"
  proof (cases "length (fst t) = 1")
    case True
    then show ?thesis using r2 by (simp add: s3_def)
  next
    case False
    then have "length (fst t) > 1" using lt n by simp
    moreover have "length P2 + length (concat (fst t)) < 2 ^ 64" using calculation lC' l2 S ts by simp
    ultimately show ?thesis using emits_rel [OF r2] False by (simp add: s3_def)
  qed
  have l3: "length (P2 @ ?C) = ?S + treeSize n * 512 - 512" using lC' l2 ts by simp
  have "outRel (padTo io (lay_bbtRootIb (layoutOf ?sizes n)) s3) (P2 @ ?C)"
    using padTo_rel [OF r3, of io "lay_bbtRootIb (layoutOf ?sizes n)"] ibs(2) by (simp only: L Layout.simps l3) (simp add: zeros_def)
  then have "outRel (emit io (snd t) (padTo io (lay_bbtRootIb (layoutOf ?sizes n)) s3)) ((P2 @ ?C) @ snd t)"
    by (rule emit_rel) (use l3 lt S ts in simp)
  moreover have l4: "length ((P2 @ ?C) @ snd t) = ?S + treeSize n * 512" using lC l2 by simp
  ultimately have "outRel (padTo io (lay_nbtLeafIb (layoutOf ?sizes n)) (emit io (snd t) (padTo io (lay_bbtRootIb (layoutOf ?sizes n)) s3))) ((P2 @ ?C) @ snd t)"
    using padTo_rel [where io = io and t = "lay_nbtLeafIb (layoutOf ?sizes n)" and P = "(P2 @ ?C) @ snd t"] ibs(3)
    by (simp only: L Layout.simps l4) (fastforce simp: zeros_def)
  then have "outRel (emit io nbtPage (padTo io (lay_nbtLeafIb (layoutOf ?sizes n)) (emit io (snd t) (padTo io (lay_bbtRootIb (layoutOf ?sizes n)) s3)))) (((P2 @ ?C) @ snd t) @ nbtPage)"
    by (rule emit_rel) (use l4 h S ts in simp)
  moreover have "img = ((P2 @ ?C) @ snd t) @ nbtPage" by (simp add: img_def P2_def P1_def)
  ultimately show "outRel (m3Body io header amap bufs (layoutOf ?sizes n) t nbtPage ?init) img"
    by (simp only: m3Body_def Let_def first s3_def s2_def s1_def)
  show "length img = m3Eof ?sizes n"
    using l4 h unfolding \<open>img = ((P2 @ ?C) @ snd t) @ nbtPage\<close> by (simp add: m3Eof_def)
qed

lemma m3Body_ideal: "os_ok (m3Body idealIo header amap bufs L t nbtPage st) = os_ok st"
  by (simp add: m3Body_def Let_def ideal_ok ideal_fold_ok)

lemma m3BbtPages_fit:
  assumes "0 < length bids"
  shows "pagesFit (length bids) (fst (m3BbtPages srt bids root L), fst (snd (m3BbtPages srt bids root L)))"
proof -
  let ?p = "bbtLeavesOf srt bids (lay_bbtLeafIbs L)"
  have e: "(fst (m3BbtPages srt bids root L), fst (snd (m3BbtPages srt bids root L))) =
      (fst ?p, if length bids = 1 then hd (fst ?p) else buildBbtIntermediate (snd ?p) 1 root (Ib (lay_bbtRootIb L)))"
    by (simp add: m3BbtPages_def split: prod.split)
  have "fst ?p \<noteq> []" using bbtLeavesOf_length(1) [of srt bids] assms by (metis length_greater_0_conv)
  then have "length (hd (fst ?p)) = 512" using bbtLeavesOf_length(2) [of 0 bids] assms by (simp add: hd_conv_nth)
  then show ?thesis
    unfolding e using bbtLeavesOf_length buildBbtIntermediate_ok [THEN btPageOk_length] by (simp add: pagesFit_def)
qed

lemma buildAndWrite_file:
  assumes "sum_list (map length bufs) < 2 ^ 60" and "0 < length leafBids" and "length leafBids \<le> 100"
  shows "\<exists>f. buildAndWriteBlocksPst idealIo blockBids bufs bidNbtLeaf bidBbtRoot leafBids = (okResult, Some f)
    \<and> unat (readU64 f hdr_kIbFileEof) = length f
    \<and> (\<forall>i < length bufs. slice (0x4600 + sum_list (take i (map length bufs))) (length (bufs ! i)) f = bufs ! i)"
proof -
  define L where "L = layoutOf (map length bufs) (length leafBids)"
  define entries where "entries = map (\<lambda>i. bbtEntryOf (blockBids ! i) (lay_blockOffsets L ! i)
      (bt_cb (readBlockTrailer (bufs ! i) (length (bufs ! i))))) [0..<length blockBids]"
  define m where "m = m3BbtPages (sortBbt entries) leafBids bidBbtRoot L"
  define st where "st = headerState (makeInternal 0x10) (makeData (word_of_nat (length blockBids) + 1)) (lay_ibFileEof L)
      (mkBref bidNbtLeaf (Ib (lay_nbtLeafIb L))) (mkBref (snd (snd m)) (Ib (lay_bbtRootIb L)))"
  define amap where "amap = buildAMap (Ib kIbAMap) (lay_ibFileEof L)"
  define nbt where "nbt = buildEmptyNbtLeaf bidNbtLeaf (Ib (lay_nbtLeafIb L))"
  let ?t = "(fst m, fst (snd m))"
  have fit: "pagesFit (length leafBids) ?t" unfolding m_def using assms(2) by (rule m3BbtPages_fit)
  then have fl: "length (fst m) = length leafBids" by (simp add: pagesFit_def)
  have un: "buildAndWriteBlocksPst idealIo blockBids bufs bidNbtLeaf bidBbtRoot leafBids
      = writeFile idealIo (\<lambda>s. m3Body idealIo (serializeHeader st) amap bufs L ?t nbt s)"
    unfolding buildAndWriteBlocksPst_def Let_def L_def [symmetric] entries_def [symmetric] m_def [symmetric]
    by (simp add: split_beta m3Body_def Let_def fl st_def amap_def nbt_def cong: if_cong)
  have len: "length (serializeHeader st) = 564" "length amap = 512" "length nbt = 512"
    using buildEmptyBtLeaf_ok [THEN btPageOk_length]
    by (simp_all add: st_def length_serializeHeader amap_def length_amap nbt_def buildEmptyNbtLeaf_def)
  define P where "P = serializeHeader st @ zeros (0x4400 - 564) @ amap"
  define rest where "rest = zeros (m3Start (map length bufs) - (0x4600 + sum_list (map length bufs)))
      @ (if length (fst ?t) > 1 then concat (fst ?t) else []) @ snd ?t @ nbt"
  define f where "f = P @ concat bufs @ rest"
  note rel = m3Body_rel [OF assms len fit, folded L_def]
  have rel: "outRel (m3Body io (serializeHeader st) amap bufs L ?t nbt \<lparr>os_ok = True, os_writtenIb = 0, os_file = [], os_calls = 0\<rparr>) f"
    and lf: "length f = m3Eof (map length bufs) (length leafBids)" for io
    using rel by (simp_all add: f_def P_def rest_def)
  have w: "writeFile idealIo (\<lambda>s. m3Body idealIo (serializeHeader st) amap bufs L ?t nbt s) = (okResult, Some f)"
    by (rule writeFile_image(2) [where body = "\<lambda>io s. m3Body io (serializeHeader st) amap bufs L ?t nbt s", OF rel]) (simp add: m3Body_ideal)
  have l1: "length P = 0x4600" by (simp add: P_def len)
  have "m3Eof (map length bufs) (length leafBids) < 2 ^ 64"
    using roundPage_bounds(2) [of "0x4600 + sum_list (map length bufs)"] assms by (auto simp: m3Eof_def m3Start_def treeSize_def)
  moreover have "readU64 f 0x0B8 = lay_ibFileEof L"
  proof (rule header_u64 [where st = st])
    show "slice off n f = slice off n (serializeHeader st)" if "off + n \<le> 564" for off n
      using that len by (simp add: f_def P_def slice_append_left)
    show "(0x0B8, le64 (lay_ibFileEof L)) \<in> set (headerStores st)"
      by (simp add: headerStores_def Let_def st_def headerState_def populateFreshRgnid_def)
  qed (use l1 in \<open>simp_all add: f_def st_def\<close>)
  ultimately have eof: "unat (readU64 f hdr_kIbFileEof) = length f"
    using layoutOf_eq [OF assms(1,2)] by (simp add: L_def lf layout_simps unat_of_nat)
  have "slice (0x4600 + sum_list (take i (map length bufs))) (length (bufs ! i)) f = bufs ! i" if i: "i < length bufs" for i
  proof -
    have s: "sum_list (take i (map length bufs)) = length (concat (take i bufs))" by (simp add: length_concat take_map)
    have "length (concat (take i bufs)) + length (bufs ! i) \<le> length (concat bufs)"
      using i take_length_le [of "Suc i" bufs] by (simp add: take_Suc_conv_app_nth)
    then have "slice (length (concat (take i bufs))) (length (bufs ! i)) (concat bufs @ rest) = bufs ! i"
      using slice_concat_nth [OF i] by (simp only: slice_append_left)
    then show ?thesis using slice_append_right [of P "0x4600 + length (concat (take i bufs))"] by (simp add: s f_def l1)
  qed
  then show ?thesis using un w eof by auto
qed

lemma writeM5Pst_image:
  assumes "length blocks \<le> 400" and "length nodes \<le> 300" and "sum_list (blockSizes blocks) < 2 ^ 60"
  obtains out where "m5NbtPages nodes (m5L blocks nodes) (m5B blocks nodes) = Inr (m5TreePages out)"
    and "treeOk (sortNbt (m5NbtEntries nodes)) (m5NbtRefs (m5L blocks nodes) (m5B blocks nodes)) out"
    and "pagesFit (nbtLeafCount nodes) (m5TreePages out)"
    and "writeM5Pst idealIo blocks nodes = Inr (okResult, Some (m5Image blocks nodes (m5TreePages out)))"
proof -
  let ?L = "m5L blocks nodes" and ?B = "m5B blocks nodes"
  obtain out where nbt: "m5NbtPages nodes ?L ?B = Inr (m5TreePages out)"
    and ok: "treeOk (sortNbt (m5NbtEntries nodes)) (m5NbtRefs ?L ?B) out"
    using m5Nbt_tree [OF assms(2)] by blast
  have fit: "pagesFit (nbtLeafCount nodes) (m5TreePages out)" using tree_fit [OF ok] by (simp add: m5NbtEntries_def)
  have "os_ok (m5Body idealIo blocks nodes (m5TreePages out) \<lparr>os_ok = True, os_writtenIb = 0, os_file = [], os_calls = 0\<rparr>)"
    by (simp add: m5Body_def Let_def ideal_ok ideal_fold_ok ideal_pages_ok)
  then have "writeM5Pst idealIo blocks nodes = Inr (okResult, Some (m5Image blocks nodes (m5TreePages out)))"
    unfolding writeM5Pst_unfold [OF assms(1,2) nbt]
    using writeFile_image(2) [where body = "\<lambda>io. m5Body io blocks nodes (m5TreePages out)", OF m5Body_rel(1) [OF assms fit]] by simp
  then show ?thesis using that nbt ok fit by blast
qed

section \<open>Properties\<close>

lemma writeM5Pst_reads:
  assumes "length blocks \<le> 400" and "length nodes \<le> 300" and "distinct (map m5n_nid nodes)"
    and "sum_list (blockSizes blocks) < 2 ^ 60"
  shows "\<exists>f. writeM5Pst idealIo blocks nodes = Inr (okResult, Some f)
    \<and> unat (readU64 f hdr_kIbFileEof) = length f
    \<and> (\<forall>t c. nbtFind f (mkBref (Bid (readU64 f hdr_kBrefNbtBid)) (Ib (readU64 f hdr_kBrefNbtIb))) t c
          = Inr (map_option m5Record (List.find (\<lambda>n. m5n_nid n = t) nodes)))
    \<and> (\<forall>i < length blocks. slice (unat (m5l_blockIbs (m5Layout blocks nodes) ! i)) (length (m5b_encodedBlock (blocks ! i))) f
          = m5b_encodedBlock (blocks ! i))"
proof -
  let ?L = "m5L blocks nodes" and ?B = "m5B blocks nodes"
  obtain out where ok: "treeOk (sortNbt (m5NbtEntries nodes)) (m5NbtRefs ?L ?B) out"
    and fit: "pagesFit (nbtLeafCount nodes) (m5TreePages out)"
    and w: "writeM5Pst idealIo blocks nodes = Inr (okResult, Some (m5Image blocks nodes (m5TreePages out)))"
    using writeM5Pst_image [OF assms(1,2,4)] by blast
  define f where "f = m5Image blocks nodes (m5TreePages out)"
  note sz = m5_sizes [OF assms(1,2,4)] and L = m5Layout_eq [OF assms(4), of nodes]
    and rel = m5Body_rel [OF assms(1,2,4) fit, folded f_def]
  have "564 \<le> length f" using rel(2) sz(1) by (simp add: m5Eof_def nbtStart_def)
  note h = m5Header_reads [OF m5Image_header [where nbt = "m5TreePages out" and blocks = blocks and nodes = nodes, folded f_def] this]
  have eof: "unat (readU64 f hdr_kIbFileEof) = length f" using sz(4) by (simp add: h L rel(2) unat_of_nat)
  have find: "nbtFind f (mkBref (Bid (readU64 f hdr_kBrefNbtBid)) (Ib (readU64 f hdr_kBrefNbtIb))) t c
      = Inr (map_option m5Record (List.find (\<lambda>n. m5n_nid n = t) nodes))" for t c
    using nbtFind_tree [OF ok m5_placed [OF assms(1,2,4) ok, folded f_def]] assms(3)
    by (simp add: h m5RootBref [OF assms(4) ok] find_m5) (simp add: m5NbtEntries_def comp_def)
  have "slice (unat (m5l_blockIbs ?L ! i)) (length (m5b_encodedBlock (blocks ! i))) f = m5b_encodedBlock (blocks ! i)"
    if "i < length blocks" for i
  proof -
    have "sum_list (take i (blockSizes blocks)) \<le> sum_list (blockSizes blocks)"
      by (metis append_take_drop_id le_add1 sum_list_append)
    then have "unat (m5l_blockIbs ?L ! i) = 0x4600 + sum_list (take i (blockSizes blocks))"
      using that assms(4) by (simp add: L unat_of_nat del: of_nat_add)
    then show ?thesis using m5Image_block [OF that] by (simp add: f_def)
  qed
  then show ?thesis using w eof find unfolding f_def by blast
qed

text \<open>The lookup of a block gives the place where the writer put it.\<close>

lemma findBid_m5:
  assumes "distinct (map m5b_bid blocks)"
  shows "i < length blocks \<Longrightarrow> findBid (m5b_bid (blocks ! i)) (m5BbtEntries blocks L)
      = Some (bbtEntryOf (m5b_bid (blocks ! i)) (m5l_blockIbs L ! i) (m5b_cb (blocks ! i)))"
    "t \<notin> m5b_bid ` set blocks \<Longrightarrow> findBid t (m5BbtEntries blocks L) = None"
proof -
  let ?e = "\<lambda>i. bbtEntryOf (m5b_bid (blocks ! i)) (m5l_blockIbs L ! i) (m5b_cb (blocks ! i))"
  have bid: "bref_bid (bbt_bref (?e j)) = m5b_bid (blocks ! j)" for j by (simp add: bbtEntryOf_def mkBref_def)
  show "findBid (m5b_bid (blocks ! i)) (m5BbtEntries blocks L) = Some (?e i)" if "i < length blocks"
    unfolding findBid_def find_Some_iff
  proof (intro exI [of _ i] conjI allI impI)
    fix j assume "j < i"
    then have "m5b_bid (blocks ! j) \<noteq> m5b_bid (blocks ! i)"
      using assms that by (simp add: distinct_conv_nth)
    then show "bref_bid (bbt_bref (m5BbtEntries blocks L ! j)) \<noteq> m5b_bid (blocks ! i)"
      using \<open>j < i\<close> that by (simp add: m5BbtEntries_def bid)
  qed (use that in \<open>simp_all add: m5BbtEntries_def bid\<close>)
  show "findBid t (m5BbtEntries blocks L) = None" if "t \<notin> m5b_bid ` set blocks"
    using that by (auto simp: findBid_def find_None_iff m5BbtEntries_def bid)
qed

lemma writeM5Pst_blocks:
  assumes lim: "length blocks \<le> 400" "length nodes \<le> 300" and dist: "distinct (map m5b_bid blocks)"
    and size: "sum_list (blockSizes blocks) < 2 ^ 60" and f: "writeM5Pst idealIo blocks nodes = Inr (okResult, Some f)"
  defines "root \<equiv> mkBref (Bid (readU64 f hdr_kBrefBbtBid)) (Ib (readU64 f hdr_kBrefBbtIb))"
  shows "i < length blocks \<Longrightarrow> bbtFind f root (m5b_bid (blocks ! i))
      = Inr (Some (bbtEntryOf (m5b_bid (blocks ! i)) (m5l_blockIbs (m5Layout blocks nodes) ! i) (m5b_cb (blocks ! i))))"
    "t \<notin> m5b_bid ` set blocks \<Longrightarrow> bbtFind f root t = Inr None"
proof -
  let ?L = "m5L blocks nodes" and ?B = "m5B blocks nodes"
  obtain out where fit: "pagesFit (nbtLeafCount nodes) (m5TreePages out)" and img: "f = m5Image blocks nodes (m5TreePages out)"
    using writeM5Pst_image [OF lim size] f by auto
  have "564 \<le> length f" using m5Body_rel(2) [OF lim size fit] m5_sizes(1) [OF lim size] by (simp add: img m5Eof_def nbtStart_def)
  note h = m5Header_reads [OF m5Image_header [where nbt = "m5TreePages out" and blocks = blocks and nodes = nodes, folded img] this]
  have "root = mkBref (m5p_bbtRootBid ?B) (Ib (m5l_bbtRootIb ?L))" by (simp add: root_def h)
  then have find: "bbtFind f root t = Inr (findBid t (m5BbtEntries blocks ?L))" for t
    using m5_bbtFind [OF lim size fit dist] by (simp add: img)
  show "i < length blocks \<Longrightarrow> bbtFind f root (m5b_bid (blocks ! i))
      = Inr (Some (bbtEntryOf (m5b_bid (blocks ! i)) (m5l_blockIbs ?L ! i) (m5b_cb (blocks ! i))))"
    using find findBid_m5(1) [OF dist] by simp
  show "t \<notin> m5b_bid ` set blocks \<Longrightarrow> bbtFind f root t = Inr None"
    using find findBid_m5(2) [OF dist] by simp
qed

text \<open>
  C3: the file of \<open>writeM5Pst\<close> can be read.  For at most 400 blocks with distinct BIDs and 300 nodes with
  distinct NIDs, on a system without failures, the writer succeeds and the HEADER of its file names the
  length of the file.  Every lookup through the node B-tree whose root the HEADER names returns the data of
  the node with that NID or reports that there is none.  Every lookup through the block B-tree whose root
  the HEADER names finds each block under its BID, with its size and a reference count of 2, the block
  lies at the offset that this entry gives, and no entry is found under any other BID.
\<close>

theorem writeM5Pst_readable:
  assumes "length blocks \<le> 400" and "length nodes \<le> 300" and "distinct (map m5n_nid nodes)"
    and "distinct (map m5b_bid blocks)" and "sum_list (map (\<lambda>b. length (m5b_encodedBlock b)) blocks) < 2 ^ 60"
  shows "\<exists>f. writeM5Pst idealIo blocks nodes = Inr (okResult, Some f)
    \<and> unat (readU64 f hdr_kIbFileEof) = length f
    \<and> (\<forall>t c. nbtFind f (mkBref (Bid (readU64 f hdr_kBrefNbtBid)) (Ib (readU64 f hdr_kBrefNbtIb))) t c
          = Inr (map_option m5Record (List.find (\<lambda>n. m5n_nid n = t) nodes)))
    \<and> (\<forall>b \<in> set blocks. \<exists>e.
          bbtFind f (mkBref (Bid (readU64 f hdr_kBrefBbtBid)) (Ib (readU64 f hdr_kBrefBbtIb))) (m5b_bid b) = Inr (Some e)
          \<and> bref_bid (bbt_bref e) = m5b_bid b \<and> bbt_cb e = m5b_cb b \<and> bbt_cRef e = 2
          \<and> slice (unat (ib_value (bref_ib (bbt_bref e)))) (length (m5b_encodedBlock b)) f = m5b_encodedBlock b)
    \<and> (\<forall>t. t \<notin> m5b_bid ` set blocks \<longrightarrow>
          bbtFind f (mkBref (Bid (readU64 f hdr_kBrefBbtBid)) (Ib (readU64 f hdr_kBrefBbtIb))) t = Inr None)"
proof -
  have size: "sum_list (blockSizes blocks) < 2 ^ 60" using assms(5) by (simp add: comp_def)
  obtain f where f: "writeM5Pst idealIo blocks nodes = Inr (okResult, Some f)" "unat (readU64 f hdr_kIbFileEof) = length f"
    and nodes: "\<forall>t c. nbtFind f (mkBref (Bid (readU64 f hdr_kBrefNbtBid)) (Ib (readU64 f hdr_kBrefNbtIb))) t c
          = Inr (map_option m5Record (List.find (\<lambda>n. m5n_nid n = t) nodes))"
    and at: "\<forall>i < length blocks. slice (unat (m5l_blockIbs (m5Layout blocks nodes) ! i)) (length (m5b_encodedBlock (blocks ! i))) f
          = m5b_encodedBlock (blocks ! i)"
    using writeM5Pst_reads [OF assms(1-3) size] by blast
  note found = writeM5Pst_blocks [OF assms(1,2,4) size f(1)]
  show ?thesis
  proof (intro exI [of _ f] conjI ballI allI impI)
    fix b assume "b \<in> set blocks"
    then obtain i where i: "i < length blocks" "blocks ! i = b" by (auto simp: in_set_conv_nth)
    show "\<exists>e. bbtFind f (mkBref (Bid (readU64 f hdr_kBrefBbtBid)) (Ib (readU64 f hdr_kBrefBbtIb))) (m5b_bid b) = Inr (Some e)
        \<and> bref_bid (bbt_bref e) = m5b_bid b \<and> bbt_cb e = m5b_cb b \<and> bbt_cRef e = 2
        \<and> slice (unat (ib_value (bref_ib (bbt_bref e)))) (length (m5b_encodedBlock b)) f = m5b_encodedBlock b"
      using found(1) [OF i(1)] at [rule_format, OF i(1)] by (simp add: i(2) bbtEntryOf_def mkBref_def)
  qed (use f nodes found(2) in simp_all)
qed

lemma openBlock_dataBlock:
  assumes "length payload < 2 ^ 16" and "isData bid"
  shows "openBlock (buildDataBlock payload bid ib m) ib m = Some (bid, payload)"
proof -
  have "\<not> isInternal bid" using assms(2) by (simp add: isData_def isInternal_def)
  then show ?thesis using assms(1) cipher.dec_enc [where d = payload] by (simp add: buildDataBlock_eq openBlock_framed)
qed

definition blockOff :: "bytes list \<Rightarrow> nat \<Rightarrow> nat" where
  "blockOff dataBlocks i = 0x4600 + sum_list (take i (map (\<lambda>d. roundBlockSize (length d)) dataBlocks))"

text \<open>
  C34: the blocks of \<open>writeBlocksPst\<close> can be read.  For at most 400 payloads, each shorter than \<open>2 ^ 16\<close>, on a
  system without failures, the writer succeeds, the HEADER names the length of the file, and the block at
  the \<open>i\<close>-th offset, one packed after the other, passes the checks of a reader, which gets the data BID
  \<open>i + 1\<close> and the payload in the clear.
\<close>

theorem writeBlocksPst_readable:
  assumes "length ds \<le> 400" and "list_all (\<lambda>d. length d < 2 ^ 16) ds"
  shows "\<exists>f. writeBlocksPst idealIo ds = (okResult, Some f) \<and> unat (readU64 f hdr_kIbFileEof) = length f
    \<and> (\<forall>i < length ds. openBlock (slice (blockOff ds i) (roundBlockSize (length (ds ! i))) f) (Ib (word_of_nat (blockOff ds i))) CryptPermute
          = Some (makeData (word_of_nat i + 1), ds ! i))"
proof -
  let ?n = "length ds" and ?N = "leavesFor (length ds) 20"
  define built where "built = map (\<lambda>i. buildDataBlock (ds ! i) (makeData (word_of_nat i + 1)) (Ib (word_of_nat (blockOff ds i))) CryptPermute) [0..<?n]"
  have ibs: "fst (packFrom kBlocksStart (map (\<lambda>d. roundBlockSize (length d)) ds)) = map (\<lambda>i. word_of_nat (blockOff ds i)) [0..<?n]"
    using packFrom_eq [of "0x4600" "map (\<lambda>d. roundBlockSize (length d)) ds"] by (simp add: writer_limits blockOff_def)
  have N: "0 < ?N" "?N \<le> 20" using leavesFor_bounds(1,2) [of 20 ?n] assms(1) by simp_all
  have lb: "map length built = map (\<lambda>d. roundBlockSize (length d)) ds"
    by (intro nth_equalityI) (simp_all add: built_def buildDataBlock_eq length_framed)
  have "roundBlockSize (length d) \<le> 2 ^ 17" if "d \<in> set ds" for d
  proof -
    have "length d < 2 ^ 16" using that assms(2) by (simp add: list_all_iff)
    moreover have "(length d + 79) div 64 * 64 \<le> length d + 79" by simp
    ultimately show ?thesis by (simp add: roundBlockSize_eq)
  qed
  then have "sum_list (map (\<lambda>d. roundBlockSize (length d)) ds) \<le> ?n * 2 ^ 17"
    by (induction ds) (simp_all, fastforce)
  then have sum: "sum_list (map length built) < 2 ^ 60" using assms(1) unfolding lb by simp
  have blocks: "map (\<lambda>i. buildDataBlock (ds ! i) (map (\<lambda>i. makeData (word_of_nat i + 1)) [0..<?n] ! i)
      (Ib (map (\<lambda>i. word_of_nat (blockOff ds i)) [0..<?n] ! i)) CryptPermute) [0..<?n] = built"
    unfolding built_def by (intro map_cong) simp_all
  have "\<exists>root nbt. writeBlocksPst idealIo ds = buildAndWriteBlocksPst idealIo (map (\<lambda>i. makeData (word_of_nat i + 1)) [0..<?n])
      built nbt root (fst (takeBids ?N (makeInternal 2)))"
    using assms(1) unfolding writeBlocksPst_def Let_def writer_limits(1,2) ibs blocks
    by (cases "takeBids ?N (makeInternal 2)") auto
  then obtain root nbt where un: "writeBlocksPst idealIo ds = buildAndWriteBlocksPst idealIo (map (\<lambda>i. makeData (word_of_nat i + 1)) [0..<?n])
      built nbt root (fst (takeBids ?N (makeInternal 2)))" by blast
  have tl: "length (fst (takeBids ?N (makeInternal 2))) = ?N" by (simp add: makeInternal_def takeBids_eq)
  have "\<exists>f. writeBlocksPst idealIo ds = (okResult, Some f) \<and> unat (readU64 f hdr_kIbFileEof) = length f
      \<and> (\<forall>i < length built. slice (0x4600 + sum_list (take i (map length built))) (length (built ! i)) f = built ! i)"
    unfolding un by (rule buildAndWrite_file [OF sum]) (use tl N in simp_all)
  then obtain f where f: "writeBlocksPst idealIo ds = (okResult, Some f)" "unat (readU64 f hdr_kIbFileEof) = length f"
    and sl: "\<And>i. i < length built \<Longrightarrow> slice (0x4600 + sum_list (take i (map length built))) (length (built ! i)) f = built ! i"
    by blast
  have "openBlock (slice (blockOff ds i) (roundBlockSize (length (ds ! i))) f) (Ib (word_of_nat (blockOff ds i))) CryptPermute
      = Some (makeData (word_of_nat i + 1), ds ! i)" if i: "i < ?n" for i
  proof -
    have "slice (blockOff ds i) (roundBlockSize (length (ds ! i))) f = built ! i"
      using sl [of i] i unfolding lb by (simp add: built_def blockOff_def buildDataBlock_eq length_framed)
    moreover have "length (ds ! i) < 2 ^ 16" using i assms(2) by (simp add: list_all_length)
    ultimately show ?thesis using i by (simp add: built_def openBlock_dataBlock makeData_flags)
  qed
  then show ?thesis using f by blast
qed

theorem writeBlocksPst_readable_witness:
  "\<exists>f. writeBlocksPst idealIo [[1, 2, 3], [4]] = (okResult, Some f)
    \<and> openBlock (slice 0x4640 64 f) (Ib 0x4640) CryptPermute = Some (makeData 2, [4])"
proof -
  have "blockOff [[1, 2, 3], [4]] 1 = 0x4640" "roundBlockSize (length ([[1, 2, 3], [4]] ! 1 :: bytes)) = 64"
    by (simp_all add: blockOff_def roundBlockSize_eq)
  moreover have "\<exists>f. writeBlocksPst idealIo [[1, 2, 3], [4]] = (okResult, Some f)
    \<and> openBlock (slice (blockOff [[1, 2, 3], [4]] 1) (roundBlockSize (length ([[1, 2, 3], [4]] ! 1 :: bytes))) f)
        (Ib (word_of_nat (blockOff [[1, 2, 3], [4]] 1))) CryptPermute = Some (makeData (word_of_nat 1 + 1), [[1, 2, 3], [4]] ! 1)"
    using writeBlocksPst_readable [of "[[1, 2, 3], [4]]"] by fastforce
  ultimately show ?thesis by simp
qed

text \<open>
  C33: what a failing system leaves behind.  Whatever \<open>fopen\<close>, each \<open>fwrite\<close> and \<open>fclose\<close> do, the
  result of \<open>writeM5Pst\<close> is success only when the whole file was written and closed; otherwise the result is
  an error, and the file, if it was opened at all, is a prefix of the complete file.
\<close>

theorem writeM5Pst_failures:
  assumes "length blocks \<le> 400" and "length nodes \<le> 300" and "sum_list (blockSizes blocks) < 2 ^ 60"
    and "writeM5Pst idealIo blocks nodes = Inr (okResult, Some F)" and "writeM5Pst io blocks nodes = Inr (r, fo)"
  shows "case fo of None \<Rightarrow> \<not> wr_ok r \<and> \<not> io_open io
    | Some f \<Rightarrow> take (length f) F = f \<and> (wr_ok r \<longrightarrow> f = F \<and> io_close io)"
proof -
  obtain out where nbt: "m5NbtPages nodes (m5L blocks nodes) (m5B blocks nodes) = Inr (m5TreePages out)"
    and fit: "pagesFit (nbtLeafCount nodes) (m5TreePages out)"
    and F: "F = m5Image blocks nodes (m5TreePages out)"
    using writeM5Pst_image [OF assms(1-3)] assms(4) by auto
  let ?body = "\<lambda>io. m5Body io blocks nodes (m5TreePages out)"
  have w: "writeFile io (?body io) = (r, fo)" using assms(5) unfolding writeM5Pst_unfold [OF assms(1,2) nbt] by simp
  show ?thesis
  proof (cases fo)
    case None
    then show ?thesis using w by (auto simp: writeFile_def Let_def failWith_def split: if_splits)
  next
    case (Some f)
    then show ?thesis
      using writeFile_image(1) [where body = ?body and io = io and r = r and f = f, OF m5Body_rel(1) [OF assms(1-3) fit]] w F
      by (auto simp: min_def)
  qed
qed

definition shortIo :: Io where
  "shortIo = \<lparr>io_open = True, io_fwrite = (\<lambda>k n. if k < 2 then n else 100), io_close = True\<rparr>"

theorem writeM5Pst_failures_witness:
  "\<exists>r f F. writeM5Pst shortIo [] [] = Inr (r, Some f) \<and> writeM5Pst idealIo [] [] = Inr (okResult, Some F)
     \<and> take (length f) F = f"
proof -
  obtain out where nbt: "m5NbtPages [] (m5L [] []) (m5B [] []) = Inr (m5TreePages out)"
    and F: "writeM5Pst idealIo [] [] = Inr (okResult, Some (m5Image [] [] (m5TreePages out)))"
    using writeM5Pst_image [of "[]" "[]"] by auto
  obtain r fo where w: "writeM5Pst shortIo [] [] = Inr (r, fo)"
    using writeM5Pst_unfold [of "[]" "[]", OF _ _ nbt] by (metis surj_pair le0 list.size(3))
  have "case fo of None \<Rightarrow> \<not> wr_ok r \<and> \<not> io_open shortIo
    | Some f \<Rightarrow> take (length f) (m5Image [] [] (m5TreePages out)) = f \<and> (wr_ok r \<longrightarrow> f = m5Image [] [] (m5TreePages out) \<and> io_close shortIo)"
    by (rule writeM5Pst_failures [OF _ _ _ F w]) simp_all
  then obtain f where "fo = Some f" "take (length f) (m5Image [] [] (m5TreePages out)) = f"
    by (cases fo) (auto simp: shortIo_def)
  then show ?thesis using w F by blast
qed

theorem writeM5Pst_readable_witness:
  "\<exists>f e. writeM5Pst idealIo [\<lparr>m5b_bid = makeData 1, m5b_encodedBlock = replicate 64 7, m5b_cb = 4\<rparr>]
      [\<lparr>m5n_nid = Nid 0x21, m5n_bidData = makeData 1, m5n_bidSub = Bid 0, m5n_nidParent = Nid 0\<rparr>] = Inr (okResult, Some f)
    \<and> nbtFind f (mkBref (Bid (readU64 f hdr_kBrefNbtBid)) (Ib (readU64 f hdr_kBrefNbtIb))) (Nid 0x21) True
        = Inr (Some \<lparr>rec_nid = Nid 0x21, rec_bidData = makeData 1, rec_bidSub = Bid 0, rec_nidParent = Nid 0\<rparr>)
    \<and> bbtFind f (mkBref (Bid (readU64 f hdr_kBrefBbtBid)) (Ib (readU64 f hdr_kBrefBbtIb))) (makeData 1) = Inr (Some e)
    \<and> slice (unat (ib_value (bref_ib (bbt_bref e)))) 64 f = replicate 64 7"
proof -
  let ?b = "[\<lparr>m5b_bid = makeData 1, m5b_encodedBlock = replicate 64 7, m5b_cb = 4\<rparr>]"
  let ?n = "[\<lparr>m5n_nid = Nid 0x21, m5n_bidData = makeData 1, m5n_bidSub = Bid 0, m5n_nidParent = Nid 0\<rparr>]"
  show ?thesis using writeM5Pst_readable [of ?b ?n] by (auto simp: m5Record_def)
qed

end
