(* ===== verification/Messaging.thy ===== *)
theory Messaging
  imports Tc Writer
begin

text \<open>
  The messaging layer (\<open>src/messaging.cpp\<close>): entry identifiers, the property contexts of the message
  store and the folders, the column schemas of the folder tables with the row builders, the
  name-to-id map and the receive-folder table, and \<open>writeM6Pst\<close>, which assembles the 27 mandatory
  nodes of a store and hands them to \<open>writeM5Pst\<close>.  A pointer with its size is a list of bytes, and the
  null pointer is the empty one.
\<close>

unbundle bit_operations_syntax

section \<open>Entry identifiers\<close>

definition kEntryIdSize :: nat where
  "kEntryIdSize = 24"

definition makeEntryId :: "bytes \<Rightarrow> Nid \<Rightarrow> u32 \<Rightarrow> bytes" where
  "makeEntryId providerUid entryNid rgbFlags =
     (let out = zeros kEntryIdSize;
          out = writeU32 out 0 rgbFlags;
          out = store out 4 providerUid
      in writeU32 out 20 (nid_value entryNid))"

section \<open>Property contexts\<close>

abbreviation autoProp :: "u16 \<Rightarrow> PropType \<Rightarrow> bytes \<Rightarrow> PcProperty" where
  "autoProp tag t value \<equiv> \<lparr>pc_pidTagId = tag, pc_propType = t, pc_value = value, pc_storage = HintAuto\<rparr>"

record MessageStoreSchema =
  mss_providerUid :: bytes
  mss_displayName :: bytes
  mss_ipmSubTreeNid :: Nid
  mss_ipmWastebasketNid :: Nid
  mss_finderNid :: Nid
  mss_validFolderMask :: u32
  mss_pstPassword :: u32
  mss_replFlags :: u32
  mss_replVersionPrefix :: u32
  mss_replVersionSuffix :: u32
  mss_pidTag6633Boolean :: u8
  mss_pidTag66FAInteger32 :: u32

text \<open>The member initializers; the provider is the caller's.\<close>

definition defaultMessageStore :: "bytes \<Rightarrow> MessageStoreSchema" where
  "defaultMessageStore uid =
     \<lparr>mss_providerUid = uid, mss_displayName = [], mss_ipmSubTreeNid = Nid 0x8022,
      mss_ipmWastebasketNid = Nid 0x8062, mss_finderNid = Nid 0x8042, mss_validFolderMask = 0x89,
      mss_pstPassword = 0, mss_replFlags = 0, mss_replVersionPrefix = 1, mss_replVersionSuffix = 1,
      mss_pidTag6633Boolean = 1, mss_pidTag66FAInteger32 = 0x000E000D\<rparr>"

definition messageStoreProps :: "MessageStoreSchema \<Rightarrow> PcProperty list" where
  "messageStoreProps schema =
     (let replVersion = zeros 24;
          replVersion = writeU32 replVersion 0 (mss_replVersionPrefix schema);
          replVersion = store replVersion 4 (mss_providerUid schema);
          replVersion = writeU32 replVersion 20 (mss_replVersionSuffix schema);
          uid = mss_providerUid schema
      in [autoProp 0x0E34 PtBinary replVersion,
          autoProp 0x0E38 PtInt32 (writeU32 (zeros 4) 0 (mss_replFlags schema)),
          autoProp 0x0FF9 PtBinary uid,
          autoProp 0x3001 PtUnicode (mss_displayName schema),
          autoProp 0x35DF PtInt32 (writeU32 (zeros 4) 0 (mss_validFolderMask schema)),
          autoProp 0x35E0 PtBinary (makeEntryId uid (mss_ipmSubTreeNid schema) 0),
          autoProp 0x35E3 PtBinary (makeEntryId uid (mss_ipmWastebasketNid schema) 0),
          autoProp 0x35E7 PtBinary (makeEntryId uid (mss_finderNid schema) 0),
          autoProp 0x6633 PtBoolean [mss_pidTag6633Boolean schema],
          autoProp 0x66FA PtInt32 (writeU32 (zeros 4) 0 (mss_pidTag66FAInteger32 schema)),
          autoProp 0x67FF PtInt32 (writeU32 (zeros 4) 0 (mss_pstPassword schema))])"

definition buildMessageStorePc :: "MessageStoreSchema \<Rightarrow> Nid \<Rightarrow> PcResult result" where
  "buildMessageStorePc schema firstSubnodeNid = buildPropertyContext (messageStoreProps schema) firstSubnodeNid"

record FolderPcSchema =
  fps_displayName :: bytes
  fps_contentCount :: u32
  fps_contentUnreadCount :: u32
  fps_hasSubfolders :: bool

definition defaultFolderPc :: FolderPcSchema where
  "defaultFolderPc = \<lparr>fps_displayName = [], fps_contentCount = 0, fps_contentUnreadCount = 0, fps_hasSubfolders = False\<rparr>"

definition folderProps :: "FolderPcSchema \<Rightarrow> PcProperty list" where
  "folderProps schema =
     [autoProp 0x3001 PtUnicode (fps_displayName schema),
      autoProp 0x3602 PtInt32 (writeU32 (zeros 4) 0 (fps_contentCount schema)),
      autoProp 0x3603 PtInt32 (writeU32 (zeros 4) 0 (fps_contentUnreadCount schema)),
      autoProp 0x360A PtBoolean [if fps_hasSubfolders schema then 1 else 0]]"

definition buildFolderPc :: "FolderPcSchema \<Rightarrow> Nid \<Rightarrow> PcResult result" where
  "buildFolderPc schema firstSubnodeNid = buildPropertyContext (folderProps schema) firstSubnodeNid"

section \<open>Column schemas\<close>

abbreviation column :: "u16 \<Rightarrow> PropType \<Rightarrow> u16 \<Rightarrow> u8 \<Rightarrow> u8 \<Rightarrow> TcColumn" where
  "column tag t ib cb bt \<equiv> \<lparr>tcc_pidTagId = tag, tcc_propType = t, tcc_ibData = ib, tcc_cbData = cb, tcc_iBit = bt\<rparr>"

definition kHierarchyCols :: "TcColumn list" where
  "kHierarchyCols =
     [column 0x0E30 PtBinary 20 4 6,
      column 0x0E33 PtInt64 24 8 7,
      column 0x0E34 PtBinary 32 4 8,
      column 0x0E38 PtInt32 36 4 9,
      column 0x3001 PtUnicode 8 4 2,
      column 0x3602 PtInt32 12 4 3,
      column 0x3603 PtInt32 16 4 4,
      column 0x360A PtBoolean 52 1 5,
      column 0x3613 PtUnicode 40 4 10,
      column 0x6635 PtInt32 44 4 11,
      column 0x6636 PtInt32 48 4 12,
      column 0x67F2 PtInt32 0 4 0,
      column 0x67F3 PtInt32 4 4 1]"

definition kContentsCols :: "TcColumn list" where
  "kContentsCols =
     [column 0x0017 PtInt32 20 4 5,
      column 0x001A PtUnicode 12 4 3,
      column 0x0036 PtInt32 60 4 15,
      column 0x0037 PtUnicode 28 4 7,
      column 0x0039 PtSystemTime 40 8 9,
      column 0x0042 PtUnicode 24 4 6,
      column 0x0057 PtBoolean 120 1 13,
      column 0x0058 PtBoolean 121 1 14,
      column 0x0070 PtUnicode 68 4 17,
      column 0x0071 PtBinary 72 4 18,
      column 0x0E03 PtUnicode 56 4 12,
      column 0x0E04 PtUnicode 52 4 11,
      column 0x0E06 PtSystemTime 32 8 8,
      column 0x0E07 PtInt32 16 4 4,
      column 0x0E08 PtInt32 48 4 10,
      column 0x0E17 PtInt32 8 4 2,
      column 0x0E30 PtBinary 88 4 21,
      column 0x0E33 PtInt64 92 8 22,
      column 0x0E34 PtBinary 100 4 23,
      column 0x0E38 PtInt32 112 4 26,
      column 0x0E3C PtBinary 108 4 25,
      column 0x0E3D PtBinary 104 4 24,
      column 0x1097 PtInt32 64 4 16,
      column 0x3008 PtSystemTime 80 8 20,
      column 0x3013 PtBinary 116 4 27,
      column 0x65C6 PtInt32 76 4 19,
      column 0x67F2 PtInt32 0 4 0,
      column 0x67F3 PtInt32 4 4 1]"

definition kFaiContentsCols :: "TcColumn list" where
  "kFaiContentsCols =
     [column 0x001A PtUnicode 12 4 3,
      column 0x003A PtUnicode 60 4 16,
      column 0x0070 PtUnicode 56 4 15,
      column 0x0E07 PtInt32 16 4 4,
      column 0x0E17 PtInt32 8 4 2,
      column 0x3001 PtUnicode 20 4 5,
      column 0x67F2 PtInt32 0 4 0,
      column 0x67F3 PtInt32 4 4 1,
      column 0x6800 PtUnicode 44 4 11,
      column 0x6803 PtBoolean 64 1 12,
      column 0x6805 PtMvInt32 48 4 13,
      column 0x682F PtUnicode 52 4 14,
      column 0x7003 PtInt32 24 4 6,
      column 0x7004 PtBinary 28 4 7,
      column 0x7005 PtBinary 32 4 8,
      column 0x7006 PtUnicode 36 4 9,
      column 0x7007 PtInt32 40 4 10]"

definition kRecipientCols :: "TcColumn list" where
  "kRecipientCols =
     [column 0x0C15 PtInt32 8 4 2,
      column 0x0E0F PtBoolean 48 1 3,
      column 0x0FF9 PtBinary 12 4 4,
      column 0x0FFE PtInt32 16 4 5,
      column 0x0FFF PtBinary 20 4 6,
      column 0x3001 PtUnicode 24 4 7,
      column 0x3002 PtUnicode 28 4 8,
      column 0x3003 PtUnicode 32 4 9,
      column 0x300B PtBinary 36 4 10,
      column 0x3900 PtInt32 40 4 11,
      column 0x39FF PtUnicode 44 4 12,
      column 0x3A40 PtBoolean 49 1 13,
      column 0x67F2 PtInt32 0 4 0,
      column 0x67F3 PtInt32 4 4 1]"

definition kAttachmentCols :: "TcColumn list" where
  "kAttachmentCols =
     [column 0x0E20 PtInt32 8 4 2,
      column 0x3704 PtUnicode 12 4 3,
      column 0x3705 PtInt32 16 4 4,
      column 0x370B PtInt32 20 4 5,
      column 0x67F2 PtInt32 0 4 0,
      column 0x67F3 PtInt32 4 4 1]"

definition kReceiveFolderCols :: "TcColumn list" where
  "kReceiveFolderCols =
     [column 0x001A PtUnicode 8 4 2,
      column 0x3008 PtSystemTime 16 8 4,
      column 0x3667 PtBinary 12 4 3,
      column 0x67F2 PtInt32 0 4 0,
      column 0x67F3 PtInt32 4 4 1]"

definition kSearchContentsCols :: "TcColumn list" where
  "kSearchContentsCols =
     [column 0x0017 PtInt32 20 4 5,
      column 0x001A PtUnicode 12 4 3,
      column 0x0036 PtInt32 60 4 15,
      column 0x0037 PtUnicode 28 4 7,
      column 0x0039 PtSystemTime 40 8 9,
      column 0x0042 PtUnicode 24 4 6,
      column 0x0057 PtBoolean 128 1 13,
      column 0x0058 PtBoolean 129 1 14,
      column 0x0070 PtUnicode 68 4 17,
      column 0x0071 PtBinary 72 4 18,
      column 0x0E03 PtUnicode 56 4 12,
      column 0x0E04 PtUnicode 52 4 11,
      column 0x0E05 PtUnicode 124 4 28,
      column 0x0E06 PtSystemTime 32 8 8,
      column 0x0E07 PtInt32 16 4 4,
      column 0x0E08 PtInt32 48 4 10,
      column 0x0E17 PtInt32 8 4 2,
      column 0x0E2A PtBoolean 130 1 30,
      column 0x0E30 PtBinary 88 4 21,
      column 0x0E33 PtInt64 92 8 22,
      column 0x0E34 PtBinary 100 4 23,
      column 0x0E38 PtInt32 112 4 26,
      column 0x0E3C PtBinary 108 4 25,
      column 0x0E3D PtBinary 104 4 24,
      column 0x1097 PtInt32 64 4 16,
      column 0x3008 PtSystemTime 80 8 20,
      column 0x3013 PtBinary 116 4 27,
      column 0x65C6 PtInt32 76 4 19,
      column 0x67F1 PtInt32 120 4 29,
      column 0x67F2 PtInt32 0 4 0,
      column 0x67F3 PtInt32 4 4 1]"

section \<open>Hierarchy tables\<close>

definition kHierarchyRowSize :: nat where "kHierarchyRowSize = 55"
definition kHierarchyCebOff :: nat where "kHierarchyCebOff = 53"

text \<open>\<open>ceb\<close> is the offset of the cell existence block in the row.\<close>

definition setCebBit :: "nat \<Rightarrow> nat \<Rightarrow> bytes \<Rightarrow> bytes" where
  "setCebBit ceb iBit dst =
     (let byteIdx = iBit div 8; bitInByte = 7 - iBit mod 8
      in dst[ceb + byteIdx := (dst ! (ceb + byteIdx)) OR push_bit bitInByte 1])"

record HierarchyTcRow =
  htr_rowId :: Nid
  htr_rowVer :: u32
  htr_displayName :: bytes
  htr_contentCount :: u32
  htr_contentUnreadCount :: u32
  htr_hasSubfolders :: bool
  htr_containerClass :: bytes

definition hierarchyRow :: "HierarchyTcRow \<Rightarrow> TcRow" where
  "hierarchyRow src =
     (let dst = zeros kHierarchyRowSize; ceb = kHierarchyCebOff;
          dst = writeU32 dst 0 (nid_value (htr_rowId src));
          dst = writeU32 dst 4 (htr_rowVer src);
          dst = writeU32 dst 12 (htr_contentCount src);
          dst = writeU32 dst 16 (htr_contentUnreadCount src);
          dst = writeU8 dst 52 (if htr_hasSubfolders src then 1 else 0);
          dst = setCebBit ceb 0 dst;
          dst = setCebBit ceb 1 dst;
          dst = setCebBit ceb 3 dst;
          dst = setCebBit ceb 4 dst;
          dst = setCebBit ceb 5 dst;
          (dst, cells) = (if length (htr_displayName src) > 0
                          then (setCebBit ceb 2 dst, [\<lparr>tvc_colIndex = 4, tvc_bytes = htr_displayName src\<rparr>])
                          else (dst, []));
          (dst, cells) = (if length (htr_containerClass src) > 0
                          then (setCebBit ceb 10 dst, cells @ [\<lparr>tvc_colIndex = 8, tvc_bytes = htr_containerClass src\<rparr>])
                          else (dst, cells))
      in \<lparr>tcr_rowId = nid_value (htr_rowId src), tcr_rowBytes = dst, tcr_varlenCells = cells\<rparr>)"

definition buildFolderHierarchyTc :: "HierarchyTcRow list \<Rightarrow> TcResult result" where
  "buildFolderHierarchyTc rows = buildTableContext kHierarchyCols (map hierarchyRow rows) (Nid 0)"

section \<open>Contents tables\<close>

definition kContentsRowSize :: nat where "kContentsRowSize = 126"
definition kContentsCebOff :: nat where "kContentsCebOff = 122"

record ContentsTcRow =
  ctr_rowId :: Nid
  ctr_rowVer :: u32
  ctr_importance :: u32
  ctr_sensitivity :: u32
  ctr_messageStatus :: u32
  ctr_messageFlags :: u32
  ctr_messageSize :: u32
  ctr_messageToMe :: bool
  ctr_messageCcMe :: bool
  ctr_clientSubmitTime :: u64
  ctr_messageDeliveryTime :: u64
  ctr_lastModificationTime :: u64
  ctr_messageClass :: bytes
  ctr_subject :: bytes
  ctr_sentRepresentingName :: bytes
  ctr_conversationTopic :: bytes
  ctr_displayCc :: bytes
  ctr_displayTo :: bytes
  ctr_conversationIndex :: bytes
  ctr_changeKey :: bytes

text \<open>
  The fixed cells of a row; a signed 32-bit field is stored through its bit pattern.  \<open>cebIf\<close> is the
  conditional existence bit, and \<open>putTime\<close> the time cell that is left out when it is zero.
\<close>

definition cebIf :: "bool \<Rightarrow> nat \<Rightarrow> bytes \<Rightarrow> bytes" where
  "cebIf present iBit dst = (if present then setCebBit kContentsCebOff iBit dst else dst)"

definition putTime :: "nat \<Rightarrow> nat \<Rightarrow> u64 \<Rightarrow> bytes \<Rightarrow> bytes" where
  "putTime off iBit ticks dst =
     (if ticks \<noteq> 0 then setCebBit kContentsCebOff iBit (writeU64 dst off ticks) else dst)"

definition contentsFixed :: "ContentsTcRow \<Rightarrow> bytes" where
  "contentsFixed src =
     (let dst = zeros kContentsRowSize; ceb = kContentsCebOff;
          dst = setCebBit ceb 0 (writeU32 dst 0 (nid_value (ctr_rowId src)));
          dst = setCebBit ceb 1 (writeU32 dst 4 (ctr_rowVer src));
          dst = writeU32 dst 8 (ctr_messageStatus src);
          dst = cebIf (ctr_messageStatus src \<noteq> 0) 2 dst;
          dst = setCebBit ceb 4 (writeU32 dst 16 (ctr_messageFlags src));
          dst = setCebBit ceb 5 (writeU32 dst 20 (ctr_importance src));
          dst = putTime 32 8 (ctr_messageDeliveryTime src) dst;
          dst = putTime 40 9 (ctr_clientSubmitTime src) dst;
          dst = setCebBit ceb 10 (writeU32 dst 48 (ctr_messageSize src));
          dst = writeU32 dst 60 (ctr_sensitivity src);
          dst = cebIf (ctr_sensitivity src \<noteq> 0) 15 dst;
          dst = putTime 80 20 (ctr_lastModificationTime src) dst;
          dst = writeU8 dst 120 (if ctr_messageToMe src then 1 else 0);
          dst = cebIf (ctr_messageToMe src) 13 dst;
          dst = writeU8 dst 121 (if ctr_messageCcMe src then 1 else 0)
      in cebIf (ctr_messageCcMe src) 14 dst)"

definition pushVarlen :: "nat \<Rightarrow> nat \<Rightarrow> bytes \<Rightarrow> bytes \<times> TcVarlenCell list \<Rightarrow> bytes \<times> TcVarlenCell list" where
  "pushVarlen colIdx iBit bs st =
     (if length bs = 0 then st
      else (setCebBit kContentsCebOff iBit (fst st), snd st @ [\<lparr>tvc_colIndex = colIdx, tvc_bytes = bs\<rparr>]))"

definition contentsRow :: "ContentsTcRow \<Rightarrow> TcRow" where
  "contentsRow src =
     (let st = (contentsFixed src, []);
          st = pushVarlen 1 3 (ctr_messageClass src) st;
          st = pushVarlen 5 6 (ctr_sentRepresentingName src) st;
          st = pushVarlen 3 7 (ctr_subject src) st;
          st = pushVarlen 11 11 (ctr_displayTo src) st;
          st = pushVarlen 10 12 (ctr_displayCc src) st;
          st = pushVarlen 8 17 (ctr_conversationTopic src) st;
          st = pushVarlen 9 18 (ctr_conversationIndex src) st;
          st = pushVarlen 24 27 (ctr_changeKey src) st
      in \<lparr>tcr_rowId = nid_value (ctr_rowId src), tcr_rowBytes = fst st, tcr_varlenCells = snd st\<rparr>)"

definition buildFolderContentsTcEmpty :: "TcResult result" where
  "buildFolderContentsTcEmpty = buildTableContext kContentsCols [] (Nid 0)"

definition buildFolderContentsTc :: "ContentsTcRow list \<Rightarrow> Nid \<Rightarrow> TcResult result" where
  "buildFolderContentsTc rows firstSubnodeNid =
     (if length rows = 0 then buildTableContext kContentsCols [] (Nid 0)
      else buildTableContext kContentsCols (map contentsRow rows) firstSubnodeNid)"

definition buildFolderFaiContentsTc :: "TcResult result" where
  "buildFolderFaiContentsTc = buildTableContext kFaiContentsCols [] (Nid 0)"

section \<open>The other nodes\<close>

definition nameToIdProps :: "PcProperty list" where
  "nameToIdProps =
     [autoProp 0x0001 PtInt32 (writeU32 (zeros 4) 0 251), autoProp 0x0002 PtBinary (zeros 16),
      autoProp 0x0003 PtBinary (zeros 8), autoProp 0x0004 PtBinary (zeros 4)]"

definition buildNameToIdMapPc :: "Nid \<Rightarrow> PcResult result" where
  "buildNameToIdMapPc firstSubnodeNid = buildPropertyContext nameToIdProps firstSubnodeNid"

definition buildRecipientTemplateTc :: "TcResult result" where
  "buildRecipientTemplateTc = buildTableContext kRecipientCols [] (Nid 0)"

definition buildAttachmentTemplateTc :: "TcResult result" where
  "buildAttachmentTemplateTc = buildTableContext kAttachmentCols [] (Nid 0)"

definition kReceiveFolderRowSize :: nat where "kReceiveFolderRowSize = 25"
definition kReceiveFolderCebOff :: nat where "kReceiveFolderCebOff = 24"

definition kDefaultRftProviderUid :: bytes where
  "kDefaultRftProviderUid =
     [0x22, 0x9D, 0xB5, 0x0A, 0xDC, 0xD9, 0x94, 0x43, 0x85, 0xDE, 0x90, 0xAE, 0xB0, 0x7D, 0x12, 0x70]"

definition receiveFolderRow :: TcRow where
  "receiveFolderRow =
     (let inboxEntryId = makeEntryId kDefaultRftProviderUid (Nid 0x8022) 0;
          row = zeros kReceiveFolderRowSize;
          row = writeU32 row 0 0;
          row = writeU32 row 4 1;
          row = row[kReceiveFolderCebOff := 0xF0]
      in \<lparr>tcr_rowId = 0, tcr_rowBytes = row,
          tcr_varlenCells = [\<lparr>tvc_colIndex = 0, tvc_bytes = [0, 0]\<rparr>, \<lparr>tvc_colIndex = 2, tvc_bytes = inboxEntryId\<rparr>]\<rparr>)"

definition buildReceiveFolderTableTc :: "TcResult result" where
  "buildReceiveFolderTableTc = buildTableContext kReceiveFolderCols [receiveFolderRow] (Nid 0)"

definition buildSearchContentsTemplateTc :: "TcResult result" where
  "buildSearchContentsTemplateTc = buildTableContext kSearchContentsCols [] (Nid 0)"

definition buildSearchFolderPc :: "FolderPcSchema \<Rightarrow> Nid \<Rightarrow> PcResult result" where
  "buildSearchFolderPc schema firstSubnodeNid = buildFolderPc schema firstSubnodeNid"

definition buildEmptyNodePayload :: bytes where
  "buildEmptyNodePayload = zeros 4"

section \<open>The store of 27 nodes\<close>

definition utf16leAscii :: "string \<Rightarrow> bytes" where
  "utf16leAscii s = concat (map (\<lambda>c. [of_char c, 0]) s)"

record M6NodeBuild =
  m6n_nid :: Nid
  m6n_nidParent :: Nid
  m6n_body :: bytes

definition pushPc :: "Nid \<Rightarrow> Nid \<Rightarrow> PcResult result \<Rightarrow> M6NodeBuild list \<Rightarrow> M6NodeBuild list result" where
  "pushPc nid parent r nodes =
     bind_r r (\<lambda>r. if pcr_subnodes r \<noteq> []
                   then Inl (LogicError ''writeM6Pst: M6 PC unexpectedly produced subnodes'')
                   else Inr (nodes @ [\<lparr>m6n_nid = nid, m6n_nidParent = parent, m6n_body = pcr_hnBytes r\<rparr>]))"

definition pushTc :: "Nid \<Rightarrow> Nid \<Rightarrow> TcResult result \<Rightarrow> M6NodeBuild list \<Rightarrow> M6NodeBuild list result" where
  "pushTc nid parent r nodes =
     bind_r r (\<lambda>r. Inr (nodes @ [\<lparr>m6n_nid = nid, m6n_nidParent = parent, m6n_body = tcres_hnBytes r\<rparr>]))"

definition pushBare :: "Nid \<Rightarrow> M6NodeBuild list \<Rightarrow> M6NodeBuild list result" where
  "pushBare nid nodes = Inr (nodes @ [\<lparr>m6n_nid = nid, m6n_nidParent = Nid 0, m6n_body = buildEmptyNodePayload\<rparr>])"

fun runPushes :: "(M6NodeBuild list \<Rightarrow> M6NodeBuild list result) list \<Rightarrow> M6NodeBuild list \<Rightarrow> M6NodeBuild list result" where
  "runPushes [] nodes = Inr nodes"
| "runPushes (p # ps) nodes = bind_r (p nodes) (runPushes ps)"

definition kDummySub :: Nid where "kDummySub = Nid 0x41"

definition childRow :: "Nid \<Rightarrow> string \<Rightarrow> bool \<Rightarrow> HierarchyTcRow" where
  "childRow nid nm sub =
     \<lparr>htr_rowId = nid, htr_rowVer = 0, htr_displayName = utf16leAscii nm, htr_contentCount = 0,
      htr_contentUnreadCount = 0, htr_hasSubfolders = sub, htr_containerClass = []\<rparr>"

definition rootHierarchy :: "HierarchyTcRow list" where
  "rootHierarchy =
     [childRow (Nid 0x2223) ''Spam Search Folder'' False, childRow (Nid 0x8022) ''Top of Personal Folders'' True,
      childRow (Nid 0x8042) ''Search Root'' False]"

definition folderNamed :: "string \<Rightarrow> bool \<Rightarrow> FolderPcSchema" where
  "folderNamed nm sub = defaultFolderPc\<lparr>fps_displayName := utf16leAscii nm, fps_hasSubfolders := sub\<rparr>"

text \<open>The pushes in the order of the code.\<close>

definition m6Pushes :: "bytes \<Rightarrow> (M6NodeBuild list \<Rightarrow> M6NodeBuild list result) list" where
  "m6Pushes providerUid =
     [pushPc (Nid 0x21) (Nid 0) (buildMessageStorePc (defaultMessageStore providerUid) kDummySub),
      pushPc (Nid 0x61) (Nid 0) (buildNameToIdMapPc kDummySub),
      pushPc (Nid 0x122) (Nid 0x122) (buildFolderPc (defaultFolderPc\<lparr>fps_hasSubfolders := True\<rparr>) kDummySub),
      pushTc (Nid 0x12D) (Nid 0) (buildFolderHierarchyTc rootHierarchy),
      pushTc (Nid 0x12E) (Nid 0) buildFolderContentsTcEmpty,
      pushTc (Nid 0x12F) (Nid 0) buildFolderFaiContentsTc,
      pushBare (Nid 0x1E1),
      pushBare (Nid 0x201),
      pushTc (Nid 0x60D) (Nid 0) (buildFolderHierarchyTc []),
      pushTc (Nid 0x60E) (Nid 0) buildFolderContentsTcEmpty,
      pushTc (Nid 0x60F) (Nid 0) buildFolderFaiContentsTc,
      pushTc (Nid 0x610) (Nid 0) buildSearchContentsTemplateTc,
      pushTc (Nid 0x671) (Nid 0) buildAttachmentTemplateTc,
      pushTc (Nid 0x692) (Nid 0) buildRecipientTemplateTc,
      pushPc (Nid 0x2223) (Nid 0x122) (buildSearchFolderPc (folderNamed ''Spam Search Folder'' False) kDummySub),
      pushPc (Nid 0x8022) (Nid 0x122) (buildFolderPc (folderNamed ''Top of Personal Folders'' True) kDummySub),
      pushTc (Nid 0x802D) (Nid 0) (buildFolderHierarchyTc []),
      pushTc (Nid 0x802E) (Nid 0) buildFolderContentsTcEmpty,
      pushTc (Nid 0x802F) (Nid 0) buildFolderFaiContentsTc,
      pushPc (Nid 0x8042) (Nid 0x122) (buildFolderPc (folderNamed ''Search Root'' False) kDummySub),
      pushTc (Nid 0x804D) (Nid 0) (buildFolderHierarchyTc []),
      pushTc (Nid 0x804E) (Nid 0) buildFolderContentsTcEmpty,
      pushTc (Nid 0x804F) (Nid 0) buildFolderFaiContentsTc,
      pushPc (Nid 0x8062) (Nid 0x8022) (buildFolderPc (folderNamed ''Deleted Items'' False) kDummySub),
      pushTc (Nid 0x806D) (Nid 0) (buildFolderHierarchyTc []),
      pushTc (Nid 0x806E) (Nid 0) buildFolderContentsTcEmpty,
      pushTc (Nid 0x806F) (Nid 0) buildFolderFaiContentsTc]"

text \<open>The encode loop: one data block for each node.\<close>

fun encodeNodes :: "nat \<Rightarrow> u64 \<Rightarrow> M6NodeBuild list \<Rightarrow> M5DataBlockSpec list \<times> M5Node list" where
  "encodeNodes i cursorIb [] = ([], [])"
| "encodeNodes i cursorIb (n # ns) =
     (let bid = makeData (word_of_nat (i + 1));
          encoded = buildDataBlock (m6n_body n) bid (Ib cursorIb) CryptPermute;
          (blocks, nodes) = encodeNodes (i + 1) (cursorIb + word_of_nat (length encoded)) ns
      in (\<lparr>m5b_bid = bid, m5b_encodedBlock = encoded, m5b_cb = word_of_nat (length (m6n_body n))\<rparr> # blocks,
          \<lparr>m5n_nid = m6n_nid n, m5n_bidData = bid, m5n_bidSub = Bid 0, m5n_nidParent = m6n_nidParent n\<rparr> # nodes))"

text \<open>
  The \<open>catch\<close>: an exception is a failed result with its message; undefined behaviour is not caught, and
  neither is an error of \<open>writeM5Pst\<close>, which is \<open>noexcept\<close>.
\<close>

fun caughtM6 :: "error \<Rightarrow> (WriteResult \<times> bytes option) result" where
  "caughtM6 OutOfBounds = Inl OutOfBounds"
| "caughtM6 (RuntimeError m) = Inr (failWith (''writeM6Pst: '' @ m), None)"
| "caughtM6 (InvalidArgument m) = Inr (failWith (''writeM6Pst: '' @ m), None)"
| "caughtM6 (LengthError m) = Inr (failWith (''writeM6Pst: '' @ m), None)"
| "caughtM6 (LogicError m) = Inr (failWith (''writeM6Pst: '' @ m), None)"

definition writeM6Pst :: "Io \<Rightarrow> bytes \<Rightarrow> (WriteResult \<times> bytes option) result" where
  "writeM6Pst io providerUid =
     (case runPushes (m6Pushes providerUid) [] of
        Inl e \<Rightarrow> caughtM6 e
      | Inr nodes \<Rightarrow>
          if length nodes \<noteq> 27 then Inr (failWith ''writeM6Pst: internal - expected 27 nodes'', None)
          else let (blocks, m5nodes) = encodeNodes 0 0x4600 nodes in writeM5Pst io blocks m5nodes)"

section \<open>Well-formed schemas\<close>

definition colEnd :: "TcColumn \<Rightarrow> nat" where
  "colEnd c = unat (tcc_ibData c) + unat (tcc_cbData c)"

definition inRegion :: "TcRgib \<Rightarrow> TcColumn \<Rightarrow> bool" where
  "inRegion rg c \<longleftrightarrow>
     (if tcc_cbData c = 1 then unat (end2b rg) \<le> unat (tcc_ibData c) \<and> colEnd c \<le> unat (end1b rg)
      else if tcc_cbData c = 2 then unat (end4b rg) \<le> unat (tcc_ibData c) \<and> colEnd c \<le> unat (end2b rg)
      else colEnd c \<le> unat (end4b rg))"

definition colWidthOk :: "TcColumn \<Rightarrow> bool" where
  "colWidthOk c \<longleftrightarrow> unat (tcc_cbData c) = (if isFixedSize (tcc_propType c) then fixedSize (tcc_propType c) else 4)"

text \<open>
  A schema is well formed when its columns are in ascending tag order, each bit below the number of
  columns is used once, each cell has the width of its type and lies in the region of its width,
  no two cells overlap, the regions follow each other with the existence block at the end, and the two
  mandatory columns are at their places.
\<close>

definition schemaOk :: "TcColumn list \<Rightarrow> bool" where
  "schemaOk cols \<longleftrightarrow>
     sorted_wrt (<) (map columnTag cols)
     \<and> distinct (map tcc_iBit cols) \<and> list_all (\<lambda>c. unat (tcc_iBit c) < length cols) cols
     \<and> list_all colWidthOk cols
     \<and> sorted_wrt (\<lambda>c d. colEnd c \<le> unat (tcc_ibData d) \<or> colEnd d \<le> unat (tcc_ibData c)) cols
     \<and> list_all (inRegion (computeTcRgib cols)) cols
     \<and> end4b (computeTcRgib cols) \<le> end2b (computeTcRgib cols)
     \<and> end2b (computeTcRgib cols) \<le> end1b (computeTcRgib cols)
     \<and> unat (endBm (computeTcRgib cols)) = unat (end1b (computeTcRgib cols)) + (length cols + 7) div 8
     \<and> column 0x67F2 PtInt32 0 4 0 \<in> set cols \<and> column 0x67F3 PtInt32 4 4 1 \<in> set cols"

text \<open>The seven schemas, each with the size of its rows.\<close>

lemma kHierarchyCols_ok: "schemaOk kHierarchyCols \<and> endBm (computeTcRgib kHierarchyCols) = 55" by code_simp
lemma kContentsCols_ok: "schemaOk kContentsCols \<and> endBm (computeTcRgib kContentsCols) = 126" by code_simp
lemma kFaiContentsCols_ok: "schemaOk kFaiContentsCols \<and> endBm (computeTcRgib kFaiContentsCols) = 68" by code_simp
lemma kRecipientCols_ok: "schemaOk kRecipientCols \<and> endBm (computeTcRgib kRecipientCols) = 52" by code_simp
lemma kAttachmentCols_ok: "schemaOk kAttachmentCols \<and> endBm (computeTcRgib kAttachmentCols) = 25" by code_simp
lemma kReceiveFolderCols_ok: "schemaOk kReceiveFolderCols \<and> endBm (computeTcRgib kReceiveFolderCols) = 25" by code_simp
lemma kSearchContentsCols_ok: "schemaOk kSearchContentsCols \<and> endBm (computeTcRgib kSearchContentsCols) = 135" by code_simp

text \<open>
  All seven table schemas are well formed.  In each of them the columns stand in ascending tag order, every
  column has a bit of its own in the existence block, the cells have the width of their types, lie in the
  region of their width and do not overlap, the regions follow each other as TCINFO requires, and the rows have
  the sizes that the row builders assume.
\<close>

theorem schemas_well_formed:
  "list_all schemaOk [kHierarchyCols, kContentsCols, kFaiContentsCols, kRecipientCols, kAttachmentCols,
      kReceiveFolderCols, kSearchContentsCols]
   \<and> map (\<lambda>cols. unat (endBm (computeTcRgib cols))) [kHierarchyCols, kContentsCols, kFaiContentsCols, kRecipientCols,
      kAttachmentCols, kReceiveFolderCols, kSearchContentsCols]
     = [kHierarchyRowSize, kContentsRowSize, 68, 52, 25, kReceiveFolderRowSize, 135]"
  using kHierarchyCols_ok kContentsCols_ok kFaiContentsCols_ok kRecipientCols_ok kAttachmentCols_ok kReceiveFolderCols_ok kSearchContentsCols_ok
  by (simp add: kHierarchyRowSize_def kContentsRowSize_def kReceiveFolderRowSize_def)

section \<open>The cell existence block\<close>

definition cebBit :: "nat \<Rightarrow> bytes \<Rightarrow> nat \<Rightarrow> bool" where
  "cebBit ceb row i \<longleftrightarrow> bit (row ! (ceb + i div 8)) (7 - i mod 8)"

lemma length_setCebBit [simp]: "length (setCebBit ceb i d) = length d"
  by (simp add: setCebBit_def Let_def)

lemma slice_setCebBit: "off + n \<le> ceb \<Longrightarrow> slice off n (setCebBit ceb i d) = slice off n d"
  by (simp add: setCebBit_def Let_def slice_def drop_update_swap)

lemma nth_setCebBit: "k < ceb \<Longrightarrow> setCebBit ceb i d ! k = d ! k"
  by (simp add: setCebBit_def Let_def)

lemma cebBit_set:
  assumes "ceb + j div 8 < length d"
  shows "cebBit ceb (setCebBit ceb j d) i \<longleftrightarrow> i = j \<or> cebBit ceb d i"
proof (cases "i div 8 = j div 8")
  case True
  have ij: "i = j \<longleftrightarrow> i mod 8 = j mod 8" using True by (metis div_mult_mod_eq)
  have "i mod 8 < 8" "j mod 8 < 8" by simp_all
  then have "(7 - i mod 8 = 7 - j mod 8) \<longleftrightarrow> i mod 8 = j mod 8" by linarith
  then show ?thesis
    using assms True ij by (auto simp: cebBit_def setCebBit_def Let_def bit_simps)
next
  case False
  then show ?thesis by (auto simp: cebBit_def setCebBit_def Let_def)
qed

lemma cebBit_store:
  "off + length bs \<le> ceb \<Longrightarrow> ceb + i div 8 < length d \<Longrightarrow> cebBit ceb (store d off bs) i \<longleftrightarrow> cebBit ceb d i"
  by (simp add: cebBit_def nth_store)

lemma cebBit_zeros: "ceb + i div 8 < n \<Longrightarrow> \<not> cebBit ceb (zeros n) i"
  by (simp add: cebBit_def zeros_def)

section \<open>Reading a cell of a table\<close>

definition tcReadCell :: "TcColumn list \<Rightarrow> TcResult \<Rightarrow> nat \<Rightarrow> u16 \<Rightarrow> bytes option" where
  "tcReadCell cols r s tag =
     (case List.find (\<lambda>c. tcc_pidTagId c = tag) cols of None \<Rightarrow> None
      | Some c \<Rightarrow>
        (case tcReadMatrix r of None \<Rightarrow> None
         | Some M \<Rightarrow>
           let rg = computeTcRgib cols; row = slice (s * unat (endBm rg)) (unat (endBm rg)) M
           in if \<not> cebBit (unat (end1b rg)) row (unat (tcc_iBit c)) then None
              else if isFixedSize (tcc_propType c) then Some (slice (unat (tcc_ibData c)) (unat (tcc_cbData c)) row)
              else hnValue (tcres_hnBytes r) (readU32 row (unat (tcc_ibData c)))))"

lemma readU32_slice: "off + 4 \<le> n \<Longrightarrow> b + n \<le> length M \<Longrightarrow> readU32 (slice b n M) off = readU32 M (b + off)"
  by (simp add: readU32_def nth_slice add.assoc)

text \<open>The rows of a table that was built, as a reader sees them.\<close>

lemma tc_row:
  assumes b: "buildTableContext cols rows nid = Inr r" and fits: "list_all (rowFits cols) rows"
    and n: "length (tcVarlens cols rows) \<le> 2042" and s: "s < length rows"
    and apart: "\<And>r. r \<in> set rows \<Longrightarrow>
      cellsApart (map (\<lambda>v. (unat (tcc_ibData (cols ! tvc_colIndex v)), tvc_bytes v)) (tcr_varlenCells r))"
  defines "R \<equiv> sort_key tcr_rowId rows ! s" and "bm \<equiv> unat (endBm (computeTcRgib cols))"
  obtains M where "tcReadMatrix r = Some M" and "s * bm + bm \<le> length M"
    and "\<And>off. off < bm \<Longrightarrow> list_all (\<lambda>v. off < unat (tcc_ibData (cols ! tvc_colIndex v)) \<or> unat (tcc_ibData (cols ! tvc_colIndex v)) + 4 \<le> off) (tcr_varlenCells R)
        \<Longrightarrow> slice (s * bm) bm M ! off = tcr_rowBytes R ! off"
    and "\<And>v. v \<in> set (tcr_varlenCells R) \<Longrightarrow>
        hnValue (tcres_hnBytes r) (readU32 (slice (s * bm) bm M) (unat (tcc_ibData (cols ! tvc_colIndex v)))) = Some (tvc_bytes v)"
proof -
  let ?srt = "sort_key tcr_rowId rows" and ?ib = "\<lambda>v. unat (tcc_ibData (cols ! tvc_colIndex v))"
  have ne: "rows \<noteq> []" using s by auto
  have fs: "list_all (rowFits cols) ?srt" using fits by (simp add: list_all_iff)
  have "cellsApart (tcVarlens cols rows)" by (rule cellsApart_varlens [OF fs]) (use apart in simp)
  from tc_reads [OF b ne this n] obtain M where M: "tcReadMatrix r = Some M" "length M = length rows * bm"
    and cell: "list_all (\<lambda>v. hnValue (tcres_hnBytes r) (readU32 M (fst v)) = Some (snd v)) (tcVarlens cols rows)"
    and other: "\<And>off. list_all (\<lambda>v. off < fst v \<or> fst v + 4 \<le> off) (tcVarlens cols rows) \<Longrightarrow> off < length M
        \<Longrightarrow> M ! off = concat (map tcr_rowBytes ?srt) ! off"
    unfolding bm_def by blast
  have room: "s * bm + bm \<le> length M" using entry_room [OF s] M(2) by simp
  have R: "R \<in> set ?srt" unfolding R_def using s by (intro nth_mem) simp
  have len: "length (tcr_rowBytes q) = bm" if "q \<in> set ?srt" for q
    using that fits by (auto simp: list_all_iff rowFits_def bm_def)
  have src: "slice (s * bm) bm (concat (map tcr_rowBytes ?srt)) = tcr_rowBytes R"
    using slice_concat_const [of ?srt tcr_rowBytes bm s] len s by (simp add: R_def)
  have "slice (s * bm) bm M ! off = tcr_rowBytes R ! off"
    if o: "off < bm" "list_all (\<lambda>v. off < ?ib v \<or> ?ib v + 4 \<le> off) (tcr_varlenCells R)" for off
  proof -
    have "s * bm + off < fst x \<or> fst x + 4 \<le> s * bm + off" if x: "x \<in> set (tcVarlens cols rows)" for x
    proof -
      obtain t v where t: "t < length rows" "v \<in> set (tcr_varlenCells (?srt ! t))" "fst x = t * bm + ?ib v"
        using x by (auto simp: varlenAllocs_def bm_def)
      have "?srt ! t \<in> set ?srt" using t(1) by (intro nth_mem) simp
      then have ib: "?ib v + 4 \<le> bm" using fs t(2) by (auto simp: list_all_iff rowFits_def cellFits_def bm_def)
      consider "t < s" | "t = s" | "s < t" by linarith
      then show ?thesis
      proof cases
        case 1
        then show ?thesis using entry_room [OF 1, of bm] t(3) ib by linarith
      next
        case 2
        then show ?thesis using o(2) t by (auto simp: list_all_iff R_def)
      next
        case 3
        then show ?thesis using entry_room [OF 3, of bm] t(3) o(1) by linarith
      qed
    qed
    then have "M ! (s * bm + off) = concat (map tcr_rowBytes ?srt) ! (s * bm + off)"
      using room o(1) by (intro other) (simp_all add: list_all_iff)
    moreover have "s * bm + bm \<le> length (concat (map tcr_rowBytes ?srt))"
      using length_concat_const [of ?srt tcr_rowBytes bm] len room M(2) by simp
    ultimately show ?thesis using src o(1) room by (metis (no_types, lifting) nth_slice add_less_cancel_left less_le_trans)
  qed
  moreover have "hnValue (tcres_hnBytes r) (readU32 (slice (s * bm) bm M) (?ib v)) = Some (tvc_bytes v)"
    if v: "v \<in> set (tcr_varlenCells R)" for v
  proof -
    have "cellFits cols v" using R fs v by (auto simp: list_all_iff rowFits_def)
    then have "?ib v + 4 \<le> bm" by (simp add: cellFits_def bm_def)
    then have "readU32 (slice (s * bm) bm M) (?ib v) = readU32 M (s * bm + ?ib v)" using room by (intro readU32_slice)
    moreover have "(s * bm + ?ib v, tvc_bytes v) \<in> set (tcVarlens cols rows)"
      using v s by (force simp: varlenAllocs_def R_def bm_def)
    ultimately show ?thesis using cell by (auto simp: list_all_iff)
  qed
  ultimately show ?thesis using that M(1) room by blast
qed

lemma length_varlens:
  assumes "\<And>r. r \<in> set rows \<Longrightarrow> length (tcr_varlenCells r) \<le> k"
  shows "length (tcVarlens cols rows) \<le> length rows * k"
proof -
  let ?srt = "sort_key tcr_rowId rows"
  have "length (concat (map f [0..<m])) \<le> m * k" if "\<And>i. i < m \<Longrightarrow> length (f i) \<le> k" for f :: "nat \<Rightarrow> 'b list" and m
    using that
  proof (induction m)
    case (Suc m)
    then show ?case using Suc.IH Suc.prems [of m] by (simp add: add_mono add.commute)
  qed simp
  note c = this
  have "length (tcr_varlenCells (?srt ! i)) \<le> k" if "i < length rows" for i
    using assms [of "?srt ! i"] that nth_mem [of i ?srt] by simp
  then show ?thesis unfolding varlenAllocs_def length_sort by (intro c) simp
qed

text \<open>A table of the messaging layer: fitting rows with few cells, no subnode.\<close>

lemma estimate_rows:
  "length rows * 8 + length rows * unat (endBm (computeTcRgib cols)) \<le> tcEstimate cols rows False"
proof -
  have "x \<le> (x + 3) div 4 * 4" for x :: nat
    using div_mult_mod_eq [of "x + 3" 4] mod_less_divisor [of 4 "x + 3"] by linarith
  then show ?thesis unfolding estimateHnSize_def Let_def by (simp only: if_False)
qed

lemma tc_small:
  assumes b: "buildTableContext cols rows (Nid 0) = Inr r" and "cols \<noteq> []" and "validateCols cols = Inr ()"
    and fits: "list_all (rowFits cols) rows" and k: "\<And>r. r \<in> set rows \<Longrightarrow> length (tcr_varlenCells r) \<le> 8"
    and bm: "25 \<le> unat (endBm (computeTcRgib cols))"
  shows "length (tcVarlens cols rows) \<le> 2042"
proof (cases "rows = []")
  case False
  have "tcEstimate cols rows False \<le> 8176" using tc_plain(2) [OF False assms(2-4)] b by fastforce
  then have "length rows * 8 + length rows * unat (endBm (computeTcRgib cols)) \<le> 8176"
    using estimate_rows [of rows cols] by linarith
  moreover have "length rows * 25 \<le> length rows * unat (endBm (computeTcRgib cols))" using bm by (intro mult_le_mono2)
  ultimately have "length rows * 8 \<le> 2042" by linarith
  then show ?thesis using length_varlens [OF k, of rows cols] by linarith
qed (simp add: varlenAllocs_def)

section \<open>Hierarchy rows\<close>

lemma hierarchy_schema:
  "computeTcRgib kHierarchyCols = \<lparr>end4b = 52, end2b = 52, end1b = 53, endBm = 55\<rparr>"
  "validateCols kHierarchyCols = Inr ()" "kHierarchyCols \<noteq> []" "length kHierarchyCols = 13"
  by code_simp+

lemmas hierarchy_sizes = kHierarchyRowSize_def kHierarchyCebOff_def

lemma hierarchyRow_cells:
  "tcr_varlenCells (hierarchyRow src) =
     (if htr_displayName src = [] then [] else [\<lparr>tvc_colIndex = 4, tvc_bytes = htr_displayName src\<rparr>])
     @ (if htr_containerClass src = [] then [] else [\<lparr>tvc_colIndex = 8, tvc_bytes = htr_containerClass src\<rparr>])"
  "tcr_rowId (hierarchyRow src) = nid_value (htr_rowId src)"
  by (simp_all add: hierarchyRow_def Let_def)

lemma hierarchy_cols: "kHierarchyCols ! 4 = column 0x3001 PtUnicode 8 4 2" "kHierarchyCols ! 8 = column 0x3613 PtUnicode 40 4 10"
  by (simp_all add: kHierarchyCols_def)

lemma hierarchyRow_length: "length (tcr_rowBytes (hierarchyRow src)) = 55"
  by (simp add: hierarchyRow_def Let_def hierarchy_sizes write_defs)

lemma hierarchyRow_slices:
  "slice 0 4 (tcr_rowBytes (hierarchyRow src)) = le32 (nid_value (htr_rowId src))"
  "slice 4 4 (tcr_rowBytes (hierarchyRow src)) = le32 (htr_rowVer src)"
  "slice 12 4 (tcr_rowBytes (hierarchyRow src)) = le32 (htr_contentCount src)"
  "slice 16 4 (tcr_rowBytes (hierarchyRow src)) = le32 (htr_contentUnreadCount src)"
  "slice 52 1 (tcr_rowBytes (hierarchyRow src)) = [if htr_hasSubfolders src then 1 else 0]"
  by (simp_all add: hierarchyRow_def Let_def hierarchy_sizes write_defs slice_setCebBit slice_store_before slice_store_after slice_store_same)

lemma hierarchyRow_ceb:
  "i < 16 \<Longrightarrow> cebBit 53 (tcr_rowBytes (hierarchyRow src)) i \<longleftrightarrow>
     i \<in> {0, 1, 3, 4, 5} \<or> i = 2 \<and> htr_displayName src \<noteq> [] \<or> i = 10 \<and> htr_containerClass src \<noteq> []"
proof -
  assume i: "i < 16"
  then have b: "53 + i div 8 < 55" by simp
  show ?thesis
    using b by (auto simp: hierarchyRow_def Let_def hierarchy_sizes write_defs cebBit_set cebBit_store cebBit_zeros)
qed

lemma hierarchyRow_fits: "rowFits kHierarchyCols (hierarchyRow src)"
  "cellsApart (map (\<lambda>v. (unat (tcc_ibData (kHierarchyCols ! tvc_colIndex v)), tvc_bytes v)) (tcr_varlenCells (hierarchyRow src)))"
  by (simp_all add: rowFits_def hierarchy_schema hierarchyRow_length hierarchyRow_cells cellFits_def hierarchy_cols)

lemma sort_key_map_eq: "sort_key f (map g xs) = map g (sort_key (f \<circ> g) xs)"
proof -
  have "insort_key f (g x) (map g ys) = map g (insort_key (f \<circ> g) x ys)" for x ys by (induction ys) simp_all
  then show ?thesis by (induction xs) simp_all
qed

text \<open>A reader's row agrees with the source row outside the slots, in every range and every existence bit.\<close>

lemma row_slice:
  assumes "length row = length R" and "\<And>off. off < length R \<Longrightarrow> P off \<Longrightarrow> row ! off = R ! off"
    and "off + n \<le> length R" and "\<And>k. k < n \<Longrightarrow> P (off + k)"
  shows "slice off n row = slice off n R"
  using assms by (intro nth_equalityI) (simp_all add: nth_slice)

lemma cebBit_cong: "row ! (ceb + i div 8) = R ! (ceb + i div 8) \<Longrightarrow> cebBit ceb row i = cebBit ceb R i"
  by (simp add: cebBit_def)

lemma fixed_types: "isFixedSize PtInt32" "isFixedSize PtInt64" "isFixedSize PtBoolean" "isFixedSize PtSystemTime"
  "\<not> isFixedSize PtUnicode" "\<not> isFixedSize PtBinary" "\<not> isFixedSize PtMvInt32"
  by (simp_all add: isFixedSize_def fixedSize_def)

text \<open>
  C25: a hierarchy table tells a reader exactly what the caller gave.  For every row of every table that
  \<open>buildFolderHierarchyTc\<close> builds, a reader that honours the existence bits finds the child's NID, its row
  version, the two counts and the subfolder flag; it finds the display name and the container class
  under their HIDs when they are not empty and sees them absent otherwise, and sees the
  other six columns absent.
\<close>

theorem hierarchyTc_readable:
  assumes "buildFolderHierarchyTc rows = Inr r" and "s < length rows"
  defines "src \<equiv> sort_key (nid_value \<circ> htr_rowId) rows ! s" and "cell \<equiv> tcReadCell kHierarchyCols r s"
  shows "cell 0x67F2 = Some (le32 (nid_value (htr_rowId src))) \<and> cell 0x67F3 = Some (le32 (htr_rowVer src))
    \<and> cell 0x3602 = Some (le32 (htr_contentCount src)) \<and> cell 0x3603 = Some (le32 (htr_contentUnreadCount src))
    \<and> cell 0x360A = Some [if htr_hasSubfolders src then 1 else 0]
    \<and> cell 0x3001 = (if htr_displayName src = [] then None else Some (htr_displayName src))
    \<and> cell 0x3613 = (if htr_containerClass src = [] then None else Some (htr_containerClass src))
    \<and> list_all (\<lambda>tag. cell tag = None) [0x0E30, 0x0E33, 0x0E34, 0x0E38, 0x6635, 0x6636]"
proof -
  let ?rows = "map hierarchyRow rows" and ?R = "tcr_rowBytes (hierarchyRow src)"
  have b: "buildTableContext kHierarchyCols ?rows (Nid 0) = Inr r" using assms(1) by (simp add: buildFolderHierarchyTc_def)
  have fits: "list_all (rowFits kHierarchyCols) ?rows" by (simp add: list_all_iff hierarchyRow_fits)
  have R: "sort_key tcr_rowId ?rows ! s = hierarchyRow src"
    using assms(2) by (simp add: sort_key_map_eq comp_def hierarchyRow_cells src_def)
  have n: "length (tcVarlens kHierarchyCols ?rows) \<le> 2042"
    by (rule tc_small [OF b]) (use fits in \<open>auto simp: hierarchy_schema hierarchyRow_cells\<close>)
  have s: "s < length ?rows" using assms(2) by simp
  have apart: "cellsApart (map (\<lambda>v. (unat (tcc_ibData (kHierarchyCols ! tvc_colIndex v)), tvc_bytes v)) (tcr_varlenCells q))"
    if "q \<in> set ?rows" for q using that hierarchyRow_fits(2) by auto
  obtain M where M: "tcReadMatrix r = Some M" "s * 55 + 55 \<le> length M"
    and byte: "\<And>off. off < 55 \<Longrightarrow> list_all (\<lambda>v. off < unat (tcc_ibData (kHierarchyCols ! tvc_colIndex v))
        \<or> unat (tcc_ibData (kHierarchyCols ! tvc_colIndex v)) + 4 \<le> off) (tcr_varlenCells (hierarchyRow src))
        \<Longrightarrow> slice (s * 55) 55 M ! off = ?R ! off"
    and var: "\<And>v. v \<in> set (tcr_varlenCells (hierarchyRow src)) \<Longrightarrow> hnValue (tcres_hnBytes r)
        (readU32 (slice (s * 55) 55 M) (unat (tcc_ibData (kHierarchyCols ! tvc_colIndex v)))) = Some (tvc_bytes v)"
    using tc_row [OF b fits n s apart] unfolding R hierarchy_schema by auto
  define row where "row = slice (s * 55) 55 M"
  have lr: "length row = 55" using M(2) by (simp add: row_def)
  have byte': "row ! off = ?R ! off" if "off < 55" "off \<notin> {8..<12}" "off \<notin> {40..<44}" for off
    using that byte [of off] unfolding row_def by (auto simp: hierarchyRow_cells hierarchy_cols)
  have sl: "slice off n row = slice off n ?R" if "off + n \<le> 55" "\<And>k. k < n \<Longrightarrow> off + k \<notin> {8..<12} \<and> off + k \<notin> {40..<44}" for off n
    by (rule row_slice [where P = "\<lambda>x. x \<notin> {8..<12} \<and> x \<notin> {40..<44}"]) (use that lr byte' in \<open>auto simp: hierarchyRow_length\<close>)
  have ceb: "cebBit 53 row i \<longleftrightarrow> cebBit 53 ?R i" if "i < 16" for i
    by (rule cebBit_cong) (use that in \<open>auto intro!: byte'\<close>)
  have cellv: "cell tag = (if \<not> cebBit 53 ?R (unat (tcc_iBit c)) then None
      else if isFixedSize (tcc_propType c) then Some (slice (unat (tcc_ibData c)) (unat (tcc_cbData c)) row)
      else hnValue (tcres_hnBytes r) (readU32 row (unat (tcc_ibData c))))"
    if "List.find (\<lambda>c. tcc_pidTagId c = tag) kHierarchyCols = Some c" "unat (tcc_iBit c) < 16" for tag c
    using that ceb by (simp add: cell_def tcReadCell_def M(1) hierarchy_schema Let_def row_def)
  note cs = cellv [unfolded kHierarchyCols_def]
  have name: "htr_displayName src \<noteq> [] \<Longrightarrow> hnValue (tcres_hnBytes r) (readU32 row 8) = Some (htr_displayName src)"
    and cls: "htr_containerClass src \<noteq> [] \<Longrightarrow> hnValue (tcres_hnBytes r) (readU32 row 40) = Some (htr_containerClass src)"
    using var [of "\<lparr>tvc_colIndex = 4, tvc_bytes = htr_displayName src\<rparr>"]
      var [of "\<lparr>tvc_colIndex = 8, tvc_bytes = htr_containerClass src\<rparr>"]
    unfolding row_def by (simp_all add: hierarchyRow_cells hierarchy_cols)
  show ?thesis
    using name cls by (simp add: cs fixed_types hierarchyRow_ceb hierarchyRow_slices sl del: One_nat_def)
qed

section \<open>Contents rows\<close>

lemma contents_schema:
  "computeTcRgib kContentsCols = \<lparr>end4b = 120, end2b = 120, end1b = 122, endBm = 126\<rparr>"
  "validateCols kContentsCols = Inr ()" "kContentsCols \<noteq> []" "length kContentsCols = 28"
  by code_simp+

lemmas contents_sizes = kContentsRowSize_def kContentsCebOff_def

lemma contents_cols:
  "kContentsCols ! 1 = column 0x001A PtUnicode 12 4 3" "kContentsCols ! 5 = column 0x0042 PtUnicode 24 4 6"
  "kContentsCols ! 3 = column 0x0037 PtUnicode 28 4 7" "kContentsCols ! 11 = column 0x0E04 PtUnicode 52 4 11"
  "kContentsCols ! 10 = column 0x0E03 PtUnicode 56 4 12" "kContentsCols ! 8 = column 0x0070 PtUnicode 68 4 17"
  "kContentsCols ! 9 = column 0x0071 PtBinary 72 4 18" "kContentsCols ! 24 = column 0x3013 PtBinary 116 4 27"
  by (simp_all add: kContentsCols_def)

text \<open>The variable-length cells of a row: the column, the bit and the bytes.\<close>

definition contentsVar :: "ContentsTcRow \<Rightarrow> (nat \<times> nat \<times> bytes) list" where
  "contentsVar src = filter (\<lambda>x. snd (snd x) \<noteq> [])
     [(1, 3, ctr_messageClass src), (5, 6, ctr_sentRepresentingName src), (3, 7, ctr_subject src),
      (11, 11, ctr_displayTo src), (10, 12, ctr_displayCc src), (8, 17, ctr_conversationTopic src),
      (9, 18, ctr_conversationIndex src), (24, 27, ctr_changeKey src)]"

lemma contentsRow_eq:
  "contentsRow src = \<lparr>tcr_rowId = nid_value (ctr_rowId src),
     tcr_rowBytes = fold (\<lambda>x. setCebBit 122 (fst (snd x))) (contentsVar src) (contentsFixed src),
     tcr_varlenCells = map (\<lambda>x. \<lparr>tvc_colIndex = fst x, tvc_bytes = snd (snd x)\<rparr>) (contentsVar src)\<rparr>"
proof -
  have "fold (\<lambda>(c, i, b). pushVarlen c i b) xs st =
      (fold (\<lambda>x. setCebBit 122 (fst (snd x))) (filter (\<lambda>x. snd (snd x) \<noteq> []) xs) (fst st),
       snd st @ map (\<lambda>x. \<lparr>tvc_colIndex = fst x, tvc_bytes = snd (snd x)\<rparr>) (filter (\<lambda>x. snd (snd x) \<noteq> []) xs))" for xs st
    by (induction xs arbitrary: st) (auto simp: pushVarlen_def contents_sizes)
  from this [of "[(1, 3, ctr_messageClass src), (5, 6, ctr_sentRepresentingName src), (3, 7, ctr_subject src),
      (11, 11, ctr_displayTo src), (10, 12, ctr_displayCc src), (8, 17, ctr_conversationTopic src),
      (9, 18, ctr_conversationIndex src), (24, 27, ctr_changeKey src)]" "(contentsFixed src, [])"]
  show ?thesis by (simp add: contentsRow_def Let_def contentsVar_def)
qed

lemma fold_ceb: "length (fold (\<lambda>x. setCebBit 122 (f x)) xs d) = length d"
  "off + n \<le> 122 \<Longrightarrow> slice off n (fold (\<lambda>x. setCebBit 122 (f x)) xs d) = slice off n d"
  "length d = 126 \<Longrightarrow> list_all (\<lambda>x. f x < 32) xs \<Longrightarrow>
     cebBit 122 (fold (\<lambda>x. setCebBit 122 (f x)) xs d) i \<longleftrightarrow> i \<in> f ` set xs \<or> cebBit 122 d i"
proof -
  show l: "length (fold (\<lambda>x. setCebBit 122 (f x)) xs d) = length d" for d by (induction xs arbitrary: d) simp_all
  show "slice off n (fold (\<lambda>x. setCebBit 122 (f x)) xs d) = slice off n d" if "off + n \<le> 122"
    using that by (induction xs arbitrary: d) (simp_all add: slice_setCebBit)
  show "cebBit 122 (fold (\<lambda>x. setCebBit 122 (f x)) xs d) i \<longleftrightarrow> i \<in> f ` set xs \<or> cebBit 122 d i"
    if "length d = 126" "list_all (\<lambda>x. f x < 32) xs" using that
  proof (induction xs arbitrary: d)
    case (Cons x xs)
    then have "f x div 8 < 4" by (simp add: div_less_iff_less_mult)
    then have "122 + f x div 8 < length d" using Cons.prems by simp
    then show ?case using Cons by (auto simp: cebBit_set)
  qed simp
qed

lemma length_fixed [simp]: "length (cebIf b i d) = length d" "off + 8 \<le> length d \<Longrightarrow> length (putTime off i t d) = length d"
  by (simp_all add: cebIf_def putTime_def write_defs)

lemma slice_cebIf: "off + n \<le> 122 \<Longrightarrow> slice off n (cebIf b i d) = slice off n d"
  by (simp add: cebIf_def contents_sizes slice_setCebBit)

lemma slice_putTime:
  "off + n \<le> 122 \<Longrightarrow> off + n \<le> o' \<Longrightarrow> o' + 8 \<le> length d \<Longrightarrow> slice off n (putTime o' i t d) = slice off n d"
  "off + n \<le> 122 \<Longrightarrow> o' + 8 \<le> off \<Longrightarrow> o' + 8 \<le> length d \<Longrightarrow> slice off n (putTime o' i t d) = slice off n d"
  "t \<noteq> 0 \<Longrightarrow> off + 8 \<le> 122 \<Longrightarrow> off + 8 \<le> length d \<Longrightarrow> slice off 8 (putTime off i t d) = le64 t"
  by (simp_all add: putTime_def contents_sizes write_defs slice_setCebBit slice_store_before slice_store_after slice_store_same)

lemma cebBit_cebIf: "122 + j div 8 < length d \<Longrightarrow> cebBit 122 (cebIf b j d) i \<longleftrightarrow> b \<and> i = j \<or> cebBit 122 d i"
  by (simp add: cebIf_def contents_sizes cebBit_set)

lemma cebBit_putTime:
  "122 + j div 8 < length d \<Longrightarrow> off + 8 \<le> 122 \<Longrightarrow> 122 + i div 8 < length d \<Longrightarrow>
    cebBit 122 (putTime off j t d) i \<longleftrightarrow> t \<noteq> 0 \<and> i = j \<or> cebBit 122 d i"
  by (simp add: putTime_def contents_sizes write_defs cebBit_set cebBit_store)

lemma length_contentsFixed: "length (contentsFixed src) = 126"
  by (simp add: contentsFixed_def Let_def contents_sizes write_defs)

lemma contentsFixed_slices:
  "slice 0 4 (contentsFixed src) = le32 (nid_value (ctr_rowId src))"
  "slice 4 4 (contentsFixed src) = le32 (ctr_rowVer src)"
  "slice 8 4 (contentsFixed src) = le32 (ctr_messageStatus src)"
  "slice 16 4 (contentsFixed src) = le32 (ctr_messageFlags src)"
  "slice 20 4 (contentsFixed src) = le32 (ctr_importance src)"
  "slice 48 4 (contentsFixed src) = le32 (ctr_messageSize src)"
  "slice 60 4 (contentsFixed src) = le32 (ctr_sensitivity src)"
  "slice 120 1 (contentsFixed src) = [if ctr_messageToMe src then 1 else 0]"
  "slice 121 1 (contentsFixed src) = [if ctr_messageCcMe src then 1 else 0]"
  "ctr_messageDeliveryTime src \<noteq> 0 \<Longrightarrow> slice 32 8 (contentsFixed src) = le64 (ctr_messageDeliveryTime src)"
  "ctr_clientSubmitTime src \<noteq> 0 \<Longrightarrow> slice 40 8 (contentsFixed src) = le64 (ctr_clientSubmitTime src)"
  "ctr_lastModificationTime src \<noteq> 0 \<Longrightarrow> slice 80 8 (contentsFixed src) = le64 (ctr_lastModificationTime src)"
  by (simp_all add: contentsFixed_def Let_def contents_sizes write_defs slice_setCebBit slice_cebIf slice_putTime slice_store_before slice_store_after slice_store_same)

lemma contentsFixed_ceb:
  "i < 32 \<Longrightarrow> cebBit 122 (contentsFixed src) i \<longleftrightarrow>
     i \<in> {0, 1, 4, 5, 10} \<or> i = 2 \<and> ctr_messageStatus src \<noteq> 0 \<or> i = 8 \<and> ctr_messageDeliveryTime src \<noteq> 0
     \<or> i = 9 \<and> ctr_clientSubmitTime src \<noteq> 0 \<or> i = 13 \<and> ctr_messageToMe src \<or> i = 14 \<and> ctr_messageCcMe src
     \<or> i = 15 \<and> ctr_sensitivity src \<noteq> 0 \<or> i = 20 \<and> ctr_lastModificationTime src \<noteq> 0"
proof -
  assume i: "i < 32"
  then have b: "122 + i div 8 < 126" by simp
  show ?thesis
    using b by (simp add: contentsFixed_def Let_def contents_sizes write_defs cebBit_set cebBit_cebIf cebBit_putTime cebBit_store cebBit_zeros) blast
qed

lemma cellsApart_filter: "cellsApart (map f xs) \<Longrightarrow> cellsApart (map f (filter P xs))"
  by (induction xs) (auto simp: list_all_iff)

lemma contentsVar_mem: "(c, i, bs) \<in> set (contentsVar src) \<longleftrightarrow> bs \<noteq> []
    \<and> (c, i, bs) \<in> set [(1, 3, ctr_messageClass src), (5, 6, ctr_sentRepresentingName src), (3, 7, ctr_subject src),
      (11, 11, ctr_displayTo src), (10, 12, ctr_displayCc src), (8, 17, ctr_conversationTopic src),
      (9, 18, ctr_conversationIndex src), (24, 27, ctr_changeKey src)]"
  by (simp only: contentsVar_def set_filter mem_Collect_eq fst_conv snd_conv conj_commute)

lemma contentsVar_bits:
  "i \<in> (\<lambda>x. fst (snd x)) ` set (contentsVar src) \<longleftrightarrow>
     i = 3 \<and> ctr_messageClass src \<noteq> [] \<or> i = 6 \<and> ctr_sentRepresentingName src \<noteq> [] \<or> i = 7 \<and> ctr_subject src \<noteq> []
     \<or> i = 11 \<and> ctr_displayTo src \<noteq> [] \<or> i = 12 \<and> ctr_displayCc src \<noteq> [] \<or> i = 17 \<and> ctr_conversationTopic src \<noteq> []
     \<or> i = 18 \<and> ctr_conversationIndex src \<noteq> [] \<or> i = 27 \<and> ctr_changeKey src \<noteq> []"
  by (auto simp: contentsVar_def)

lemma length_contentsVar: "length (contentsVar src) \<le> 8"
  unfolding contentsVar_def by (rule le_trans [OF length_filter_le]) simp

lemma contentsVar_cell:
  assumes "x \<in> set (contentsVar src)"
  shows "fst x < 28" "fst (snd x) < 32" "tcc_cbData (kContentsCols ! fst x) = 4"
    "unat (tcc_ibData (kContentsCols ! fst x)) \<in> {12, 24, 28, 52, 56, 68, 72, 116}"
proof -
  have "list_all (\<lambda>x. fst x < 28 \<and> fst (snd x) < 32 \<and> tcc_cbData (kContentsCols ! fst x) = 4
      \<and> unat (tcc_ibData (kContentsCols ! fst x)) \<in> {12, 24, 28, 52, 56, 68, 72, 116}) (contentsVar src)"
    unfolding contentsVar_def by (simp add: contents_cols del: One_nat_def)
  then show "fst x < 28" "fst (snd x) < 32" "tcc_cbData (kContentsCols ! fst x) = 4"
    "unat (tcc_ibData (kContentsCols ! fst x)) \<in> {12, 24, 28, 52, 56, 68, 72, 116}"
    using assms unfolding list_all_iff by blast+
qed

lemma contentsRow_fits: "rowFits kContentsCols (contentsRow src)"
  "cellsApart (map (\<lambda>v. (unat (tcc_ibData (kContentsCols ! tvc_colIndex v)), tvc_bytes v)) (tcr_varlenCells (contentsRow src)))"
proof -
  have "cellFits kContentsCols \<lparr>tvc_colIndex = fst x, tvc_bytes = snd (snd x)\<rparr>" if "x \<in> set (contentsVar src)" for x
    using contentsVar_cell [OF that] by (auto simp: cellFits_def contents_schema)
  then show "rowFits kContentsCols (contentsRow src)"
    by (simp add: rowFits_def contents_schema contentsRow_eq fold_ceb length_contentsFixed list_all_iff)
  show "cellsApart (map (\<lambda>v. (unat (tcc_ibData (kContentsCols ! tvc_colIndex v)), tvc_bytes v)) (tcr_varlenCells (contentsRow src)))"
    unfolding contentsRow_eq contentsVar_def
    by (simp only: TcRow.simps TcVarlenCell.simps map_map comp_def, rule cellsApart_filter) (simp add: contents_cols del: One_nat_def)
qed

lemma contentsRow_slice: "off + n \<le> 122 \<Longrightarrow> slice off n (tcr_rowBytes (contentsRow src)) = slice off n (contentsFixed src)"
  by (simp add: contentsRow_eq fold_ceb)

lemma contentsRow_ceb:
  "cebBit 122 (tcr_rowBytes (contentsRow src)) i \<longleftrightarrow> i \<in> (\<lambda>x. fst (snd x)) ` set (contentsVar src) \<or> cebBit 122 (contentsFixed src) i"
proof -
  have "list_all (\<lambda>x. fst (snd x) < 32) (contentsVar src)"
    using contentsVar_cell(2) by (auto simp: list_all_iff)
  then show ?thesis
    unfolding contentsRow_eq TcRow.simps by (intro fold_ceb(3) [where f = "\<lambda>x. fst (snd x)"]) (simp_all add: length_contentsFixed)
qed

lemma tc_built:
  assumes "rows \<noteq> []" and "cols \<noteq> []" and "validateCols cols = Inr ()" and "list_all (rowFits cols) rows"
    and "tcEstimate cols rows False \<le> 8176"
  obtains r where "buildTableContext cols rows (Nid 0) = Inr r"
  using tc_plain(1) [OF assms] buildTableContext_accepts [OF assms(1)] by blast

theorem hierarchyTc_readable_witness:
  "\<exists>r. buildFolderHierarchyTc rootHierarchy = Inr r
    \<and> tcReadCell kHierarchyCols r 1 0x3001 = Some (utf16leAscii ''Top of Personal Folders'')
    \<and> tcReadCell kHierarchyCols r 1 0x3613 = None"
proof -
  have "tcEstimate kHierarchyCols (map hierarchyRow rootHierarchy) False \<le> 8176" by code_simp
  then obtain r where r: "buildFolderHierarchyTc rootHierarchy = Inr r"
    using tc_built [of "map hierarchyRow rootHierarchy" kHierarchyCols]
    by (auto simp: buildFolderHierarchyTc_def hierarchy_schema hierarchyRow_fits list_all_iff rootHierarchy_def)
  have "sort_key (nid_value \<circ> htr_rowId) rootHierarchy ! 1 = childRow (Nid 0x8022) ''Top of Personal Folders'' True"
    "1 < length rootHierarchy" by code_simp+
  then show ?thesis using r hierarchyTc_readable [OF r, of 1] by (simp add: childRow_def utf16leAscii_def)
qed

text \<open>
  C12: a contents table tells a reader exactly what the caller gave.  For at most 255 messages, with the row
  matrix in the heap or in the subnode, a reader that honours the existence bits finds in the row
  of each message its NID, row version, flags, importance and size; it finds status, sensitivity, the
  two booleans and the three times when they are not zero, and the eight variable-length values
  when they are not empty, and sees them absent otherwise; it sees the other eight columns absent.
\<close>

theorem contentsTc_readable:
  assumes "buildFolderContentsTc rows nid = Inr r" and "s < length rows" and "length rows \<le> 255"
  defines "src \<equiv> sort_key (nid_value \<circ> ctr_rowId) rows ! s" and "cell \<equiv> tcReadCell kContentsCols r s"
    and "nonempty \<equiv> (\<lambda>bs :: bytes. if bs = [] then None else Some bs)" and "nonzero \<equiv> (\<lambda>v. if v = 0 then None else Some (le32 v))"
    and "time \<equiv> (\<lambda>v. if v = 0 then None else Some (le64 v))" and "flag \<equiv> (\<lambda>b. if b then Some [1] else None)"
  shows "cell 0x67F2 = Some (le32 (nid_value (ctr_rowId src))) \<and> cell 0x67F3 = Some (le32 (ctr_rowVer src))
    \<and> cell 0x0E07 = Some (le32 (ctr_messageFlags src)) \<and> cell 0x0017 = Some (le32 (ctr_importance src))
    \<and> cell 0x0E08 = Some (le32 (ctr_messageSize src))
    \<and> cell 0x0E17 = nonzero (ctr_messageStatus src) \<and> cell 0x0036 = nonzero (ctr_sensitivity src)
    \<and> cell 0x0057 = flag (ctr_messageToMe src) \<and> cell 0x0058 = flag (ctr_messageCcMe src)
    \<and> cell 0x0E06 = time (ctr_messageDeliveryTime src) \<and> cell 0x0039 = time (ctr_clientSubmitTime src)
    \<and> cell 0x3008 = time (ctr_lastModificationTime src)
    \<and> cell 0x001A = nonempty (ctr_messageClass src) \<and> cell 0x0042 = nonempty (ctr_sentRepresentingName src)
    \<and> cell 0x0037 = nonempty (ctr_subject src) \<and> cell 0x0E04 = nonempty (ctr_displayTo src)
    \<and> cell 0x0E03 = nonempty (ctr_displayCc src) \<and> cell 0x0070 = nonempty (ctr_conversationTopic src)
    \<and> cell 0x0071 = nonempty (ctr_conversationIndex src) \<and> cell 0x3013 = nonempty (ctr_changeKey src)
    \<and> list_all (\<lambda>tag. cell tag = None) [0x0E30, 0x0E33, 0x0E34, 0x0E38, 0x0E3C, 0x0E3D, 0x1097, 0x65C6]"
proof -
  let ?rows = "map contentsRow rows" and ?R = "tcr_rowBytes (contentsRow src)"
  have ne: "rows \<noteq> []" using assms(2) by auto
  then have b: "buildTableContext kContentsCols ?rows nid = Inr r" using assms(1) by (simp add: buildFolderContentsTc_def)
  have fits: "list_all (rowFits kContentsCols) ?rows" by (simp add: list_all_iff contentsRow_fits)
  have R: "sort_key tcr_rowId ?rows ! s = contentsRow src"
    using assms(2) by (simp add: sort_key_map_eq comp_def contentsRow_eq src_def)
  have "length (tcr_varlenCells q) \<le> 8" if "q \<in> set ?rows" for q
    using that length_contentsVar by (auto simp: contentsRow_eq)
  then have "length (tcVarlens kContentsCols ?rows) \<le> length ?rows * 8" by (rule length_varlens)
  then have n: "length (tcVarlens kContentsCols ?rows) \<le> 2042" using assms(3) by simp
  have s: "s < length ?rows" using assms(2) by simp
  have apart: "cellsApart (map (\<lambda>v. (unat (tcc_ibData (kContentsCols ! tvc_colIndex v)), tvc_bytes v)) (tcr_varlenCells q))"
    if "q \<in> set ?rows" for q using that contentsRow_fits(2) by auto
  obtain M where M: "tcReadMatrix r = Some M" "s * 126 + 126 \<le> length M"
    and byte: "\<And>off. off < 126 \<Longrightarrow> list_all (\<lambda>v. off < unat (tcc_ibData (kContentsCols ! tvc_colIndex v))
        \<or> unat (tcc_ibData (kContentsCols ! tvc_colIndex v)) + 4 \<le> off) (tcr_varlenCells (contentsRow src))
        \<Longrightarrow> slice (s * 126) 126 M ! off = ?R ! off"
    and var: "\<And>v. v \<in> set (tcr_varlenCells (contentsRow src)) \<Longrightarrow> hnValue (tcres_hnBytes r)
        (readU32 (slice (s * 126) 126 M) (unat (tcc_ibData (kContentsCols ! tvc_colIndex v)))) = Some (tvc_bytes v)"
    using tc_row [OF b fits n s apart] unfolding R contents_schema by auto
  define row where "row = slice (s * 126) 126 M"
  have lr: "length row = 126" using M(2) by (simp add: row_def)
  define slots :: "nat set" where "slots = {12..<16} \<union> {24..<32} \<union> {52..<60} \<union> {68..<76} \<union> {116..<120}"
  have clear: "off < ib \<or> ib + 4 \<le> off" if "off \<notin> slots" "ib \<in> {12, 24, 28, 52, 56, 68, 72, 116}" for off ib :: nat
    using that by (auto simp: slots_def)
  have byte': "row ! off = ?R ! off" if "off < 126" "off \<notin> slots" for off
  proof -
    have "list_all (\<lambda>v. off < unat (tcc_ibData (kContentsCols ! tvc_colIndex v))
        \<or> unat (tcc_ibData (kContentsCols ! tvc_colIndex v)) + 4 \<le> off) (tcr_varlenCells (contentsRow src))"
      using clear [OF that(2) contentsVar_cell(4)] by (simp add: contentsRow_eq list_all_iff)
    then show ?thesis unfolding row_def by (rule byte [OF that(1)])
  qed
  have lR: "length ?R = 126" by (simp add: contentsRow_eq fold_ceb length_contentsFixed)
  have sl: "slice off n row = slice off n (contentsFixed src)"
    if "off + n \<le> 122" "\<And>k. k < n \<Longrightarrow> off + k \<notin> slots" for off n
  proof -
    have "slice off n row = slice off n ?R"
      by (rule row_slice [where P = "\<lambda>x. x \<notin> slots"]) (use that lr byte' lR in auto)
    then show ?thesis using contentsRow_slice [OF that(1)] by simp
  qed
  have ceb: "cebBit 122 row i \<longleftrightarrow> i \<in> (\<lambda>x. fst (snd x)) ` set (contentsVar src) \<or> cebBit 122 (contentsFixed src) i" if "i < 32" for i
    unfolding contentsRow_ceb [symmetric] by (rule cebBit_cong) (use that in \<open>auto intro!: byte' simp: slots_def\<close>)
  have cellv: "cell tag = (if \<not> cebBit 122 row (unat (tcc_iBit c)) then None
      else if isFixedSize (tcc_propType c) then Some (slice (unat (tcc_ibData c)) (unat (tcc_cbData c)) row)
      else hnValue (tcres_hnBytes r) (readU32 row (unat (tcc_ibData c))))"
    if "List.find (\<lambda>c. tcc_pidTagId c = tag) kContentsCols = Some c" for tag c
    using that by (simp add: cell_def tcReadCell_def M(1) contents_schema Let_def row_def)
  note cs = cellv [unfolded kContentsCols_def]
  have v: "hnValue (tcres_hnBytes r) (readU32 row ib) = Some bs"
    if "(c, i, bs) \<in> set (contentsVar src)" "unat (tcc_ibData (kContentsCols ! c)) = ib" for c i bs ib
    using var [of "\<lparr>tvc_colIndex = c, tvc_bytes = bs\<rparr>"] that unfolding row_def by (force simp: contentsRow_eq)
  have vars: "ctr_messageClass src \<noteq> [] \<Longrightarrow> hnValue (tcres_hnBytes r) (readU32 row 12) = Some (ctr_messageClass src)"
    "ctr_sentRepresentingName src \<noteq> [] \<Longrightarrow> hnValue (tcres_hnBytes r) (readU32 row 24) = Some (ctr_sentRepresentingName src)"
    "ctr_subject src \<noteq> [] \<Longrightarrow> hnValue (tcres_hnBytes r) (readU32 row 28) = Some (ctr_subject src)"
    "ctr_displayTo src \<noteq> [] \<Longrightarrow> hnValue (tcres_hnBytes r) (readU32 row 52) = Some (ctr_displayTo src)"
    "ctr_displayCc src \<noteq> [] \<Longrightarrow> hnValue (tcres_hnBytes r) (readU32 row 56) = Some (ctr_displayCc src)"
    "ctr_conversationTopic src \<noteq> [] \<Longrightarrow> hnValue (tcres_hnBytes r) (readU32 row 68) = Some (ctr_conversationTopic src)"
    "ctr_conversationIndex src \<noteq> [] \<Longrightarrow> hnValue (tcres_hnBytes r) (readU32 row 72) = Some (ctr_conversationIndex src)"
    "ctr_changeKey src \<noteq> [] \<Longrightarrow> hnValue (tcres_hnBytes r) (readU32 row 116) = Some (ctr_changeKey src)"
    by (rule v [of 1 3], simp add: contentsVar_mem, simp add: contents_cols del: One_nat_def,
      rule v [of 5 6], simp add: contentsVar_mem, simp add: contents_cols,
      rule v [of 3 7], simp add: contentsVar_mem, simp add: contents_cols,
      rule v [of 11 11], simp add: contentsVar_mem, simp add: contents_cols,
      rule v [of 10 12], simp add: contentsVar_mem, simp add: contents_cols,
      rule v [of 8 17], simp add: contentsVar_mem, simp add: contents_cols,
      rule v [of 9 18], simp add: contentsVar_mem, simp add: contents_cols,
      rule v [of 24 27], simp add: contentsVar_mem, simp add: contents_cols)
  have fixed: "slice 0 4 row = le32 (nid_value (ctr_rowId src))" "slice 4 4 row = le32 (ctr_rowVer src)"
    "slice 8 4 row = le32 (ctr_messageStatus src)" "slice 16 4 row = le32 (ctr_messageFlags src)"
    "slice 20 4 row = le32 (ctr_importance src)" "slice 48 4 row = le32 (ctr_messageSize src)"
    "slice 60 4 row = le32 (ctr_sensitivity src)" "slice 120 1 row = [if ctr_messageToMe src then 1 else 0]"
    "slice 121 1 row = [if ctr_messageCcMe src then 1 else 0]"
    "ctr_messageDeliveryTime src \<noteq> 0 \<Longrightarrow> slice 32 8 row = le64 (ctr_messageDeliveryTime src)"
    "ctr_clientSubmitTime src \<noteq> 0 \<Longrightarrow> slice 40 8 row = le64 (ctr_clientSubmitTime src)"
    "ctr_lastModificationTime src \<noteq> 0 \<Longrightarrow> slice 80 8 row = le64 (ctr_lastModificationTime src)"
    by (simp_all add: sl slots_def contentsFixed_slices del: One_nat_def)
  show ?thesis
    unfolding nonempty_def nonzero_def time_def flag_def
    by (simp add: cs fixed_types ceb contentsFixed_ceb contentsVar_bits fixed vars del: One_nat_def)
qed

definition sampleContents :: "ContentsTcRow list" where
  "sampleContents =
     [\<lparr>ctr_rowId = Nid 0x200024, ctr_rowVer = 1, ctr_importance = 1, ctr_sensitivity = 0, ctr_messageStatus = 0,
       ctr_messageFlags = 1, ctr_messageSize = 2048, ctr_messageToMe = True, ctr_messageCcMe = False,
       ctr_clientSubmitTime = 0, ctr_messageDeliveryTime = 0x01D9000000000000, ctr_lastModificationTime = 0,
       ctr_messageClass = utf16leAscii ''IPM.Note'', ctr_subject = utf16leAscii ''Hi'', ctr_sentRepresentingName = [],
       ctr_conversationTopic = [], ctr_displayCc = [], ctr_displayTo = [], ctr_conversationIndex = [], ctr_changeKey = []\<rparr>]"

theorem contentsTc_readable_witness:
  "\<exists>r. buildFolderContentsTc sampleContents (Nid 0) = Inr r
    \<and> tcReadCell kContentsCols r 0 0x0037 = Some (utf16leAscii ''Hi'') \<and> tcReadCell kContentsCols r 0 0x0039 = None"
proof -
  have "tcEstimate kContentsCols (map contentsRow sampleContents) False \<le> 8176" by code_simp
  then obtain r where r: "buildFolderContentsTc sampleContents (Nid 0) = Inr r"
    using tc_built [of "map contentsRow sampleContents" kContentsCols]
    by (auto simp: buildFolderContentsTc_def contents_schema contentsRow_fits list_all_iff sampleContents_def)
  have n: "length sampleContents = 1" and "sort_key (nid_value \<circ> ctr_rowId) sampleContents ! 0 = hd sampleContents"
    "ctr_subject (hd sampleContents) = utf16leAscii ''Hi''" "utf16leAscii ''Hi'' \<noteq> []" "ctr_clientSubmitTime (hd sampleContents) = 0"
    by code_simp+
  then show ?thesis using r contentsTc_readable [OF r, of 0] by simp
qed

end
