(* ===== verification/GraphMessage.thy ===== *)
theory GraphMessage
  imports Json GraphConvert
begin

text \<open>
  Mail messages of Microsoft Graph (\<open>src/graph_message.cpp\<close>, \<open>include/pstwriter/graph_message.hpp\<close>): the
  record of a message with its attachments, which may hold messages in turn, and the extraction of a
  message from a JSON value.  The file has a copy of the parser of \<open>Json\<close> that differs in the prefix of its
  messages only.  The conversion of a number to \<open>int32_t\<close> is a parameter; an \<open>int32_t\<close> is
  its 32-bit pattern.  A structure with a member of its own type is a datatype over the record of its
  other members.
\<close>

section \<open>Messages\<close>

datatype RecipientKind = RkTo | RkCc | RkBcc

fun recipientKindVal :: "RecipientKind \<Rightarrow> u32" where
  "recipientKindVal RkTo = 1"
| "recipientKindVal RkCc = 2"
| "recipientKindVal RkBcc = 3"

datatype BodyType = BodyText | BodyHtml

datatype AttachmentKind = AttachFile | AttachItem

datatype FlagStatus = NotFlagged | Complete | Flagged

datatype Importance = ImpLow | ImpNormal | ImpHigh

fun importanceVal :: "Importance \<Rightarrow> u32" where
  "importanceVal ImpLow = 0"
| "importanceVal ImpNormal = 1"
| "importanceVal ImpHigh = 2"

record EmailAddress =
  ea_name :: bytes
  ea_address :: bytes

definition noAddress :: EmailAddress where
  "noAddress = \<lparr>ea_name = [], ea_address = []\<rparr>"

record Recipient =
  rcp_kind :: RecipientKind
  rcp_emailAddress :: EmailAddress

record InternetMessageHeader =
  imh_name :: bytes
  imh_value :: bytes

record Body =
  body_contentType :: BodyType
  body_content :: bytes

record AttachmentFields =
  att_kind :: AttachmentKind
  att_name :: bytes
  att_contentType :: bytes
  att_contentId :: bytes
  att_isInline :: bool
  att_size :: u32
  att_contentBytes :: bytes

record MessageFields =
  gm_id :: bytes
  gm_internetMessageId :: bytes
  gm_conversationId :: bytes
  gm_conversationIndex :: bytes
  gm_subject :: bytes
  gm_bodyPreview :: bytes
  gm_body :: Body
  gm_createdDateTime :: bytes
  gm_lastModifiedDateTime :: bytes
  gm_sentDateTime :: bytes
  gm_receivedDateTime :: bytes
  gm_sender :: EmailAddress
  gm_hasSender :: bool
  gm_from :: EmailAddress
  gm_hasFrom :: bool
  gm_toRecipients :: "Recipient list"
  gm_ccRecipients :: "Recipient list"
  gm_bccRecipients :: "Recipient list"
  gm_replyTo :: EmailAddress
  gm_hasReplyTo :: bool
  gm_isRead :: bool
  gm_isDraft :: bool
  gm_hasAttachments :: bool
  gm_importance :: Importance
  gm_flagStatus :: FlagStatus
  gm_categories :: "bytes list"
  gm_internetMessageHeaders :: "InternetMessageHeader list"
  gm_parentFolderId :: bytes

datatype GraphMessage = GraphMessage (gm: MessageFields) (gm_attachments: "Attachment list")
and Attachment = Attachment (att: AttachmentFields) (att_item: "GraphMessage option")

section \<open>Extraction\<close>

text \<open>The lookups with the key as a literal.\<close>

definition field :: "'d JsonValue \<Rightarrow> string \<Rightarrow> 'd JsonValue option" where
  "field obj key = jsonFind obj (ascii key)"

definition str :: "'d JsonValue \<Rightarrow> string \<Rightarrow> bytes" where
  "str obj key = getStr obj (ascii key)"

definition flag :: "'d JsonValue \<Rightarrow> string \<Rightarrow> bool" where
  "flag obj key = getBool obj (ascii key) False"

definition extractEmailAddress :: "'d JsonValue \<Rightarrow> EmailAddress" where
  "extractEmailAddress obj = \<lparr>ea_name = str obj ''name'', ea_address = str obj ''address''\<rparr>"

definition extractRecipientEmail :: "'d JsonValue \<Rightarrow> EmailAddress" where
  "extractRecipientEmail wrapper =
     (case field wrapper ''emailAddress'' of None \<Rightarrow> noAddress | Some e \<Rightarrow> extractEmailAddress e)"

text \<open>The loop over the elements of an array that are objects; anything else contributes nothing.\<close>

definition objectsOf :: "'d JsonValue \<Rightarrow> string \<Rightarrow> 'd JsonValue list" where
  "objectsOf parent key =
     (case field parent key of
        Some (JArray arr) \<Rightarrow> filter (\<lambda>el. case el of JObject m \<Rightarrow> True | _ \<Rightarrow> False) arr
      | _ \<Rightarrow> [])"

definition extractRecipients :: "'d JsonValue \<Rightarrow> string \<Rightarrow> RecipientKind \<Rightarrow> Recipient list" where
  "extractRecipients parent key kind =
     map (\<lambda>el. \<lparr>rcp_kind = kind, rcp_emailAddress = extractRecipientEmail el\<rparr>) (objectsOf parent key)"

definition extractBody :: "'d JsonValue \<Rightarrow> Body" where
  "extractBody parent =
     (case field parent ''body'' of
        None \<Rightarrow> \<lparr>body_contentType = BodyText, body_content = []\<rparr>
      | Some b \<Rightarrow>
          let ct = str b ''contentType''
          in \<lparr>body_contentType = (if ct = ascii ''html'' \<or> ct = ascii ''Html'' \<or> ct = ascii ''HTML'' then BodyHtml else BodyText),
              body_content = str b ''content''\<rparr>)"

definition importanceFrom :: "bytes \<Rightarrow> Importance" where
  "importanceFrom s = (if s = ascii ''low'' then ImpLow else if s = ascii ''high'' then ImpHigh else ImpNormal)"

definition flagStatusFrom :: "bytes \<Rightarrow> FlagStatus" where
  "flagStatusFrom s =
     (if s = ascii ''complete'' then Complete else if s = ascii ''flagged'' then Flagged else NotFlagged)"

definition extractInternetHeaders :: "'d JsonValue \<Rightarrow> InternetMessageHeader list" where
  "extractInternetHeaders parent =
     map (\<lambda>el. \<lparr>imh_name = str el ''name'', imh_value = str el ''value''\<rparr>) (objectsOf parent ''internetMessageHeaders'')"

definition extractCategories :: "'d JsonValue \<Rightarrow> bytes list" where
  "extractCategories parent = getStringArray parent (ascii ''categories'')"

text \<open>The decoding whose exceptions are caught.\<close>

definition decodeOrEmpty :: "bytes \<Rightarrow> bytes" where
  "decodeOrEmpty b64 = (if b64 = [] then [] else case base64DecodeBinary b64 of Inr bs \<Rightarrow> bs | Inl e \<Rightarrow> [])"

definition extractFields :: "'d JsonValue \<Rightarrow> MessageFields" where
  "extractFields obj =
     (let sender = (case field obj ''sender'' of None \<Rightarrow> noAddress | Some s \<Rightarrow> extractRecipientEmail s);
          fr = (case field obj ''from'' of None \<Rightarrow> noAddress | Some s \<Rightarrow> extractRecipientEmail s);
          replyTo = (case field obj ''replyTo'' of
                       Some (JArray (JObject m # es)) \<Rightarrow> extractRecipientEmail (JObject m)
                     | _ \<Rightarrow> noAddress)
      in \<lparr>gm_id = str obj ''id'', gm_internetMessageId = str obj ''internetMessageId'',
          gm_conversationId = str obj ''conversationId'',
          gm_conversationIndex = decodeOrEmpty (str obj ''conversationIndex''),
          gm_subject = str obj ''subject'', gm_bodyPreview = str obj ''bodyPreview'', gm_body = extractBody obj,
          gm_createdDateTime = str obj ''createdDateTime'', gm_lastModifiedDateTime = str obj ''lastModifiedDateTime'',
          gm_sentDateTime = str obj ''sentDateTime'', gm_receivedDateTime = str obj ''receivedDateTime'',
          gm_sender = sender, gm_hasSender = (ea_address sender \<noteq> [] \<or> ea_name sender \<noteq> []),
          gm_from = fr, gm_hasFrom = (ea_address fr \<noteq> [] \<or> ea_name fr \<noteq> []),
          gm_toRecipients = extractRecipients obj ''toRecipients'' RkTo,
          gm_ccRecipients = extractRecipients obj ''ccRecipients'' RkCc,
          gm_bccRecipients = extractRecipients obj ''bccRecipients'' RkBcc,
          gm_replyTo = replyTo, gm_hasReplyTo = (ea_address replyTo \<noteq> []),
          gm_isRead = flag obj ''isRead'', gm_isDraft = flag obj ''isDraft'',
          gm_hasAttachments = flag obj ''hasAttachments'',
          gm_importance = importanceFrom (str obj ''importance''),
          gm_flagStatus = (case field obj ''flag'' of
                             None \<Rightarrow> NotFlagged | Some fl \<Rightarrow> flagStatusFrom (str fl ''flagStatus'')),
          gm_categories = extractCategories obj, gm_internetMessageHeaders = extractInternetHeaders obj,
          gm_parentFolderId = str obj ''parentFolderId''\<rparr>)"

text \<open>The kind of an attachment, and its bytes when it is a file.\<close>

definition attachmentKindOf :: "'d JsonValue \<Rightarrow> AttachmentKind" where
  "attachmentKindOf el =
     (if str el ''@odata.type'' = ascii ''#microsoft.graph.itemAttachment'' \<or> field el ''item'' \<noteq> None
      then AttachItem else AttachFile)"

definition attachmentBytes :: "'d JsonValue \<Rightarrow> bytes" where
  "attachmentBytes el =
     (if attachmentKindOf el = AttachItem then []
      else if str el ''@odata.type'' = ascii ''#microsoft.graph.fileAttachment'' \<or> field el ''contentBytes'' \<noteq> None
      then decodeOrEmpty (str el ''contentBytes'')
      else [])"

definition attachmentFields :: "('d \<Rightarrow> u32) \<Rightarrow> 'd JsonValue \<Rightarrow> AttachmentFields" where
  "attachmentFields toInt32 el =
     \<lparr>att_kind = attachmentKindOf el, att_name = str el ''name'', att_contentType = str el ''contentType'',
      att_contentId = str el ''contentId'', att_isInline = flag el ''isInline'',
      att_size = getInt toInt32 el (ascii ''size'') 0, att_contentBytes = attachmentBytes el\<rparr>"

lemma size_jsonFind: "jsonFind v key = Some w \<Longrightarrow> size w < size v"
proof -
  have "size w < size (JObject m)" if "map_of m key = Some w" for m :: "(bytes \<times> 'a JsonValue) list"
    using size_list_estimation' [OF map_of_SomeD [OF that], of "size w" "size_prod (\<lambda>_. 0) size"] by simp
  then show "jsonFind v key = Some w \<Longrightarrow> size w < size v"
    by (cases v) (simp_all add: jsonFind_def)
qed

lemma size_objectsOf:
  assumes "el \<in> set (objectsOf v key)"
  shows "size el < size v"
proof -
  obtain arr where arr: "jsonFind v (ascii key) = Some (JArray arr)" "el \<in> set arr"
    using assms unfolding objectsOf_def field_def by (cases "jsonFind v (ascii key)") (auto split: JsonValue.splits)
  have "size el \<le> size_list size arr" by (rule size_list_estimation' [OF arr(2)]) simp
  then show ?thesis using size_jsonFind [OF arr(1)] by simp
qed

function extractMessage :: "('d \<Rightarrow> u32) \<Rightarrow> 'd JsonValue \<Rightarrow> GraphMessage"
and extractAttachment :: "('d \<Rightarrow> u32) \<Rightarrow> 'd JsonValue \<Rightarrow> Attachment" where
  "extractMessage toInt32 obj =
     GraphMessage (extractFields obj) (map (extractAttachment toInt32) (objectsOf obj ''attachments''))"
| "extractAttachment toInt32 el =
     Attachment (attachmentFields toInt32 el)
       (case field el ''item'' of
          Some it \<Rightarrow> (case it of JObject m \<Rightarrow> Some (extractMessage toInt32 it) | _ \<Rightarrow> None)
        | None \<Rightarrow> None)"
  by pat_completeness auto
termination
  by (relation "measure (\<lambda>x. case x of Inl (_, v) \<Rightarrow> size v | Inr (_, v) \<Rightarrow> size v)")
    (auto simp: field_def dest: size_jsonFind size_objectsOf)

declare extractMessage.simps [simp del] extractAttachment.simps [simp del]

section \<open>The entry points\<close>

definition messageSource :: string where
  "messageSource = ''graph_message JSON: ''"

definition isObject :: "'d JsonValue \<Rightarrow> bool" where
  "isObject v = (case v of JObject m \<Rightarrow> True | _ \<Rightarrow> False)"

definition parseGraphMessage :: "(bytes \<Rightarrow> 'd option) \<Rightarrow> ('d \<Rightarrow> u32) \<Rightarrow> bytes \<Rightarrow> GraphMessage result option" where
  "parseGraphMessage stod toInt32 json =
     bind_p (parseTopLevel messageSource stod json) (\<lambda>v.
       if \<not> isObject v then Some (Inl (RuntimeError ''graph_message JSON: expected top-level object''))
       else Some (Inr (extractMessage toInt32 v)))"

definition parseGraphMessageList :: "(bytes \<Rightarrow> 'd option) \<Rightarrow> ('d \<Rightarrow> u32) \<Rightarrow> bytes \<Rightarrow> GraphMessage list result option" where
  "parseGraphMessageList stod toInt32 json =
     bind_p (parseTopLevel messageSource stod json) (\<lambda>v.
       let arr = (case v of
                    JArray arr \<Rightarrow> Some arr
                  | JObject m \<Rightarrow> (case field v ''value'' of Some (JArray arr) \<Rightarrow> Some arr | _ \<Rightarrow> None)
                  | _ \<Rightarrow> None)
       in case arr of
            None \<Rightarrow> Some (Inl (RuntimeError ''graph_message JSON: expected array or {value:[...]}''))
          | Some els \<Rightarrow> Some (Inr (map (extractMessage toInt32) (filter isObject els))))"

lemma isObject_simps [simp]:
  "isObject (JObject m)" "\<not> isObject JNull" "\<not> isObject (JBool b)" "\<not> isObject (JNumber d s)"
  "\<not> isObject (JString s)" "\<not> isObject (JArray vs)"
  by (simp_all add: isObject_def)

section \<open>The JSON form of a message\<close>

text \<open>An object with its keys as strings.\<close>

definition keyed :: "(string \<times> 'd JsonValue) list \<Rightarrow> 'd JsonValue" where
  "keyed m = JObject (map (\<lambda>(k, v). (ascii k, v)) m)"

definition addressJson :: "EmailAddress \<Rightarrow> 'd JsonValue" where
  "addressJson a =
     keyed [(''emailAddress'', keyed [(''address'', JString (ea_address a)), (''name'', JString (ea_name a))])]"

definition recipientsJson :: "Recipient list \<Rightarrow> 'd JsonValue" where
  "recipientsJson rs = JArray (map (\<lambda>r. addressJson (rcp_emailAddress r)) rs)"

definition bodyJson :: "Body \<Rightarrow> 'd JsonValue" where
  "bodyJson b =
     keyed [(''content'', JString (body_content b)),
            (''contentType'', JString (ascii (case body_contentType b of BodyHtml \<Rightarrow> ''html'' | BodyText \<Rightarrow> ''text'')))]"

definition headersJson :: "InternetMessageHeader list \<Rightarrow> 'd JsonValue" where
  "headersJson hs = JArray (map (\<lambda>h. keyed [(''name'', JString (imh_name h)), (''value'', JString (imh_value h))]) hs)"

definition importanceName :: "Importance \<Rightarrow> string" where
  "importanceName i = (case i of ImpLow \<Rightarrow> ''low'' | ImpNormal \<Rightarrow> ''normal'' | ImpHigh \<Rightarrow> ''high'')"

definition flagName :: "FlagStatus \<Rightarrow> string" where
  "flagName f = (case f of Complete \<Rightarrow> ''complete'' | Flagged \<Rightarrow> ''flagged'' | NotFlagged \<Rightarrow> ''notFlagged'')"

definition fieldsJson :: "MessageFields \<Rightarrow> 'd JsonValue list \<Rightarrow> (string \<times> 'd JsonValue) list" where
  "fieldsJson f atts =
     [(''attachments'', JArray atts), (''bccRecipients'', recipientsJson (gm_bccRecipients f)),
      (''body'', bodyJson (gm_body f)), (''bodyPreview'', JString (gm_bodyPreview f)),
      (''categories'', JArray (map JString (gm_categories f))), (''ccRecipients'', recipientsJson (gm_ccRecipients f)),
      (''conversationId'', JString (gm_conversationId f)),
      (''conversationIndex'', JString (b64Encode (gm_conversationIndex f))),
      (''createdDateTime'', JString (gm_createdDateTime f)),
      (''flag'', keyed [(''flagStatus'', JString (ascii (flagName (gm_flagStatus f))))]),
      (''from'', addressJson (gm_from f)), (''hasAttachments'', JBool (gm_hasAttachments f)), (''id'', JString (gm_id f)),
      (''importance'', JString (ascii (importanceName (gm_importance f)))),
      (''internetMessageHeaders'', headersJson (gm_internetMessageHeaders f)),
      (''internetMessageId'', JString (gm_internetMessageId f)), (''isDraft'', JBool (gm_isDraft f)),
      (''isRead'', JBool (gm_isRead f)), (''lastModifiedDateTime'', JString (gm_lastModifiedDateTime f)),
      (''parentFolderId'', JString (gm_parentFolderId f)), (''receivedDateTime'', JString (gm_receivedDateTime f)),
      (''replyTo'', JArray [addressJson (gm_replyTo f)]), (''sender'', addressJson (gm_sender f)),
      (''sentDateTime'', JString (gm_sentDateTime f)), (''subject'', JString (gm_subject f)),
      (''toRecipients'', recipientsJson (gm_toRecipients f))]"

definition attachmentJsonFields :: "('d \<times> bytes) \<Rightarrow> AttachmentFields \<Rightarrow> 'd JsonValue option \<Rightarrow> (string \<times> 'd JsonValue) list" where
  "attachmentJsonFields n f it =
     [(''@odata.type'', JString (ascii (case att_kind f of AttachItem \<Rightarrow> ''#microsoft.graph.itemAttachment''
                                        | AttachFile \<Rightarrow> ''#microsoft.graph.fileAttachment''))),
      (''contentBytes'', JString (b64Encode (att_contentBytes f))), (''contentId'', JString (att_contentId f)),
      (''contentType'', JString (att_contentType f)), (''isInline'', JBool (att_isInline f))]
     @ (case it of None \<Rightarrow> [] | Some v \<Rightarrow> [(''item'', v)])
     @ [(''name'', JString (att_name f)), (''size'', JNumber (fst n) (snd n))]"

primrec messageJson :: "(u32 \<Rightarrow> 'd \<times> bytes) \<Rightarrow> GraphMessage \<Rightarrow> 'd JsonValue"
and attachmentJson :: "(u32 \<Rightarrow> 'd \<times> bytes) \<Rightarrow> Attachment \<Rightarrow> 'd JsonValue" where
  "messageJson num (GraphMessage f as) = keyed (fieldsJson f (map (attachmentJson num) as))"
| "attachmentJson num (Attachment f it) =
     keyed (attachmentJsonFields (num (att_size f)) f (map_option (messageJson num) it))"

text \<open>
  Coherent messages: the flags agree with the values they are derived from, recipients are in the list of
  their kind, a file has no message and an embedded message no bytes, and the sizes have a number text.
\<close>

definition coherentFields :: "MessageFields \<Rightarrow> bool" where
  "coherentFields f \<longleftrightarrow>
     (gm_hasSender f \<longleftrightarrow> ea_address (gm_sender f) \<noteq> [] \<or> ea_name (gm_sender f) \<noteq> [])
     \<and> (gm_hasFrom f \<longleftrightarrow> ea_address (gm_from f) \<noteq> [] \<or> ea_name (gm_from f) \<noteq> [])
     \<and> (gm_hasReplyTo f \<longleftrightarrow> ea_address (gm_replyTo f) \<noteq> [])
     \<and> list_all (\<lambda>r. rcp_kind r = RkTo) (gm_toRecipients f) \<and> list_all (\<lambda>r. rcp_kind r = RkCc) (gm_ccRecipients f)
     \<and> list_all (\<lambda>r. rcp_kind r = RkBcc) (gm_bccRecipients f)"

primrec coherent :: "(bytes \<Rightarrow> 'd option) \<Rightarrow> ('d \<Rightarrow> u32) \<Rightarrow> (u32 \<Rightarrow> 'd \<times> bytes) \<Rightarrow> GraphMessage \<Rightarrow> bool"
and coherentAttachment :: "(bytes \<Rightarrow> 'd option) \<Rightarrow> ('d \<Rightarrow> u32) \<Rightarrow> (u32 \<Rightarrow> 'd \<times> bytes) \<Rightarrow> Attachment \<Rightarrow> bool" where
  "coherent stod toInt32 num (GraphMessage f as) \<longleftrightarrow>
     coherentFields f \<and> list_all id (map (coherentAttachment stod toInt32 num) as)"
| "coherentAttachment stod toInt32 num (Attachment f it) \<longleftrightarrow>
     (case num (att_size f) of (d, s) \<Rightarrow> numberText s \<and> stod s = Some d \<and> toInt32 d = att_size f)
     \<and> (case att_kind f of AttachFile \<Rightarrow> it = None | AttachItem \<Rightarrow> att_contentBytes f = [])
     \<and> pred_option id (map_option (coherent stod toInt32 num) it)"

lemma field_keyed [simp]: "field (keyed m) k = map_of m k"
  unfolding field_def by (induction m) (auto simp: keyed_def jsonFind_def ascii_inject)

lemma str_keyed [simp]: "str (keyed m) k = (case map_of m k of Some (JString s) \<Rightarrow> s | _ \<Rightarrow> [])"
  unfolding str_def getStr_def field_def [symmetric] by simp

lemma flag_keyed [simp]: "flag (keyed m) k = (case map_of m k of Some (JBool b) \<Rightarrow> b | _ \<Rightarrow> False)"
  unfolding flag_def getBool_def field_def [symmetric] by simp

lemma isObject_keyed [simp]: "isObject (keyed m)"
  by (simp add: keyed_def)

lemma objectsOf_keyed [simp]:
  "objectsOf (keyed m) key = (case map_of m key of Some (JArray arr) \<Rightarrow> filter isObject arr | _ \<Rightarrow> [])"
  unfolding objectsOf_def isObject_def [abs_def] field_keyed by (rule refl)

lemma extract_address [simp]: "extractRecipientEmail (addressJson a) = a"
  by (simp add: extractRecipientEmail_def addressJson_def extractEmailAddress_def)

lemma isObject_address [simp]: "isObject (addressJson a)"
  by (simp add: addressJson_def)

lemma decode_encode [simp]: "decodeOrEmpty (b64Encode bs) = bs"
  using base64_decodes [of "b64Encode bs" bs 0] b64Encode_no_space [of bs]
  by (cases bs rule: b64Encode.cases) (simp_all add: decodeOrEmpty_def)

lemma extract_recipients:
  assumes "map_of m key = Some (recipientsJson rs)" and "list_all (\<lambda>r. rcp_kind r = kind) rs"
  shows "extractRecipients (keyed m) key kind = rs"
proof -
  have "filter isObject (map (\<lambda>r. addressJson (rcp_emailAddress r)) rs) = map (\<lambda>r. addressJson (rcp_emailAddress r)) rs"
    by (simp add: filter_map comp_def)
  then show ?thesis using assms by (simp add: extractRecipients_def recipientsJson_def comp_def list_all_iff map_idI)
qed

lemma fields_distinct: "distinct (map fst (fieldsJson f atts))"
  unfolding fieldsJson_def list.map fst_conv by code_simp

lemma fields_at: "(k, v) \<in> set (fieldsJson f atts) \<Longrightarrow> map_of (fieldsJson f atts) k = Some v"
  using fields_distinct by (rule map_of_is_SomeI)

lemma fields_lookup:
  "map_of (fieldsJson f atts) ''attachments'' = Some (JArray atts)"
  "map_of (fieldsJson f atts) ''bccRecipients'' = Some (recipientsJson (gm_bccRecipients f))"
  "map_of (fieldsJson f atts) ''body'' = Some (bodyJson (gm_body f))"
  "map_of (fieldsJson f atts) ''bodyPreview'' = Some (JString (gm_bodyPreview f))"
  "map_of (fieldsJson f atts) ''categories'' = Some (JArray (map JString (gm_categories f)))"
  "map_of (fieldsJson f atts) ''ccRecipients'' = Some (recipientsJson (gm_ccRecipients f))"
  "map_of (fieldsJson f atts) ''conversationId'' = Some (JString (gm_conversationId f))"
  "map_of (fieldsJson f atts) ''conversationIndex'' = Some (JString (b64Encode (gm_conversationIndex f)))"
  "map_of (fieldsJson f atts) ''createdDateTime'' = Some (JString (gm_createdDateTime f))"
  "map_of (fieldsJson f atts) ''flag'' = Some (keyed [(''flagStatus'', JString (ascii (flagName (gm_flagStatus f))))])"
  "map_of (fieldsJson f atts) ''from'' = Some (addressJson (gm_from f))"
  "map_of (fieldsJson f atts) ''hasAttachments'' = Some (JBool (gm_hasAttachments f))"
  "map_of (fieldsJson f atts) ''id'' = Some (JString (gm_id f))"
  "map_of (fieldsJson f atts) ''importance'' = Some (JString (ascii (importanceName (gm_importance f))))"
  "map_of (fieldsJson f atts) ''internetMessageHeaders'' = Some (headersJson (gm_internetMessageHeaders f))"
  "map_of (fieldsJson f atts) ''internetMessageId'' = Some (JString (gm_internetMessageId f))"
  "map_of (fieldsJson f atts) ''isDraft'' = Some (JBool (gm_isDraft f))"
  "map_of (fieldsJson f atts) ''isRead'' = Some (JBool (gm_isRead f))"
  "map_of (fieldsJson f atts) ''lastModifiedDateTime'' = Some (JString (gm_lastModifiedDateTime f))"
  "map_of (fieldsJson f atts) ''parentFolderId'' = Some (JString (gm_parentFolderId f))"
  "map_of (fieldsJson f atts) ''receivedDateTime'' = Some (JString (gm_receivedDateTime f))"
  "map_of (fieldsJson f atts) ''replyTo'' = Some (JArray [addressJson (gm_replyTo f)])"
  "map_of (fieldsJson f atts) ''sender'' = Some (addressJson (gm_sender f))"
  "map_of (fieldsJson f atts) ''sentDateTime'' = Some (JString (gm_sentDateTime f))"
  "map_of (fieldsJson f atts) ''subject'' = Some (JString (gm_subject f))"
  "map_of (fieldsJson f atts) ''toRecipients'' = Some (recipientsJson (gm_toRecipients f))"
  by (rule fields_at; simp add: fieldsJson_def)+

lemma extract_fields:
  assumes "coherentFields f"
  shows "extractFields (keyed (fieldsJson f atts)) = f"
proof -
  let ?o = "keyed (fieldsJson f atts)"
  have rcp: "extractRecipients ?o ''toRecipients'' RkTo = gm_toRecipients f" "extractRecipients ?o ''ccRecipients'' RkCc = gm_ccRecipients f"
    "extractRecipients ?o ''bccRecipients'' RkBcc = gm_bccRecipients f"
    by (rule extract_recipients; use assms in \<open>simp add: fields_lookup coherentFields_def\<close>)+
  have b: "extractBody ?o = gm_body f"
    by (cases "body_contentType (gm_body f)") (simp_all add: extractBody_def bodyJson_def fields_lookup)
  have imp: "importanceFrom (ascii (importanceName i)) = i" for i
    by (cases i) (simp_all add: importanceFrom_def importanceName_def)
  have flg: "flagStatusFrom (ascii (flagName i)) = i" for i
    by (cases i) (simp_all add: flagStatusFrom_def flagName_def)
  have hd: "extractInternetHeaders ?o = gm_internetMessageHeaders f"
    by (simp add: extractInternetHeaders_def fields_lookup headersJson_def filter_map comp_def map_idI)
  have cat: "extractCategories ?o = gm_categories f"
    unfolding extractCategories_def getStringArray_def field_def [symmetric]
    by (simp add: fields_lookup comp_def)
  have rep: "(case addressJson a of JObject m \<Rightarrow> extractRecipientEmail (JObject m) | _ \<Rightarrow> noAddress) = a" for a :: EmailAddress
    using extract_address [of a] by (simp add: addressJson_def keyed_def del: extract_address)
  show ?thesis using assms
    unfolding extractFields_def rcp b hd cat
    by (simp add: fields_lookup imp flg rep coherentFields_def Let_def del: list.map)
qed

lemma keyed_canonical:
  "canonical stod (keyed m) \<longleftrightarrow> sorted_wrt bytesLess (map ascii (map fst m)) \<and> list_all (canonical stod) (map snd m)"
  by (auto simp: keyed_def list_all_iff comp_def case_prod_beta)

lemma address_canonical [simp]: "canonical stod (addressJson a)"
  by (simp add: addressJson_def keyed_canonical)

lemma attachmentJson_object: "isObject (attachmentJson num a)"
  by (cases a) simp

lemma messageJson_object: "isObject (messageJson num m)"
  by (cases m) simp

lemma bytesLess_trans: "transp bytesLess"
proof (rule transpI)
  fix xs ys zs assume "bytesLess xs ys" "bytesLess ys zs"
  then show "bytesLess xs zs"
  proof (induction xs ys arbitrary: zs rule: bytesLess.induct)
    case (3 x xs y ys)
    then show ?case by (cases zs) auto
  qed (use bytesLess.elims in \<open>fastforce+\<close>)
qed

lemmas sorted_keys = sorted_wrt2 [OF bytesLess_trans] sorted_wrt1

lemma fields_sorted: "sorted_wrt bytesLess (map ascii (map fst (fieldsJson f atts)))"
  by (simp add: fieldsJson_def sorted_keys del: sorted_wrt.simps)

lemma attachment_sorted: "sorted_wrt bytesLess (map ascii (map fst (attachmentJsonFields n f it)))"
  by (cases it) (simp_all add: attachmentJsonFields_def sorted_keys del: sorted_wrt.simps)

lemma fields_canonical:
  assumes "list_all (canonical stod) atts"
  shows "canonical stod (keyed (fieldsJson f atts))"
proof -
  have "canonical stod (recipientsJson rs)" "canonical stod (bodyJson b)" "canonical stod (headersJson hs)" for rs b hs
    by (simp_all add: recipientsJson_def bodyJson_def headersJson_def keyed_canonical)
  then have "list_all (canonical stod) (map snd (fieldsJson f atts))"
    using assms by (simp add: fieldsJson_def keyed_canonical list_all_iff)
  then show ?thesis using fields_sorted keyed_canonical by blast
qed

lemma message_canonical:
  "coherent stod toInt32 num m \<Longrightarrow> canonical stod (messageJson num m)"
  "coherentAttachment stod toInt32 num a \<Longrightarrow> canonical stod (attachmentJson num a)"
proof (induction m and a)
  case (GraphMessage f as)
  then show ?case by (auto intro!: fields_canonical simp: list_all_iff)
next
  case (Attachment f it)
  have "list_all (canonical stod) (map snd (attachmentJsonFields (num (att_size f)) f (map_option (messageJson num) it)))"
    using Attachment by (cases it) (auto simp: attachmentJsonFields_def split: prod.splits)
  then show ?case using attachment_sorted by (simp add: keyed_canonical del: map_map)
qed

lemma message_extracted:
  "coherent stod toInt32 num m \<Longrightarrow> extractMessage toInt32 (messageJson num m) = m"
  "coherentAttachment stod toInt32 num a \<Longrightarrow> extractAttachment toInt32 (attachmentJson num a) = a"
proof (induction m and a)
  case (GraphMessage f as)
  have "filter isObject (map (attachmentJson num) as) = map (attachmentJson num) as"
    by (rule filter_True) (auto simp: attachmentJson_object)
  then have "objectsOf (keyed (fieldsJson f (map (attachmentJson num) as))) ''attachments'' = map (attachmentJson num) as"
    by (simp add: fields_lookup)
  then show ?case
    using GraphMessage by (simp add: extractMessage.simps extract_fields comp_def list_all_iff map_idI)
next
  case (Attachment f it)
  let ?n = "num (att_size f)" and ?it = "map_option (messageJson num) it"
  let ?o = "keyed (attachmentJsonFields ?n f ?it)"
  have k: "attachmentKindOf ?o = att_kind f" and b: "attachmentBytes ?o = att_contentBytes f"
    using Attachment.prems by (cases "att_kind f"; cases it;
        simp add: attachmentKindOf_def attachmentBytes_def attachmentJsonFields_def)+
  have n: "getInt toInt32 ?o (ascii ''size'') 0 = att_size f"
    unfolding getInt_def field_def [symmetric]
    using Attachment.prems by (cases it) (simp_all add: attachmentJsonFields_def split: prod.splits)
  have f: "attachmentFields toInt32 ?o = f"
    unfolding attachmentFields_def k b n by (cases it) (simp_all add: attachmentJsonFields_def)
  have i: "field ?o ''item'' = ?it" by (cases it) (simp_all add: attachmentJsonFields_def)
  have "(case messageJson num m of JObject x \<Rightarrow> Some (extractMessage toInt32 (messageJson num m)) | _ \<Rightarrow> None)
      = Some (extractMessage toInt32 (messageJson num m))" for m
    using messageJson_object [of num m] by (cases "messageJson num m") (simp_all add: isObject_def)
  then show ?case
    unfolding attachmentJson.simps extractAttachment.simps f i using Attachment by (cases it) simp_all
qed

text \<open>
  C18: a message survives its JSON form.  For every coherent message, with any nesting of messages in
  attachments, \<open>parseGraphMessage\<close> returns the message itself from the text of its JSON object: the strings, the
  flags, the people, the bytes in base64, and the attachments in their order.
\<close>

theorem message_roundtrip:
  assumes "coherent stod toInt32 num m"
  shows "parseGraphMessage stod toInt32 (printJson (messageJson num m)) = Some (Inr m)"
  using parse_printed [OF message_canonical(1) [OF assms], of messageSource] message_extracted(1) [OF assms]
  by (simp add: parseGraphMessage_def messageJson_object)

definition sampleMessage :: GraphMessage where
  "sampleMessage =
     (let a = \<lparr>ea_name = ascii ''Ann'', ea_address = ascii ''ann@example.com''\<rparr>;
          f = (extractFields (JNull :: nat JsonValue))\<lparr>gm_subject := ascii ''RE: plan'', gm_from := a, gm_hasFrom := True,
                gm_toRecipients := [\<lparr>rcp_kind = RkTo, rcp_emailAddress = a\<rparr>]\<rparr>
      in GraphMessage f
           [Attachment \<lparr>att_kind = AttachItem, att_name = ascii ''fwd'', att_contentType = [], att_contentId = [],
               att_isInline = False, att_size = 7, att_contentBytes = []\<rparr>
             (Some (GraphMessage (f\<lparr>gm_isRead := True\<rparr>) []))])"

definition digitNumber :: "u32 \<Rightarrow> nat \<times> bytes" where
  "digitNumber v = (unat v, ascii (to_string (unat v)))"

theorem message_roundtrip_witness:
  "parseGraphMessage digitsOnly word_of_nat (printJson (messageJson digitNumber sampleMessage)) = Some (Inr sampleMessage)"
proof (rule message_roundtrip)
  show "coherent digitsOnly word_of_nat digitNumber sampleMessage" by code_simp simp
qed

end
