(* ===== verification/Baseline.thy ===== *)
theory Baseline
  imports Messaging GraphConvert Allocator
begin

text \<open>
  The mandatory nodes that the mail, contact and calendar writers share (\<open>src/pst_baseline.cpp\<close>): their bodies and
  parents, and the registration of the reserved NIDs with the allocator.  The environment variable
  \<open>PSTWRITER_OMIT_RFT\<close> is an argument: its value as bytes, or nothing when it is not set.
\<close>

section \<open>The nodes\<close>

abbreviation u16le :: "bytes \<Rightarrow> bytes result" where
  "u16le \<equiv> utf8ToUtf16le"

record PstBaselineEntry =
  pbe_nid :: Nid
  pbe_nidParent :: Nid
  pbe_body :: bytes

text \<open>\<open>mkEntry\<close> on the body of a property context, of a table, and of a bare node.\<close>

definition mkEntry :: "Nid \<Rightarrow> Nid \<Rightarrow> bytes result \<Rightarrow> PstBaselineEntry result" where
  "mkEntry nid parent body = bind_r body (\<lambda>b. Inr \<lparr>pbe_nid = nid, pbe_nidParent = parent, pbe_body = b\<rparr>)"

definition pcEntry :: "Nid \<Rightarrow> Nid \<Rightarrow> PcResult result \<Rightarrow> PstBaselineEntry result" where
  "pcEntry nid parent r = mkEntry nid parent (bind_r r (\<lambda>pc. Inr (pcr_hnBytes pc)))"

definition tcEntry :: "Nid \<Rightarrow> TcResult result \<Rightarrow> PstBaselineEntry result" where
  "tcEntry nid r = mkEntry nid (Nid 0) (bind_r r (\<lambda>tc. Inr (tcres_hnBytes tc)))"

definition namedFolder :: "bytes \<Rightarrow> bool \<Rightarrow> FolderPcSchema" where
  "namedFolder nm sub = defaultFolderPc\<lparr>fps_displayName := nm, fps_hasSubfolders := sub\<rparr>"

definition namedRow :: "Nid \<Rightarrow> bytes \<Rightarrow> bool \<Rightarrow> HierarchyTcRow" where
  "namedRow nid nm sub =
     \<lparr>htr_rowId = nid, htr_rowVer = 0, htr_displayName = nm, htr_contentCount = 0,
      htr_contentUnreadCount = 0, htr_hasSubfolders = sub, htr_containerClass = []\<rparr>"

text \<open>Is the receive-folder table emitted?  The variable is a C string: its first byte may be the terminator.\<close>

definition emitsRft :: "bytes option \<Rightarrow> bool" where
  "emitsRft env = (case env of None \<Rightarrow> True | Some s \<Rightarrow> (case s of [] \<Rightarrow> True | c # cs \<Rightarrow> c = asc CHR ''0'' \<or> c = 0))"

text \<open>The entries in the order of the code, each with the exception that building it may raise.\<close>

definition baselineSteps ::
  "bytes option \<Rightarrow> bytes \<Rightarrow> bytes \<Rightarrow> bytes \<Rightarrow> bytes \<Rightarrow> bytes \<Rightarrow> bytes \<Rightarrow> bytes \<Rightarrow> PstBaselineEntry result list" where
  "baselineSteps env providerUid pstDisplay nameRootFolder nameTop nameSearchRoot nameSpam nameDeleted =
     [pcEntry (Nid 0x21) (Nid 0)
        (buildMessageStorePc ((defaultMessageStore providerUid)\<lparr>mss_displayName := pstDisplay\<rparr>) kDummySub),
      pcEntry (Nid 0x61) (Nid 0) (buildNameToIdMapPc kDummySub),
      pcEntry (Nid 0x122) (Nid 0x122) (buildFolderPc (namedFolder nameRootFolder True) kDummySub),
      tcEntry (Nid 0x12D) (buildFolderHierarchyTc
        [namedRow (Nid 0x2223) nameSpam False, namedRow (Nid 0x8022) nameTop True, namedRow (Nid 0x8042) nameSearchRoot False]),
      tcEntry (Nid 0x12E) buildFolderContentsTcEmpty,
      tcEntry (Nid 0x12F) buildFolderFaiContentsTc]
     @ (if emitsRft env then [tcEntry (Nid 0x617) buildReceiveFolderTableTc] else [])
     @ [mkEntry (Nid 0x1E1) (Nid 0) (Inr buildEmptyNodePayload),
      mkEntry (Nid 0x201) (Nid 0) (Inr buildEmptyNodePayload),
      tcEntry (Nid 0x60D) (buildFolderHierarchyTc []),
      tcEntry (Nid 0x60E) buildFolderContentsTcEmpty,
      tcEntry (Nid 0x60F) buildFolderFaiContentsTc,
      tcEntry (Nid 0x610) buildSearchContentsTemplateTc,
      tcEntry (Nid 0x671) buildAttachmentTemplateTc,
      tcEntry (Nid 0x692) buildRecipientTemplateTc,
      pcEntry (Nid 0x2223) (Nid 0x122) (buildSearchFolderPc (namedFolder nameSpam False) kDummySub),
      pcEntry (Nid 0x8022) (Nid 0x122) (buildFolderPc (namedFolder nameTop True) kDummySub),
      pcEntry (Nid 0x8042) (Nid 0x122) (buildFolderPc (namedFolder nameSearchRoot False) kDummySub),
      tcEntry (Nid 0x804D) (buildFolderHierarchyTc []),
      tcEntry (Nid 0x804E) buildFolderContentsTcEmpty,
      tcEntry (Nid 0x804F) buildFolderFaiContentsTc,
      pcEntry (Nid 0x8062) (Nid 0x8022) (buildFolderPc (namedFolder nameDeleted False) kDummySub),
      tcEntry (Nid 0x806D) (buildFolderHierarchyTc []),
      tcEntry (Nid 0x806E) buildFolderContentsTcEmpty,
      tcEntry (Nid 0x806F) buildFolderFaiContentsTc]"

definition buildPstBaselineEntries :: "bytes option \<Rightarrow> bytes \<Rightarrow> bytes \<Rightarrow> PstBaselineEntry list result" where
  "buildPstBaselineEntries env providerUid pstDisplayName =
     bind_r (u16le (ascii ''Top of Personal Folders'')) (\<lambda>nameTop.
     bind_r (u16le (ascii ''Search Root'')) (\<lambda>nameSearchRoot.
     bind_r (u16le (ascii ''Spam Search Folder'')) (\<lambda>nameSpam.
     bind_r (u16le (ascii ''Deleted Items'')) (\<lambda>nameDeleted.
     bind_r (u16le pstDisplayName) (\<lambda>pstDisplay.
     bind_r (if pstDisplay = [] then u16le (ascii ''Outlook Data File'') else Inr pstDisplay) (\<lambda>nameRootFolder.
       mapM_r id (baselineSteps env providerUid pstDisplay nameRootFolder nameTop nameSearchRoot nameSpam nameDeleted)))))))"

section \<open>Reserved NIDs\<close>

definition kBaselineReserved :: "Nid list" where
  "kBaselineReserved =
     map Nid [0x12D, 0x12E, 0x12F, 0x60D, 0x60E, 0x60F, 0x610, 0x617, 0x671, 0x692, 0x2223, 0x8022, 0x802D, 0x802E, 0x802F,
       0x8042, 0x804D, 0x804E, 0x804F, 0x8062, 0x806D, 0x806E, 0x806F]"

definition registerReserved :: "Nid \<Rightarrow> M5Allocator \<Rightarrow> M5Allocator result" where
  "registerReserved n alloc =
     (if isValidNidType (nid_type n)
      then if \<not> isAllocated n alloc
           then (case registerExternal n alloc of (r, alloc') \<Rightarrow> bind_r r (\<lambda>_. Inr alloc'))
           else Inr alloc
      else Inr alloc)"

fun foldM_r :: "('a \<Rightarrow> 's \<Rightarrow> 's result) \<Rightarrow> 'a list \<Rightarrow> 's \<Rightarrow> 's result" where
  "foldM_r f [] s = Inr s"
| "foldM_r f (x # xs) s = bind_r (f x s) (foldM_r f xs)"

definition registerBaselineReservedNids :: "M5Allocator \<Rightarrow> M5Allocator result" where
  "registerBaselineReservedNids alloc = foldM_r registerReserved kBaselineReserved alloc"


section \<open>The nodes are those of the table\<close>

definition baselineNids :: "bytes option \<Rightarrow> Nid list" where
  "baselineNids env =
     map Nid [0x21, 0x61, 0x122, 0x12D, 0x12E, 0x12F] @ (if emitsRft env then [Nid 0x617] else [])
     @ map Nid [0x1E1, 0x201, 0x60D, 0x60E, 0x60F, 0x610, 0x671, 0x692, 0x2223, 0x8022, 0x8042, 0x804D, 0x804E, 0x804F,
         0x8062, 0x806D, 0x806E, 0x806F]"

definition entryFor :: "Nid \<Rightarrow> PstBaselineEntry result \<Rightarrow> bool" where
  "entryFor n r \<longleftrightarrow> (\<forall>e. r = Inr e \<longrightarrow> pbe_nid e = n)"

lemma entryFor_simps [simp]: "entryFor n (mkEntry n p b)" "entryFor n (pcEntry n p r)" "entryFor n (tcEntry n t)"
  by (auto simp: entryFor_def pcEntry_def tcEntry_def mkEntry_def bind_r_Inr)

lemma steps_nids:
  "list_all2 entryFor (baselineNids env) (baselineSteps env uid d nr nt ns np nd)"
  by (cases "emitsRft env") (simp_all add: baselineNids_def baselineSteps_def)

lemma mapM_nids: "list_all2 entryFor ns rs \<Longrightarrow> mapM_r id rs = Inr es \<Longrightarrow> map pbe_nid es = ns"
proof (induction ns rs arbitrary: es rule: list_all2_induct)
  case (Cons n ns r rs)
  then show ?case by (auto simp: bind_r_Inr entryFor_def)
qed simp

lemma baseline_nids:
  assumes "buildPstBaselineEntries env uid name = Inr es"
  shows "map pbe_nid es = baselineNids env"
  using assms mapM_nids [OF steps_nids] by (auto simp: buildPstBaselineEntries_def bind_r_Inr)

lemma baselineNids_distinct: "distinct (baselineNids env)"
  by (simp add: baselineNids_def)

section \<open>The reserved NIDs are taken\<close>

text \<open>
  The receive-folder table has a type code that the allocator rejects, so it is never registered; no NID that the
  allocator hands out or accepts can be equal to it.
\<close>

definition claimed :: "M5Allocator \<Rightarrow> Nid set" where
  "claimed a = insert (Nid 0x617) (m5_used a)"

lemma valid_types: "\<not> isValidNidType (nid_type (Nid 0x617))"
  by code_simp

lemma registerReserved_effect:
  "m5_ok a \<Longrightarrow> \<exists>a'. registerReserved n a = Inr a' \<and> m5_ok a'
     \<and> m5_used a' = m5_used a \<union> (if isValidNidType (nid_type n) then {n} else {})"
  by (auto simp: registerReserved_def registerExternal_def isAllocated_def m5_used_def m5_ok_insert)

lemma registerReserved_all:
  "m5_ok a \<Longrightarrow> \<exists>a'. foldM_r registerReserved ns a = Inr a' \<and> m5_ok a'
     \<and> m5_used a' = m5_used a \<union> {n \<in> set ns. isValidNidType (nid_type n)}"
proof (induction ns arbitrary: a)
  case (Cons n ns)
  obtain a1 where a1: "registerReserved n a = Inr a1" "m5_ok a1"
    "m5_used a1 = m5_used a \<union> (if isValidNidType (nid_type n) then {n} else {})"
    using registerReserved_effect [OF Cons.prems] by blast
  then show ?case using Cons.IH [OF a1(2)] by auto
qed simp

lemma reserved_valid: "{n \<in> set kBaselineReserved. isValidNidType (nid_type n)} = set kBaselineReserved - {Nid 0x617}"
proof -
  have "filter (\<lambda>n. isValidNidType (nid_type n)) kBaselineReserved = filter (\<lambda>n. n \<noteq> Nid 0x617) kBaselineReserved"
    by code_simp
  from arg_cong [OF this, of set] show ?thesis by auto
qed

lemma baseline_used:
  obtains a where "registerBaselineReservedNids newAllocator = Inr a" and "m5_ok a"
    and "m5_used a = (set kReservedTable \<union> set kBaselineReserved) - {Nid 0x617}"
proof -
  have "Nid 0x617 \<notin> set kReservedTable" by (simp add: kReservedTable_def)
  moreover obtain a where a: "registerBaselineReservedNids newAllocator = Inr a" "m5_ok a"
      "m5_used a = set kReservedTable \<union> (set kBaselineReserved - {Nid 0x617})"
    using registerReserved_all [OF m5_ok_new, of kBaselineReserved]
    unfolding registerBaselineReservedNids_def reserved_valid m5_used_new by blast
  ultimately have "m5_used a = (set kReservedTable \<union> set kBaselineReserved) - {Nid 0x617}" by blast
  then show ?thesis using that a(1,2) by blast
qed

lemma baseline_registered:
  obtains a where "registerBaselineReservedNids newAllocator = Inr a" and "m5_ok a"
    and "claimed a = set kReservedTable \<union> set kBaselineReserved"
proof -
  have "Nid 0x617 \<in> set kBaselineReserved" by (simp add: kBaselineReserved_def)
  moreover obtain a where a: "registerBaselineReservedNids newAllocator = Inr a" "m5_ok a"
      "m5_used a = (set kReservedTable \<union> set kBaselineReserved) - {Nid 0x617}" by (rule baseline_used)
  ultimately have "claimed a = set kReservedTable \<union> set kBaselineReserved" unfolding claimed_def by blast
  then show ?thesis using that a(1,2) by blast
qed

lemma baseline_claimed: "set (baselineNids env) \<union> {Nid 0x802D, Nid 0x802E, Nid 0x802F} \<subseteq> set kReservedTable \<union> set kBaselineReserved"
  by (cases "emitsRft env") (simp_all add: baselineNids_def kReservedTable_def kBaselineReserved_def)

lemma not_rft: "isValidNidType nt \<Longrightarrow> mkNid nt k \<noteq> Nid 0x617"
proof
  assume v: "isValidNidType nt" and "mkNid nt k = Nid 0x617"
  then have "ucast (nidTypeVal nt) AND 0x1F = (0x17 :: u32)" using mkNid_type_bits [of nt k] by simp
  then show False using v by (simp add: isValidNidType_def)
qed

lemma allocate_fresh:
  assumes "m5_ok a" and "allocate nt a = (Inr n, a')"
  shows "m5_ok a'" and "n \<notin> claimed a" and "claimed a' = insert n (claimed a)"
proof -
  have v: "isValidNidType nt" using assms(2) by (auto simp: allocate_def split: if_splits)
  from assms(1) v assms(2) have "n \<noteq> Nid 0x617"
    by (cases rule: allocate_cases) (use not_rft [OF v] in simp_all)
  then show "m5_ok a'" "n \<notin> claimed a" "claimed a' = insert n (claimed a)"
    using allocate_effect [OF assms] by (auto simp: claimed_def)
qed

lemma register_fresh:
  assumes "m5_ok a" and "registerExternal n a = (Inr (), a')"
  shows "m5_ok a'" and "n \<notin> claimed a" and "claimed a' = insert n (claimed a)"
  using registerExternal_cases [OF assms(2)] assms(1) valid_types m5_ok_insert m5_used_insert [of a' n a]
  by (auto simp: claimed_def m5_used_def)

section \<open>Contexts and tables that are built\<close>

lemma pcSize_le: "pcSize props \<le> sum_list (map (\<lambda>p. length (pc_value p)) props) + 10 * length props + 40"
proof -
  have f: "sum_list (map (\<lambda>p. length (pc_value p)) (filter P props)) \<le> sum_list (map (\<lambda>p. length (pc_value p)) props)" for P
    by (induction props) simp_all
  have "(pcBody props + 3) div 4 * 4 \<le> pcBody props + 3" by simp
  moreover have "pcSize props \<le> x + 12 + 2 * classCount RsHnAlloc props" if "(pcBody props + 3) div 4 * 4 \<le> x" for x
    using that by (simp add: pcSize_def Let_def)
  ultimately have "pcSize props \<le> (pcBody props + 3) + 12 + 2 * classCount RsHnAlloc props" by blast
  moreover have "pcBody props \<le> 20 + length props * 8 + sum_list (map (\<lambda>p. length (pc_value p)) props)"
    using f by (simp add: pcBody_def)
  ultimately show ?thesis using classCount_le [of RsHnAlloc props] by linarith
qed

lemma pc_builds:
  assumes "nid_type nid \<noteq> NtHID" and "distinct (map pc_pidTagId props)" and "list_all validProp props"
    and "sum_list (map (\<lambda>p. length (pc_value p)) props) + 10 * length props \<le> 8000" and "length props \<le> 400"
  obtains r where "buildPropertyContext props nid = Inr r"
proof -
  have "pcSize props \<le> 8176" using pcSize_le [of props] assms(4) by linarith
  then show ?thesis using pc_domain [of props nid] assms that by auto
qed

lemma pc_length: "buildPropertyContext props nid = Inr r \<Longrightarrow> length (pcr_hnBytes r) \<le> 8176"
  using buildPropertyContext_success [of props nid r] by simp

lemma tc_length: "buildTableContext cols rows nid = Inr r \<Longrightarrow> length (tcres_hnBytes r) \<le> 8176"
  unfolding buildTableContext_unfold by (auto simp: bind_r_Inr hn_constants split: if_splits)

lemma sum_list_concat_map: "sum_list (map f (concat xss)) = sum_list (map (\<lambda>xs. sum_list (map f xs)) xss)"
  for f :: "'a \<Rightarrow> nat"
  by (induction xss) simp_all

lemma estimate_le:
  "estimateHnSize i n m vs False \<le> i + n * 8 + m + (sum_list (map (\<lambda>v. length (snd v)) vs) + 2 * length vs) + 39"
proof -
  have a: "estimateHnSize i n m vs False \<le> x + 16 + 2 * length vs"
    if "(12 + (8 + i + n * 8 + sum_list (map (\<lambda>v. length (snd v)) vs) + m) + 3) div 4 * 4 \<le> x" for x
    using that by (simp add: estimateHnSize_def Let_def hn_constants)
  have "(x + 3) div 4 * 4 \<le> x + 3" for x :: nat by simp
  from a [OF this] show ?thesis by simp
qed

lemma tcEstimate_le:
  "tcEstimate cols rows False \<le> 61 + 8 * length cols + length rows * (8 + unat (endBm (computeTcRgib cols)))
     + sum_list (map (\<lambda>r. sum_list (map (\<lambda>v. length (tvc_bytes v) + 2) (tcr_varlenCells r))) rows)"
proof -
  let ?vs = "tcVarlens cols rows" and ?f = "\<lambda>r. sum_list (map (\<lambda>v. length (tvc_bytes v) + 2) (tcr_varlenCells r))"
  let ?srt = "sort_key tcr_rowId rows"
  have "sum_list (map (\<lambda>v. length (snd v) + 2) ?vs) = sum_list (map (\<lambda>s. ?f (?srt ! s)) [0..<length ?srt])"
    by (simp only: varlenAllocs_def sum_list_concat_map map_map comp_def snd_conv)
  also have "\<dots> = sum_list (map ?f ?srt)" by (rule arg_cong [OF map_nth_upt])
  also have "\<dots> = sum_list (map ?f rows)" by (simp only: sum_mset_sum_list [symmetric] mset_map mset_sort)
  finally have "sum_list (map (\<lambda>v. length (snd v) + 2) ?vs) = sum_list (map ?f rows)" .
  moreover have "sum_list (map (\<lambda>v. length (snd v) + 2) vs) = sum_list (map (\<lambda>v. length (snd v)) vs) + 2 * length vs"
    for vs :: "(nat \<times> bytes) list" by (induction vs) simp_all
  ultimately have v: "sum_list (map (\<lambda>v. length (snd v)) ?vs) + 2 * length ?vs = sum_list (map ?f rows)" by metis
  then show ?thesis using estimate_le [of "22 + 8 * length cols" "length rows" "length rows * unat (endBm (computeTcRgib cols))" ?vs] by (simp add: distrib_left)
qed


lemma tc_rows_build:
  assumes "cols \<noteq> []" and "validateCols cols = Inr ()" and "list_all (rowFits cols) rows" and "length cols \<le> 900"
    and "61 + 8 * length cols + length rows * (8 + unat (endBm (computeTcRgib cols)))
      + sum_list (map (\<lambda>r. sum_list (map (\<lambda>v. length (tvc_bytes v) + 2) (tcr_varlenCells r))) rows) \<le> 8176"
  obtains r where "buildTableContext cols rows (Nid 0) = Inr r"
proof (cases "rows = []")
  case True
  then show ?thesis using buildTableContext_empty(1) [OF assms(1,4,2)] that by simp
next
  case False
  then show ?thesis using tc_built [OF False assms(1-3)] tcEstimate_le [of cols rows] assms(5) that by (meson le_trans)
qed

definition validSchema :: "TcColumn list \<Rightarrow> bool" where
  "validSchema cols \<longleftrightarrow> cols \<noteq> [] \<and> length cols \<le> 900 \<and> validateCols cols = Inr ()"

lemma schemas_valid: "list_all validSchema [kHierarchyCols, kContentsCols, kFaiContentsCols, kSearchContentsCols, kAttachmentCols,
    kRecipientCols, kReceiveFolderCols]"
  by code_simp

text \<open>Each entry of the baseline is built, with a body that fits a block.\<close>

definition entryBuilds :: "PstBaselineEntry result \<Rightarrow> bool" where
  "entryBuilds r \<longleftrightarrow> (\<exists>e. r = Inr e \<and> length (pbe_body e) \<le> 8176)"

lemma pcEntry_builds: "\<exists>r. buildPropertyContext props s = Inr r \<Longrightarrow> entryBuilds (pcEntry n p (buildPropertyContext props s))"
  using pc_length by (auto simp: entryBuilds_def pcEntry_def mkEntry_def)

lemma tcEntry_builds: "\<exists>r. buildTableContext cols rows s = Inr r \<Longrightarrow> entryBuilds (tcEntry n (buildTableContext cols rows s))"
  using tc_length by (auto simp: entryBuilds_def tcEntry_def mkEntry_def)

lemma empty_tables:
  "entryBuilds (tcEntry n (buildFolderHierarchyTc []))" "entryBuilds (tcEntry n buildFolderContentsTcEmpty)"
  "entryBuilds (tcEntry n buildFolderFaiContentsTc)" "entryBuilds (tcEntry n buildSearchContentsTemplateTc)"
  "entryBuilds (tcEntry n buildAttachmentTemplateTc)" "entryBuilds (tcEntry n buildRecipientTemplateTc)"
proof -
  have e: "entryBuilds (tcEntry n (buildTableContext cols [] (Nid 0)))" if "validSchema cols" for cols
    using buildTableContext_empty(1) [of cols] that by (intro tcEntry_builds) (auto simp: validSchema_def)
  show "entryBuilds (tcEntry n (buildFolderHierarchyTc []))" "entryBuilds (tcEntry n buildFolderContentsTcEmpty)"
    "entryBuilds (tcEntry n buildFolderFaiContentsTc)" "entryBuilds (tcEntry n buildSearchContentsTemplateTc)"
    "entryBuilds (tcEntry n buildAttachmentTemplateTc)" "entryBuilds (tcEntry n buildRecipientTemplateTc)"
    unfolding buildFolderHierarchyTc_def buildFolderContentsTcEmpty_def buildFolderFaiContentsTc_def buildSearchContentsTemplateTc_def
      buildAttachmentTemplateTc_def buildRecipientTemplateTc_def list.map
    by (rule e; use schemas_valid in simp)+
qed

lemma receive_folder_builds: "entryBuilds (tcEntry n buildReceiveFolderTableTc)"
proof -
  have e: "tcEstimate kReceiveFolderCols [receiveFolderRow] False \<le> 8176" "rowFits kReceiveFolderCols receiveFolderRow" by code_simp+
  show ?thesis unfolding buildReceiveFolderTableTc_def
    using tc_built [of "[receiveFolderRow]" kReceiveFolderCols, OF _ _ _ _ e(1)] schemas_valid e(2)
    by (intro tcEntry_builds) (auto simp: validSchema_def)
qed

lemma root_hierarchy_builds: "entryBuilds (tcEntry n (buildFolderHierarchyTc rootHierarchy))"
proof -
  have e: "tcEstimate kHierarchyCols (map hierarchyRow rootHierarchy) False \<le> 8176" by code_simp
  obtain r where "buildTableContext kHierarchyCols (map hierarchyRow rootHierarchy) (Nid 0) = Inr r"
    using tc_built [of "map hierarchyRow rootHierarchy" kHierarchyCols, OF _ hierarchy_schema(3,2) _ e]
    by (auto simp: hierarchyRow_fits list_all_iff rootHierarchy_def)
  then show ?thesis unfolding buildFolderHierarchyTc_def by (intro tcEntry_builds) blast
qed


lemma folder_builds:
  assumes "length nm \<le> 3600"
  shows "entryBuilds (pcEntry n p (buildFolderPc (namedFolder nm sub) kDummySub))"
    and "entryBuilds (pcEntry n p (buildSearchFolderPc (namedFolder nm sub) kDummySub))"
proof -
  have v: "distinct (map pc_pidTagId (folderProps f))" "list_all validProp (folderProps f)" "length (folderProps f) = 4"
    "sum_list (map (\<lambda>p. length (pc_value p)) (folderProps f)) = length (fps_displayName f) + 9" for f
    by (simp_all add: folderProps_def validProp_def isFixedSize_def fixedSize_def write_defs)
  have "nid_type kDummySub \<noteq> NtHID" by code_simp
  then obtain r where "buildPropertyContext (folderProps (namedFolder nm sub)) kDummySub = Inr r"
    using assms v by (rule_tac pc_builds) (auto simp: namedFolder_def)
  then show "entryBuilds (pcEntry n p (buildFolderPc (namedFolder nm sub) kDummySub))"
    "entryBuilds (pcEntry n p (buildSearchFolderPc (namedFolder nm sub) kDummySub))"
    unfolding buildSearchFolderPc_def buildFolderPc_def by (intro pcEntry_builds; blast)+
qed

lemma store_builds:
  assumes "length uid = 16" and "length nm \<le> 3600"
  shows "entryBuilds (pcEntry n p (buildMessageStorePc ((defaultMessageStore uid)\<lparr>mss_displayName := nm\<rparr>) kDummySub))"
proof -
  let ?ps = "messageStoreProps ((defaultMessageStore uid)\<lparr>mss_displayName := nm\<rparr>)"
  have "distinct (map pc_pidTagId ?ps)" "list_all validProp ?ps" "length ?ps = 11"
    "sum_list (map (\<lambda>p. length (pc_value p)) ?ps) = length nm + 129"
    using assms(1) by (simp_all add: messageStoreProps_def Let_def validProp_def isFixedSize_def fixedSize_def write_defs
        makeEntryId_def kEntryIdSize_def defaultMessageStore_def)
  moreover have "nid_type kDummySub \<noteq> NtHID" by code_simp
  ultimately obtain r where "buildPropertyContext ?ps kDummySub = Inr r"
    using assms(2) by (rule_tac pc_builds) auto
  then show ?thesis unfolding buildMessageStorePc_def by (intro pcEntry_builds) blast
qed

lemma name_map_builds: "entryBuilds (pcEntry n p (buildNameToIdMapPc kDummySub))"
proof -
  have "distinct (map pc_pidTagId nameToIdProps) \<and> list_all validProp nameToIdProps \<and> length nameToIdProps = 4
      \<and> sum_list (map (\<lambda>p. length (pc_value p)) nameToIdProps) = 32 \<and> nid_type kDummySub \<noteq> NtHID" by code_simp
  then obtain r where "buildPropertyContext nameToIdProps kDummySub = Inr r"
    by (rule_tac pc_builds) auto
  then show ?thesis unfolding buildNameToIdMapPc_def by (intro pcEntry_builds) blast
qed

lemma bare_builds: "entryBuilds (mkEntry n p (Inr buildEmptyNodePayload))"
  by (simp add: entryBuilds_def mkEntry_def buildEmptyNodePayload_def)

lemma fixed_names:
  "u16le (ascii ''Top of Personal Folders'') = Inr (utf16leAscii ''Top of Personal Folders'')"
  "u16le (ascii ''Search Root'') = Inr (utf16leAscii ''Search Root'')"
  "u16le (ascii ''Spam Search Folder'') = Inr (utf16leAscii ''Spam Search Folder'')"
  "u16le (ascii ''Deleted Items'') = Inr (utf16leAscii ''Deleted Items'')"
  "u16le (ascii ''Outlook Data File'') = Inr (utf16leAscii ''Outlook Data File'')"
  by code_simp+

lemma mapM_builds: "list_all entryBuilds rs \<Longrightarrow> \<exists>es. mapM_r id rs = Inr es \<and> list_all (\<lambda>e. length (pbe_body e) \<le> 8176) es"
  by (induction rs) (auto simp: entryBuilds_def)

lemma baseline_builds:
  assumes "length uid = 16" and "u16le name = Inr d" and "length d \<le> 3580"
  obtains es where "buildPstBaselineEntries env uid name = Inr es" and "list_all (\<lambda>e. length (pbe_body e) \<le> 8176) es"
proof -
  define root where "root = (if d = [] then utf16leAscii ''Outlook Data File'' else d)"
  let ?T = "utf16leAscii ''Top of Personal Folders''" and ?S = "utf16leAscii ''Search Root''"
  let ?P = "utf16leAscii ''Spam Search Folder''" and ?D = "utf16leAscii ''Deleted Items''"
  have l: "length root \<le> 3600" "length d \<le> 3600" "length ?T \<le> 3600" "length ?S \<le> 3600" "length ?P \<le> 3600" "length ?D \<le> 3600"
    using assms(3) by (simp_all add: root_def utf16leAscii_def)
  have h: "[namedRow (Nid 0x2223) ?P False, namedRow (Nid 0x8022) ?T True, namedRow (Nid 0x8042) ?S False] = rootHierarchy"
    by (simp add: namedRow_def rootHierarchy_def childRow_def)
  have "list_all entryBuilds (baselineSteps env uid d root ?T ?S ?P ?D)"
    unfolding baselineSteps_def h using l assms(1)
    by (simp add: store_builds name_map_builds folder_builds empty_tables receive_folder_builds root_hierarchy_builds bare_builds)
  moreover have "buildPstBaselineEntries env uid name = mapM_r id (baselineSteps env uid d root ?T ?S ?P ?D)"
    unfolding buildPstBaselineEntries_def fixed_names assms(2) bind_r.simps by (cases "d = []") (simp_all add: root_def)
  ultimately show ?thesis using mapM_builds that by metis
qed

text \<open>
  C19: the baseline of a store is always complete.  For every 16-byte provider and every display name whose UTF-16 form
  has at most 3580 bytes, \<open>buildPstBaselineEntries\<close> returns the mandatory nodes, 24 of them and the receive-folder
  table when the environment does not omit it, in the fixed order with distinct NIDs and with bodies that fit a
  block; the registration on a new allocator succeeds, and afterwards every NID of these nodes and of the three
  tables of the IPM subtree is taken, with the one exception of 0x617, the receive-folder table: the allocator does not
  know its type, so the registration leaves it out.
\<close>

theorem baseline_complete:
  assumes "length uid = 16" and "u16le name = Inr d" and "length d \<le> 3580"
  shows "\<exists>es a. buildPstBaselineEntries env uid name = Inr es \<and> map pbe_nid es = baselineNids env \<and> distinct (map pbe_nid es)
    \<and> length es = (if emitsRft env then 25 else 24) \<and> list_all (\<lambda>e. length (pbe_body e) \<le> 8176) es
    \<and> registerBaselineReservedNids newAllocator = Inr a
    \<and> list_all (\<lambda>n. isAllocated n a \<longleftrightarrow> n \<noteq> Nid 0x617) (baselineNids env @ [Nid 0x802D, Nid 0x802E, Nid 0x802F])"
proof -
  obtain es where es: "buildPstBaselineEntries env uid name = Inr es" "list_all (\<lambda>e. length (pbe_body e) \<le> 8176) es"
    using baseline_builds [OF assms] .
  obtain a where a: "registerBaselineReservedNids newAllocator = Inr a"
      "m5_used a = (set kReservedTable \<union> set kBaselineReserved) - {Nid 0x617}"
    using baseline_used by blast
  have m: "map pbe_nid es = baselineNids env" using baseline_nids [OF es(1)] .
  have "length es = (if emitsRft env then 25 else 24)" using arg_cong [OF m, of length] by (simp add: baselineNids_def)
  moreover have "isAllocated n a \<longleftrightarrow> n \<noteq> Nid 0x617" if "n \<in> set (baselineNids env @ [Nid 0x802D, Nid 0x802E, Nid 0x802F])" for n
  proof -
    have "n \<in> set kReservedTable \<union> set kBaselineReserved" using that baseline_claimed [of env] by (simp only: set_append) auto
    then have "n \<in> m5_used a \<longleftrightarrow> n \<noteq> Nid 0x617" by (simp only: a(2) Diff_iff singleton_iff) simp
    then show ?thesis by (simp only: m5_used_def mem_Collect_eq)
  qed
  then have "list_all (\<lambda>n. isAllocated n a \<longleftrightarrow> n \<noteq> Nid 0x617) (baselineNids env @ [Nid 0x802D, Nid 0x802E, Nid 0x802F])"
    unfolding list_all_iff by (intro ballI)
  ultimately show ?thesis using es a(1) m baselineNids_distinct by (intro exI [of _ es] exI [of _ a]) simp
qed

theorem baseline_complete_witness:
  "\<exists>es a. buildPstBaselineEntries (Some (ascii ''1'')) (replicate 16 7) (ascii ''Mail'') = Inr es
    \<and> length es = 24 \<and> registerBaselineReservedNids newAllocator = Inr a \<and> isAllocated (Nid 0x8062) a"
proof -
  have "u16le (ascii ''Mail'') = Inr (utf16leAscii ''Mail'')" "length (utf16leAscii ''Mail'') \<le> 3580"
    "\<not> emitsRft (Some (ascii ''1''))" by code_simp+
  then show ?thesis
    using baseline_complete [of "replicate 16 7" "ascii ''Mail''" "utf16leAscii ''Mail''" "Some (ascii ''1'')"]
    by (auto simp: baselineNids_def)
qed

end
