(* ===== verification/Store.thy ===== *)
theory Store
  imports Baseline
begin

text \<open>
  What the writers of mail, contact and calendar stores have in common (\<open>src/mail.cpp\<close>, \<open>src/contact.cpp\<close>,
  \<open>src/event.cpp\<close>): the lists of nodes and blocks that they schedule, the split of a payload into a tree
  of blocks, the NIDs of user folders, and the encoding of everything scheduled for \<open>writeM5Pst\<close>.
  The mail writer has all four lists; in the other two the lists of subnode and XBLOCKs stay empty.  The copy of
  the body in a node, which nothing reads, is left out.
\<close>

section \<open>Scheduling\<close>

record M7Node =
  m7n_nid :: Nid
  m7n_nidParent :: Nid
  m7n_bidData :: Bid
  m7n_bidSub :: Bid

record M7Block =
  m7b_bid :: Bid
  m7b_bodyBytes :: bytes

record M7SlBlock =
  m7s_bid :: Bid
  m7s_entries :: "SlEntry list"

record M7XBlock =
  m7x_bid :: Bid
  m7x_cLevel :: u8
  m7x_lcbTotal :: u32
  m7x_childBids :: "Bid list"

record StoreState =
  st_nextDataBidIdx :: u64
  st_nextInternalBidIdx :: u64
  st_nodes :: "M7Node list"
  st_dataBlocks :: "M7Block list"
  st_slBlocks :: "M7SlBlock list"
  st_xBlocks :: "M7XBlock list"

definition emptyStore :: StoreState where
  "emptyStore = \<lparr>st_nextDataBidIdx = 1, st_nextInternalBidIdx = 1, st_nodes = [], st_dataBlocks = [], st_slBlocks = [],
     st_xBlocks = []\<rparr>"

definition allocDataBid :: "StoreState \<Rightarrow> Bid \<times> StoreState" where
  "allocDataBid st = (makeData (st_nextDataBidIdx st), st\<lparr>st_nextDataBidIdx := st_nextDataBidIdx st + 1\<rparr>)"

definition allocInternalBid :: "StoreState \<Rightarrow> Bid \<times> StoreState" where
  "allocInternalBid st =
     (makeInternal (st_nextInternalBidIdx st), st\<lparr>st_nextInternalBidIdx := st_nextInternalBidIdx st + 1\<rparr>)"

definition scheduleDataBlock :: "bytes \<Rightarrow> StoreState \<Rightarrow> Bid \<times> StoreState" where
  "scheduleDataBlock body st =
     (let (bid, st) = allocDataBid st
      in (bid, st\<lparr>st_dataBlocks := st_dataBlocks st @ [\<lparr>m7b_bid = bid, m7b_bodyBytes = body\<rparr>]\<rparr>))"

definition scheduleNode :: "Nid \<Rightarrow> Nid \<Rightarrow> bytes \<Rightarrow> Bid \<Rightarrow> StoreState \<Rightarrow> StoreState" where
  "scheduleNode nid parent body bidSub st =
     (let (bid, st) = allocDataBid st;
          st = st\<lparr>st_dataBlocks := st_dataBlocks st @ [\<lparr>m7b_bid = bid, m7b_bodyBytes = body\<rparr>]\<rparr>
      in st\<lparr>st_nodes := st_nodes st
             @ [\<lparr>m7n_nid = nid, m7n_nidParent = parent, m7n_bidData = bid, m7n_bidSub = bidSub\<rparr>]\<rparr>)"

definition scheduleSlBlock :: "SlEntry list \<Rightarrow> StoreState \<Rightarrow> Bid \<times> StoreState" where
  "scheduleSlBlock entries st =
     (let (bid, st) = allocInternalBid st
      in (bid, st\<lparr>st_slBlocks := st_slBlocks st @ [\<lparr>m7s_bid = bid, m7s_entries = entries\<rparr>]\<rparr>))"

section \<open>Payloads\<close>

definition kXBlockMaxChildren :: nat where
  "kXBlockMaxChildren = (kMaxBlockPayload - 8) div kXBlockEntrySize"

text \<open>The loop over the parts of a list, each of \<open>n\<close> elements but the last.\<close>

function partsOf :: "nat \<Rightarrow> 'a list \<Rightarrow> 'a list list" where
  "partsOf n xs = (if xs = [] \<or> n = 0 then [] else take n xs # partsOf n (drop n xs))"
  by pat_completeness auto
termination
  by (relation "measure (\<lambda>(_, xs). length xs)") auto

declare partsOf.simps [simp del]

fun scheduleChunks :: "bytes list \<Rightarrow> StoreState \<Rightarrow> Bid list \<times> StoreState" where
  "scheduleChunks [] st = ([], st)"
| "scheduleChunks (c # cs) st =
     (let (b, st) = scheduleDataBlock c st; (bs, st) = scheduleChunks cs st in (b # bs, st))"

definition makeBlock :: "u8 \<Rightarrow> Bid list \<Rightarrow> u32 \<Rightarrow> StoreState \<Rightarrow> Bid \<times> StoreState" where
  "makeBlock cLevel children lcbTotal st =
     (let (bid, st) = allocInternalBid st
      in (bid, st\<lparr>st_xBlocks := st_xBlocks st
                   @ [\<lparr>m7x_bid = bid, m7x_cLevel = cLevel, m7x_lcbTotal = lcbTotal, m7x_childBids = children\<rparr>]\<rparr>))"

fun makeXBlocks :: "(Bid \<times> u32) list list \<Rightarrow> StoreState \<Rightarrow> Bid list \<times> StoreState" where
  "makeXBlocks [] st = ([], st)"
| "makeXBlocks (g # gs) st =
     (let (b, st) = makeBlock 1 (map fst g) (sum_list (map snd g)) st; (bs, st) = makeXBlocks gs st in (b # bs, st))"

definition schedulePayload :: "bytes \<Rightarrow> StoreState \<Rightarrow> Bid \<times> StoreState" where
  "schedulePayload body st =
     (if length body \<le> kMaxBlockPayload then scheduleDataBlock body st
      else let chunks = partsOf kMaxBlockPayload body;
               (chunkBids, st) = scheduleChunks chunks st;
               chunkSizes = map (\<lambda>c. word_of_nat (length c)) chunks
           in if length chunkBids \<le> kXBlockMaxChildren
              then makeBlock 1 chunkBids (word_of_nat (length body)) st
              else let (xblockBids, st) = makeXBlocks (partsOf kXBlockMaxChildren (zip chunkBids chunkSizes)) st
                   in makeBlock 2 xblockBids (word_of_nat (length body)) st)"

section \<open>Encoding\<close>

text \<open>What is written as a block: its BID, the size in its entry, and the block at an offset.\<close>

record BlockPlan =
  bp_bid :: Bid
  bp_cb :: u16
  bp_encode :: "Ib \<Rightarrow> bytes"

definition dataPlan :: "M7Block \<Rightarrow> BlockPlan" where
  "dataPlan b =
     \<lparr>bp_bid = m7b_bid b, bp_cb = word_of_nat (length (m7b_bodyBytes b)),
      bp_encode = (\<lambda>ib. buildDataBlock (m7b_bodyBytes b) (m7b_bid b) ib CryptPermute)\<rparr>"

definition xPlan :: "M7XBlock \<Rightarrow> BlockPlan" where
  "xPlan x =
     \<lparr>bp_bid = m7x_bid x, bp_cb = word_of_nat (8 + length (m7x_childBids x) * kXBlockEntrySize),
      bp_encode = (\<lambda>ib. if m7x_cLevel x = 1 then buildXBlock (m7x_childBids x) (m7x_lcbTotal x) (m7x_bid x) ib
                        else buildXXBlock (m7x_childBids x) (m7x_lcbTotal x) (m7x_bid x) ib)\<rparr>"

definition slPlan :: "M7SlBlock \<Rightarrow> BlockPlan" where
  "slPlan s =
     \<lparr>bp_bid = m7s_bid s, bp_cb = word_of_nat (8 + length (m7s_entries s) * 24),
      bp_encode = (\<lambda>ib. buildSlBlock (m7s_entries s) (m7s_bid s) ib)\<rparr>"

fun encodePlans :: "u64 \<Rightarrow> BlockPlan list \<Rightarrow> M5DataBlockSpec list" where
  "encodePlans cursorIb [] = []"
| "encodePlans cursorIb (p # ps) =
     (let encoded = bp_encode p (Ib cursorIb)
      in \<lparr>m5b_bid = bp_bid p, m5b_encodedBlock = encoded, m5b_cb = bp_cb p\<rparr>
         # encodePlans (cursorIb + word_of_nat (length encoded)) ps)"

definition storePlans :: "StoreState \<Rightarrow> BlockPlan list" where
  "storePlans st = map dataPlan (st_dataBlocks st) @ map xPlan (st_xBlocks st) @ map slPlan (st_slBlocks st)"

definition m5NodeOf :: "M7Node \<Rightarrow> M5Node" where
  "m5NodeOf n = \<lparr>m5n_nid = m7n_nid n, m5n_bidData = m7n_bidData n, m5n_bidSub = m7n_bidSub n, m5n_nidParent = m7n_nidParent n\<rparr>"

definition finishStore :: "Io \<Rightarrow> StoreState \<Rightarrow> (WriteResult \<times> bytes option) result" where
  "finishStore io st = writeM5Pst io (encodePlans 0x4600 (storePlans st)) (map m5NodeOf (st_nodes st))"

text \<open>The \<open>catch\<close> of the writer called \<open>name\<close>, around everything but \<open>writeM5Pst\<close>.\<close>

fun caughtAs :: "string \<Rightarrow> error \<Rightarrow> (WriteResult \<times> bytes option) result" where
  "caughtAs name OutOfBounds = Inl OutOfBounds"
| "caughtAs name (RuntimeError m) = Inr (failWith (name @ '': '' @ m), None)"
| "caughtAs name (InvalidArgument m) = Inr (failWith (name @ '': '' @ m), None)"
| "caughtAs name (LengthError m) = Inr (failWith (name @ '': '' @ m), None)"
| "caughtAs name (LogicError m) = Inr (failWith (name @ '': '' @ m), None)"

definition guarded :: "string \<Rightarrow> Io \<Rightarrow> StoreState result \<Rightarrow> (WriteResult \<times> bytes option) result" where
  "guarded name io r = (case r of Inl e \<Rightarrow> caughtAs name e | Inr st \<Rightarrow> finishStore io st)"

section \<open>Folders of the user\<close>

record 'f FolderRecord =
  fr_src :: 'f
  fr_folderNid :: Nid
  fr_hierarchyNid :: Nid
  fr_contentsNid :: Nid
  fr_faiNid :: Nid

text \<open>An operation of the allocator whose exception ends the writer.\<close>

definition allocOrThrow :: "NidType \<Rightarrow> M5Allocator \<Rightarrow> (Nid \<times> M5Allocator) result" where
  "allocOrThrow nt a = (case allocate nt a of (r, a') \<Rightarrow> bind_r r (\<lambda>n. Inr (n, a')))"

definition registerOrThrow :: "Nid \<Rightarrow> M5Allocator \<Rightarrow> M5Allocator result" where
  "registerOrThrow n a = (case registerExternal n a of (r, a') \<Rightarrow> bind_r r (\<lambda>_. Inr a'))"

definition allocateFolder :: "'f \<Rightarrow> M5Allocator \<Rightarrow> ('f FolderRecord \<times> M5Allocator) result" where
  "allocateFolder f a =
     bind_r (allocOrThrow NtNormalFolder a) (\<lambda>(n, a).
       let idx = nid_index n; h = mkNid NtHierarchyTable idx; c = mkNid NtContentsTable idx; s = mkNid NtAssocContentsTable idx
       in bind_r (registerOrThrow h a) (\<lambda>a. bind_r (registerOrThrow c a) (\<lambda>a. bind_r (registerOrThrow s a) (\<lambda>a.
            Inr (\<lparr>fr_src = f, fr_folderNid = n, fr_hierarchyNid = h, fr_contentsNid = c, fr_faiNid = s\<rparr>, a)))))"

fun allocateFolders :: "'f list \<Rightarrow> M5Allocator \<Rightarrow> ('f FolderRecord list \<times> M5Allocator) result" where
  "allocateFolders [] a = Inr ([], a)"
| "allocateFolders (f # fs) a =
     bind_r (allocateFolder f a) (\<lambda>(r, a). bind_r (allocateFolders fs a) (\<lambda>(rs, a). Inr (r # rs, a)))"

text \<open>The baseline nodes, and the allocator that knows the reserved NIDs.\<close>

definition scheduleBaseline :: "bytes option \<Rightarrow> bytes \<Rightarrow> bytes \<Rightarrow> (StoreState \<times> M5Allocator) result" where
  "scheduleBaseline env providerUid pstDisplayName =
     bind_r (buildPstBaselineEntries env providerUid pstDisplayName) (\<lambda>es.
       let st = fold (\<lambda>e. scheduleNode (pbe_nid e) (pbe_nidParent e) (pbe_body e) (Bid 0)) es emptyStore
       in bind_r (registerBaselineReservedNids newAllocator) (\<lambda>a. Inr (st, a)))"

section \<open>Reading a payload\<close>

text \<open>The bytes under a BID: the body of a data block, or those of the children one after the other.\<close>

definition dataBody :: "StoreState \<Rightarrow> Bid \<Rightarrow> bytes" where
  "dataBody st bid = (case List.find (\<lambda>b. m7b_bid b = bid) (st_dataBlocks st) of None \<Rightarrow> [] | Some b \<Rightarrow> m7b_bodyBytes b)"

definition childrenOf :: "StoreState \<Rightarrow> Bid \<Rightarrow> Bid list option" where
  "childrenOf st bid = map_option m7x_childBids (List.find (\<lambda>x. m7x_bid x = bid) (st_xBlocks st))"

fun gather :: "nat \<Rightarrow> StoreState \<Rightarrow> Bid \<Rightarrow> bytes" where
  "gather 0 st bid = dataBody st bid"
| "gather (Suc k) st bid =
     (case childrenOf st bid of None \<Rightarrow> dataBody st bid | Some bs \<Rightarrow> concat (map (gather k st) bs))"

section \<open>Well-formed states\<close>

definition dataBid :: "nat \<Rightarrow> Bid" where
  "dataBid i = makeData (word_of_nat (Suc i))"

definition internalBid :: "nat \<Rightarrow> Bid" where
  "internalBid i = makeInternal (word_of_nat (Suc i))"

definition internalBids :: "StoreState \<Rightarrow> Bid list" where
  "internalBids st = map m7x_bid (st_xBlocks st) @ map m7s_bid (st_slBlocks st)"

definition kMaxBids :: nat where
  "kMaxBids = 2 ^ 61"

text \<open>
  The invariant of a store: the data blocks carry the BIDs 1, 2 and so on in the order in which they were
  scheduled, the internal blocks use the internal BIDs below the counter once each, and the children of
  every block are blocks of the store.
\<close>

definition storeBids :: "StoreState \<Rightarrow> Bid set" where
  "storeBids st = set (map m7b_bid (st_dataBlocks st)) \<union> set (map m7x_bid (st_xBlocks st))"

definition store_ok :: "StoreState \<Rightarrow> bool" where
  "store_ok st \<longleftrightarrow>
     map m7b_bid (st_dataBlocks st) = map dataBid [0..<length (st_dataBlocks st)]
     \<and> st_nextDataBidIdx st = word_of_nat (Suc (length (st_dataBlocks st)))
     \<and> mset (internalBids st) = mset (map internalBid [0..<length (internalBids st)])
     \<and> st_nextInternalBidIdx st = word_of_nat (Suc (length (internalBids st)))
     \<and> (\<forall>x \<in> set (st_xBlocks st). set (m7x_childBids x) \<subseteq> storeBids st)"

definition bidRoom :: "StoreState \<Rightarrow> nat \<Rightarrow> bool" where
  "bidRoom st n \<longleftrightarrow> length (st_dataBlocks st) + length (internalBids st) + n \<le> kMaxBids"

lemma index_mask: "i < kMaxBids \<Longrightarrow> (word_of_nat (Suc i) :: u64) AND 0x3FFFFFFFFFFFFFFF = word_of_nat (Suc i)"
proof -
  assume "i < kMaxBids"
  then have "Suc i < 2 ^ 62" by (simp add: kMaxBids_def)
  then have "take_bit 62 (word_of_nat (Suc i) :: u64) = word_of_nat (Suc i)"
    by (intro word_unat_eq_iff [THEN iffD2]) (simp add: unsigned_take_bit_eq unat_of_nat take_bit_nat_eq_self del: of_nat_Suc)
  then show ?thesis unfolding mask62 by (simp only: take_bit_eq_mask)
qed

lemma of_nat_inject_64: "i < 2 ^ 64 \<Longrightarrow> j < 2 ^ 64 \<Longrightarrow> (word_of_nat i :: u64) = word_of_nat j \<longleftrightarrow> i = j"
  by (simp add: word_of_nat_eq_iff take_bit_nat_eq_self)

lemma bid_inject:
  assumes "i < kMaxBids" "j < kMaxBids"
  shows "dataBid i = dataBid j \<longleftrightarrow> i = j" and "internalBid i = internalBid j \<longleftrightarrow> i = j"
proof -
  have s: "(word_of_nat (Suc i) :: u64) = word_of_nat (Suc j) \<longleftrightarrow> i = j"
    using assms of_nat_inject_64 [of "Suc i" "Suc j"] by (simp add: kMaxBids_def)
  show "dataBid i = dataBid j \<longleftrightarrow> i = j"
    using bid_index_makeData s index_mask [OF assms(1)] index_mask [OF assms(2)] unfolding dataBid_def by metis
  show "internalBid i = internalBid j \<longleftrightarrow> i = j"
    using bid_index_makeInternal s index_mask [OF assms(1)] index_mask [OF assms(2)] unfolding internalBid_def by metis
qed

lemma bid_kinds: "isData (dataBid i)" "\<not> isData (internalBid i)" "dataBid i \<noteq> internalBid j"
  using makeData_flags makeInternal_flags makeData_ne_makeInternal by (simp_all add: dataBid_def internalBid_def data_not_internal)

lemma store_ok_bids:
  assumes "store_ok st"
  shows "b \<in> set (map m7b_bid (st_dataBlocks st)) \<Longrightarrow> isData b"
    and "b \<in> set (internalBids st) \<Longrightarrow> \<exists>i < length (internalBids st). b = internalBid i"
proof -
  show "b \<in> set (map m7b_bid (st_dataBlocks st)) \<Longrightarrow> isData b"
    using assms bid_kinds(1) unfolding store_ok_def by auto
  have "set (internalBids st) = set (map internalBid [0..<length (internalBids st)])"
    using assms unfolding store_ok_def by (metis set_mset_mset)
  then show "b \<in> set (internalBids st) \<Longrightarrow> \<exists>i < length (internalBids st). b = internalBid i" by auto
qed

lemma store_ok_distinct:
  assumes "store_ok st" and "bidRoom st 0"
  shows "distinct (map m7b_bid (st_dataBlocks st))" and "distinct (internalBids st)"
proof -
  have inj: "inj_on dataBid {0..<n}" "inj_on internalBid {0..<n}" if "n \<le> kMaxBids" for n
    using that bid_inject by (auto simp: inj_on_def)
  show "distinct (map m7b_bid (st_dataBlocks st))"
    using assms inj(1) unfolding store_ok_def bidRoom_def by (simp add: distinct_map)
  show "distinct (internalBids st)"
    using assms inj(2) unfolding store_ok_def bidRoom_def
    by (metis (no_types, lifting) add.right_neutral add_leD2 distinct_map distinct_upt mset_eq_imp_distinct_iff set_upt)
qed

section \<open>The operations keep the invariant\<close>

lemma internalBids_simps [simp]:
  "internalBids (st\<lparr>st_dataBlocks := ds\<rparr>) = internalBids st" "internalBids (st\<lparr>st_nodes := ns\<rparr>) = internalBids st"
  "internalBids (st\<lparr>st_nextDataBidIdx := a\<rparr>) = internalBids st" "internalBids (st\<lparr>st_nextInternalBidIdx := c\<rparr>) = internalBids st"
  by (simp_all add: internalBids_def)

lemma store_ok_empty: "store_ok emptyStore"
  by (simp add: store_ok_def emptyStore_def internalBids_def)

lemma store_ok_nodes: "store_ok (st\<lparr>st_nodes := ns\<rparr>) \<longleftrightarrow> store_ok st"
  by (simp add: store_ok_def storeBids_def)

lemma scheduleDataBlock_eq:
  assumes "store_ok st"
  shows "scheduleDataBlock body st =
    (dataBid (length (st_dataBlocks st)),
     st\<lparr>st_nextDataBidIdx := st_nextDataBidIdx st + 1,
        st_dataBlocks := st_dataBlocks st @ [\<lparr>m7b_bid = dataBid (length (st_dataBlocks st)), m7b_bodyBytes = body\<rparr>]\<rparr>)"
  using assms by (simp add: scheduleDataBlock_def allocDataBid_def store_ok_def dataBid_def Let_def)

lemma store_ok_data:
  assumes "store_ok st"
  shows "store_ok (st\<lparr>st_nextDataBidIdx := st_nextDataBidIdx st + 1,
    st_dataBlocks := st_dataBlocks st @ [\<lparr>m7b_bid = dataBid (length (st_dataBlocks st)), m7b_bodyBytes = body\<rparr>]\<rparr>)"
  (is "store_ok ?st")
proof -
  have "storeBids st \<subseteq> storeBids ?st" by (auto simp: storeBids_def)
  then show ?thesis using assms unfolding store_ok_def by (simp add: internalBids_def) blast
qed

lemma scheduleDataBlock_ok: "store_ok st \<Longrightarrow> store_ok (snd (scheduleDataBlock body st))"
  using store_ok_data by (simp add: scheduleDataBlock_eq)

lemma makeBlock_eq:
  assumes "store_ok st"
  shows "makeBlock lv cs n st =
    (internalBid (length (internalBids st)),
     st\<lparr>st_nextInternalBidIdx := st_nextInternalBidIdx st + 1,
        st_xBlocks := st_xBlocks st
          @ [\<lparr>m7x_bid = internalBid (length (internalBids st)), m7x_cLevel = lv, m7x_lcbTotal = n, m7x_childBids = cs\<rparr>]\<rparr>)"
  using assms by (simp add: makeBlock_def allocInternalBid_def store_ok_def internalBid_def Let_def)

lemma makeBlock_ok:
  assumes "store_ok st" and "set cs \<subseteq> storeBids st"
  shows "store_ok (snd (makeBlock lv cs n st))"
proof -
  let ?st = "snd (makeBlock lv cs n st)"
  have "storeBids st \<subseteq> storeBids ?st" using assms(1) by (auto simp: storeBids_def makeBlock_eq)
  then show ?thesis using assms unfolding store_ok_def
    by (simp add: makeBlock_eq [OF assms(1)] internalBids_def) blast
qed

lemma scheduleSlBlock_ok:
  assumes "store_ok st"
  shows "store_ok (snd (scheduleSlBlock es st))"
proof -
  let ?st = "snd (scheduleSlBlock es st)"
  have "storeBids ?st = storeBids st" by (simp add: storeBids_def scheduleSlBlock_def allocInternalBid_def Let_def)
  then show ?thesis using assms unfolding store_ok_def
    by (simp add: scheduleSlBlock_def allocInternalBid_def internalBids_def internalBid_def Let_def)
qed

lemma scheduleNode_ok: "store_ok st \<Longrightarrow> store_ok (scheduleNode nid parent body sub st)"
  using scheduleDataBlock_ok [of st body]
  by (simp add: scheduleNode_def scheduleDataBlock_def allocDataBid_def Let_def store_ok_nodes)


section \<open>A payload and its tree of blocks\<close>

text \<open>A later state has the blocks of an earlier one, in their order.\<close>

definition extends :: "StoreState \<Rightarrow> StoreState \<Rightarrow> bool" where
  "extends st st' \<longleftrightarrow>
     take (length (st_dataBlocks st)) (st_dataBlocks st') = st_dataBlocks st
     \<and> take (length (st_xBlocks st)) (st_xBlocks st') = st_xBlocks st"

lemma find_nth:
  assumes "distinct (map f xs)" and "i < length xs"
  shows "List.find (\<lambda>x. f x = f (xs ! i)) xs = Some (xs ! i)"
  using assms
proof (induction xs arbitrary: i)
  case (Cons x xs)
  have "f (xs ! j) \<in> f ` set xs" if "j < length xs" for j using that by simp
  then show ?case using Cons by (cases i) (auto split: if_splits)
qed simp

lemma dataBody_nth:
  assumes "store_ok st" and "bidRoom st 0" and "i < length (st_dataBlocks st)"
  shows "dataBody st (dataBid i) = m7b_bodyBytes (st_dataBlocks st ! i)"
proof -
  have "m7b_bid (st_dataBlocks st ! i) = dataBid i"
    using assms(1,3) unfolding store_ok_def by (metis add_0 length_map length_upt minus_nat.diff_0 nth_map nth_upt)
  then show ?thesis
    using find_nth [OF store_ok_distinct(1) [OF assms(1,2)] assms(3)] by (simp add: dataBody_def)
qed

lemma childrenOf_nth:
  assumes "store_ok st" and "bidRoom st 0" and "i < length (st_xBlocks st)"
  shows "childrenOf st (m7x_bid (st_xBlocks st ! i)) = Some (m7x_childBids (st_xBlocks st ! i))"
proof -
  have d: "distinct (map m7x_bid (st_xBlocks st))" using store_ok_distinct(2) [OF assms(1,2)] by (simp add: internalBids_def)
  show ?thesis using find_nth [OF d assms(3)] by (simp add: childrenOf_def)
qed

lemma childrenOf_data:
  assumes "store_ok st" and "isData b"
  shows "childrenOf st b = None"
proof -
  have "m7x_bid x \<noteq> b" if "x \<in> set (st_xBlocks st)" for x
    using store_ok_bids(2) [OF assms(1), of "m7x_bid x"] that bid_kinds(2) assms(2) by (auto simp: internalBids_def)
  then show ?thesis by (auto simp: childrenOf_def find_None_iff)
qed

lemma gather_data: "store_ok st \<Longrightarrow> isData b \<Longrightarrow> gather k st b = dataBody st b"
  by (cases k) (simp_all add: childrenOf_data)

lemma gather_children:
  assumes "store_ok st" and "bidRoom st 0" and "i < length (st_xBlocks st)"
  shows "gather (Suc k) st (m7x_bid (st_xBlocks st ! i)) = concat (map (gather k st) (m7x_childBids (st_xBlocks st ! i)))"
  using childrenOf_nth [OF assms] by simp

lemma scheduleChunks_eq:
  assumes "store_ok st"
  shows "\<exists>st'. scheduleChunks cs st = (map (\<lambda>i. dataBid (length (st_dataBlocks st) + i)) [0..<length cs], st')
    \<and> store_ok st' \<and> st_xBlocks st' = st_xBlocks st \<and> st_slBlocks st' = st_slBlocks st \<and> st_nodes st' = st_nodes st
    \<and> map m7b_bodyBytes (st_dataBlocks st') = map m7b_bodyBytes (st_dataBlocks st) @ cs
    \<and> take (length (st_dataBlocks st)) (st_dataBlocks st') = st_dataBlocks st"
  using assms
proof (induction cs arbitrary: st)
  case (Cons c cs)
  let ?n = "length (st_dataBlocks st)" and ?st1 = "snd (scheduleDataBlock c st)"
  have s1: "scheduleDataBlock c st = (dataBid ?n, ?st1)" by (simp add: scheduleDataBlock_eq Cons.prems)
  have d1: "st_dataBlocks ?st1 = st_dataBlocks st @ [\<lparr>m7b_bid = dataBid ?n, m7b_bodyBytes = c\<rparr>]"
    by (simp add: scheduleDataBlock_eq Cons.prems)
  obtain st' where st': "scheduleChunks cs ?st1 = (map (\<lambda>i. dataBid (length (st_dataBlocks ?st1) + i)) [0..<length cs], st')"
    "store_ok st'" "st_xBlocks st' = st_xBlocks ?st1" "st_slBlocks st' = st_slBlocks ?st1" "st_nodes st' = st_nodes ?st1"
    "map m7b_bodyBytes (st_dataBlocks st') = map m7b_bodyBytes (st_dataBlocks ?st1) @ cs"
    "take (length (st_dataBlocks ?st1)) (st_dataBlocks st') = st_dataBlocks ?st1"
    using Cons.IH [OF scheduleDataBlock_ok [OF Cons.prems]] by blast
  have m: "dataBid ?n # map (\<lambda>i. dataBid (Suc ?n + i)) [0..<length cs] = map (\<lambda>i. dataBid (?n + i)) [0..<Suc (length cs)]"
    by (subst (2) upt_conv_Cons) (simp_all add: map_Suc_upt [symmetric] comp_def del: upt_Suc)
  have "take ?n (st_dataBlocks st') = st_dataBlocks st"
    using arg_cong [OF st'(7), of "take ?n"] by (simp add: d1)
  then show ?case
    using st' s1 m by (simp add: d1 scheduleDataBlock_eq Cons.prems)
qed simp


lemma makeXBlocks_eq:
  assumes "store_ok st" and "list_all (\<lambda>g. set (map fst g) \<subseteq> storeBids st) gs"
  shows "\<exists>st'. makeXBlocks gs st = (map (\<lambda>i. internalBid (length (internalBids st) + i)) [0..<length gs], st')
    \<and> store_ok st' \<and> st_dataBlocks st' = st_dataBlocks st \<and> st_slBlocks st' = st_slBlocks st \<and> st_nodes st' = st_nodes st
    \<and> length (internalBids st') = length (internalBids st) + length gs
    \<and> st_xBlocks st' = st_xBlocks st
        @ map (\<lambda>i. \<lparr>m7x_bid = internalBid (length (internalBids st) + i), m7x_cLevel = 1,
            m7x_lcbTotal = sum_list (map snd (gs ! i)), m7x_childBids = map fst (gs ! i)\<rparr>) [0..<length gs]"
  using assms
proof (induction gs arbitrary: st)
  case (Cons g gs)
  let ?n = "length (internalBids st)"
  define st1 where "st1 = snd (makeBlock 1 (map fst g) (sum_list (map snd g)) st)"
  let ?x = "\<lparr>m7x_bid = internalBid ?n, m7x_cLevel = 1, m7x_lcbTotal = sum_list (map snd g), m7x_childBids = map fst g\<rparr>"
  have s1: "makeBlock 1 (map fst g) (sum_list (map snd g)) st = (internalBid ?n, st1)" by (simp add: st1_def makeBlock_eq Cons.prems)
  have d1: "st_xBlocks st1 = st_xBlocks st @ [?x]" "st_dataBlocks st1 = st_dataBlocks st"
    "st_slBlocks st1 = st_slBlocks st" "st_nodes st1 = st_nodes st" "length (internalBids st1) = Suc ?n"
    by (simp_all add: st1_def makeBlock_eq Cons.prems internalBids_def)
  have ok: "store_ok st1" unfolding st1_def using Cons.prems by (intro makeBlock_ok) simp_all
  have "storeBids st \<subseteq> storeBids st1" by (auto simp: storeBids_def d1)
  then have sub: "list_all (\<lambda>g. set (map fst g) \<subseteq> storeBids st1) gs"
    using Cons.prems(2) by (simp add: list_all_iff) (meson subset_trans)
  obtain st' where st': "makeXBlocks gs st1 = (map (\<lambda>i. internalBid (Suc ?n + i)) [0..<length gs], st')"
    "store_ok st'" "st_dataBlocks st' = st_dataBlocks st" "st_slBlocks st' = st_slBlocks st" "st_nodes st' = st_nodes st"
    "length (internalBids st') = Suc ?n + length gs"
    "st_xBlocks st' = st_xBlocks st1
        @ map (\<lambda>i. \<lparr>m7x_bid = internalBid (Suc ?n + i), m7x_cLevel = 1,
            m7x_lcbTotal = sum_list (map snd (gs ! i)), m7x_childBids = map fst (gs ! i)\<rparr>) [0..<length gs]"
    using Cons.IH [OF ok sub] unfolding d1 by blast
  have u: "map h [0..<Suc (length gs)] = h 0 # map (\<lambda>i. h (Suc i)) [0..<length gs]" for h :: "nat \<Rightarrow> 'z"
    by (subst upt_conv_Cons) (simp_all add: map_Suc_upt [symmetric] comp_def del: upt_Suc)
  show ?case
    using st' s1 by (simp add: d1 u del: upt_Suc)
qed simp

text \<open>The parts of a list, one after the other.\<close>

lemma concat_partsOf: "0 < n \<Longrightarrow> concat (partsOf n xs) = xs"
  by (induction n xs rule: partsOf.induct) (subst partsOf.simps, simp)

lemma length_partsOf: "0 < n \<Longrightarrow> length (partsOf n xs) = (length xs + n - 1) div n"
proof (induction n xs rule: partsOf.induct)
  case (1 n xs)
  show ?case
  proof (cases "xs = []")
    case False
    have "(length xs + n - 1) div n = Suc ((length (drop n xs) + n - 1) div n)"
    proof (cases "length xs \<le> n")
      case True
      have "(length xs + n - 1) div n = 1"
        using False True 1(2) by (intro div_nat_eqI) (cases xs, simp_all)
      then show ?thesis using True 1(2) by simp
    next
      case False
      define k where "k = length (drop n xs) + n - 1"
      have "length xs + n - 1 = k + n" using False 1(2) by (simp add: k_def)
      then have "(length xs + n - 1) div n = Suc (k div n)" using 1(2) by (simp add: div_add_self2)
      then show ?thesis by (simp only: k_def)
    qed
    then show ?thesis using False 1 by (subst partsOf.simps) simp
  qed (use 1 in \<open>simp add: partsOf.simps\<close>)
qed

lemma partsOf_bound: "p \<in> set (partsOf n xs) \<Longrightarrow> length p \<le> n \<and> p \<noteq> []"
proof (induction n xs rule: partsOf.induct)
  case (1 n xs)
  then show ?case by (subst (asm) partsOf.simps) (auto split: if_splits)
qed

lemma map_partsOf: "map (map f) (partsOf n xs) = partsOf n (map f xs)"
  by (induction n xs rule: partsOf.induct) (subst (1 2) partsOf.simps, simp add: take_map drop_map)


lemma chunk_bodies:
  assumes "store_ok st" and "bidRoom st 0" and "map m7b_bodyBytes (st_dataBlocks st) = bs @ cs"
  shows "map (dataBody st) (map (\<lambda>i. dataBid (length bs + i)) [0..<length cs]) = cs"
proof (rule nth_equalityI)
  fix i assume "i < length (map (dataBody st) (map (\<lambda>i. dataBid (length bs + i)) [0..<length cs]))"
  then have i: "i < length cs" by simp
  have l: "length (st_dataBlocks st) = length bs + length cs" using arg_cong [OF assms(3), of length] by simp
  have "m7b_bodyBytes (st_dataBlocks st ! (length bs + i)) = cs ! i"
    using arg_cong [OF assms(3), of "\<lambda>l. l ! (length bs + i)"] i l by (simp add: nth_append)
  then show "map (dataBody st) (map (\<lambda>i. dataBid (length bs + i)) [0..<length cs]) ! i = cs ! i"
    using dataBody_nth [OF assms(1,2), of "length bs + i"] i l by simp
qed simp

lemma payload_counts:
  assumes "kMaxBlockPayload < L"
  shows "2 * ((L + kMaxBlockPayload - 1) div kMaxBlockPayload) + 1 \<le> L" and "(n + kXBlockMaxChildren - 1) div kXBlockMaxChildren \<le> n"
    and "kXBlockMaxChildren = 1021" and "kMaxBlockPayload = 8176"
    and "L < 2 ^ 32 \<Longrightarrow> ((L + kMaxBlockPayload - 1) div kMaxBlockPayload + kXBlockMaxChildren - 1) div kXBlockMaxChildren \<le> kXBlockMaxChildren"
proof -
  show k: "kXBlockMaxChildren = 1021" "kMaxBlockPayload = 8176"
    by (simp_all add: kXBlockMaxChildren_def kMaxBlockPayload_def kXBlockEntrySize_def)
  show "2 * ((L + kMaxBlockPayload - 1) div kMaxBlockPayload) + 1 \<le> L"
    using assms unfolding k by simp
  show "(n + kXBlockMaxChildren - 1) div kXBlockMaxChildren \<le> n" unfolding k by simp
  show "L < 2 ^ 32 \<Longrightarrow> ((L + kMaxBlockPayload - 1) div kMaxBlockPayload + kXBlockMaxChildren - 1) div kXBlockMaxChildren \<le> kXBlockMaxChildren"
    unfolding k by simp
qed

text \<open>What scheduling a payload leaves: the bytes under the BID, the old blocks, and new blocks that fit.\<close>

definition payloadPlaced :: "bytes \<Rightarrow> StoreState \<Rightarrow> Bid \<Rightarrow> StoreState \<Rightarrow> bool" where
  "payloadPlaced body st bid st' \<longleftrightarrow>
     gather 2 st' bid = body \<and> store_ok st' \<and> extends st st' \<and> st_nodes st' = st_nodes st \<and> st_slBlocks st' = st_slBlocks st
     \<and> bidRoom st' 0 \<and> bid \<in> storeBids st'
     \<and> list_all (\<lambda>b. length (m7b_bodyBytes b) \<le> kMaxBlockPayload) (drop (length (st_dataBlocks st)) (st_dataBlocks st'))
     \<and> list_all (\<lambda>x. length (m7x_childBids x) \<le> kXBlockMaxChildren \<and> unat (m7x_lcbTotal x) = length (gather 2 st' (m7x_bid x)))
         (drop (length (st_xBlocks st)) (st_xBlocks st'))"

lemma placed_small:
  assumes "store_ok st" and "bidRoom st 1" and "length body \<le> kMaxBlockPayload" and "schedulePayload body st = (bid, st')"
  shows "payloadPlaced body st bid st'"
proof -
  let ?n = "length (st_dataBlocks st)"
  have e: "bid = dataBid ?n" "st' = snd (scheduleDataBlock body st)"
    using assms(3,4) by (auto simp: schedulePayload_def scheduleDataBlock_eq [OF assms(1)])
  have d: "st_dataBlocks st' = st_dataBlocks st @ [\<lparr>m7b_bid = dataBid ?n, m7b_bodyBytes = body\<rparr>]"
    "st_xBlocks st' = st_xBlocks st" "st_nodes st' = st_nodes st" "st_slBlocks st' = st_slBlocks st"
    by (simp_all add: e scheduleDataBlock_eq [OF assms(1)])
  have ok: "store_ok st'" unfolding e by (rule scheduleDataBlock_ok [OF assms(1)])
  have room: "bidRoom st' 0" using assms(2) by (simp add: bidRoom_def internalBids_def d)
  have "gather 2 st' bid = body"
    using gather_data [OF ok bid_kinds(1)] dataBody_nth [OF ok room, of ?n] by (simp add: e(1) d)
  then show ?thesis using ok room assms(3) by (simp add: payloadPlaced_def extends_def d storeBids_def e(1))
qed


lemma drop_prefix: "take (length xs) ys = xs \<Longrightarrow> ys = xs @ drop (length xs) ys"
  by (metis append_take_drop_id)

lemma sum_chunk_sizes:
  assumes "sum_list (map length cs) < 2 ^ 32"
  shows "unat (sum_list (map (\<lambda>c. word_of_nat (length c)) cs) :: u32) = sum_list (map length cs)"
proof -
  have "sum_list (map (\<lambda>c. word_of_nat (length c)) cs) = (word_of_nat (sum_list (map length cs)) :: u32)"
    by (induction cs) simp_all
  then show ?thesis using assms by (simp add: unat_of_nat)
qed

text \<open>The chunks of a payload as data blocks: their BIDs, and what they hold in every later state with the same data blocks.\<close>

definition chunked :: "bytes list \<Rightarrow> StoreState \<Rightarrow> Bid list \<Rightarrow> StoreState \<Rightarrow> bool" where
  "chunked cs st bids st1 \<longleftrightarrow>
     store_ok st1 \<and> st_xBlocks st1 = st_xBlocks st \<and> st_slBlocks st1 = st_slBlocks st \<and> st_nodes st1 = st_nodes st
     \<and> length (st_dataBlocks st1) = length (st_dataBlocks st) + length cs
     \<and> take (length (st_dataBlocks st)) (st_dataBlocks st1) = st_dataBlocks st
     \<and> length bids = length cs \<and> set bids \<subseteq> storeBids st1
     \<and> map m7b_bodyBytes (drop (length (st_dataBlocks st)) (st_dataBlocks st1)) = cs
     \<and> (\<forall>st2 k. store_ok st2 \<longrightarrow> bidRoom st2 0 \<longrightarrow> st_dataBlocks st2 = st_dataBlocks st1 \<longrightarrow> map (gather k st2) bids = cs)"

lemma chunks_scheduled:
  assumes "store_ok st"
  obtains bids st1 where "scheduleChunks cs st = (bids, st1)" and "chunked cs st bids st1"
proof -
  let ?n = "length (st_dataBlocks st)"
  obtain st1 where st1: "scheduleChunks cs st = (map (\<lambda>i. dataBid (?n + i)) [0..<length cs], st1)" "store_ok st1"
    "st_xBlocks st1 = st_xBlocks st" "st_slBlocks st1 = st_slBlocks st" "st_nodes st1 = st_nodes st"
    "map m7b_bodyBytes (st_dataBlocks st1) = map m7b_bodyBytes (st_dataBlocks st) @ cs"
    "take ?n (st_dataBlocks st1) = st_dataBlocks st"
    using scheduleChunks_eq [OF assms, of cs] by blast
  have l1: "length (st_dataBlocks st1) = ?n + length cs" using arg_cong [OF st1(6), of length] by simp
  have "map m7b_bid (st_dataBlocks st1) = map dataBid [0..<?n + length cs]" using st1(2) l1 by (simp add: store_ok_def)
  then have known: "set (map (\<lambda>i. dataBid (?n + i)) [0..<length cs]) \<subseteq> storeBids st1" by (auto simp: storeBids_def)
  have bodies: "map (gather k st2) (map (\<lambda>i. dataBid (?n + i)) [0..<length cs]) = cs"
    if "store_ok st2" "bidRoom st2 0" "st_dataBlocks st2 = st_dataBlocks st1" for st2 k
    using chunk_bodies [of st2 "map m7b_bodyBytes (st_dataBlocks st)" cs] that st1(6) bid_kinds(1)
    by (simp add: gather_data comp_def)
  have "map m7b_bodyBytes (drop ?n (st_dataBlocks st1)) = cs" using arg_cong [OF st1(6), of "drop ?n"] by (simp add: drop_map)
  then show ?thesis using that st1 l1 known bodies by (simp add: chunked_def)
qed

text \<open>The new internal blocks of a payload, and the facts that make it placed.\<close>

lemma placedI:
  assumes c: "chunked cs st bids st1" and "list_all (\<lambda>c. length c \<le> kMaxBlockPayload) cs"
    and d: "st_dataBlocks st' = st_dataBlocks st1" "st_nodes st' = st_nodes st" "st_slBlocks st' = st_slBlocks st"
      "st_xBlocks st' = st_xBlocks st @ xs"
    and ok: "store_ok st'" and room: "bidRoom st' 0" and g: "gather 2 st' bid = body" and "bid \<in> m7x_bid ` set xs"
    and "list_all (\<lambda>x. length (m7x_childBids x) \<le> kXBlockMaxChildren \<and> unat (m7x_lcbTotal x) = length (gather 2 st' (m7x_bid x))) xs"
  shows "payloadPlaced body st bid st'"
proof -
  have "m7b_bodyBytes b \<in> set cs" if "b \<in> set (drop (length (st_dataBlocks st)) (st_dataBlocks st1))" for b
    using that c unfolding chunked_def by (metis image_eqI list.set_map)
  then have "list_all (\<lambda>b. length (m7b_bodyBytes b) \<le> kMaxBlockPayload) (drop (length (st_dataBlocks st)) (st_dataBlocks st1))"
    using assms(2) by (simp add: list_all_iff)
  then show ?thesis using assms by (auto simp: payloadPlaced_def extends_def chunked_def storeBids_def)
qed

lemma chunk_facts:
  assumes "kMaxBlockPayload < length body"
  defines "cs \<equiv> partsOf kMaxBlockPayload body"
  shows "concat cs = body" and "list_all (\<lambda>c. length c \<le> kMaxBlockPayload) cs" and "2 * length cs + 1 \<le> length body"
    and "length body < 2 ^ 32 \<Longrightarrow> length (partsOf kXBlockMaxChildren cs) \<le> kXBlockMaxChildren"
    and "length (partsOf kXBlockMaxChildren cs) \<le> length cs"
proof -
  note p = payload_counts [OF assms(1)]
  show "concat cs = body" unfolding cs_def by (rule concat_partsOf) (simp add: p(4))
  show "list_all (\<lambda>c. length c \<le> kMaxBlockPayload) cs"
    using partsOf_bound unfolding cs_def by (fastforce simp: list_all_iff)
  have l: "length cs = (length body + kMaxBlockPayload - 1) div kMaxBlockPayload"
    unfolding cs_def by (rule length_partsOf) (simp add: p(4))
  have x: "length (partsOf kXBlockMaxChildren ys) = (length ys + kXBlockMaxChildren - 1) div kXBlockMaxChildren" for ys :: "'a list"
    by (rule length_partsOf) (simp add: p(3))
  show "2 * length cs + 1 \<le> length body" using p(1) l by simp
  show "length body < 2 ^ 32 \<Longrightarrow> length (partsOf kXBlockMaxChildren cs) \<le> kXBlockMaxChildren"
    using p(5) by (subst length_partsOf) (simp_all add: l p(3))
  show "length (partsOf kXBlockMaxChildren cs) \<le> length cs"
    using p(2) by (subst length_partsOf) (simp_all add: p(3))
qed

lemma placed_x:
  assumes ok: "store_ok st" and room: "bidRoom st (length body)" and big: "kMaxBlockPayload < length body" and L: "length body < 2 ^ 32"
    and n: "length (partsOf kMaxBlockPayload body) \<le> kXBlockMaxChildren" and s: "schedulePayload body st = (bid, st')"
  shows "payloadPlaced body st bid st'"
proof -
  let ?m = "length (internalBids st)" and ?cs = "partsOf kMaxBlockPayload body"
  obtain bids st1 where st1: "scheduleChunks ?cs st = (bids, st1)" and c: "chunked ?cs st bids st1"
    using chunks_scheduled [OF ok] .
  note c' = c [unfolded chunked_def]
  have i1: "internalBids st1 = internalBids st" using c' by (simp add: internalBids_def)
  have e: "(bid, st') = makeBlock 1 bids (word_of_nat (length body)) st1"
    using s big n c' by (simp add: schedulePayload_def st1)
  let ?x = "\<lparr>m7x_bid = internalBid ?m, m7x_cLevel = 1, m7x_lcbTotal = word_of_nat (length body), m7x_childBids = bids\<rparr>"
  have d: "bid = internalBid ?m" "st_dataBlocks st' = st_dataBlocks st1" "st_nodes st' = st_nodes st" "st_slBlocks st' = st_slBlocks st"
    "st_xBlocks st' = st_xBlocks st @ [?x]"
    using e c' by (auto simp: makeBlock_eq i1)
  have ok': "store_ok st'" using makeBlock_ok [of st1 bids] c' e by (metis snd_conv)
  have room': "bidRoom st' 0" using room chunk_facts(3) [OF big] c' by (simp add: bidRoom_def internalBids_def d)
  have "map (gather 1 st') bids = ?cs" using c' ok' room' d(2) by blast
  then have g: "gather 2 st' bid = body"
    using gather_children [OF ok' room', of "length (st_xBlocks st)" 1] chunk_facts(1) [OF big] by (simp add: d(1,5) numeral_2_eq_2)
  show ?thesis
    by (rule placedI [OF c chunk_facts(2) [OF big] d(2-5) ok' room' g])
      (use L n c' g in \<open>simp_all add: d(1) unat_of_nat\<close>)
qed


text \<open>The blocks of a list of BIDs, in groups, under one more block.\<close>

lemma concat_groups: "concat (map f (concat ps)) = concat (map (\<lambda>p. concat (map f p)) ps)"
  by (induction ps) simp_all

lemma groups_gathered:
  assumes ok: "store_ok st'" and room: "bidRoom st' 0" and x: "st_xBlocks st' = xs @ map h [0..<length ps] @ ys"
    and h: "\<And>i. m7x_bid (h i) = f i" "\<And>i. i < length ps \<Longrightarrow> m7x_childBids (h i) = ps ! i"
  shows "i < length ps \<Longrightarrow> gather (Suc k) st' (f i) = concat (map (gather k st') (ps ! i))"
    and "concat (map (gather (Suc k) st') (map f [0..<length ps])) = concat (map (gather k st') (concat ps))"
proof -
  have g: "gather (Suc k) st' (f i) = concat (map (gather k st') (ps ! i))" if "i < length ps" for i
    using gather_children [OF ok room, of "length xs + i" k] that h by (simp add: x nth_append)
  then show "i < length ps \<Longrightarrow> gather (Suc k) st' (f i) = concat (map (gather k st') (ps ! i))" .
  have "map (gather (Suc k) st') (map f [0..<length ps]) = map (\<lambda>i. (\<lambda>p. concat (map (gather k st') p)) (ps ! i)) [0..<length ps]"
    using g by simp
  also have "\<dots> = map (\<lambda>p. concat (map (gather k st') p)) ps" by (rule map_nth_upt)
  finally show "concat (map (gather (Suc k) st') (map f [0..<length ps])) = concat (map (gather k st') (concat ps))"
    by (simp only: concat_groups)
qed


lemma group_total:
  assumes "concat (map g (concat ps)) = body" and "length body < 2 ^ 32" and "p \<in> set ps"
  shows "unat (sum_list (map (\<lambda>b. word_of_nat (length (g b))) p) :: u32) = length (concat (map g p))"
proof -
  obtain as bs where ps: "ps = as @ p # bs" using split_list [OF assms(3)] by blast
  have "length (concat (map g p)) \<le> length body"
    unfolding assms(1) [symmetric] ps by simp
  then have "sum_list (map length (map g p)) < 2 ^ 32" using assms(2) by (simp add: length_concat)
  from sum_chunk_sizes [OF this] show ?thesis by (simp add: length_concat comp_def)
qed

text \<open>The XBLOCKs over groups of chunks.\<close>

definition xblockOf :: "nat \<Rightarrow> Bid list list \<Rightarrow> u32 list list \<Rightarrow> nat \<Rightarrow> M7XBlock" where
  "xblockOf m ps ws i =
     \<lparr>m7x_bid = internalBid (m + i), m7x_cLevel = 1, m7x_lcbTotal = sum_list (ws ! i), m7x_childBids = ps ! i\<rparr>"

lemma xblocks_scheduled:
  assumes c: "chunked cs st bids st1" and "length ws = length cs"
  defines "gs \<equiv> partsOf kXBlockMaxChildren (zip bids ws)" and "ps \<equiv> partsOf kXBlockMaxChildren bids"
  obtains st2 where "makeXBlocks gs st1 = (map (\<lambda>i. internalBid (length (internalBids st) + i)) [0..<length ps], st2)"
    and "store_ok st2" and "st_dataBlocks st2 = st_dataBlocks st1" and "st_slBlocks st2 = st_slBlocks st" and "st_nodes st2 = st_nodes st"
    and "st_xBlocks st2 = st_xBlocks st
      @ map (xblockOf (length (internalBids st)) ps (partsOf kXBlockMaxChildren ws)) [0..<length ps]"
proof -
  note c' = c [unfolded chunked_def]
  have k: "0 < kXBlockMaxChildren" by (simp add: kXBlockMaxChildren_def kMaxBlockPayload_def kXBlockEntrySize_def)
  have gs: "map (map fst) gs = ps" "map (map snd) gs = partsOf kXBlockMaxChildren ws"
    using c' assms(2) by (simp_all add: gs_def ps_def map_partsOf)
  have lg: "length gs = length ps" using gs(1) by (metis length_map)
  have i1: "internalBids st1 = internalBids st" using c' by (simp add: internalBids_def)
  have known: "set (map fst g) \<subseteq> storeBids st1" if g: "g \<in> set gs" for g
  proof -
    have "map fst g \<in> set ps" using g gs(1) by (metis image_eqI list.set_map)
    then have "set (map fst g) \<subseteq> set (concat ps)" using UN_upper [of "map fst g" "set ps" set] by simp
    then have "set (map fst g) \<subseteq> set bids" using concat_partsOf [OF k, of bids] by (simp add: ps_def)
    then show ?thesis using c' by blast
  qed
  then obtain st2 where x2: "makeXBlocks gs st1 = (map (\<lambda>i. internalBid (length (internalBids st) + i)) [0..<length gs], st2)"
    "store_ok st2" "st_dataBlocks st2 = st_dataBlocks st1" "st_slBlocks st2 = st_slBlocks st1" "st_nodes st2 = st_nodes st1"
    "st_xBlocks st2 = st_xBlocks st1
        @ map (\<lambda>i. \<lparr>m7x_bid = internalBid (length (internalBids st) + i), m7x_cLevel = 1,
            m7x_lcbTotal = sum_list (map snd (gs ! i)), m7x_childBids = map fst (gs ! i)\<rparr>) [0..<length gs]"
    using makeXBlocks_eq [of st1 gs] c' unfolding i1 list_all_iff by blast
  have "map (\<lambda>i. \<lparr>m7x_bid = internalBid (length (internalBids st) + i), m7x_cLevel = 1,
            m7x_lcbTotal = sum_list (map snd (gs ! i)), m7x_childBids = map fst (gs ! i)\<rparr>) [0..<length gs]
      = map (xblockOf (length (internalBids st)) ps (partsOf kXBlockMaxChildren ws)) [0..<length ps]"
    by (simp add: xblockOf_def lg [symmetric] gs [symmetric])
  then show ?thesis using that [of st2] x2 c' lg by simp
qed

text \<open>The XBLOCKs under one XXBLOCK place the payload.\<close>

lemma grouped_placed:
  fixes body :: bytes
  defines "F \<equiv> \<lambda>b :: bytes. word_of_nat (length b) :: u32"
  assumes c: "chunked cs st bids st1" and cs: "concat cs = body" "list_all (\<lambda>c. length c \<le> kMaxBlockPayload) cs"
    and n: "length (partsOf kXBlockMaxChildren cs) \<le> kXBlockMaxChildren" and L: "length body < 2 ^ 32"
    and ps: "ps = partsOf kXBlockMaxChildren bids" and xbs: "xbs = map (\<lambda>i. internalBid (m + i)) [0..<length ps]"
    and d: "st_dataBlocks st' = st_dataBlocks st1" "st_nodes st' = st_nodes st" "st_slBlocks st' = st_slBlocks st"
      "st_xBlocks st' = st_xBlocks st @ (map (xblockOf m ps (partsOf kXBlockMaxChildren (map F cs))) [0..<length ps]
        @ [\<lparr>m7x_bid = bid, m7x_cLevel = 2, m7x_lcbTotal = F body, m7x_childBids = xbs\<rparr>])"
    and ok: "store_ok st'" and room: "bidRoom st' 0"
  shows "payloadPlaced body st bid st'"
proof -
  note c' = c [unfolded chunked_def]
  have K: "0 < kXBlockMaxChildren" by (simp add: kXBlockMaxChildren_def kMaxBlockPayload_def kXBlockEntrySize_def)
  have lps: "length ps = length (partsOf kXBlockMaxChildren cs)" using c' by (simp add: ps length_partsOf [OF K])
  have bodies: "map (gather k st') bids = cs" for k using c' ok room d(1) by blast
  have cps: "concat ps = bids" using concat_partsOf [OF K] by (simp add: ps)
  have ws: "partsOf kXBlockMaxChildren (map F cs) = map (map (\<lambda>b. F (gather 1 st' b))) ps"
    unfolding ps map_partsOf bodies [of 1, symmetric] by (simp add: comp_def)
  note grp = groups_gathered [OF ok room d(4) [simplified], of "\<lambda>i. internalBid (m + i)"]
  have kids: "gather (Suc k) st' (internalBid (m + i)) = concat (map (gather k st') (ps ! i))" if "i < length ps" for k i
    using grp(1) that by (simp add: xblockOf_def)
  have "gather (Suc (Suc 0)) st' bid = concat (map (gather (Suc 0) st') xbs)"
    using gather_children [OF ok room, of "length (st_xBlocks st) + length ps" "Suc 0"] by (simp add: d(4) nth_append)
  also have "\<dots> = concat (map (gather 0 st') (concat ps))" using grp(2) [of 0] by (simp add: xblockOf_def xbs)
  finally have g: "gather 2 st' bid = body" by (simp add: cps bodies cs(1) numeral_2_eq_2)
  have bound: "length (ps ! i) \<le> kXBlockMaxChildren" if "i < length ps" for i
    using partsOf_bound [of "ps ! i" kXBlockMaxChildren bids] that by (simp add: ps)
  have tot: "unat (sum_list (map (\<lambda>b. F (gather 1 st' b)) (ps ! i))) = length (gather 2 st' (internalBid (m + i)))" if i: "i < length ps" for i
    using group_total [of "gather 1 st'" ps body "ps ! i"] i kids [OF i, of 1] L
    by (simp add: F_def cps bodies cs(1) numeral_2_eq_2)
  show ?thesis
    by (rule placedI [OF c cs(2) d ok room g])
      (use L g lps n bound tot ws in \<open>auto simp: list_all_iff xblockOf_def F_def xbs unat_of_nat\<close>)
qed

lemma placed_xx:
  assumes ok: "store_ok st" and room: "bidRoom st (length body)" and big: "kMaxBlockPayload < length body" and L: "length body < 2 ^ 32"
    and n: "\<not> length (partsOf kMaxBlockPayload body) \<le> kXBlockMaxChildren" and s: "schedulePayload body st = (bid, st')"
  shows "payloadPlaced body st bid st'"
proof -
  let ?m = "length (internalBids st)" and ?cs = "partsOf kMaxBlockPayload body"
  let ?F = "\<lambda>b :: bytes. word_of_nat (length b) :: u32"
  obtain bids st1 where st1: "scheduleChunks ?cs st = (bids, st1)" and c: "chunked ?cs st bids st1"
    using chunks_scheduled [OF ok] .
  note c' = c [unfolded chunked_def] and cf = chunk_facts [OF big]
  define ps where "ps = partsOf kXBlockMaxChildren bids"
  let ?h = "xblockOf ?m ps (partsOf kXBlockMaxChildren (map ?F ?cs))" and ?xbs = "map (\<lambda>i. internalBid (?m + i)) [0..<length ps]"
  obtain st2 where x2: "makeXBlocks (partsOf kXBlockMaxChildren (zip bids (map ?F ?cs))) st1 = (?xbs, st2)"
    "store_ok st2" "st_dataBlocks st2 = st_dataBlocks st1" "st_slBlocks st2 = st_slBlocks st" "st_nodes st2 = st_nodes st"
    "st_xBlocks st2 = st_xBlocks st @ map ?h [0..<length ps]"
    using xblocks_scheduled [OF c, of "map ?F ?cs"] unfolding ps_def by auto
  have i2: "length (internalBids st2) = ?m + length ps" by (simp add: internalBids_def x2)
  have e: "(bid, st') = makeBlock 2 ?xbs (?F body) st2"
    using s big n c' x2(1) by (simp add: schedulePayload_def st1 comp_def)
  have d: "st_dataBlocks st' = st_dataBlocks st1" "st_nodes st' = st_nodes st" "st_slBlocks st' = st_slBlocks st"
    "st_xBlocks st' = st_xBlocks st @ (map ?h [0..<length ps] @ [\<lparr>m7x_bid = bid, m7x_cLevel = 2, m7x_lcbTotal = ?F body, m7x_childBids = ?xbs\<rparr>])"
    using e by (auto simp: makeBlock_eq [OF x2(2)] x2(3-6) i2)
  have "set ?xbs \<subseteq> storeBids st2" by (auto simp: storeBids_def x2(6) xblockOf_def)
  then have ok': "store_ok st'" using makeBlock_ok [OF x2(2)] e by (metis snd_conv)
  have K: "0 < kXBlockMaxChildren" using payload_counts(3) [OF big] by simp
  have "length ps = length (partsOf kXBlockMaxChildren ?cs)" using c' by (simp add: ps_def length_partsOf [OF K])
  then have "bidRoom st' 0" using room cf(3,5) c' by (simp add: bidRoom_def internalBids_def d)
  then show ?thesis using grouped_placed [OF c cf(1,2) cf(4) [OF L] L ps_def refl d ok'] by blast
qed

lemma schedulePayload_placed:
  assumes "store_ok st" and "bidRoom st (length body + 1)" and "length body < 2 ^ 32" and "schedulePayload body st = (bid, st')"
  shows "payloadPlaced body st bid st'"
  using placed_small [of st body bid st'] placed_x [of st body bid st'] placed_xx [of st body bid st'] assms
  by (fastforce simp: bidRoom_def)


section \<open>The file of a store\<close>

definition storeBlocks :: "StoreState \<Rightarrow> M5DataBlockSpec list" where
  "storeBlocks st = encodePlans 0x4600 (storePlans st)"

definition storeNodes :: "StoreState \<Rightarrow> M5Node list" where
  "storeNodes st = map m5NodeOf (st_nodes st)"

text \<open>The bytes that a reader should find in each block, and the reader on the \<open>i\<close>-th block of a file.\<close>

definition xBody :: "M7XBlock \<Rightarrow> bytes" where
  "xBody x = internalBody 0x01 (if m7x_cLevel x = 1 then 1 else 2) (word_of_nat (length (m7x_childBids x))) (m7x_lcbTotal x)
     (concat (map (\<lambda>b. le64 (bid_value b)) (m7x_childBids x)))"

definition slBody :: "M7SlBlock \<Rightarrow> bytes" where
  "slBody s = internalBody 0x02 0 (word_of_nat (length (m7s_entries s))) 0 (concat (map encSlEntry (m7s_entries s)))"

definition storeBodies :: "StoreState \<Rightarrow> bytes list" where
  "storeBodies st = map m7b_bodyBytes (st_dataBlocks st) @ map xBody (st_xBlocks st) @ map slBody (st_slBlocks st)"

definition blockIb :: "StoreState \<Rightarrow> nat \<Rightarrow> u64" where
  "blockIb st i = m5l_blockIbs (m5Layout (storeBlocks st) (storeNodes st)) ! i"

definition diskBlock :: "StoreState \<Rightarrow> bytes \<Rightarrow> nat \<Rightarrow> (Bid \<times> bytes) option" where
  "diskBlock st f i =
     openBlock (slice (unat (blockIb st i)) (length (m5b_encodedBlock (storeBlocks st ! i))) f) (Ib (blockIb st i)) CryptPermute"

definition storeSizesOk :: "StoreState \<Rightarrow> bool" where
  "storeSizesOk st \<longleftrightarrow>
     length (storePlans st) \<le> 400 \<and> length (st_nodes st) \<le> 300 \<and> list_all (\<lambda>b. length b < 2 ^ 16) (storeBodies st)
     \<and> list_all (\<lambda>b. isData (m7b_bid b)) (st_dataBlocks st) \<and> list_all (\<lambda>b. \<not> isData b) (internalBids st)"

lemma length_plans [simp]: "length (storePlans st) = length (storeBodies st)" "length (encodePlans c ps) = length ps"
  by (simp add: storePlans_def storeBodies_def) (induction ps arbitrary: c, simp_all add: Let_def)

lemma encodePlans_nth:
  "i < length ps \<Longrightarrow>
     m5b_encodedBlock (encodePlans c ps ! i)
       = bp_encode (ps ! i) (Ib (fst (packFrom c (map (length \<circ> m5b_encodedBlock) (encodePlans c ps))) ! i))
     \<and> m5b_bid (encodePlans c ps ! i) = bp_bid (ps ! i)"
proof (induction ps arbitrary: c i)
  case (Cons p ps)
  then show ?case by (cases i) (simp_all add: Let_def split: prod.split)
qed simp

lemma m5Layout_blockIbs: "m5l_blockIbs (m5Layout blocks nodes) = fst (packFrom kBlocksStart (map (length \<circ> m5b_encodedBlock) blocks))"
  by (simp add: m5Layout_def Let_def split: prod.split)

definition opensAs :: "BlockPlan \<Rightarrow> bytes \<Rightarrow> bool" where
  "opensAs p body \<longleftrightarrow>
     (\<forall>ib. openBlock (bp_encode p ib) ib CryptPermute = Some (bp_bid p, body) \<and> length (bp_encode p ib) = roundBlockSize (length body))"

lemma plan_opens:
  "length (m7b_bodyBytes b) < 2 ^ 16 \<Longrightarrow> isData (m7b_bid b) \<Longrightarrow> opensAs (dataPlan b) (m7b_bodyBytes b)"
  "length (xBody x) < 2 ^ 16 \<Longrightarrow> \<not> isData (m7x_bid x) \<Longrightarrow> opensAs (xPlan x) (xBody x)"
  "length (slBody s) < 2 ^ 16 \<Longrightarrow> \<not> isData (m7s_bid s) \<Longrightarrow> opensAs (slPlan s) (slBody s)"
proof -
  have "length (buildDataBlock d bid ib CryptPermute) = roundBlockSize (length d)" for d bid ib
    by (simp add: buildDataBlock_eq length_framed)
  then show "length (m7b_bodyBytes b) < 2 ^ 16 \<Longrightarrow> isData (m7b_bid b) \<Longrightarrow> opensAs (dataPlan b) (m7b_bodyBytes b)"
    by (simp add: opensAs_def dataPlan_def openBlock_dataBlock)
qed (auto simp: opensAs_def xPlan_def slPlan_def xBody_def slBody_def buildXBlock_def buildXXBlock_def
      buildBidListBlock_eq buildSlBlock_eq openBlock_framed length_framed data_not_internal)

lemma store_opens:
  assumes "storeSizesOk st"
  shows "list_all2 opensAs (storePlans st) (storeBodies st)"
  using assms unfolding storeSizesOk_def storePlans_def storeBodies_def internalBids_def
  by (intro list_all2_appendI) (auto simp: list.rel_map list_all2_same list_all_iff intro!: plan_opens)


lemma store_sizes:
  assumes "storeSizesOk st"
  shows "sum_list (blockSizes (storeBlocks st)) < 2 ^ 60"
proof -
  have o: "list_all2 opensAs (storePlans st) (storeBodies st)" by (rule store_opens [OF assms])
  have "length (m5b_encodedBlock e) \<le> 2 ^ 17" if e: "e \<in> set (storeBlocks st)" for e
  proof -
    obtain i where "i < length (storeBlocks st)" "storeBlocks st ! i = e" using e unfolding in_set_conv_nth by blast
    then have i: "i < length (storeBodies st)" "e = storeBlocks st ! i" by (simp_all add: storeBlocks_def)
    then have "length (m5b_encodedBlock e) = roundBlockSize (length (storeBodies st ! i))"
      using encodePlans_nth [of i "storePlans st" "0x4600"] list_all2_nthD2 [OF o i(1)] by (simp add: storeBlocks_def opensAs_def)
    moreover have "length (storeBodies st ! i) < 2 ^ 16" using assms i(1) by (simp add: storeSizesOk_def list_all_length)
    moreover have "(length (storeBodies st ! i) + 79) div 64 * 64 \<le> length (storeBodies st ! i) + 79" by simp
    ultimately show ?thesis by (simp add: roundBlockSize_eq)
  qed
  then have "sum_list (blockSizes (storeBlocks st)) \<le> sum_list (map (\<lambda>e. 2 ^ 17) (storeBlocks st))"
    by (intro sum_list_mono) simp
  also have "\<dots> \<le> 400 * 2 ^ 17" using assms by (simp add: sum_list_triv storeBlocks_def storeSizesOk_def)
  finally show ?thesis by simp
qed

lemma disk_block:
  assumes ok: "storeSizesOk st" and i: "i < length (storeBodies st)"
    and f: "slice (unat (blockIb st i)) (length (m5b_encodedBlock (storeBlocks st ! i))) f = m5b_encodedBlock (storeBlocks st ! i)"
  shows "diskBlock st f i = Some (bp_bid (storePlans st ! i), storeBodies st ! i)"
proof -
  have "m5b_encodedBlock (storeBlocks st ! i) = bp_encode (storePlans st ! i) (Ib (blockIb st i))"
    using encodePlans_nth [of i "storePlans st" "0x4600"] i
    by (simp add: storeBlocks_def blockIb_def m5Layout_blockIbs writer_limits)
  then show ?thesis
    using f list_all2_nthD2 [OF store_opens [OF ok] i] by (simp add: diskBlock_def opensAs_def)
qed

lemma store_reads:
  assumes "storeSizesOk st" and "distinct (map m7n_nid (st_nodes st))"
  shows "\<exists>f. finishStore idealIo st = Inr (okResult, Some f) \<and> unat (readU64 f hdr_kIbFileEof) = length f
    \<and> (\<forall>t c. nbtFind f (mkBref (Bid (readU64 f hdr_kBrefNbtBid)) (Ib (readU64 f hdr_kBrefNbtIb))) t c
          = Inr (map_option (m5Record \<circ> m5NodeOf) (List.find (\<lambda>n. m7n_nid n = t) (st_nodes st))))
    \<and> (\<forall>i < length (storeBodies st). diskBlock st f i = Some (bp_bid (storePlans st ! i), storeBodies st ! i))"
proof -
  have l: "length (storeBlocks st) \<le> 400" "length (storeNodes st) \<le> 300" "distinct (map m5n_nid (storeNodes st))"
    using assms by (simp_all add: storeBlocks_def storeNodes_def storeSizesOk_def m5NodeOf_def comp_def)
  have find: "map_option m5Record (List.find (\<lambda>n. m5n_nid n = t) (map m5NodeOf ns)) = map_option (m5Record \<circ> m5NodeOf) (List.find (\<lambda>n. m7n_nid n = t) ns)"
    for t ns by (induction ns) (simp_all add: m5NodeOf_def)
  obtain f where f: "writeM5Pst idealIo (storeBlocks st) (storeNodes st) = Inr (okResult, Some f)" "unat (readU64 f hdr_kIbFileEof) = length f"
    "\<And>t c. nbtFind f (mkBref (Bid (readU64 f hdr_kBrefNbtBid)) (Ib (readU64 f hdr_kBrefNbtIb))) t c
          = Inr (map_option m5Record (List.find (\<lambda>n. m5n_nid n = t) (storeNodes st)))"
    "\<And>i. i < length (storeBlocks st) \<Longrightarrow> slice (unat (blockIb st i)) (length (m5b_encodedBlock (storeBlocks st ! i))) f
          = m5b_encodedBlock (storeBlocks st ! i)"
    using writeM5Pst_reads [OF l store_sizes [OF assms(1)]] unfolding blockIb_def by blast
  have "diskBlock st f i = Some (bp_bid (storePlans st ! i), storeBodies st ! i)" if "i < length (storeBodies st)" for i
    using that by (intro disk_block [OF assms(1)] f(4)) (simp_all add: storeBlocks_def)
  then show ?thesis using f(1-3) find by (auto simp: finishStore_def storeBlocks_def storeNodes_def)
qed


text \<open>Later operations leave the payloads of a store alone.\<close>

lemma find_prefix: "take (length xs) ys = xs \<Longrightarrow> List.find P xs = Some x \<Longrightarrow> List.find P ys = Some x"
proof -
  assume a: "take (length xs) ys = xs" "List.find P xs = Some x"
  have "List.find P (xs @ zs) = Some x" for zs using a(2) by (induction xs) (auto split: if_splits)
  then show ?thesis using drop_prefix [OF a(1)] by metis
qed

lemma dataBody_internal: "store_ok st \<Longrightarrow> \<not> isData b \<Longrightarrow> dataBody st b = []"
  using store_ok_bids(1) [of st b] by (cases "List.find (\<lambda>d. m7b_bid d = b) (st_dataBlocks st)") (auto simp: dataBody_def find_Some_iff)

lemma gather_extends:
  assumes ok: "store_ok st" "store_ok st'" and x: "extends st st'" and "b \<in> storeBids st"
  shows "gather k st' b = gather k st b"
  using assms(4)
proof (induction k arbitrary: b)
  case (0 b)
  show ?case
  proof (cases "b \<in> set (map m7b_bid (st_dataBlocks st))")
    case True
    then obtain d where d: "List.find (\<lambda>d. m7b_bid d = b) (st_dataBlocks st) = Some d"
      by (cases "List.find (\<lambda>d. m7b_bid d = b) (st_dataBlocks st)") (auto simp: find_None_iff)
    then show ?thesis using find_prefix [OF _ d] x by (simp add: dataBody_def extends_def)
  next
    case False
    then have "b \<in> set (internalBids st)" using 0 by (auto simp: storeBids_def internalBids_def)
    then have "\<not> isData b" using store_ok_bids(2) [OF ok(1)] bid_kinds(2) by auto
    then show ?thesis using ok by (simp add: dataBody_internal)
  qed
next
  case (Suc k b)
  show ?case
  proof (cases "isData b")
    case True
    then show ?thesis using Suc.IH [OF Suc.prems] ok by (simp add: gather_data childrenOf_data)
  next
    case False
    then have "b \<in> set (map m7x_bid (st_xBlocks st))" using Suc.prems store_ok_bids(1) [OF ok(1)] by (auto simp: storeBids_def)
    then obtain e where e: "List.find (\<lambda>e. m7x_bid e = b) (st_xBlocks st) = Some e"
      by (cases "List.find (\<lambda>e. m7x_bid e = b) (st_xBlocks st)") (auto simp: find_None_iff)
    then have "e \<in> set (st_xBlocks st)" by (auto simp: find_Some_iff)
    then have "set (m7x_childBids e) \<subseteq> storeBids st" using ok(1) by (simp add: store_ok_def)
    then have "concat (map (gather k st') (m7x_childBids e)) = concat (map (gather k st) (m7x_childBids e))"
      using Suc.IH by (intro arg_cong [where f = concat] map_cong) auto
    then show ?thesis using e find_prefix [OF _ e] x by (simp add: childrenOf_def extends_def)
  qed
qed

section \<open>Reading through the two trees\<close>

text \<open>
  A reader that has only the bytes of the file: it finds a block through the block B-tree of the HEADER, checks its
  trailer, and follows the lists of BIDs of XBLOCKs and XXBLOCKs down to a given depth.
\<close>

definition readBlock :: "bytes \<Rightarrow> Bid \<Rightarrow> bytes option" where
  "readBlock f bid =
     (case bbtFind f (mkBref (Bid (readU64 f hdr_kBrefBbtBid)) (Ib (readU64 f hdr_kBrefBbtIb))) bid of
        Inr (Some e) \<Rightarrow>
          (case openBlock (slice (unat (ib_value (bref_ib (bbt_bref e)))) (roundBlockSize (unat (bbt_cb e))) f)
                  (bref_ib (bbt_bref e)) CryptPermute of
             Some (b, body) \<Rightarrow> if b = bid then Some body else None
           | None \<Rightarrow> None)
      | _ \<Rightarrow> None)"

definition listedBids :: "bytes \<Rightarrow> Bid list" where
  "listedBids body = map (\<lambda>i. Bid (readU64 body (8 + i * 8))) [0..<unat (readU16 body 2)]"

fun joinAll :: "bytes option list \<Rightarrow> bytes option" where
  "joinAll [] = Some []"
| "joinAll (None # xs) = None"
| "joinAll (Some b # xs) = map_option (\<lambda>bs. b @ bs) (joinAll xs)"

fun readTree :: "nat \<Rightarrow> bytes \<Rightarrow> Bid \<Rightarrow> bytes option" where
  "readTree 0 f bid = (if isData bid then readBlock f bid else Some [])"
| "readTree (Suc k) f bid =
     (if isData bid then readBlock f bid
      else case readBlock f bid of None \<Rightarrow> None | Some body \<Rightarrow> joinAll (map (readTree k f) (listedBids body)))"

lemma joinAll_some: "(\<And>x. x \<in> set xs \<Longrightarrow> g x = Some (h x)) \<Longrightarrow> joinAll (map g xs) = Some (concat (map h xs))"
  by (induction xs) simp_all

lemma listedBids_xBody:
  assumes "length (xBody x) < 2 ^ 16"
  shows "listedBids (xBody x) = m7x_childBids x"
proof -
  let ?bs = "m7x_childBids x" and ?enc = "\<lambda>b. le64 (bid_value b)"
  have l: "length (concat (map ?enc ?bs)) = length ?bs * 8" by (rule length_concat_const) simp
  have n: "length ?bs < 2 ^ 16" using assms l by (simp add: xBody_def)
  have s2: "slice 2 2 (xBody x) = le16 (word_of_nat (length ?bs))" and s8: "drop 8 (xBody x) = concat (map ?enc ?bs)"
    by (simp_all add: xBody_def internalBody_def slice_def le16_def le32_def)
  have "readU16 (xBody x) 2 = word_of_nat (length ?bs)"
    by (rule readU16_eq [OF _ s2]) (simp add: xBody_def)
  then have c: "unat (readU16 (xBody x) 2) = length ?bs" using n by (simp add: unat_of_nat)
  have "readU64 (xBody x) (8 + i * 8) = bid_value (?bs ! i)" if i: "i < length ?bs" for i
  proof (rule readU64_eq)
    have "slice (8 + i * 8) 8 (xBody x) = slice (i * 8) 8 (drop 8 (xBody x))" by (simp add: slice_drop)
    then show "slice (8 + i * 8) 8 (xBody x) = le64 (bid_value (?bs ! i))"
      using slice_concat_const [of ?bs ?enc 8 i] i by (simp add: s8)
    show "8 + i * 8 + 8 \<le> length (xBody x)" using entry_room [OF i, of 8] l by (simp add: xBody_def)
  qed
  then show ?thesis unfolding listedBids_def c by (intro nth_equalityI) simp_all
qed

lemma plan_fields: "map m5b_bid (encodePlans c ps) = map bp_bid ps" "map m5b_cb (encodePlans c ps) = map bp_cb ps"
  by (induction ps arbitrary: c) (simp_all add: Let_def)

lemma store_cb:
  assumes "storeSizesOk st" and "i < length (storeBodies st)"
  shows "unat (bp_cb (storePlans st ! i)) = length (storeBodies st ! i)"
proof -
  have "length (concat (map (\<lambda>b. le64 (bid_value b)) bs)) = length bs * 8" for bs by (rule length_concat_const) simp
  then have x: "bp_cb (xPlan x) = word_of_nat (length (xBody x))" for x
    by (simp add: xPlan_def xBody_def kXBlockEntrySize_def)
  have "length (concat (map encSlEntry es)) = length es * 24" for es by (rule length_concat_const) simp
  then have s: "bp_cb (slPlan s) = word_of_nat (length (slBody s))" for s by (simp add: slPlan_def slBody_def)
  have "map bp_cb (storePlans st) = map (\<lambda>b. word_of_nat (length b)) (storeBodies st)"
    by (simp add: storePlans_def storeBodies_def dataPlan_def x s)
  then have "map bp_cb (storePlans st) ! i = map (\<lambda>b. word_of_nat (length b)) (storeBodies st) ! i" by simp
  then have "bp_cb (storePlans st ! i) = word_of_nat (length (storeBodies st ! i))" using assms(2) by simp
  moreover have "length (storeBodies st ! i) < 2 ^ 16" using assms by (simp add: storeSizesOk_def list_all_length)
  ultimately show ?thesis by (simp add: unat_of_nat)
qed

lemma store_bids_distinct:
  assumes "store_ok st" and "storeSizesOk st"
  shows "distinct (map bp_bid (storePlans st))"
proof -
  have room: "bidRoom st 0" using assms(2) by (simp add: bidRoom_def kMaxBids_def storeSizesOk_def storeBodies_def internalBids_def)
  have "map bp_bid (storePlans st) = map m7b_bid (st_dataBlocks st) @ internalBids st"
    by (simp add: storePlans_def internalBids_def dataPlan_def xPlan_def slPlan_def comp_def)
  moreover have "set (map m7b_bid (st_dataBlocks st)) \<inter> set (internalBids st) = {}"
    using store_ok_bids [OF assms(1)] bid_kinds(2) by fastforce
  ultimately show ?thesis using store_ok_distinct [OF assms(1) room] by simp
qed

lemma store_blocks:
  assumes ok: "store_ok st" and sz: "storeSizesOk st"
  obtains f where "finishStore idealIo st = Inr (okResult, Some f)"
    and "\<forall>i < length (storeBodies st). readBlock f (bp_bid (storePlans st ! i)) = Some (storeBodies st ! i)"
proof -
  let ?B = "storeBlocks st" and ?N = "storeNodes st"
  have l: "length ?B \<le> 400" "length ?N \<le> 300" "distinct (map m5b_bid ?B)"
    using sz store_bids_distinct [OF ok sz] by (simp_all add: storeBlocks_def storeNodes_def storeSizesOk_def plan_fields)
  note size = store_sizes [OF sz]
  obtain out where w: "writeM5Pst idealIo ?B ?N = Inr (okResult, Some (m5Image ?B ?N (m5TreePages out)))"
    using writeM5Pst_image [OF l(1,2) size] by blast
  define f where "f = m5Image ?B ?N (m5TreePages out)"
  note find = writeM5Pst_blocks(1) [OF l(1-3) size w [folded f_def]]
  have "readBlock f (bp_bid (storePlans st ! i)) = Some (storeBodies st ! i)" if i: "i < length (storeBodies st)" for i
  proof -
    have iB: "i < length ?B" using i by (simp add: storeBlocks_def)
    have b: "m5b_bid (?B ! i) = bp_bid (storePlans st ! i)" "m5b_cb (?B ! i) = bp_cb (storePlans st ! i)"
      using iB arg_cong [OF plan_fields(1) [of "0x4600" "storePlans st"], of "\<lambda>xs. xs ! i"]
        arg_cong [OF plan_fields(2) [of "0x4600" "storePlans st"], of "\<lambda>xs. xs ! i"] i
      by (simp_all add: storeBlocks_def)
    have enc: "m5b_encodedBlock (?B ! i) = bp_encode (storePlans st ! i) (Ib (blockIb st i))"
      using encodePlans_nth [of i "storePlans st" "0x4600"] i
      by (simp add: storeBlocks_def blockIb_def m5Layout_blockIbs writer_limits)
    have op: "openBlock (bp_encode (storePlans st ! i) ib) ib CryptPermute = Some (bp_bid (storePlans st ! i), storeBodies st ! i)"
      "length (bp_encode (storePlans st ! i) ib) = roundBlockSize (length (storeBodies st ! i))" for ib
      using list_all2_nthD2 [OF store_opens [OF sz] i] by (simp_all add: opensAs_def)
    have "sum_list (take i (blockSizes ?B)) \<le> sum_list (blockSizes ?B)"
      by (metis append_take_drop_id le_add1 sum_list_append)
    then have "unat (blockIb st i) = 0x4600 + sum_list (take i (blockSizes ?B))"
      using iB size by (simp add: blockIb_def m5Layout_eq unat_of_nat del: of_nat_add)
    then have "slice (unat (blockIb st i)) (length (m5b_encodedBlock (?B ! i))) f = m5b_encodedBlock (?B ! i)"
      using m5Image_block [OF iB] by (simp add: f_def)
    then have "slice (unat (blockIb st i)) (roundBlockSize (length (storeBodies st ! i))) f = bp_encode (storePlans st ! i) (Ib (blockIb st i))"
      by (simp only: enc op(2))
    then show ?thesis
      using find [OF iB] op(1) by (simp add: readBlock_def b store_cb [OF sz i] bbtEntryOf_def mkBref_def flip: blockIb_def)
  qed
  then show ?thesis using that [of f] w by (simp add: finishStore_def storeBlocks_def storeNodes_def f_def)
qed

lemma store_block_kinds:
  assumes "\<forall>i < length (storeBodies st). readBlock f (bp_bid (storePlans st ! i)) = Some (storeBodies st ! i)"
  shows "d \<in> set (st_dataBlocks st) \<Longrightarrow> readBlock f (m7b_bid d) = Some (m7b_bodyBytes d)"
    and "x \<in> set (st_xBlocks st) \<Longrightarrow> readBlock f (m7x_bid x) = Some (xBody x)"
    and "s \<in> set (st_slBlocks st) \<Longrightarrow> readBlock f (m7s_bid s) = Some (slBody s)"
proof -
  have all: "list_all2 (\<lambda>p b. readBlock f (bp_bid p) = Some b) (storePlans st) (storeBodies st)"
    using assms by (simp add: list_all2_conv_all_nth)
  then show "d \<in> set (st_dataBlocks st) \<Longrightarrow> readBlock f (m7b_bid d) = Some (m7b_bodyBytes d)"
    "x \<in> set (st_xBlocks st) \<Longrightarrow> readBlock f (m7x_bid x) = Some (xBody x)"
    "s \<in> set (st_slBlocks st) \<Longrightarrow> readBlock f (m7s_bid s) = Some (slBody s)"
    by (simp_all add: storePlans_def storeBodies_def list_all2_append list.rel_map list_all2_same dataPlan_def xPlan_def slPlan_def)
qed

lemma readTree_gather:
  assumes ok: "store_ok st" and sz: "list_all (\<lambda>b. length b < 2 ^ 16) (storeBodies st)"
    and rd: "\<forall>i < length (storeBodies st). readBlock f (bp_bid (storePlans st ! i)) = Some (storeBodies st ! i)"
    and b: "b \<in> storeBids st"
  shows "readTree k f b = Some (gather k st b)"
proof -
  note kinds = store_block_kinds [OF rd]
  have data: "readBlock f b = Some (dataBody st b)" if "b \<in> storeBids st" "isData b" for b
  proof -
    have "b \<notin> set (internalBids st)" using store_ok_bids(2) [OF ok] bid_kinds(2) that(2) by auto
    then have "b \<in> set (map m7b_bid (st_dataBlocks st))" using that(1) by (auto simp: storeBids_def internalBids_def)
    then obtain d where d: "List.find (\<lambda>d. m7b_bid d = b) (st_dataBlocks st) = Some d"
      by (cases "List.find (\<lambda>d. m7b_bid d = b) (st_dataBlocks st)") (auto simp: find_None_iff)
    then have "d \<in> set (st_dataBlocks st)" "m7b_bid d = b" by (auto simp: find_Some_iff)
    then show ?thesis using kinds(1) [of d] d by (simp add: dataBody_def)
  qed
  show ?thesis
    using b
  proof (induction k arbitrary: b)
    case (0 b)
    then show ?case using data dataBody_internal [OF ok] by simp
  next
    case (Suc k b)
    show ?case
    proof (cases "isData b")
      case True
      then show ?thesis using data [OF Suc.prems] gather_data [OF ok True, of "Suc k"] by simp
    next
      case False
      then have "b \<in> set (map m7x_bid (st_xBlocks st))" using Suc.prems store_ok_bids(1) [OF ok] by (auto simp: storeBids_def)
      then obtain x where x: "List.find (\<lambda>x. m7x_bid x = b) (st_xBlocks st) = Some x"
        by (cases "List.find (\<lambda>x. m7x_bid x = b) (st_xBlocks st)") (auto simp: find_None_iff)
      then have xs: "x \<in> set (st_xBlocks st)" "m7x_bid x = b" by (auto simp: find_Some_iff)
      then have "length (xBody x) < 2 ^ 16" using sz by (simp add: storeBodies_def list_all_iff)
      then have kids: "listedBids (xBody x) = m7x_childBids x" by (rule listedBids_xBody)
      have "set (m7x_childBids x) \<subseteq> storeBids st" using ok xs(1) by (simp add: store_ok_def)
      then have "joinAll (map (readTree k f) (m7x_childBids x)) = Some (concat (map (gather k st) (m7x_childBids x)))"
        by (intro joinAll_some Suc.IH) auto
      then show ?thesis using kinds(2) [OF xs(1)] xs(2) x kids False by (simp add: childrenOf_def)
    qed
  qed
qed

section \<open>Properties\<close>

text \<open>
  C9: a payload of any size comes back from its blocks.  For a store that keeps the invariant and a payload below
  4 GiB, the BID that \<open>schedulePayload\<close> returns leads, through one data block, an XBLOCK or an XXBLOCK, to exactly the
  bytes of the payload; the invariant is kept, every BID that was in use keeps its bytes, each new data block is
  within the 8176 bytes of a block, no new XBLOCK has more than 1021 children, and each carries the size of the
  bytes below it.
\<close>

theorem payload_roundtrip:
  assumes "store_ok st" and "bidRoom st (length body + 1)" and "length body < 2 ^ 32"
    and "schedulePayload body st = (bid, st')"
  shows "gather 2 st' bid = body \<and> store_ok st'
    \<and> (\<forall>b k. b \<in> storeBids st \<longrightarrow> gather k st' b = gather k st b)
    \<and> (\<forall>b. b \<in> set (drop (length (st_dataBlocks st)) (st_dataBlocks st')) \<longrightarrow> length (m7b_bodyBytes b) \<le> kMaxBlockPayload)
    \<and> (\<forall>x. x \<in> set (drop (length (st_xBlocks st)) (st_xBlocks st')) \<longrightarrow>
          length (m7x_childBids x) \<le> 1021 \<and> unat (m7x_lcbTotal x) = length (gather 2 st' (m7x_bid x)))"
proof -
  have p: "payloadPlaced body st bid st'" by (rule schedulePayload_placed [OF assms])
  then have "gather k st' b = gather k st b" if "b \<in> storeBids st" for b k
    using that gather_extends [OF assms(1)] unfolding payloadPlaced_def by blast
  moreover have "kXBlockMaxChildren = 1021" by (simp add: kXBlockMaxChildren_def kMaxBlockPayload_def kXBlockEntrySize_def)
  ultimately show ?thesis using p unfolding payloadPlaced_def list_all_iff by simp
qed

theorem payload_roundtrip_witness:
  "\<exists>bid st'. schedulePayload (replicate 9000 7) emptyStore = (bid, st') \<and> gather 2 st' bid = replicate 9000 7"
proof -
  obtain bid st' where s: "schedulePayload (replicate 9000 7) emptyStore = (bid, st')" by fastforce
  have "bidRoom emptyStore (length (replicate 9000 (7 :: u8)) + 1)"
    by (simp add: bidRoom_def emptyStore_def internalBids_def kMaxBids_def)
  then show ?thesis using payload_roundtrip [OF store_ok_empty _ _ s] s by simp
qed

text \<open>
  C7: everything scheduled can be read from the file.  For a store with at most 400 blocks and 300 nodes of distinct
  NIDs, data and internal BIDs of the right kind and bodies below \<open>2 ^ 16\<close> bytes, on a system without failures the
  writer succeeds, the HEADER names the length of the file, each lookup through the node B-tree returns the
  record of the node with that NID or reports that there is none, and each data block, XBLOCK and SLBLOCK opens at
  its offset, with its BID and its bytes in the clear.
\<close>

theorem store_readable:
  assumes "storeSizesOk st" and "distinct (map m7n_nid (st_nodes st))"
  shows "\<exists>f. finishStore idealIo st = Inr (okResult, Some f) \<and> unat (readU64 f hdr_kIbFileEof) = length f
    \<and> (\<forall>t c. nbtFind f (mkBref (Bid (readU64 f hdr_kBrefNbtBid)) (Ib (readU64 f hdr_kBrefNbtIb))) t c
          = Inr (map_option (m5Record \<circ> m5NodeOf) (List.find (\<lambda>n. m7n_nid n = t) (st_nodes st))))
    \<and> (\<forall>i < length (storeBodies st). diskBlock st f i = Some (bp_bid (storePlans st ! i), storeBodies st ! i))"
  using assms by (rule store_reads)

theorem store_readable_witness:
  "\<exists>f. finishStore idealIo (scheduleNode (Nid 0x21) (Nid 0) [1, 2, 3] (Bid 0) emptyStore) = Inr (okResult, Some f)
    \<and> diskBlock (scheduleNode (Nid 0x21) (Nid 0) [1, 2, 3] (Bid 0) emptyStore) f 0 = Some (makeData 1, [1, 2, 3])"
proof -
  let ?st = "scheduleNode (Nid 0x21) (Nid 0) [1, 2, 3] (Bid 0) emptyStore"
  have d: "st_dataBlocks ?st = [\<lparr>m7b_bid = makeData 1, m7b_bodyBytes = [1, 2, 3]\<rparr>]" "st_xBlocks ?st = []" "st_slBlocks ?st = []"
    "st_nodes ?st = [\<lparr>m7n_nid = Nid 0x21, m7n_nidParent = Nid 0, m7n_bidData = makeData 1, m7n_bidSub = Bid 0\<rparr>]"
    by (simp_all add: scheduleNode_def allocDataBid_def emptyStore_def Let_def)
  have "storeSizesOk ?st" by (simp add: storeSizesOk_def storeBodies_def d internalBids_def makeData_flags)
  from store_readable [OF this] show ?thesis by (auto simp: storeBodies_def storePlans_def d dataPlan_def)
qed

text \<open>
  C8: a store can be read back from the bytes of its file alone.  For a store that keeps the invariant, with at most 400
  blocks and 300 nodes and bodies below \<open>2 ^ 16\<close> bytes, on a system without failures the writer succeeds.  A reader that
  looks a BID up in the block B-tree of the HEADER, takes as many bytes at the offset of the entry as its size asks for, and
  checks and decodes them, gets the bytes of each data block and the entries of each block of subnodes; and for each BID of
  a payload, following the lists of BIDs two levels down, it gets the payload.
\<close>

theorem store_read_back:
  assumes "store_ok st" and "storeSizesOk st"
  shows "\<exists>f. finishStore idealIo st = Inr (okResult, Some f)
    \<and> list_all (\<lambda>d. readBlock f (m7b_bid d) = Some (m7b_bodyBytes d)) (st_dataBlocks st)
    \<and> list_all (\<lambda>s. readBlock f (m7s_bid s) = Some (slBody s)) (st_slBlocks st)
    \<and> (\<forall>b. b \<in> storeBids st \<longrightarrow> readTree 2 f b = Some (gather 2 st b))"
proof -
  obtain f where f: "finishStore idealIo st = Inr (okResult, Some f)"
    and rd: "\<forall>i < length (storeBodies st). readBlock f (bp_bid (storePlans st ! i)) = Some (storeBodies st ! i)"
    using store_blocks [OF assms] by blast
  have sz: "list_all (\<lambda>b. length b < 2 ^ 16) (storeBodies st)" using assms(2) by (simp add: storeSizesOk_def)
  show ?thesis
    using f store_block_kinds(1,3) [OF rd] readTree_gather [OF assms(1) sz rd] by (intro exI [of _ f]) (simp add: list_all_iff)
qed

theorem store_read_back_witness:
  "\<exists>bid st f. scheduleDataBlock [1, 2, 3] emptyStore = (bid, st) \<and> finishStore idealIo st = Inr (okResult, Some f)
     \<and> readTree 2 f bid = Some [1, 2, 3]"
proof -
  define st where "st = snd (scheduleDataBlock [1, 2, 3] emptyStore)"
  have ok: "store_ok st" unfolding st_def by (rule scheduleDataBlock_ok [OF store_ok_empty])
  have s: "scheduleDataBlock [1, 2, 3] emptyStore = (dataBid 0, st)"
    by (simp add: st_def scheduleDataBlock_eq [OF store_ok_empty]) (simp add: emptyStore_def)
  have d: "st_dataBlocks st = [\<lparr>m7b_bid = dataBid 0, m7b_bodyBytes = [1, 2, 3]\<rparr>]" "st_xBlocks st = []" "st_slBlocks st = []"
    "st_nodes st = []"
    by (simp_all add: st_def scheduleDataBlock_eq [OF store_ok_empty]) (simp_all add: emptyStore_def)
  have "storeSizesOk st" by (simp add: storeSizesOk_def storeBodies_def d internalBids_def bid_kinds)
  from store_read_back [OF ok this] obtain f where f: "finishStore idealIo st = Inr (okResult, Some f)"
    "\<And>b. b \<in> storeBids st \<Longrightarrow> readTree 2 f b = Some (gather 2 st b)" by blast
  have "gather 2 st (dataBid 0) = [1, 2, 3]" using gather_data [OF ok bid_kinds(1)] by (simp add: dataBody_def d)
  moreover have "dataBid 0 \<in> storeBids st" by (simp add: storeBids_def d)
  ultimately have "readTree 2 f (dataBid 0) = Some [1, 2, 3]" using f(2) by simp
  then show ?thesis using s f(1) by blast
qed

end
