(* ===== verification/Mail.thy ===== *)
theory Mail
  imports Store GraphMessage
begin

text \<open>
  The builders for mail (\<open>src/mail.cpp\<close>): the property list of a message and of an attachment, the
  recipient and attachment tables, and the property context of a folder.  A \<open>PropBuilder\<close> is the list of the
  calls on it; each call gives the property it adds, or none, or the exception of the conversion of its argument.
\<close>

unbundle bit_operations_syntax

section \<open>The property builder\<close>

definition addInt32 :: "u16 \<Rightarrow> u32 \<Rightarrow> PcProperty list result" where
  "addInt32 tag v = Inr [autoProp tag PtInt32 (writeU32 (zeros 4) 0 v)]"

definition addBoolean :: "u16 \<Rightarrow> bool \<Rightarrow> PcProperty list result" where
  "addBoolean tag v = Inr [autoProp tag PtBoolean [if v then 1 else 0]]"

definition addSystemTime :: "u16 \<Rightarrow> u64 \<Rightarrow> PcProperty list result" where
  "addSystemTime tag ticks = Inr [autoProp tag PtSystemTime (writeU64 (zeros 8) 0 ticks)]"

definition addUnicodeString :: "u16 \<Rightarrow> bytes \<Rightarrow> PcProperty list result" where
  "addUnicodeString tag utf8 =
     (if utf8 = [] then Inr [] else bind_r (utf8ToUtf16le utf8) (\<lambda>bs. Inr [autoProp tag PtUnicode bs]))"

definition addBinary :: "u16 \<Rightarrow> bytes \<Rightarrow> PcProperty list result" where
  "addBinary tag bs = (if bs = [] then Inr [] else Inr [autoProp tag PtBinary bs])"

text \<open>A call under a condition, a call on a time, and the properties of a sequence of calls.\<close>

abbreviation onlyIf :: "bool \<Rightarrow> PcProperty list result \<Rightarrow> PcProperty list result" where
  "onlyIf c r \<equiv> (if c then r else Inr [])"

definition addTime :: "u16 \<Rightarrow> bytes \<Rightarrow> PcProperty list result" where
  "addTime tag date = onlyIf (date \<noteq> []) (bind_r (isoToFiletimeTicks date) (addSystemTime tag))"

definition propsOf :: "PcProperty list result list \<Rightarrow> PcProperty list result" where
  "propsOf calls = bind_r (mapM_r id calls) (\<lambda>pss. Inr (concat pss))"

record MailPcBuildContext =
  ctx_providerUid :: bytes
  ctx_subnodeStart :: Nid

record MailPcSubnode =
  mps_nid :: Nid
  mps_pidTagId :: u16
  mps_bytes :: bytes

record MailPcResult =
  mpr_hnBytes :: bytes
  mpr_subnodes :: "MailPcSubnode list"

definition snapshotSubnodes :: "PcSubnodeOut list \<Rightarrow> MailPcSubnode list" where
  "snapshotSubnodes src = map (\<lambda>s. \<lparr>mps_nid = so_nid s, mps_pidTagId = so_pidTagId s, mps_bytes = so_data s\<rparr>) src"

text \<open>The end of every item builder: the properties become a context whose subnodes are copied.\<close>

definition finishPc :: "PcProperty list result list \<Rightarrow> Nid \<Rightarrow> MailPcResult result" where
  "finishPc calls subnodeStart =
     bind_r (propsOf calls) (\<lambda>props.
     bind_r (buildPropertyContext props subnodeStart) (\<lambda>pc.
       Inr \<lparr>mpr_hnBytes = pcr_hnBytes pc, mpr_subnodes = snapshotSubnodes (pcr_subnodes pc)\<rparr>))"

section \<open>Derived values\<close>

definition kMsgFlagRead :: u32 where "kMsgFlagRead = 1"
definition kMsgFlagUnsent :: u32 where "kMsgFlagUnsent = 8"
definition kMsgFlagHasAttach :: u32 where "kMsgFlagHasAttach = 0x10"

definition computeMessageFlags :: "GraphMessage \<Rightarrow> u32" where
  "computeMessageFlags msg =
     (let f = 0;
          f = (if gm_isRead (gm msg) then f OR kMsgFlagRead else f);
          f = (if gm_isDraft (gm msg) then f OR kMsgFlagUnsent else f)
      in if gm_attachments msg \<noteq> [] \<or> gm_hasAttachments (gm msg) then f OR kMsgFlagHasAttach else f)"

fun joinLoop :: "Recipient list \<Rightarrow> bytes \<Rightarrow> bytes" where
  "joinLoop [] out = out"
| "joinLoop (r # rs) out =
     (let e = rcp_emailAddress r; label = (if ea_name e \<noteq> [] then ea_name e else ea_address e)
      in if label = [] then joinLoop rs out
         else joinLoop rs ((if out \<noteq> [] then out @ ascii ''; '' else out) @ label))"

definition joinRecipientDisplay :: "Recipient list \<Rightarrow> bytes" where
  "joinRecipientDisplay bucket = joinLoop bucket []"

record SubjectParts =
  sp_prefix :: bytes
  sp_normalized :: bytes

definition isLetter :: "u8 \<Rightarrow> bool" where
  "isLetter c \<longleftrightarrow> asc CHR ''A'' \<le> c \<and> c \<le> asc CHR ''Z'' \<or> asc CHR ''a'' \<le> c \<and> c \<le> asc CHR ''z''"

fun countLetters :: "nat \<Rightarrow> bytes \<Rightarrow> nat" where
  "countLetters (Suc n) (c # s) = (if isLetter c then Suc (countLetters n s) else 0)"
| "countLetters _ _ = 0"

definition splitSubject :: "bytes \<Rightarrow> SubjectParts" where
  "splitSubject subject =
     (let letters = countLetters 3 subject
      in if letters \<ge> 1 \<and> letters + 1 < length subject \<and> subject ! letters = asc CHR '':'' \<and> subject ! (letters + 1) = asc CHR '' ''
         then \<lparr>sp_prefix = take (letters + 2) subject, sp_normalized = drop (letters + 2) subject\<rparr>
         else \<lparr>sp_prefix = [], sp_normalized = subject\<rparr>)"

definition sizeOf :: "bytes \<Rightarrow> u64" where
  "sizeOf s = word_of_nat (length s)"

definition estimateMessageSize :: "GraphMessage \<Rightarrow> u32" where
  "estimateMessageSize msg =
     (let f = gm msg;
          total = 0 + sizeOf (gm_subject f);
          total = total + sizeOf (body_content (gm_body f));
          total = total + sizeOf (gm_bodyPreview f);
          total = fold (\<lambda>h total. total + (sizeOf (imh_name h) + sizeOf (imh_value h) + 4)) (gm_internetMessageHeaders f) total;
          total = fold (\<lambda>a total. total + (if 0 <s att_size (att a) then ucast (att_size (att a)) else 0)
                                   + (sizeOf (att_name (att a)) + sizeOf (att_contentType (att a)))) (gm_attachments msg) total;
          total = (if total > 0xFFFFFFFF then 0xFFFFFFFF else total)
      in ucast total)"

definition serializeInternetHeaders :: "InternetMessageHeader list \<Rightarrow> bytes" where
  "serializeInternetHeaders headers = concat (map (\<lambda>h. imh_name h @ ascii '': '' @ imh_value h @ [13, 10]) headers)"

section \<open>The property context of a message\<close>

text \<open>The calls of the builder in their order: class and subject, body, flags, people and times.\<close>

definition subjectCalls :: "bytes \<Rightarrow> PcProperty list result list" where
  "subjectCalls subject =
     (let parts = splitSubject subject
      in [addUnicodeString 0x0037 subject,
          onlyIf (sp_prefix parts \<noteq> []) (addUnicodeString 0x003D (sp_prefix parts)),
          onlyIf (sp_normalized parts \<noteq> []) (addUnicodeString 0x0E1D (sp_normalized parts)),
          onlyIf (sp_normalized parts \<noteq> []) (addUnicodeString 0x0070 (sp_normalized parts))])"

definition bodyCalls :: "MessageFields \<Rightarrow> PcProperty list result list" where
  "bodyCalls f =
     (let b = gm_body f
      in [onlyIf (body_contentType b = BodyText \<and> body_content b \<noteq> []) (addUnicodeString 0x1000 (body_content b)),
          onlyIf (body_contentType b = BodyHtml \<and> body_content b \<noteq> []) (addBinary 0x1013 (body_content b)),
          onlyIf (body_contentType b = BodyHtml \<and> gm_bodyPreview f \<noteq> []) (addUnicodeString 0x1000 (gm_bodyPreview f))])"

definition flagCalls :: "GraphMessage \<Rightarrow> PcProperty list result list" where
  "flagCalls msg =
     [addInt32 0x0017 (importanceVal (gm_importance (gm msg))),
      addInt32 0x0E07 (computeMessageFlags msg),
      addBoolean 0x0E1B (gm_attachments msg \<noteq> [] \<or> gm_hasAttachments (gm msg)),
      addInt32 0x0FFE 5,
      addInt32 0x0E08 (estimateMessageSize msg),
      onlyIf (body_contentType (gm_body (gm msg)) = BodyHtml) (addInt32 0x3FDE 65001)]"

definition displayCalls :: "MessageFields \<Rightarrow> PcProperty list result list" where
  "displayCalls f =
     [addUnicodeString 0x0E04 (joinRecipientDisplay (gm_toRecipients f)),
      addUnicodeString 0x0E03 (joinRecipientDisplay (gm_ccRecipients f)),
      addUnicodeString 0x0E02 (joinRecipientDisplay (gm_bccRecipients f))]"

definition timeCalls :: "MessageFields \<Rightarrow> PcProperty list result list" where
  "timeCalls f =
     [addTime 0x3007 (gm_createdDateTime f),
      addTime 0x3008 (gm_lastModifiedDateTime f),
      addTime 0x6722 (gm_lastModifiedDateTime f),
      addTime 0x0039 (gm_sentDateTime f),
      addTime 0x0E06 (gm_receivedDateTime f)]"

definition identityCalls :: "MessageFields \<Rightarrow> PcProperty list result list" where
  "identityCalls f =
     (let seed = (if gm_internetMessageId f = [] then gm_subject f @ ascii ''|'' @ gm_sentDateTime f else gm_internetMessageId f)
      in [onlyIf (gm_internetMessageId f \<noteq> []) (addUnicodeString 0x1035 (gm_internetMessageId f)),
          addBinary 0x300B (deriveMessageSearchKey seed),
          onlyIf (gm_conversationIndex f \<noteq> []) (addBinary 0x0071 (gm_conversationIndex f)),
          onlyIf (gm_internetMessageHeaders f \<noteq> [])
            (addUnicodeString 0x007D (serializeInternetHeaders (gm_internetMessageHeaders f)))])"

text \<open>The properties of the person who sent a message, or who organizes an event.\<close>

definition senderCalls :: "EmailAddress \<Rightarrow> PcProperty list result list" where
  "senderCalls e =
     (if ea_name e \<noteq> [] then [addUnicodeString 0x0C1A (ea_name e), addUnicodeString 0x0042 (ea_name e)] else [])
     @ (if ea_address e \<noteq> []
        then [addUnicodeString 0x0C1F (ea_address e), addUnicodeString 0x0065 (ea_address e),
              addUnicodeString 0x0C1E (ascii ''SMTP''), addUnicodeString 0x0064 (ascii ''SMTP''),
              bind_r (makeOneOffEntryId (ea_name e) (ea_address e)) (addBinary 0x0C19),
              bind_r (makeOneOffEntryId (ea_name e) (ea_address e)) (addBinary 0x0041),
              addBinary 0x0C1D (deriveSearchKey (ea_address e)), addBinary 0x003B (deriveSearchKey (ea_address e))]
        else [])"

definition senderOf :: "MessageFields \<Rightarrow> EmailAddress option" where
  "senderOf f = (if gm_hasSender f then Some (gm_sender f) else if gm_hasFrom f then Some (gm_from f) else None)"

definition mailCalls :: "GraphMessage \<Rightarrow> PcProperty list result list" where
  "mailCalls msg =
     (let f = gm msg
      in [addUnicodeString 0x001A (ascii ''IPM.Note'')]
         @ (if gm_subject f \<noteq> [] then subjectCalls (gm_subject f) else [])
         @ bodyCalls f @ flagCalls msg @ displayCalls f @ timeCalls f @ identityCalls f
         @ (case senderOf f of None \<Rightarrow> [] | Some e \<Rightarrow> senderCalls e))"

definition buildMailPc :: "GraphMessage \<Rightarrow> MailPcBuildContext \<Rightarrow> MailPcResult result" where
  "buildMailPc msg ctx =
     (if nid_type (ctx_subnodeStart ctx) = NtHID
      then Inl (InvalidArgument ''buildMailPc: ctx.subnodeStart must have nidType != HID'')
      else finishPc (mailCalls msg) (ctx_subnodeStart ctx))"

section \<open>The recipient table\<close>

definition kRecipientEndBm :: nat where "kRecipientEndBm = 52"
definition kRecipientCebByte0 :: u8 where "kRecipientCebByte0 = 0xFF"
definition kRecipientCebByte1 :: u8 where "kRecipientCebByte1 = 0xFC"

text \<open>The fixed cells of the row of the \<open>r\<close>-th recipient, its cells of variable size, and the row.\<close>

definition recipientFixed :: "u32 \<Rightarrow> Recipient \<Rightarrow> bytes" where
  "recipientFixed rowId src =
     (let dst = zeros kRecipientEndBm;
          dst = writeU32 dst 0 rowId;
          dst = writeU32 dst 4 rowId;
          dst = writeU32 dst 8 (recipientKindVal (rcp_kind src));
          dst = writeU32 dst 16 6;
          dst = writeU32 dst 40 0;
          dst = writeU8 dst 48 0;
          dst = writeU8 dst 49 0;
          dst = writeU8 dst 50 kRecipientCebByte0
      in writeU8 dst 51 kRecipientCebByte1)"

definition optCell :: "nat \<Rightarrow> bytes \<Rightarrow> TcVarlenCell list" where
  "optCell col bs = (if bs \<noteq> [] then [\<lparr>tvc_colIndex = col, tvc_bytes = bs\<rparr>] else [])"

definition recipientRow :: "nat \<Rightarrow> Recipient \<Rightarrow> TcRow result" where
  "recipientRow r src =
     (let rowId = word_of_nat (r + 1); e = rcp_emailAddress src
      in bind_r (utf8ToUtf16le (ea_name e)) (\<lambda>dn.
         bind_r (utf8ToUtf16le (ascii ''SMTP'')) (\<lambda>at.
         bind_r (utf8ToUtf16le (ea_address e)) (\<lambda>ea.
         bind_r (makeOneOffEntryId (ea_name e) (ea_address e)) (\<lambda>entryId.
           let searchKey = deriveSearchKey (ea_address e); recordKey = searchKey
           in Inr \<lparr>tcr_rowId = rowId, tcr_rowBytes = recipientFixed rowId src,
                   tcr_varlenCells = optCell 5 dn @ optCell 6 at @ optCell 7 ea @ optCell 4 entryId
                     @ [\<lparr>tvc_colIndex = 8, tvc_bytes = searchKey\<rparr>, \<lparr>tvc_colIndex = 2, tvc_bytes = recordKey\<rparr>]
                     @ optCell 10 dn\<rparr>)))))"

definition buildRecipientTc :: "Recipient list \<Rightarrow> TcResult result" where
  "buildRecipientTc recipients =
     bind_r (mapM_r (\<lambda>r. recipientRow r (recipients ! r)) [0..<length recipients]) (\<lambda>rows.
       buildTableContext kRecipientCols rows (Nid 0))"

section \<open>The attachment table\<close>

record AttachmentTcRow =
  atr_attachmentNid :: Nid
  atr_attachment :: "Attachment option"

definition kAttachmentEndBm :: nat where "kAttachmentEndBm = 25"
definition kAttachmentCebByte0 :: u8 where "kAttachmentCebByte0 = 0xFC"

definition attachMethod :: "Attachment \<Rightarrow> u32" where
  "attachMethod a = (if att_kind (att a) = AttachItem then 5 else 1)"

definition attachmentFixed :: "u32 \<Rightarrow> Attachment \<Rightarrow> bytes" where
  "attachmentFixed rowId a =
     (let dst = zeros kAttachmentEndBm;
          dst = writeU32 dst 0 rowId;
          dst = writeU32 dst 4 0;
          dst = writeU32 dst 8 (att_size (att a));
          dst = writeU32 dst 16 (attachMethod a);
          dst = writeU32 dst 20 (- 1)
      in writeU8 dst 24 kAttachmentCebByte0)"

definition attachmentRow :: "AttachmentTcRow \<Rightarrow> TcRow result" where
  "attachmentRow src =
     (case atr_attachment src of
        None \<Rightarrow> Inl (InvalidArgument ''buildAttachmentTc: null attachment ptr'')
      | Some a \<Rightarrow>
          let rowId = nid_value (atr_attachmentNid src)
          in bind_r (utf8ToUtf16le (att_name (att a))) (\<lambda>fileName.
               Inr \<lparr>tcr_rowId = rowId, tcr_rowBytes = attachmentFixed rowId a, tcr_varlenCells = optCell 1 fileName\<rparr>))"

definition buildAttachmentTc :: "AttachmentTcRow list \<Rightarrow> TcResult result" where
  "buildAttachmentTc rows =
     bind_r (mapM_r attachmentRow rows) (\<lambda>tcRows. buildTableContext kAttachmentCols tcRows (Nid 0))"

section \<open>The property context of an attachment\<close>

definition reportedSize :: "AttachmentFields \<Rightarrow> u32" where
  "reportedSize f =
     (let r = att_size f
      in if r = 0 then (let r = ucast (sizeOf (att_contentBytes f) + 512) in if r = 0 then 512 else r) else r)"

definition attachmentDataCall :: "Attachment \<Rightarrow> MailPcBuildContext \<Rightarrow> PcProperty list result" where
  "attachmentDataCall a ctx =
     (case att_kind (att a) of
        AttachFile \<Rightarrow> addBinary 0x3701 (att_contentBytes (att a))
      | AttachItem \<Rightarrow>
          (case att_item a of
             None \<Rightarrow> Inr []
           | Some m \<Rightarrow>
               bind_r (buildMailPc m (ctx\<lparr>ctx_subnodeStart := Nid (nid_value (ctx_subnodeStart ctx) + 0x4000)\<rparr>))
                 (\<lambda>nested. addBinary 0x3701 (mpr_hnBytes nested))))"

definition attachmentCalls :: "Attachment \<Rightarrow> MailPcBuildContext \<Rightarrow> PcProperty list result list" where
  "attachmentCalls a ctx =
     (let f = att a
      in [addInt32 0x3705 (attachMethod a), addInt32 0x0E20 (reportedSize f), addInt32 0x370B (- 1)]
         @ (if att_name f \<noteq> [] then [addUnicodeString 0x3704 (att_name f), addUnicodeString 0x3707 (att_name f),
                                     addUnicodeString 0x3001 (att_name f)] else [])
         @ [onlyIf (att_contentType f \<noteq> []) (addUnicodeString 0x370E (att_contentType f)),
            onlyIf (att_contentId f \<noteq> []) (addUnicodeString 0x3712 (att_contentId f)), attachmentDataCall a ctx])"

definition buildAttachmentPc :: "Attachment \<Rightarrow> MailPcBuildContext \<Rightarrow> MailPcResult result" where
  "buildAttachmentPc a ctx =
     (if nid_type (ctx_subnodeStart ctx) = NtHID
      then Inl (InvalidArgument ''buildAttachmentPc: ctx.subnodeStart must have nidType != HID'')
      else finishPc (attachmentCalls a ctx) (ctx_subnodeStart ctx))"

section \<open>The property context of a folder\<close>

record M7FolderSchema =
  m7f_displayName :: bytes
  m7f_contentCount :: u32
  m7f_contentUnreadCount :: u32
  m7f_hasSubfolders :: bool
  m7f_containerClass :: bytes
  m7f_pstHiddenCount :: u32
  m7f_pstHiddenUnreadCount :: u32

definition mailFolderProps :: "M7FolderSchema \<Rightarrow> PcProperty list" where
  "mailFolderProps schema =
     (if length (m7f_displayName schema) > 0 then [autoProp 0x3001 PtUnicode (m7f_displayName schema)] else [])
     @ [autoProp 0x3602 PtInt32 (writeU32 (zeros 4) 0 (m7f_contentCount schema)),
        autoProp 0x3603 PtInt32 (writeU32 (zeros 4) 0 (m7f_contentUnreadCount schema)),
        autoProp 0x360A PtBoolean [if m7f_hasSubfolders schema then 1 else 0]]
     @ (if length (m7f_containerClass schema) > 0 then [autoProp 0x3613 PtUnicode (m7f_containerClass schema)] else [])
     @ [autoProp 0x6635 PtInt32 (writeU32 (zeros 4) 0 (m7f_pstHiddenCount schema)),
        autoProp 0x6636 PtInt32 (writeU32 (zeros 4) 0 (m7f_pstHiddenUnreadCount schema))]"

definition buildMailFolderPc :: "M7FolderSchema \<Rightarrow> Nid \<Rightarrow> PcResult result" where
  "buildMailFolderPc schema firstSubnodeNid = buildPropertyContext (mailFolderProps schema) firstSubnodeNid"

section \<open>Builders of items\<close>

text \<open>A call adds nothing or one property with the given tag, which is valid and readable.\<close>

definition callFor :: "u16 \<Rightarrow> PcProperty list result \<Rightarrow> bool" where
  "callFor t c \<longleftrightarrow> (\<forall>ps. c = Inr ps \<longrightarrow> ps = [] \<or> (\<exists>p. ps = [p] \<and> pc_pidTagId p = t \<and> validProp p \<and> pcReadable p))"

lemma callFor_simps [simp]:
  "callFor t (Inr [])" "callFor t (addInt32 t v)" "callFor t (addBoolean t b)" "callFor t (addSystemTime t k)"
  "callFor t (addUnicodeString t s)" "callFor t (addBinary t bs)"
  by (auto simp: callFor_def addInt32_def addBoolean_def addSystemTime_def addUnicodeString_def addBinary_def validProp_def
      isFixedSize_def fixedSize_def write_defs pcReadable_def bind_r_Inr intro: canonicalPropType_named)

lemma callFor_bind [simp]: "(\<And>x. callFor t (f x)) \<Longrightarrow> callFor t (bind_r r f)"
  by (auto simp: callFor_def bind_r_Inr)

lemma callFor_addTime [simp]: "callFor t (addTime t d)"
  by (simp add: addTime_def)

text \<open>The calls stand for some of the tags, in their order.\<close>

inductive callsFor :: "PcProperty list result list \<Rightarrow> u16 list \<Rightarrow> bool" where
  none: "callsFor [] ts"
| call: "callFor t c \<Longrightarrow> callsFor cs ts \<Longrightarrow> callsFor (c # cs) (t # ts)"
| skip: "callsFor cs ts \<Longrightarrow> callsFor cs (t # ts)"

lemma callsFor_append: "callsFor cs ts \<Longrightarrow> callsFor ds us \<Longrightarrow> callsFor (cs @ ds) (ts @ us)"
proof (induction rule: callsFor.induct)
  case (none ts)
  then show ?case by (induction ts) (auto intro: callsFor.intros)
qed (auto intro: callsFor.intros)

lemma calls_tags:
  "callsFor cs ts \<Longrightarrow> distinct ts \<Longrightarrow> mapM_r id cs = Inr pss \<Longrightarrow>
     distinct (map pc_pidTagId (concat pss)) \<and> set (map pc_pidTagId (concat pss)) \<subseteq> set ts \<and> length (concat pss) \<le> length ts
     \<and> list_all validProp (concat pss) \<and> list_all pcReadable (concat pss)"
proof (induction arbitrary: pss rule: callsFor.induct)
  case (skip cs ts t)
  then show ?case by fastforce
next
  case (call t c cs ts)
  then obtain ps qss where c: "c = Inr ps" "mapM_r id cs = Inr qss" "pss = ps # qss" by (auto simp: bind_r_Inr id_def)
  have d: "distinct ts" "t \<notin> set ts" using call.prems(1) by simp_all
  have "ps = [] \<or> (\<exists>p. ps = [p] \<and> pc_pidTagId p = t \<and> validProp p \<and> pcReadable p)"
    using call.hyps(1) c(1) by (simp add: callFor_def)
  moreover define qs where "qs = concat qss"
  moreover have "concat pss = ps @ qs" by (simp add: c(3) qs_def)
  ultimately show ?case using call.IH [OF d(1) c(2)] d(2) by (auto simp: image_subset_iff)
qed (auto simp: id_def)

lemmas callsFor_intros [simp] = callsFor.none callsFor.call

lemma callsFor_if: "(b \<Longrightarrow> callsFor cs ts) \<Longrightarrow> callsFor (if b then cs else []) ts"
  by (simp add: callsFor.none)

text \<open>
  What the writers rely on: a builder makes the calls of its item, in which every tag belongs to one call, and ends
  in \<open>finishPc\<close> with the first subnode NID of its context.
\<close>

locale item_builder =
  fixes buildPc :: "'i \<Rightarrow> MailPcBuildContext \<Rightarrow> MailPcResult result"
    and calls :: "'i \<Rightarrow> MailPcBuildContext \<Rightarrow> PcProperty list result list"
    and tags :: "'i \<Rightarrow> u16 list"
  assumes builds: "nid_type (ctx_subnodeStart ctx) \<noteq> NtHID \<Longrightarrow> buildPc c ctx = finishPc (calls c ctx) (ctx_subnodeStart ctx)"
    and refuses: "nid_type (ctx_subnodeStart ctx) = NtHID \<Longrightarrow> \<exists>e. buildPc c ctx = Inl e"
    and tagged: "callsFor (calls c ctx) (tags c)"
    and distinct_tags: "distinct (tags c)"
    and few_tags: "length (tags c) \<le> 64"
begin

lemma props_ok:
  assumes "propsOf (calls c ctx) = Inr props"
  shows "distinct (map pc_pidTagId props)" and "list_all validProp props" and "list_all pcReadable props" and "length props \<le> 64"
proof -
  obtain pss where pss: "mapM_r id (calls c ctx) = Inr pss" "props = concat pss"
    using assms by (auto simp: propsOf_def bind_r_Inr)
  note t = calls_tags [OF tagged distinct_tags pss(1), folded pss(2)]
  show "distinct (map pc_pidTagId props)" "list_all validProp props" "list_all pcReadable props" "length props \<le> 64"
    using t few_tags [of c] by simp_all
qed

text \<open>A builder succeeds exactly when the conversions do and the context fits a block.\<close>

lemma accepts:
  "(\<exists>r. buildPc c ctx = Inr r) \<longleftrightarrow>
     nid_type (ctx_subnodeStart ctx) \<noteq> NtHID \<and> (\<exists>props. propsOf (calls c ctx) = Inr props \<and> pcSize props \<le> 8176)"
proof (cases "nid_type (ctx_subnodeStart ctx) = NtHID")
  case True
  then show ?thesis using refuses [of ctx c] by auto
next
  case False
  have "(\<exists>r. buildPropertyContext props (ctx_subnodeStart ctx) = Inr r) \<longleftrightarrow> pcSize props \<le> 8176"
    if "propsOf (calls c ctx) = Inr props" for props
    using props_ok [OF that] False pc_domain [of props "ctx_subnodeStart ctx"] by auto
  then show ?thesis using builds [OF False, of c] False by (auto simp: finishPc_def bind_r_Inr)
qed

lemma reads_back:
  assumes "buildPc c ctx = Inr r"
  obtains props where "propsOf (calls c ctx) = Inr props" and "length (mpr_hnBytes r) \<le> 8176"
    and "readPropertyContext (mpr_hnBytes r) = Inr (map (expectProp (ctx_subnodeStart ctx) (sortPc props)) [0..<length props])"
    and "mpr_subnodes r = map (\<lambda>(k, p). \<lparr>mps_nid = subnodeNid (ctx_subnodeStart ctx) k, mps_pidTagId = pc_pidTagId p, mps_bytes = pc_value p\<rparr>)
        (enumerate 0 (filter (\<lambda>p. classOf p = RsSubnode) (sortPc props)))"
proof -
  have "nid_type (ctx_subnodeStart ctx) \<noteq> NtHID" using refuses [of ctx c] assms by auto
  then obtain props pc where p: "propsOf (calls c ctx) = Inr props" "buildPropertyContext props (ctx_subnodeStart ctx) = Inr pc"
    "r = \<lparr>mpr_hnBytes = pcr_hnBytes pc, mpr_subnodes = snapshotSubnodes (pcr_subnodes pc)\<rparr>"
    using assms builds [of ctx c] by (auto simp: finishPc_def bind_r_Inr)
  from pc_reads [OF p(2) props_ok(3) [OF p(1)]] pc_length [OF p(2)] show ?thesis
    by (intro that [OF p(1)]) (auto simp: p(3) snapshotSubnodes_def)
qed

end

section \<open>The builders for mail\<close>

definition senderTags :: "u16 list" where
  "senderTags = [0x0C1A, 0x0042, 0x0C1F, 0x0065, 0x0C1E, 0x0064, 0x0C19, 0x0041, 0x0C1D, 0x003B]"

lemma sender_tagged: "callsFor (senderCalls e) senderTags"
proof -
  have "senderTags = take 2 senderTags @ drop 2 senderTags" by simp
  moreover have "callsFor (senderCalls e) (take 2 senderTags @ drop 2 senderTags)"
    unfolding senderCalls_def by (intro callsFor_append callsFor_if) (simp_all add: senderTags_def)
  ultimately show ?thesis by metis
qed

text \<open>The tags of the calls, with a tag of no property for the calls that the type of the body rules out.\<close>

definition mailTagsFor :: "BodyType \<Rightarrow> u16 list" where
  "mailTagsFor t =
     [0x001A] @ [0x0037, 0x003D, 0x0E1D, 0x0070]
     @ (case t of BodyText \<Rightarrow> [0x1000, 0x1013, 0xFFFF] | BodyHtml \<Rightarrow> [0xFFFF, 0x1013, 0x1000])
     @ [0x0017, 0x0E07, 0x0E1B, 0x0FFE, 0x0E08, 0x3FDE] @ [0x0E04, 0x0E03, 0x0E02] @ [0x3007, 0x3008, 0x6722, 0x0039, 0x0E06]
     @ [0x1035, 0x300B, 0x0071, 0x007D] @ senderTags"

lemma mail_tagged: "callsFor (mailCalls m) (mailTagsFor (body_contentType (gm_body (gm m))))"
proof -
  have b: "callsFor (bodyCalls f) (case body_contentType (gm_body f) of BodyText \<Rightarrow> [0x1000, 0x1013, 0xFFFF] | BodyHtml \<Rightarrow> [0xFFFF, 0x1013, 0x1000])"
    for f by (cases "body_contentType (gm_body f)") (simp_all add: bodyCalls_def Let_def)
  have s: "callsFor (case senderOf f of None \<Rightarrow> [] | Some e \<Rightarrow> senderCalls e) senderTags" for f
    by (cases "senderOf f") (simp_all add: sender_tagged)
  show ?thesis
    unfolding mailTagsFor_def mailCalls_def Let_def
    by (intro callsFor_append b s callsFor_if)
      (simp_all add: subjectCalls_def flagCalls_def displayCalls_def timeCalls_def identityCalls_def Let_def)
qed

lemma mail_tags_distinct: "distinct (mailTagsFor t)" "length (mailTagsFor t) \<le> 64"
proof -
  have "distinct (mailTagsFor BodyText)" "distinct (mailTagsFor BodyHtml)" by code_simp+
  then show "distinct (mailTagsFor t)" by (cases t) simp_all
  show "length (mailTagsFor t) \<le> 64" by (cases t) (simp_all add: mailTagsFor_def senderTags_def)
qed

interpretation mail: item_builder buildMailPc "\<lambda>m ctx. mailCalls m" "\<lambda>m. mailTagsFor (body_contentType (gm_body (gm m)))"
  by unfold_locales (simp_all add: buildMailPc_def mail_tagged mail_tags_distinct)

definition attachmentTags :: "u16 list" where
  "attachmentTags = [0x3705, 0x0E20, 0x370B] @ [0x3704, 0x3707, 0x3001] @ [0x370E, 0x3712, 0x3701]"

lemma attachment_tagged: "callsFor (attachmentCalls a ctx) attachmentTags"
proof -
  have "callFor 0x3701 (attachmentDataCall a ctx)"
    by (auto simp: attachmentDataCall_def split: AttachmentKind.split option.split)
  then show ?thesis
    unfolding attachmentCalls_def attachmentTags_def Let_def
    by (intro callsFor_append callsFor_if) simp_all
qed

interpretation attachment: item_builder buildAttachmentPc attachmentCalls "\<lambda>a. attachmentTags"
  by unfold_locales (simp_all add: buildAttachmentPc_def attachment_tagged, simp_all add: attachmentTags_def)

section \<open>What a reader sees of an item\<close>

text \<open>
  The value under a tag: the four bytes of the slot, the bytes in the heap, or those of the subnode with the NID in
  the slot.
\<close>

definition itemValue :: "MailPcResult \<Rightarrow> u16 \<Rightarrow> bytes option" where
  "itemValue r tag =
     (case readPropertyContext (mpr_hnBytes r) of
        Inl e \<Rightarrow> None
      | Inr ps \<Rightarrow>
          (case List.find (\<lambda>p. rp_pidTagId p = tag) ps of
             None \<Rightarrow> None
           | Some p \<Rightarrow>
               (case rp_storage p of
                  PsInline \<Rightarrow> Some (le32 (rp_inlineValue p))
                | PsHnAlloc \<Rightarrow> Some (rp_value p)
                | PsSubnode \<Rightarrow> map_option mps_bytes (List.find (\<lambda>s. mps_nid s = rp_subnodeNid p) (mpr_subnodes r)))))"

definition storedValue :: "PcProperty \<Rightarrow> bytes" where
  "storedValue p = (if classOf p = RsInline then le32 (packInlineValue (pc_propType p) (pc_value p)) else pc_value p)"

lemma subnodeNid_inject: "j < 2 ^ 27 \<Longrightarrow> k < 2 ^ 27 \<Longrightarrow> subnodeNid n j = subnodeNid n k \<longleftrightarrow> j = k"
proof -
  assume "j < 2 ^ 27" "k < 2 ^ 27"
  then have "unat (word_of_nat j * 32 :: u32) = j * 32" "unat (word_of_nat k * 32 :: u32) = k * 32"
    by (simp_all add: unat_word_ariths unat_of_nat)
  then have "(word_of_nat j * 32 :: u32) = word_of_nat k * 32 \<longleftrightarrow> j = k" by (metis mult_right_cancel zero_neq_numeral)
  then show ?thesis by (simp add: subnodeNid_def)
qed

lemma find_subnode:
  assumes "k < length qs" and "length qs < 2 ^ 27"
  shows "List.find (\<lambda>s. mps_nid s = subnodeNid n k)
      (map (\<lambda>(k, p). \<lparr>mps_nid = subnodeNid n k, mps_pidTagId = pc_pidTagId p, mps_bytes = pc_value p\<rparr>) (enumerate 0 qs))
    = Some \<lparr>mps_nid = subnodeNid n k, mps_pidTagId = pc_pidTagId (qs ! k), mps_bytes = pc_value (qs ! k)\<rparr>"
    (is "List.find _ ?xs = _")
proof -
  have n: "?xs ! j = \<lparr>mps_nid = subnodeNid n j, mps_pidTagId = pc_pidTagId (qs ! j), mps_bytes = pc_value (qs ! j)\<rparr>"
    if "j < length qs" for j using that by (simp add: nth_enumerate_eq)
  have "map mps_nid ?xs = map (subnodeNid n) [0..<length qs]"
    by (rule nth_equalityI) (simp_all add: nth_enumerate_eq)
  moreover have "inj_on (subnodeNid n) {0..<length qs}" using subnodeNid_inject assms(2) by (auto simp: inj_on_def)
  ultimately have "distinct (map mps_nid ?xs)" by (simp add: distinct_map)
  from find_nth [OF this, of k] assms(1) n [OF assms(1)] show ?thesis by simp
qed

lemma item_value:
  assumes r: "readPropertyContext (mpr_hnBytes r) = Inr (map (expectProp n (sortPc props)) [0..<length props])"
    and s: "mpr_subnodes r = map (\<lambda>(k, p). \<lparr>mps_nid = subnodeNid n k, mps_pidTagId = pc_pidTagId p, mps_bytes = pc_value p\<rparr>)
        (enumerate 0 (filter (\<lambda>p. classOf p = RsSubnode) (sortPc props)))"
    and d: "distinct (map pc_pidTagId props)" and l: "length props \<le> 64"
  shows "itemValue r = map_of (map (\<lambda>p. (pc_pidTagId p, storedValue p)) props)"
proof
  fix tag
  let ?S = "sortPc props" and ?E = "map (expectProp n (sortPc props)) [0..<length props]"
  have tagE: "rp_pidTagId (expectProp n ?S i) = pc_pidTagId (?S ! i)" for i
    by (cases "classOf (?S ! i)") (simp_all add: expectProp_def Let_def)
  have tags: "map rp_pidTagId ?E = map pc_pidTagId ?S" by (rule nth_equalityI) (simp_all add: tagE)
  have dS: "distinct (map pc_pidTagId ?S)" using d by (metis mset_eq_imp_distinct_iff mset_map mset_sort)
  then have dE: "distinct (map rp_pidTagId ?E)" by (simp only: tags)
  show "itemValue r tag = map_of (map (\<lambda>p. (pc_pidTagId p, storedValue p)) props) tag"
  proof (cases "tag \<in> set (map pc_pidTagId props)")
    case False
    then have "List.find (\<lambda>p. rp_pidTagId p = tag) ?E = None"
      unfolding find_None_iff using tags by (metis (no_types, lifting) image_eqI list.set_map set_sort)
    moreover have "map_of (map (\<lambda>p. (pc_pidTagId p, storedValue p)) props) tag = None"
      using False by (auto simp: map_of_eq_None_iff)
    ultimately show ?thesis by (simp add: itemValue_def r)
  next
    case True
    then obtain i where i: "i < length props" "tag = pc_pidTagId (?S ! i)"
      by (metis (no_types, lifting) in_set_conv_nth length_map length_sort nth_map set_map set_sort)
    have f: "List.find (\<lambda>p. rp_pidTagId p = tag) ?E = Some (expectProp n ?S i)"
      using find_nth [OF dE, of i] i by (simp add: tagE)
    have "?S ! i \<in> set props" using i(1) by (metis length_sort nth_mem set_sort)
    then have m: "map_of (map (\<lambda>p. (pc_pidTagId p, storedValue p)) props) tag = Some (storedValue (?S ! i))"
      using d i(2) by (intro map_of_is_SomeI) (auto simp: comp_def)
    have "classCount RsSubnode (take i ?S) < length (filter (\<lambda>p. classOf p = RsSubnode) ?S)
        \<and> filter (\<lambda>p. classOf p = RsSubnode) ?S ! classCount RsSubnode (take i ?S) = ?S ! i"
      if "classOf (?S ! i) = RsSubnode"
      using that i(1) filter_nth_take [of i ?S "\<lambda>p. classOf p = RsSubnode"] filter_take_less [of i ?S "\<lambda>p. classOf p = RsSubnode"]
      by (simp add: classCount_def)
    moreover have "length (filter (\<lambda>p. classOf p = RsSubnode) ?S) < 2 ^ 27"
      using length_filter_le [of "\<lambda>p. classOf p = RsSubnode" ?S] l by simp
    ultimately show ?thesis
      using find_subnode [of "classCount RsSubnode (take i ?S)" "filter (\<lambda>p. classOf p = RsSubnode) ?S" n]
      by (cases "classOf (?S ! i)") (simp_all add: itemValue_def r f m s expectProp_def Let_def, simp_all add: storedValue_def)
  qed
qed


lemma storedValue_simps:
  "storedValue (autoProp t PtUnicode u) = u" "storedValue (autoProp t PtBinary u) = u" "storedValue (autoProp t PtSystemTime u) = u"
  "storedValue (autoProp t PtInt32 (writeU32 (zeros 4) 0 v)) = le32 v"
  "storedValue (autoProp t PtBoolean [b]) = [b, 0, 0, 0]"
proof -
  have "writeU32 (zeros 4) 0 v = le32 v" by (simp add: write_defs store_all)
  then show "storedValue (autoProp t PtInt32 (writeU32 (zeros 4) 0 v)) = le32 v"
    by (simp add: storedValue_def classOf_def resolveStorage_def packInlineValue_def isFixedSize_def fixedSize_def Let_def
        store_all readU32_le32)
  have "store (zeros 4) 0 [b] = [b, 0, 0, 0]" by (simp add: store_def zeros_def numeral_eq_Suc)
  moreover have "le32 (ucast b) = [b, 0, 0, 0]"
    by (simp add: le32_def byte_mask) (intro conjI bit_word_eqI; auto simp: bit_simps dest: bit_imp_le_length)
  then have "le32 (readU32 [b, 0, 0, 0] 0) = [b, 0, 0, 0]" by (metis readU32_le32)
  ultimately show "storedValue (autoProp t PtBoolean [b]) = [b, 0, 0, 0]"
    by (simp add: storedValue_def classOf_def resolveStorage_def packInlineValue_def isFixedSize_def fixedSize_def Let_def)
qed (simp_all add: storedValue_def classOf_def resolveStorage_def isFixedSize_def fixedSize_def)

lemma mapM_id_all: "mapM_r id xs = Inr ys \<Longrightarrow> x \<in> set xs \<Longrightarrow> \<exists>y \<in> set ys. x = Inr y"
proof (induction xs arbitrary: ys)
  case (Cons z zs)
  then show ?case by (auto simp: bind_r_Inr id_def)
qed simp

context item_builder
begin

lemma value_of_call:
  assumes "buildPc c ctx = Inr r" and "call \<in> set (calls c ctx)"
  shows "\<exists>ps. call = Inr ps \<and> list_all (\<lambda>p. itemValue r (pc_pidTagId p) = Some (storedValue p)) ps"
proof -
  obtain props where p: "propsOf (calls c ctx) = Inr props" "length (mpr_hnBytes r) \<le> 8176"
    "readPropertyContext (mpr_hnBytes r) = Inr (map (expectProp (ctx_subnodeStart ctx) (sortPc props)) [0..<length props])"
    "mpr_subnodes r = map (\<lambda>(k, p). \<lparr>mps_nid = subnodeNid (ctx_subnodeStart ctx) k, mps_pidTagId = pc_pidTagId p, mps_bytes = pc_value p\<rparr>)
        (enumerate 0 (filter (\<lambda>p. classOf p = RsSubnode) (sortPc props)))"
    using reads_back [OF assms(1)] .
  note ok = props_ok [OF p(1)]
  obtain pss where pss: "mapM_r id (calls c ctx) = Inr pss" "props = concat pss" using p(1) by (auto simp: propsOf_def bind_r_Inr)
  obtain ps where ps: "call = Inr ps" "ps \<in> set pss" using mapM_id_all [OF pss(1) assms(2)] by blast
  have "itemValue r (pc_pidTagId q) = Some (storedValue q)" if "q \<in> set ps" for q
    unfolding item_value [OF p(3,4) ok(1,4)]
    using ok(1) that ps(2) pss(2) by (intro map_of_is_SomeI) (auto simp: comp_def)
  then show ?thesis using ps(1) by (auto simp: list_all_iff)
qed

lemma absent_value:
  assumes "buildPc c ctx = Inr r" and "t \<notin> set (tags c)"
  shows "itemValue r t = None"
proof -
  obtain props where p: "propsOf (calls c ctx) = Inr props" "length (mpr_hnBytes r) \<le> 8176"
    "readPropertyContext (mpr_hnBytes r) = Inr (map (expectProp (ctx_subnodeStart ctx) (sortPc props)) [0..<length props])"
    "mpr_subnodes r = map (\<lambda>(k, p). \<lparr>mps_nid = subnodeNid (ctx_subnodeStart ctx) k, mps_pidTagId = pc_pidTagId p, mps_bytes = pc_value p\<rparr>)
        (enumerate 0 (filter (\<lambda>p. classOf p = RsSubnode) (sortPc props)))"
    using reads_back [OF assms(1)] .
  obtain pss where pss: "mapM_r id (calls c ctx) = Inr pss" "props = concat pss" using p(1) by (auto simp: propsOf_def bind_r_Inr)
  have "set (map pc_pidTagId props) \<subseteq> set (tags c)" using calls_tags [OF tagged distinct_tags pss(1)] pss(2) by simp
  then show ?thesis
    unfolding item_value [OF p(3,4) props_ok(1,4) [OF p(1)]] using assms(2) by (auto simp: map_of_eq_None_iff)
qed

text \<open>The values that the calls leave for a reader.\<close>

lemma call_values:
  assumes "buildPc c ctx = Inr r"
  shows "addInt32 t v \<in> set (calls c ctx) \<Longrightarrow> itemValue r t = Some (le32 v)"
    and "addBoolean t b \<in> set (calls c ctx) \<Longrightarrow> itemValue r t = Some [if b then 1 else 0, 0, 0, 0]"
    and "addUnicodeString t s \<in> set (calls c ctx) \<Longrightarrow> s \<noteq> [] \<Longrightarrow> \<exists>u. utf8ToUtf16le s = Inr u \<and> itemValue r t = Some u"
    and "addBinary t bs \<in> set (calls c ctx) \<Longrightarrow> bs \<noteq> [] \<Longrightarrow> itemValue r t = Some bs"
    and "addTime t d \<in> set (calls c ctx) \<Longrightarrow> d \<noteq> [] \<Longrightarrow> \<exists>k. isoToFiletimeTicks d = Inr k \<and> itemValue r t = Some (le64 k)"
proof -
  have w: "writeU64 (zeros 8) 0 k = le64 k" for k by (simp add: write_defs store_all)
  note call = value_of_call [OF assms]
  show "addInt32 t v \<in> set (calls c ctx) \<Longrightarrow> itemValue r t = Some (le32 v)"
    "addBoolean t b \<in> set (calls c ctx) \<Longrightarrow> itemValue r t = Some [if b then 1 else 0, 0, 0, 0]"
    using call by (fastforce simp: addInt32_def addBoolean_def storedValue_simps)+
  show "addUnicodeString t s \<in> set (calls c ctx) \<Longrightarrow> s \<noteq> [] \<Longrightarrow> \<exists>u. utf8ToUtf16le s = Inr u \<and> itemValue r t = Some u"
    "addBinary t bs \<in> set (calls c ctx) \<Longrightarrow> bs \<noteq> [] \<Longrightarrow> itemValue r t = Some bs"
    "addTime t d \<in> set (calls c ctx) \<Longrightarrow> d \<noteq> [] \<Longrightarrow> \<exists>k. isoToFiletimeTicks d = Inr k \<and> itemValue r t = Some (le64 k)"
    using call by (fastforce simp: addUnicodeString_def addBinary_def addTime_def addSystemTime_def storedValue_simps bind_r_Inr w)+
qed

end

section \<open>What a mail message stores\<close>

text \<open>A string, a time or a binary value is stored unless it is empty.\<close>

definition showsText :: "MailPcResult \<Rightarrow> u16 \<Rightarrow> bytes \<Rightarrow> bool" where
  "showsText r tag s \<longleftrightarrow> (if s = [] then True else case utf8ToUtf16le s of Inl e \<Rightarrow> False | Inr u \<Rightarrow> itemValue r tag = Some u)"

definition showsTime :: "MailPcResult \<Rightarrow> u16 \<Rightarrow> bytes \<Rightarrow> bool" where
  "showsTime r tag d \<longleftrightarrow> (if d = [] then True else case isoToFiletimeTicks d of Inl e \<Rightarrow> False | Inr k \<Rightarrow> itemValue r tag = Some (le64 k))"

definition showsBinary :: "MailPcResult \<Rightarrow> u16 \<Rightarrow> bytes \<Rightarrow> bool" where
  "showsBinary r tag bs \<longleftrightarrow> (if bs = [] then True else itemValue r tag = Some bs)"

lemma shows_empty [simp]: "showsText r t []" "showsTime r t []" "showsBinary r t []"
  by (simp_all add: showsText_def showsTime_def showsBinary_def)

context item_builder
begin

lemma shows_calls:
  assumes "buildPc c ctx = Inr r"
  shows "addUnicodeString t s \<in> set (calls c ctx) \<Longrightarrow> showsText r t s"
    and "addBinary t bs \<in> set (calls c ctx) \<Longrightarrow> showsBinary r t bs"
    and "addTime t d \<in> set (calls c ctx) \<Longrightarrow> showsTime r t d"
  using call_values(3-5) [OF assms] by (fastforce simp: showsText_def showsBinary_def showsTime_def)+

text \<open>The same for a value whose computation can fail.\<close>

lemma shows_bound:
  assumes "buildPc c ctx = Inr r" and "bind_r v (addBinary t) \<in> set (calls c ctx)"
  shows "\<exists>bs. v = Inr bs \<and> showsBinary r t bs"
proof -
  obtain ps where "bind_r v (addBinary t) = Inr ps" using value_of_call [OF assms] by blast
  then obtain bs where "v = Inr bs" by (auto simp: bind_r_Inr)
  then show ?thesis using shows_calls(2) [OF assms(1), of t bs] assms(2) by simp
qed

end

text \<open>The bits of the flags, and the two parts of a subject.\<close>

lemma computeMessageFlags_bits:
  "bit (computeMessageFlags m) n \<longleftrightarrow>
     n = 0 \<and> gm_isRead (gm m) \<or> n = 3 \<and> gm_isDraft (gm m) \<or> n = 4 \<and> (gm_attachments m \<noteq> [] \<or> gm_hasAttachments (gm m))"
proof -
  have e: "bit (1 :: u32) n \<longleftrightarrow> n = 0" "bit (8 :: u32) n \<longleftrightarrow> n = 3" "bit (16 :: u32) n \<longleftrightarrow> n = 4"
    using bit_exp_iff [where 'a = u32, of 3 n] bit_exp_iff [where 'a = u32, of 4 n] by (auto simp: bit_1_iff)
  then show ?thesis
    unfolding computeMessageFlags_def kMsgFlagRead_def kMsgFlagUnsent_def kMsgFlagHasAttach_def Let_def
    by (auto simp: bit_or_iff e simp del: bit_1_iff)
qed

lemma computeMessageFlags_sum:
  "computeMessageFlags m = (if gm_isRead (gm m) then 1 else 0) + (if gm_isDraft (gm m) then 8 else 0)
     + (if gm_attachments m \<noteq> [] \<or> gm_hasAttachments (gm m) then 0x10 else 0)"
  by (simp add: computeMessageFlags_def kMsgFlagRead_def kMsgFlagUnsent_def kMsgFlagHasAttach_def Let_def)

text \<open>
  The parts of a subject: the prefix is one to three ASCII letters, a colon and a blank, or empty when the subject does
  not begin with such a text.
\<close>

definition subjectPrefix :: "bytes \<Rightarrow> bool" where
  "subjectPrefix p \<longleftrightarrow> (\<exists>w. p = w @ [0x3A, 0x20] \<and> 1 \<le> length w \<and> length w \<le> 3
     \<and> list_all (\<lambda>c. 0x41 \<le> c \<and> c \<le> 0x5A \<or> 0x61 \<le> c \<and> c \<le> 0x7A) w)"

definition subjectSplit :: "bytes \<Rightarrow> bytes \<Rightarrow> bytes \<Rightarrow> bool" where
  "subjectSplit s p n \<longleftrightarrow> p @ n = s \<and> (subjectPrefix p \<or> p = [] \<and> \<not> (\<exists>q r. s = q @ r \<and> subjectPrefix q))"

lemma isLetter_code: "isLetter c \<longleftrightarrow> 0x41 \<le> c \<and> c \<le> 0x5A \<or> 0x61 \<le> c \<and> c \<le> 0x7A"
  by (simp add: isLetter_def)

lemma subjectPrefix_letters:
  "subjectPrefix p \<longleftrightarrow> (\<exists>w. p = w @ [0x3A, 0x20] \<and> 1 \<le> length w \<and> length w \<le> 3 \<and> list_all isLetter w)"
  by (simp add: subjectPrefix_def isLetter_code list_all_iff)

lemma countLetters_le: "countLetters n s \<le> n" "countLetters n s \<le> length s" "list_all isLetter (take (countLetters n s) s)"
  by (induction n s rule: countLetters.induct) simp_all

lemma countLetters_word: "list_all isLetter w \<Longrightarrow> length w \<le> n \<Longrightarrow> \<not> isLetter c \<Longrightarrow> countLetters n (w @ c # r) = length w"
proof (induction w arbitrary: n)
  case Nil
  then show ?case by (cases n) simp_all
next
  case (Cons x w)
  then show ?case by (cases n) simp_all
qed

lemma splitSubject_split: "subjectSplit s (sp_prefix (splitSubject s)) (sp_normalized (splitSubject s))"
proof -
  let ?k = "countLetters 3 s"
  let ?c = "?k \<ge> 1 \<and> ?k + 1 < length s \<and> s ! ?k = 0x3A \<and> s ! (?k + 1) = 0x20"
  have split: "splitSubject s = (if ?c then \<lparr>sp_prefix = take (?k + 2) s, sp_normalized = drop (?k + 2) s\<rparr>
      else \<lparr>sp_prefix = [], sp_normalized = s\<rparr>)"
    by (simp add: splitSubject_def Let_def)
  show ?thesis
  proof (cases ?c)
    case True
    then have "take (?k + 2) s = take ?k s @ [0x3A, 0x20]"
      by (simp add: take_Suc_conv_app_nth)
    moreover have "length (take ?k s) = ?k" "?k \<le> 3" using countLetters_le(1,2) [of 3 s] by simp_all
    ultimately have "subjectPrefix (take (?k + 2) s)"
      using True countLetters_le(3) [of 3 s] unfolding subjectPrefix_letters
      by (intro exI [of _ "take ?k s"]) simp
    then show ?thesis using True by (simp add: split subjectSplit_def)
  next
    case False
    have "\<not> (\<exists>q r. s = q @ r \<and> subjectPrefix q)"
    proof
      assume "\<exists>q r. s = q @ r \<and> subjectPrefix q"
      then obtain w r where w: "s = w @ 0x3A # 0x20 # r" "1 \<le> length w" "length w \<le> 3" "list_all isLetter w"
        unfolding subjectPrefix_letters by auto
      then have "?k = length w" by (simp add: countLetters_word isLetter_code)
      then show False using w False by (simp add: nth_append)
    qed
    then show ?thesis by (simp only: split if_not_P [OF False]) (simp add: subjectSplit_def)
  qed
qed

text \<open>Texts put after one another with a separator between them, and the recipients of a message in that form.\<close>

fun joinWith :: "bytes \<Rightarrow> bytes list \<Rightarrow> bytes" where
  "joinWith sep [] = []"
| "joinWith sep [x] = x"
| "joinWith sep (x # y # xs) = x @ sep @ joinWith sep (y # xs)"

lemma joinWith_first: "joinWith sep ((a @ sep @ b) # xs) = joinWith sep (a # b # xs)"
  by (cases xs) simp_all

lemma joinLoop_join:
  "joinLoop rs out = joinWith [0x3B, 0x20] (filter (\<lambda>l. l \<noteq> [])
     (out # map (\<lambda>r. if ea_name (rcp_emailAddress r) \<noteq> [] then ea_name (rcp_emailAddress r) else ea_address (rcp_emailAddress r)) rs))"
proof (induction rs arbitrary: out)
  case (Cons r rs)
  show ?case
    using joinWith_first [of "[0x3B, 0x20]" out] by (simp add: Cons Let_def)
qed simp

lemma joinRecipientDisplay_join:
  "joinRecipientDisplay rs = joinWith [0x3B, 0x20] (filter (\<lambda>l. l \<noteq> [])
     (map (\<lambda>r. if ea_name (rcp_emailAddress r) \<noteq> [] then ea_name (rcp_emailAddress r) else ea_address (rcp_emailAddress r)) rs))"
  by (simp add: joinRecipientDisplay_def joinLoop_join)

text \<open>The size is the sum of the parts that are counted, cut at the range of the property.\<close>

definition countedSizes :: "GraphMessage \<Rightarrow> nat list" where
  "countedSizes m =
     [length (gm_subject (gm m)), length (body_content (gm_body (gm m))), length (gm_bodyPreview (gm m))]
     @ map (\<lambda>h. length (imh_name h) + length (imh_value h) + 4) (gm_internetMessageHeaders (gm m))
     @ map (\<lambda>a. (if 0 <s att_size (att a) then unat (att_size (att a)) else 0) + length (att_name (att a)) + length (att_contentType (att a)))
         (gm_attachments m)"

lemma fold_sizes:
  "unat (t :: u64) + sum_list (map f xs) < 2 ^ 64 \<Longrightarrow> (\<And>x t. g x t = t + word_of_nat (f x)) \<Longrightarrow> unat (fold g xs t) = unat t + sum_list (map f xs)"
proof (induction xs arbitrary: t)
  case (Cons x xs)
  have "unat (t + word_of_nat (f x)) = unat t + f x" using Cons.prems(1) by (simp add: unat_word_ariths unat_of_nat)
  then show ?case using Cons.IH [of "t + word_of_nat (f x)"] Cons.prems by simp
qed simp

lemma messageSize_sum:
  assumes "sum_list (countedSizes m) < 2 ^ 64"
  shows "unat (estimateMessageSize m) = min (sum_list (countedSizes m)) 0xFFFFFFFF"
proof -
  let ?f = "gm m" and ?h = "\<lambda>h. length (imh_name h) + length (imh_value h) + 4"
  let ?a = "\<lambda>a. (if 0 <s att_size (att a) then unat (att_size (att a)) else 0) + length (att_name (att a)) + length (att_contentType (att a))"
  define A where "A = sizeOf (gm_subject ?f) + sizeOf (body_content (gm_body ?f)) + sizeOf (gm_bodyPreview ?f)"
  define H where "H = fold (\<lambda>h total. total + (sizeOf (imh_name h) + sizeOf (imh_value h) + 4)) (gm_internetMessageHeaders ?f) A"
  define T where "T = fold (\<lambda>a total. total + (if 0 <s att_size (att a) then ucast (att_size (att a)) else 0)
      + (sizeOf (att_name (att a)) + sizeOf (att_contentType (att a)))) (gm_attachments m) H"
  have s: "length (gm_subject ?f) + length (body_content (gm_body ?f)) + length (gm_bodyPreview ?f)
      + sum_list (map ?h (gm_internetMessageHeaders ?f)) + sum_list (map ?a (gm_attachments m)) < 2 ^ 64"
    using assms by (simp add: countedSizes_def)
  then have A: "unat A = length (gm_subject ?f) + length (body_content (gm_body ?f)) + length (gm_bodyPreview ?f)"
    by (simp add: A_def sizeOf_def unat_word_ariths unat_of_nat)
  have H: "unat H = unat A + sum_list (map ?h (gm_internetMessageHeaders ?f))"
    unfolding H_def by (rule fold_sizes) (use s A in \<open>simp_all add: sizeOf_def add.assoc\<close>)
  have T: "unat T = unat H + sum_list (map ?a (gm_attachments m))"
    unfolding T_def by (rule fold_sizes) (use s A H in \<open>simp_all add: sizeOf_def add.assoc\<close>)
  have "estimateMessageSize m = ucast (if T > 0xFFFFFFFF then 0xFFFFFFFF else T)"
    by (simp add: estimateMessageSize_def Let_def T_def H_def A_def)
  moreover have "unat T = sum_list (countedSizes m)" using A H T by (simp add: countedSizes_def)
  ultimately show ?thesis by (simp add: word_less_nat_alt unsigned_ucast_eq take_bit_nat_eq_self min_def)
qed


section \<open>Properties\<close>

text \<open>
  C39: A message becomes a property context exactly when the first subnode identifier is not a heap identifier, every
  conversion of its strings and times succeeds, and the properties fit a block of 8176 bytes: there is no other
  reason to refuse one.
\<close>
theorem mail_pc_accepts:
  "(\<exists>r. buildMailPc m ctx = Inr r) \<longleftrightarrow>
     nid_type (ctx_subnodeStart ctx) \<noteq> NtHID \<and> (\<exists>props. propsOf (mailCalls m) = Inr props \<and> pcSize props \<le> 8176)"
  by (rule mail.accepts)

text \<open>The conjuncts of the next property.\<close>

lemma mail_calls_subset:
  "addUnicodeString 0x001A (ascii ''IPM.Note'') \<in> set (mailCalls m)"
  "gm_subject (gm m) \<noteq> [] \<Longrightarrow> set (subjectCalls (gm_subject (gm m))) \<subseteq> set (mailCalls m)"
  "set (bodyCalls (gm m)) \<subseteq> set (mailCalls m)" "set (flagCalls m) \<subseteq> set (mailCalls m)"
  "set (displayCalls (gm m)) \<subseteq> set (mailCalls m)" "set (timeCalls (gm m)) \<subseteq> set (mailCalls m)"
  "set (identityCalls (gm m)) \<subseteq> set (mailCalls m)" "senderOf (gm m) = Some e \<Longrightarrow> set (senderCalls e) \<subseteq> set (mailCalls m)"
  by (auto simp: mailCalls_def Let_def)

lemma mail_subject:
  assumes "buildMailPc m ctx = Inr r"
  shows "showsText r 0x0037 (gm_subject (gm m))" and "showsText r 0x003D (sp_prefix (splitSubject (gm_subject (gm m))))"
    and "showsText r 0x0E1D (sp_normalized (splitSubject (gm_subject (gm m))))"
    and "showsText r 0x0070 (sp_normalized (splitSubject (gm_subject (gm m))))"
proof -
  let ?s = "gm_subject (gm m)"
  have e: "splitSubject [] = \<lparr>sp_prefix = [], sp_normalized = []\<rparr>" by (simp add: splitSubject_def)
  have c: "set (subjectCalls ?s) \<subseteq> set (mailCalls m)" if "?s \<noteq> []" using mail_calls_subset(2) that .
  note t = mail.shows_calls(1) [OF assms]
  show "showsText r 0x0037 ?s" using c t by (cases "?s = []") (auto simp: subjectCalls_def Let_def)
  show "showsText r 0x003D (sp_prefix (splitSubject ?s))"
    using c t by (cases "?s = []"; cases "sp_prefix (splitSubject ?s) = []") (auto simp: subjectCalls_def Let_def e)
  show "showsText r 0x0E1D (sp_normalized (splitSubject ?s))" "showsText r 0x0070 (sp_normalized (splitSubject ?s))"
    using c t by (cases "?s = []"; cases "sp_normalized (splitSubject ?s) = []"; auto simp: subjectCalls_def Let_def e)+
qed

lemma mail_body:
  assumes "buildMailPc m ctx = Inr r"
  shows "case body_contentType (gm_body (gm m)) of
      BodyText \<Rightarrow> showsText r 0x1000 (body_content (gm_body (gm m)))
    | BodyHtml \<Rightarrow> showsBinary r 0x1013 (body_content (gm_body (gm m))) \<and> showsText r 0x1000 (gm_bodyPreview (gm m))
        \<and> itemValue r 0x3FDE = Some (le32 65001)"
proof -
  note c = mail_calls_subset(3,4) [of m] and t = mail.shows_calls(1,2) [OF assms] and i = mail.call_values(1) [OF assms]
  show ?thesis
  proof (cases "body_contentType (gm_body (gm m))")
    case BodyText
    then show ?thesis using c(1) t(1)
      by (cases "body_content (gm_body (gm m)) = []") (auto simp: bodyCalls_def Let_def)
  next
    case BodyHtml
    have "showsBinary r 0x1013 (body_content (gm_body (gm m)))" "showsText r 0x1000 (gm_bodyPreview (gm m))"
      using BodyHtml c(1) t
      by (cases "body_content (gm_body (gm m)) = []"; cases "gm_bodyPreview (gm m) = []"; auto simp: bodyCalls_def Let_def)+
    moreover have "itemValue r 0x3FDE = Some (le32 65001)" using BodyHtml c(2) i by (auto simp: flagCalls_def)
    ultimately show ?thesis using BodyHtml by simp
  qed
qed

lemma mail_flags:
  assumes "buildMailPc m ctx = Inr r"
  shows "itemValue r 0x0017 = Some (le32 (importanceVal (gm_importance (gm m))))"
    and "itemValue r 0x0E07 = Some (le32 (computeMessageFlags m))"
    and "itemValue r 0x0E1B = Some [if gm_attachments m \<noteq> [] \<or> gm_hasAttachments (gm m) then 1 else 0, 0, 0, 0]"
    and "itemValue r 0x0E08 = Some (le32 (estimateMessageSize m))"
  using mail_calls_subset(4) [of m] mail.call_values(1,2) [OF assms] by (simp_all add: flagCalls_def)

lemma mail_display:
  assumes "buildMailPc m ctx = Inr r"
  shows "showsText r 0x0E04 (joinRecipientDisplay (gm_toRecipients (gm m)))"
    and "showsText r 0x0E03 (joinRecipientDisplay (gm_ccRecipients (gm m)))"
    and "showsText r 0x0E02 (joinRecipientDisplay (gm_bccRecipients (gm m)))"
  using mail_calls_subset(5) [of m] mail.shows_calls(1) [OF assms] by (simp_all add: displayCalls_def)

lemma mail_times:
  assumes "buildMailPc m ctx = Inr r"
  shows "showsTime r 0x3007 (gm_createdDateTime (gm m))" and "showsTime r 0x3008 (gm_lastModifiedDateTime (gm m))"
    and "showsTime r 0x0039 (gm_sentDateTime (gm m))" and "showsTime r 0x0E06 (gm_receivedDateTime (gm m))"
  using mail_calls_subset(6) [of m] mail.shows_calls(3) [OF assms] by (simp_all add: timeCalls_def)

lemma mail_sender:
  assumes "buildMailPc m ctx = Inr r" and "senderOf (gm m) = Some e"
  shows "showsText r 0x0C1A (ea_name e)" and "showsText r 0x0C1F (ea_address e)"
    and "ea_address e \<noteq> [] \<Longrightarrow> \<exists>bs. makeOneOffEntryId (ea_name e) (ea_address e) = Inr bs \<and> showsBinary r 0x0C19 bs"
proof -
  note c = mail_calls_subset(8) [OF assms(2)] and t = mail.shows_calls(1) [OF assms(1)]
  show "showsText r 0x0C1A (ea_name e)" using c t by (cases "ea_name e = []") (auto simp: senderCalls_def)
  show "showsText r 0x0C1F (ea_address e)" using c t by (cases "ea_address e = []") (auto simp: senderCalls_def)
  show "\<exists>bs. makeOneOffEntryId (ea_name e) (ea_address e) = Inr bs \<and> showsBinary r 0x0C19 bs" if "ea_address e \<noteq> []"
    using that c by (intro mail.shows_bound [OF assms(1)]) (auto simp: senderCalls_def)
qed


text \<open>What a reader finds about the recipients of a kind and about a person.\<close>

definition showsNames :: "MailPcResult \<Rightarrow> u16 \<Rightarrow> Recipient list \<Rightarrow> bool" where
  "showsNames r tag rs \<longleftrightarrow> showsText r tag (joinWith [0x3B, 0x20] (filter (\<lambda>l. l \<noteq> [])
     (map (\<lambda>x. if ea_name (rcp_emailAddress x) \<noteq> [] then ea_name (rcp_emailAddress x) else ea_address (rcp_emailAddress x)) rs)))"

definition showsSender :: "MailPcResult \<Rightarrow> EmailAddress \<Rightarrow> bool" where
  "showsSender r e \<longleftrightarrow> showsText r 0x0C1A (ea_name e) \<and> showsText r 0x0042 (ea_name e)
     \<and> showsText r 0x0C1F (ea_address e) \<and> showsText r 0x0065 (ea_address e)"

lemma mail_people:
  assumes "buildMailPc m ctx = Inr r"
  shows "showsNames r 0x0E04 (gm_toRecipients (gm m))" and "showsNames r 0x0E03 (gm_ccRecipients (gm m))"
    and "showsNames r 0x0E02 (gm_bccRecipients (gm m))"
    and "if gm_hasSender (gm m) then showsSender r (gm_sender (gm m))
      else if gm_hasFrom (gm m) then showsSender r (gm_from (gm m)) else True"
proof -
  show "showsNames r 0x0E04 (gm_toRecipients (gm m))" "showsNames r 0x0E03 (gm_ccRecipients (gm m))"
    "showsNames r 0x0E02 (gm_bccRecipients (gm m))"
    unfolding showsNames_def joinRecipientDisplay_join [symmetric] using mail_display [OF assms] .
  have sender: "showsSender r e" if "senderOf (gm m) = Some e" for e
  proof -
    note c = mail_calls_subset(8) [OF that] and t = mail.shows_calls(1) [OF assms]
    show ?thesis
      unfolding showsSender_def
      using c t by (cases "ea_name e = []"; cases "ea_address e = []"; auto simp: senderCalls_def)
  qed
  show "if gm_hasSender (gm m) then showsSender r (gm_sender (gm m))
      else if gm_hasFrom (gm m) then showsSender r (gm_from (gm m)) else True"
    using sender by (simp add: senderOf_def)
qed

lemma mail_identity:
  assumes "buildMailPc m ctx = Inr r"
  shows "showsText r 0x1035 (gm_internetMessageId (gm m))" and "showsBinary r 0x0071 (gm_conversationIndex (gm m))"
proof -
  note c = mail_calls_subset(7) [of m] and t = mail.shows_calls [OF assms]
  show "showsText r 0x1035 (gm_internetMessageId (gm m))"
    using c t(1) by (cases "gm_internetMessageId (gm m) = []") (auto simp: identityCalls_def Let_def)
  show "showsBinary r 0x0071 (gm_conversationIndex (gm m))"
    using c t(2) by (cases "gm_conversationIndex (gm m) = []") (auto simp: identityCalls_def Let_def)
qed

text \<open>
  C10: What a reader finds in the property context of a message: its class; its subject, with a prefix of one to three
  letters, a colon and a blank apart from the rest, or no prefix when there is none; its text body, or its HTML body with
  the preview as text and the code page; its importance; the sum of the flags for read, draft and attachments; its size;
  the names (or else addresses) of the To, Cc and Bcc recipients, each with a semicolon and a blank between them; its
  sender, or else its author; its Internet identifier and conversation index; and its four times.  Empty strings are left out.
\<close>
theorem mail_values:
  assumes "buildMailPc m ctx = Inr r"
  shows "showsText r 0x001A (ascii ''IPM.Note'') \<and> showsText r 0x0037 (gm_subject (gm m))
    \<and> (\<exists>p n. subjectSplit (gm_subject (gm m)) p n \<and> showsText r 0x003D p \<and> showsText r 0x0E1D n \<and> showsText r 0x0070 n)
    \<and> (case body_contentType (gm_body (gm m)) of
         BodyText \<Rightarrow> showsText r 0x1000 (body_content (gm_body (gm m)))
       | BodyHtml \<Rightarrow> showsBinary r 0x1013 (body_content (gm_body (gm m))) \<and> showsText r 0x1000 (gm_bodyPreview (gm m))
           \<and> itemValue r 0x3FDE = Some (le32 65001))
    \<and> itemValue r 0x0017 = Some (le32 (case gm_importance (gm m) of ImpLow \<Rightarrow> 0 | ImpNormal \<Rightarrow> 1 | ImpHigh \<Rightarrow> 2))
    \<and> itemValue r 0x0E07 = Some (le32 ((if gm_isRead (gm m) then 1 else 0) + (if gm_isDraft (gm m) then 8 else 0)
         + (if gm_attachments m \<noteq> [] \<or> gm_hasAttachments (gm m) then 0x10 else 0)))
    \<and> itemValue r 0x0E1B = Some [if gm_attachments m \<noteq> [] \<or> gm_hasAttachments (gm m) then 1 else 0, 0, 0, 0]
    \<and> itemValue r 0x0E08 = Some (le32 (estimateMessageSize m))
    \<and> showsNames r 0x0E04 (gm_toRecipients (gm m)) \<and> showsNames r 0x0E03 (gm_ccRecipients (gm m))
    \<and> showsNames r 0x0E02 (gm_bccRecipients (gm m))
    \<and> (if gm_hasSender (gm m) then showsSender r (gm_sender (gm m))
       else if gm_hasFrom (gm m) then showsSender r (gm_from (gm m)) else True)
    \<and> showsText r 0x1035 (gm_internetMessageId (gm m)) \<and> showsBinary r 0x0071 (gm_conversationIndex (gm m))
    \<and> showsTime r 0x3007 (gm_createdDateTime (gm m)) \<and> showsTime r 0x3008 (gm_lastModifiedDateTime (gm m))
    \<and> showsTime r 0x0039 (gm_sentDateTime (gm m)) \<and> showsTime r 0x0E06 (gm_receivedDateTime (gm m))"
proof -
  have "\<exists>p n. subjectSplit (gm_subject (gm m)) p n \<and> showsText r 0x003D p \<and> showsText r 0x0E1D n \<and> showsText r 0x0070 n"
    using splitSubject_split mail_subject(2-4) [OF assms] by blast
  moreover have "importanceVal i = (case i of ImpLow \<Rightarrow> 0 | ImpNormal \<Rightarrow> 1 | ImpHigh \<Rightarrow> 2)" for i
    by (cases i) simp_all
  note flags = mail_flags [OF assms, unfolded this computeMessageFlags_sum]
  ultimately show ?thesis
    using mail_subject(1) [OF assms] mail_body [OF assms] flags mail_people [OF assms] mail_identity [OF assms] mail_times [OF assms]
      mail.shows_calls(1) [OF assms mail_calls_subset(1)]
    by (intro conjI)
qed

text \<open>A message with a subject with a prefix, an HTML body and a time, and the context of a message.\<close>

definition sampleMail :: GraphMessage where
  "sampleMail =
     GraphMessage ((extractFields (JNull :: nat JsonValue))\<lparr>gm_subject := ascii ''RE: x'', gm_internetMessageId := ascii ''m'',
       gm_body := \<lparr>body_contentType = BodyHtml, body_content = ascii ''<p>''\<rparr>, gm_sentDateTime := ascii ''2024-01-02T03:04:05Z''\<rparr>) []"

definition sampleContext :: MailPcBuildContext where
  "sampleContext = \<lparr>ctx_providerUid = [], ctx_subnodeStart = Nid 0x41\<rparr>"

definition fits :: "PcProperty list result list \<Rightarrow> bool" where
  "fits calls \<longleftrightarrow> (case propsOf calls of Inl e \<Rightarrow> False | Inr props \<Rightarrow> pcSize props \<le> 8176)"

lemma fitsD: "fits calls \<Longrightarrow> \<exists>props. propsOf calls = Inr props \<and> pcSize props \<le> 8176"
  by (simp add: fits_def split: sum.splits)

lemma sampleMail_fits: "fits (mailCalls sampleMail)"
  by code_simp

lemma sampleContext_ok: "nid_type (ctx_subnodeStart sampleContext) \<noteq> NtHID"
  by code_simp

lemma sampleMail_builds: "\<exists>r. buildMailPc sampleMail sampleContext = Inr r"
  unfolding mail.accepts using sampleContext_ok fitsD [OF sampleMail_fits] by blast

lemma sampleMail_subject: "gm_subject (gm sampleMail) = ascii ''RE: x''"
  by (simp add: sampleMail_def)

theorem mail_values_witness: "\<exists>r. buildMailPc sampleMail sampleContext = Inr r \<and> showsText r 0x0037 (ascii ''RE: x'')"
proof -
  obtain r where r: "buildMailPc sampleMail sampleContext = Inr r" using sampleMail_builds by blast
  from mail_values [OF r] r show ?thesis unfolding sampleMail_subject by blast
qed

text \<open>
  C40: The size of a message counts the bytes of its subject, bodies and headers, and the sizes, names and types of its
  attachments, and is cut at the largest value of the property.
\<close>
theorem messageSize_counted:
  assumes "sum_list (countedSizes m) < 2 ^ 64"
  shows "unat (estimateMessageSize m) = min (sum_list (countedSizes m)) 0xFFFFFFFF"
  using assms by (rule messageSize_sum)

theorem messageSize_counted_witness: "unat (estimateMessageSize sampleMail) = 8"
proof -
  have "sum_list (countedSizes sampleMail) = 8" by code_simp
  then show ?thesis using messageSize_counted [of sampleMail] by simp
qed

lemma attachment_data:
  assumes "buildAttachmentPc a ctx = Inr r"
  shows "case att_kind (att a) of
      AttachFile \<Rightarrow> showsBinary r 0x3701 (att_contentBytes (att a))
    | AttachItem \<Rightarrow> (case att_item a of None \<Rightarrow> True
        | Some m \<Rightarrow> \<exists>nested. buildMailPc m (ctx\<lparr>ctx_subnodeStart := Nid (nid_value (ctx_subnodeStart ctx) + 0x4000)\<rparr>) = Inr nested
            \<and> showsBinary r 0x3701 (mpr_hnBytes nested))"
proof -
  have d: "attachmentDataCall a ctx \<in> set (attachmentCalls a ctx)" by (simp add: attachmentCalls_def Let_def)
  show ?thesis
  proof (cases "att_kind (att a)")
    case AttachFile
    then show ?thesis using attachment.shows_calls(2) [OF assms] d by (simp add: attachmentDataCall_def)
  next
    case AttachItem
    show ?thesis
    proof (cases "att_item a")
      case (Some m)
      let ?ctx = "ctx\<lparr>ctx_subnodeStart := Nid (nid_value (ctx_subnodeStart ctx) + 0x4000)\<rparr>"
      have call: "attachmentDataCall a ctx = bind_r (buildMailPc m ?ctx) (\<lambda>nested. addBinary 0x3701 (mpr_hnBytes nested))"
        using AttachItem Some by (simp add: attachmentDataCall_def)
      obtain ps where "attachmentDataCall a ctx = Inr ps" using attachment.value_of_call [OF assms d] by blast
      then obtain nested where nested: "buildMailPc m ?ctx = Inr nested" unfolding call by (auto simp: bind_r_Inr)
      then have "addBinary 0x3701 (mpr_hnBytes nested) \<in> set (attachmentCalls a ctx)" using d call by simp
      then show ?thesis using attachment.shows_calls(2) [OF assms] nested AttachItem Some by simp
    qed (simp add: AttachItem)
  qed
qed

lemma attachmentMethod_value: "attachMethod a = (case att_kind (att a) of AttachFile \<Rightarrow> 1 | AttachItem \<Rightarrow> 5)"
  by (simp add: attachMethod_def split: AttachmentKind.split)

lemma reportedSize_value:
  "reportedSize f = (let n = word_of_nat (length (att_contentBytes f) + 512) in
     if att_size f \<noteq> 0 then att_size f else if n = 0 then 512 else n)"
proof -
  have "(ucast (word_of_nat n :: u64) :: u32) = word_of_nat n" for n
    by (rule bit_word_eqI) (simp add: bit_simps)
  from this [of "length (att_contentBytes f) + 512"]
  have "(ucast (sizeOf (att_contentBytes f) + 512) :: u32) = word_of_nat (length (att_contentBytes f) + 512)"
    by (simp add: sizeOf_def)
  then show ?thesis by (simp add: reportedSize_def Let_def)
qed

text \<open>
  C20: What a reader finds in the property context of an attachment: the method, 1 for the bytes of a file and 5 for an
  embedded message; the size that was given, or else that of the bytes and 512 more; no rendering position; its name
  under the three tags of the name, its type and its content identifier; and as its data the bytes of the file, whatever
  their number, or the property context of the embedded message.  Empty strings are left out.
\<close>
theorem attachment_values:
  assumes "buildAttachmentPc a ctx = Inr r"
  shows "itemValue r 0x3705 = Some (le32 (case att_kind (att a) of AttachFile \<Rightarrow> 1 | AttachItem \<Rightarrow> 5))
    \<and> itemValue r 0x0E20 = Some (le32 (let n = word_of_nat (length (att_contentBytes (att a)) + 512) in
        if att_size (att a) \<noteq> 0 then att_size (att a) else if n = 0 then 512 else n))
    \<and> itemValue r 0x370B = Some [0xFF, 0xFF, 0xFF, 0xFF]
    \<and> showsText r 0x3704 (att_name (att a)) \<and> showsText r 0x3707 (att_name (att a)) \<and> showsText r 0x3001 (att_name (att a))
    \<and> showsText r 0x370E (att_contentType (att a)) \<and> showsText r 0x3712 (att_contentId (att a))
    \<and> (case att_kind (att a) of
         AttachFile \<Rightarrow> showsBinary r 0x3701 (att_contentBytes (att a))
       | AttachItem \<Rightarrow> (case att_item a of None \<Rightarrow> True
           | Some m \<Rightarrow> \<exists>nested. buildMailPc m (ctx\<lparr>ctx_subnodeStart := Nid (nid_value (ctx_subnodeStart ctx) + 0x4000)\<rparr>) = Inr nested
               \<and> showsBinary r 0x3701 (mpr_hnBytes nested)))"
proof -
  have n: "addUnicodeString t (att_name (att a)) \<in> set (attachmentCalls a ctx)"
    if "att_name (att a) \<noteq> []" "t = 0x3704 \<or> t = 0x3707 \<or> t = 0x3001" for t
    using that by (auto simp: attachmentCalls_def Let_def)
  note t = attachment.shows_calls(1) [OF assms]
  have "showsText r 0x3704 (att_name (att a))" "showsText r 0x3707 (att_name (att a))" "showsText r 0x3001 (att_name (att a))"
    using n t by (cases "att_name (att a) = []"; simp)+
  moreover have "showsText r 0x370E (att_contentType (att a))"
    using t by (cases "att_contentType (att a) = []") (auto simp: attachmentCalls_def Let_def)
  moreover have "showsText r 0x3712 (att_contentId (att a))"
    using t by (cases "att_contentId (att a) = []") (auto simp: attachmentCalls_def Let_def)
  moreover have "case att_kind (att a) of
      AttachFile \<Rightarrow> showsBinary r 0x3701 (att_contentBytes (att a))
    | AttachItem \<Rightarrow> (case att_item a of None \<Rightarrow> True
        | Some m \<Rightarrow> \<exists>nested. buildMailPc m (ctx\<lparr>ctx_subnodeStart := Nid (nid_value (ctx_subnodeStart ctx) + 0x4000)\<rparr>) = Inr nested
            \<and> showsBinary r 0x3701 (mpr_hnBytes nested))"
    by (rule attachment_data [OF assms])
  moreover have "itemValue r 0x3705 = Some (le32 (attachMethod a))" "itemValue r 0x0E20 = Some (le32 (reportedSize (att a)))"
    "itemValue r 0x370B = Some (le32 (- 1))"
    using attachment.call_values(1) [OF assms] by (simp_all add: attachmentCalls_def Let_def)
  moreover have "le32 (- 1) = [0xFF, 0xFF, 0xFF, 0xFF]" by code_simp
  ultimately show ?thesis unfolding attachmentMethod_value reportedSize_value by simp
qed


definition sampleAttachment :: Attachment where
  "sampleAttachment =
     Attachment \<lparr>att_kind = AttachFile, att_name = ascii ''f'', att_contentType = [], att_contentId = [], att_isInline = False,
       att_size = 2, att_contentBytes = [1, 2]\<rparr> None"

theorem attachment_values_witness:
  "\<exists>r. buildAttachmentPc sampleAttachment sampleContext = Inr r \<and> showsBinary r 0x3701 [1, 2]"
proof -
  have "fits (attachmentCalls sampleAttachment sampleContext)" by code_simp
  then obtain r where r: "buildAttachmentPc sampleAttachment sampleContext = Inr r"
    using attachment.accepts [of sampleAttachment sampleContext] sampleContext_ok fitsD by blast
  from attachment_values [OF r] r show ?thesis by (auto simp: sampleAttachment_def)
qed

end
