(* ===== verification/MailStore.thy ===== *)
theory MailStore
  imports Mail
begin

text \<open>
  \<open>writeM7Pst\<close> of \<open>src/mail.cpp\<close>: the baseline nodes, the folders with their tables, the NIDs and the table rows
  of the messages, and for each message its property context, its recipient and attachment tables and the block
  of subnodes that refers to them.  A null message pointer is no message.
\<close>

unbundle bit_operations_syntax

section \<open>The configuration\<close>

record M7Folder =
  mf_displayName :: bytes
  mf_nid :: Nid
  mf_parentNid :: Nid
  mf_containerClass :: bytes
  mf_messages :: "GraphMessage option list"

record M7PstConfig =
  m7_providerUid :: bytes
  m7_pstDisplayName :: bytes
  m7_folders :: "M7Folder list"

text \<open>A message with its NID and the position of its folder.\<close>

record MessageRecord =
  mr_src :: GraphMessage
  mr_folder :: nat
  mr_messageNid :: Nid

section \<open>Folders\<close>

definition contentCountOf :: "M7Folder FolderRecord \<Rightarrow> u32" where
  "contentCountOf rec = word_of_nat (length (mf_messages (fr_src rec)))"

definition contentUnreadCountOf :: "M7Folder FolderRecord \<Rightarrow> u32" where
  "contentUnreadCountOf rec =
     fold (\<lambda>m n. case m of None \<Rightarrow> n | Some m \<Rightarrow> if \<not> gm_isRead (gm m) then n + 1 else n) (mf_messages (fr_src rec)) 0"

text \<open>The names of a folder: the display name and the container class in UTF-16.\<close>

definition folderNames :: "bytes \<Rightarrow> bytes \<Rightarrow> (bytes \<times> bytes) result" where
  "folderNames displayName containerClass =
     bind_r (utf8ToUtf16le displayName) (\<lambda>n. bind_r (utf8ToUtf16le containerClass) (\<lambda>c. Inr (n, c)))"

definition folderSchema :: "bytes \<times> bytes \<Rightarrow> u32 \<Rightarrow> u32 \<Rightarrow> M7FolderSchema" where
  "folderSchema names contentCount unread =
     \<lparr>m7f_displayName = fst names, m7f_contentCount = contentCount, m7f_contentUnreadCount = unread,
      m7f_hasSubfolders = False, m7f_containerClass = snd names, m7f_pstHiddenCount = 0, m7f_pstHiddenUnreadCount = 0\<rparr>"

text \<open>A node with the body of a context or of a table that was built.\<close>

definition schedulePc :: "Nid \<Rightarrow> Nid \<Rightarrow> PcResult result \<Rightarrow> StoreState \<Rightarrow> StoreState result" where
  "schedulePc nid parent r st = bind_r r (\<lambda>pc. Inr (scheduleNode nid parent (pcr_hnBytes pc) (Bid 0) st))"

definition scheduleTc :: "Nid \<Rightarrow> TcResult result \<Rightarrow> StoreState \<Rightarrow> StoreState result" where
  "scheduleTc nid r st = bind_r r (\<lambda>tc. Inr (scheduleNode nid (Nid 0) (tcres_hnBytes tc) (Bid 0) st))"

definition scheduleFolder :: "M7Folder FolderRecord \<Rightarrow> (bytes \<times> bytes) list \<times> StoreState \<Rightarrow> ((bytes \<times> bytes) list \<times> StoreState) result" where
  "scheduleFolder rec s =
     (case s of (folderNameStore, st) \<Rightarrow>
       bind_r (folderNames (mf_displayName (fr_src rec)) (mf_containerClass (fr_src rec))) (\<lambda>names.
       bind_r (schedulePc (fr_folderNid rec) (mf_parentNid (fr_src rec))
                 (buildMailFolderPc (folderSchema names (contentCountOf rec) (contentUnreadCountOf rec)) kDummySub) st) (\<lambda>st.
       bind_r (scheduleTc (fr_hierarchyNid rec) (buildFolderHierarchyTc []) st) (\<lambda>st.
       bind_r (scheduleTc (fr_faiNid rec) buildFolderFaiContentsTc st) (\<lambda>st.
         Inr (folderNameStore @ [names], st))))))"

section \<open>Message NIDs\<close>

fun allocateMessages :: "nat \<Rightarrow> GraphMessage option list \<Rightarrow> M5Allocator \<Rightarrow> (MessageRecord list \<times> M5Allocator) result" where
  "allocateMessages folder [] alloc = Inr ([], alloc)"
| "allocateMessages folder (None # ms) alloc = allocateMessages folder ms alloc"
| "allocateMessages folder (Some m # ms) alloc =
     bind_r (allocOrThrow NtNormalMessage alloc) (\<lambda>(nid, alloc).
     bind_r (allocateMessages folder ms alloc) (\<lambda>(mrs, alloc).
       Inr (\<lparr>mr_src = m, mr_folder = folder, mr_messageNid = nid\<rparr> # mrs, alloc)))"

fun allocateFolderMessages :: "nat \<Rightarrow> M7Folder FolderRecord list \<Rightarrow> M5Allocator \<Rightarrow> (MessageRecord list \<times> M5Allocator) result" where
  "allocateFolderMessages folder [] alloc = Inr ([], alloc)"
| "allocateFolderMessages folder (rec # recs) alloc =
     bind_r (allocateMessages folder (mf_messages (fr_src rec)) alloc) (\<lambda>(mrs, alloc).
     bind_r (allocateFolderMessages (folder + 1) recs alloc) (\<lambda>(mrs', alloc). Inr (mrs @ mrs', alloc)))"

section \<open>Contents tables\<close>

definition u16leIf :: "bool \<Rightarrow> bytes \<Rightarrow> bytes result" where
  "u16leIf c s = (if c then utf8ToUtf16le s else Inr [])"

definition ticksIf :: "bytes \<Rightarrow> u64 result" where
  "ticksIf date = (if date \<noteq> [] then isoToFiletimeTicks date else Inr 0)"

definition representingName :: "MessageFields \<Rightarrow> bytes" where
  "representingName f =
     (if gm_hasFrom f \<and> ea_name (gm_from f) \<noteq> [] then ea_name (gm_from f)
      else if gm_hasSender f \<and> ea_name (gm_sender f) \<noteq> [] then ea_name (gm_sender f)
      else [])"

definition messageRow :: "MessageRecord \<Rightarrow> ContentsTcRow result" where
  "messageRow mr =
     (let m = mr_src mr; f = gm m; normalized = sp_normalized (splitSubject (gm_subject f));
          to = joinRecipientDisplay (gm_toRecipients f); cc = joinRecipientDisplay (gm_ccRecipients f)
      in bind_r (utf8ToUtf16le (ascii ''IPM.Note'')) (\<lambda>messageClass.
         bind_r (u16leIf (gm_subject f \<noteq> []) (gm_subject f)) (\<lambda>subject.
         bind_r (u16leIf (gm_subject f \<noteq> [] \<and> normalized \<noteq> []) normalized) (\<lambda>topic.
         bind_r (u16leIf (representingName f \<noteq> []) (representingName f)) (\<lambda>sender.
         bind_r (u16leIf (to \<noteq> []) to) (\<lambda>displayTo.
         bind_r (u16leIf (cc \<noteq> []) cc) (\<lambda>displayCc.
         bind_r (ticksIf (gm_receivedDateTime f)) (\<lambda>delivered.
         bind_r (ticksIf (gm_sentDateTime f)) (\<lambda>submitted.
         bind_r (ticksIf (gm_lastModifiedDateTime f)) (\<lambda>modified.
           Inr \<lparr>ctr_rowId = mr_messageNid mr, ctr_rowVer = 1, ctr_importance = importanceVal (gm_importance f),
                ctr_sensitivity = 0, ctr_messageStatus = 0, ctr_messageFlags = computeMessageFlags m,
                ctr_messageSize = estimateMessageSize m, ctr_messageToMe = False, ctr_messageCcMe = False,
                ctr_clientSubmitTime = submitted, ctr_messageDeliveryTime = delivered, ctr_lastModificationTime = modified,
                ctr_messageClass = messageClass, ctr_subject = subject, ctr_sentRepresentingName = sender,
                ctr_conversationTopic = topic, ctr_displayCc = displayCc, ctr_displayTo = displayTo,
                ctr_conversationIndex = gm_conversationIndex f, ctr_changeKey = []\<rparr>))))))))))"

definition kRowMatrixSubnode :: Nid where
  "kRowMatrixSubnode = Nid (ucast (nidTypeVal NtInternal) OR push_bit 5 1)"

text \<open>
  A list of payloads with their subnode NIDs becomes scheduled blocks and the entries of a block of subnodes, which
  the caller sorts by NID; \<open>std::sort\<close> is a sort that keeps equal keys in order.
\<close>

fun scheduleSubnodes :: "(Nid \<times> bytes) list \<Rightarrow> StoreState \<Rightarrow> SlEntry list \<times> StoreState" where
  "scheduleSubnodes [] st = ([], st)"
| "scheduleSubnodes ((nid, bs) # xs) st =
     (let (bid, st) = schedulePayload bs st; (es, st) = scheduleSubnodes xs st
      in (\<lparr>sl_nid = nid, sl_bidData = bid, sl_bidSub = Bid 0\<rparr> # es, st))"

definition scheduleSorted :: "SlEntry list \<Rightarrow> StoreState \<Rightarrow> Bid \<times> StoreState" where
  "scheduleSorted entries st =
     (if entries = [] then (Bid 0, st) else scheduleSlBlock (sort_key (\<lambda>e. nid_value (sl_nid e)) entries) st)"

definition scheduleContents :: "MessageRecord list \<Rightarrow> nat \<times> M7Folder FolderRecord \<Rightarrow> StoreState \<Rightarrow> StoreState result" where
  "scheduleContents msgRecs x st =
     (case x of (folder, rec) \<Rightarrow>
       bind_r (mapM_r messageRow (filter (\<lambda>mr. mr_folder mr = folder) msgRecs)) (\<lambda>rows.
       bind_r (buildFolderContentsTc rows kRowMatrixSubnode) (\<lambda>tc.
         let (es, st) = scheduleSubnodes (map (\<lambda>s. (so_nid s, so_data s)) (tcres_subnodes tc)) st;
             (bidSub, st) = scheduleSorted es st
         in Inr (scheduleNode (fr_contentsNid rec) (Nid 0) (tcres_hnBytes tc) bidSub st))))"

section \<open>The hierarchy of the IPM subtree\<close>

definition hierarchyRowOf :: "M7Folder FolderRecord \<Rightarrow> bytes \<times> bytes \<Rightarrow> HierarchyTcRow" where
  "hierarchyRowOf rec names =
     \<lparr>htr_rowId = fr_folderNid rec, htr_rowVer = 0, htr_displayName = fst names, htr_contentCount = contentCountOf rec,
      htr_contentUnreadCount = contentUnreadCountOf rec, htr_hasSubfolders = False, htr_containerClass = snd names\<rparr>"

definition scheduleIpmHierarchy ::
  "M7Folder FolderRecord list \<Rightarrow> (bytes \<times> bytes) list \<Rightarrow> StoreState \<Rightarrow> StoreState result" where
  "scheduleIpmHierarchy folderRecs folderNameStore st =
     scheduleTc (Nid 0x802D)
       (buildFolderHierarchyTc (map (\<lambda>i. hierarchyRowOf (folderRecs ! i) (folderNameStore ! i)) [0..<length folderRecs])) st"

section \<open>Messages\<close>

definition messageSubnodeStart :: "Nid \<Rightarrow> Nid" where
  "messageSubnodeStart nid = Nid ((nid_value nid AND NOT 0x1F) + 0x10000 + 1)"

definition allRecipients :: "MessageFields \<Rightarrow> Recipient list" where
  "allRecipients f = gm_toRecipients f @ gm_ccRecipients f @ gm_bccRecipients f"

text \<open>A data block with the body of a table or a context, and its entry.\<close>

definition scheduleEntry :: "Nid \<Rightarrow> bytes \<Rightarrow> StoreState \<Rightarrow> SlEntry \<times> StoreState" where
  "scheduleEntry nid body st =
     (let (bid, st) = scheduleDataBlock body st in (\<lparr>sl_nid = nid, sl_bidData = bid, sl_bidSub = Bid 0\<rparr>, st))"

definition pcSubnodes :: "MailPcResult \<Rightarrow> (Nid \<times> bytes) list" where
  "pcSubnodes pc = map (\<lambda>s. (mps_nid s, mps_bytes s)) (mpr_subnodes pc)"

definition attachmentNid :: "nat \<Rightarrow> Nid" where
  "attachmentNid i = mkNid NtAttachment (word_of_nat (i + 1))"

fun scheduleAttachmentPcs ::
  "MailPcBuildContext \<Rightarrow> nat \<Rightarrow> Attachment list \<Rightarrow> StoreState \<Rightarrow> (SlEntry list \<times> StoreState) result" where
  "scheduleAttachmentPcs ctx i [] st = Inr ([], st)"
| "scheduleAttachmentPcs ctx i (a # as) st =
     bind_r (buildAttachmentPc a ctx) (\<lambda>attPc.
       let (e, st) = scheduleEntry (attachmentNid i) (mpr_hnBytes attPc) st;
           (es, st) = scheduleSubnodes (pcSubnodes attPc) st
       in bind_r (scheduleAttachmentPcs ctx (i + 1) as st) (\<lambda>(rest, st). Inr (e # es @ rest, st)))"

definition scheduleAttachments ::
  "MailPcBuildContext \<Rightarrow> Attachment list \<Rightarrow> StoreState \<Rightarrow> (SlEntry list \<times> StoreState) result" where
  "scheduleAttachments ctx as st =
     (if as = [] then Inr ([], st)
      else bind_r (buildAttachmentTc (map (\<lambda>i. \<lparr>atr_attachmentNid = attachmentNid i, atr_attachment = Some (as ! i)\<rparr>) [0..<length as])) (\<lambda>attTc.
        let (e, st) = scheduleEntry (Nid 0x671) (tcres_hnBytes attTc) st
        in bind_r (scheduleAttachmentPcs ctx 0 as st) (\<lambda>(es, st). Inr (e # es, st))))"

definition scheduleMessage ::
  "bytes \<Rightarrow> M7Folder FolderRecord list \<Rightarrow> MessageRecord \<Rightarrow> StoreState \<Rightarrow> StoreState result" where
  "scheduleMessage providerUid folderRecs mr st =
     (let m = mr_src mr;
          ctx = \<lparr>ctx_providerUid = providerUid, ctx_subnodeStart = messageSubnodeStart (mr_messageNid mr)\<rparr>
      in bind_r (buildMailPc m ctx) (\<lambda>pc.
           let (bodyEs, st) = scheduleSubnodes (pcSubnodes pc) st
           in bind_r (buildRecipientTc (allRecipients (gm m))) (\<lambda>recipTc.
                let (recipE, st) = scheduleEntry (Nid 0x692) (tcres_hnBytes recipTc) st
                in bind_r (scheduleAttachments ctx (gm_attachments m) st) (\<lambda>(attEs, st).
                     let (msgPcBid, st) = scheduleDataBlock (mpr_hnBytes pc) st;
                         (bidSub, st) = scheduleSorted (bodyEs @ [recipE] @ attEs) st
                     in Inr (st\<lparr>st_nodes := st_nodes st
                          @ [\<lparr>m7n_nid = mr_messageNid mr, m7n_nidParent = fr_folderNid (folderRecs ! mr_folder mr),
                              m7n_bidData = msgPcBid, m7n_bidSub = bidSub\<rparr>]\<rparr>)))))"

section \<open>The writer\<close>

definition buildM7 :: "bytes option \<Rightarrow> M7PstConfig \<Rightarrow> StoreState result" where
  "buildM7 env config =
     bind_r (scheduleBaseline env (m7_providerUid config) (m7_pstDisplayName config)) (\<lambda>(st, alloc).
     bind_r (allocateFolders (m7_folders config) alloc) (\<lambda>(folderRecs, alloc).
     bind_r (foldM_r scheduleFolder folderRecs ([], st)) (\<lambda>(folderNameStore, st).
     bind_r (allocateFolderMessages 0 folderRecs alloc) (\<lambda>(msgRecs, alloc).
     bind_r (foldM_r (scheduleContents msgRecs) (zip [0..<length folderRecs] folderRecs) st) (\<lambda>st.
     bind_r (scheduleIpmHierarchy folderRecs folderNameStore st) (\<lambda>st.
       foldM_r (scheduleMessage (m7_providerUid config) folderRecs) msgRecs st))))))"

definition writeM7Pst :: "bytes option \<Rightarrow> Io \<Rightarrow> M7PstConfig \<Rightarrow> (WriteResult \<times> bytes option) result" where
  "writeM7Pst env io config = guarded ''writeM7Pst'' io (buildM7 env config)"

end
