(* ===== verification/StoreRows.thy ===== *)
theory StoreRows
  imports MailStore
begin

text \<open>
  The nodes of a store as a list of rows: NID, parent and bytes.  The operations on a \<open>StoreState\<close> are shown to add
  rows in their order, with fresh NIDs from the allocator, and a store that was finished holds every row on disk.
\<close>

section \<open>The nodes of a store\<close>

text \<open>A node with its NID, the NID of its parent, and the bytes of its data block; the data blocks before it stay.\<close>

type_synonym StoreRow = "Nid \<times> Nid \<times> bytes"

definition bodyAt :: "StoreState \<Rightarrow> nat \<Rightarrow> Bid \<Rightarrow> bytes \<Rightarrow> bool" where
  "bodyAt st i bid body \<longleftrightarrow> i < length (st_dataBlocks st) \<and> st_dataBlocks st ! i = \<lparr>m7b_bid = bid, m7b_bodyBytes = body\<rparr>"

definition holds :: "StoreState \<Rightarrow> StoreRow \<Rightarrow> M7Node \<Rightarrow> bool" where
  "holds st row n \<longleftrightarrow>
     m7n_nid n = fst row \<and> m7n_nidParent n = fst (snd row) \<and> (\<exists>i. bodyAt st i (m7n_bidData n) (snd (snd row)))"

definition keeps :: "StoreState \<Rightarrow> StoreState \<Rightarrow> bool" where
  "keeps st st' \<longleftrightarrow> take (length (st_dataBlocks st)) (st_dataBlocks st') = st_dataBlocks st"

lemma keepsI: "st_dataBlocks st' = st_dataBlocks st @ bs \<Longrightarrow> keeps st st'"
  by (simp add: keeps_def)

lemma keeps_trans: "keeps st st1 \<Longrightarrow> keeps st1 st2 \<Longrightarrow> keeps st st2"
  unfolding keeps_def by (metis append_assoc append_eq_conv_conj append_take_drop_id)

lemma keeps_refl: "keeps st st"
  by (simp add: keeps_def)

lemma bodyAt_keeps: "bodyAt st i bid body \<Longrightarrow> keeps st st' \<Longrightarrow> bodyAt st' i bid body"
  unfolding keeps_def bodyAt_def by (metis length_take min_less_iff_conj nth_take)

lemma holds_keeps: "holds st row n \<Longrightarrow> keeps st st' \<Longrightarrow> holds st' row n"
  unfolding holds_def using bodyAt_keeps by blast

text \<open>The step from one state to another adds the given nodes.\<close>

definition adds :: "StoreRow list \<Rightarrow> StoreState \<Rightarrow> StoreState \<Rightarrow> bool" where
  "adds rows st st' \<longleftrightarrow>
     store_ok st' \<and> keeps st st' \<and> (\<exists>ns. st_nodes st' = st_nodes st @ ns \<and> list_all2 (holds st') rows ns)"

lemma adds_ok: "adds rows st st' \<Longrightarrow> store_ok st'"
  by (simp add: adds_def)

lemma adds_refl: "store_ok st \<Longrightarrow> adds [] st st"
  by (simp add: adds_def keeps_refl)

lemma adds_trans: "adds rows st st1 \<Longrightarrow> adds rows' st1 st2 \<Longrightarrow> adds (rows @ rows') st st2"
proof -
  assume a: "adds rows st st1" "adds rows' st1 st2"
  obtain ns ns' where n: "st_nodes st1 = st_nodes st @ ns" "list_all2 (holds st1) rows ns" "st_nodes st2 = st_nodes st1 @ ns'"
    "list_all2 (holds st2) rows' ns'" using a by (auto simp: adds_def)
  have k: "keeps st1 st2" using a(2) by (simp add: adds_def)
  have "list_all2 (holds st2) rows ns"
    by (rule list_all2_mono [OF n(2)]) (rule holds_keeps [OF _ k])
  then have "list_all2 (holds st2) (rows @ rows') (ns @ ns')" using n(4) by (rule list_all2_appendI)
  then show ?thesis using n(1,3) a keeps_trans by (auto simp: adds_def)
qed

lemma node_added:
  assumes "store_ok st" and "bodyAt st' i (m7n_bidData n) body" and "store_ok st'" and "keeps st st'" and "st_nodes st' = st_nodes st @ [n]"
  shows "adds [(m7n_nid n, m7n_nidParent n, body)] st st'"
  using assms by (auto simp: adds_def holds_def)

lemma scheduleNode_adds:
  assumes "store_ok st"
  shows "adds [(nid, parent, body)] st (scheduleNode nid parent body sub st)"
proof -
  let ?b = "dataBid (length (st_dataBlocks st))" and ?st = "scheduleNode nid parent body sub st"
  let ?n = "\<lparr>m7n_nid = nid, m7n_nidParent = parent, m7n_bidData = ?b, m7n_bidSub = sub\<rparr>"
  have s: "st_dataBlocks ?st = st_dataBlocks st @ [\<lparr>m7b_bid = ?b, m7b_bodyBytes = body\<rparr>]" "st_nodes ?st = st_nodes st @ [?n]"
    using assms by (simp_all add: scheduleNode_def allocDataBid_def store_ok_def dataBid_def Let_def)
  then have "bodyAt ?st (length (st_dataBlocks st)) ?b body" by (simp add: bodyAt_def)
  then show ?thesis using node_added [OF assms, of ?st _ ?n] scheduleNode_ok [OF assms] keepsI [OF s(1)] s(2) by simp
qed

text \<open>Stores in which every node has one block and every block fits.\<close>

definition plain :: "StoreState \<Rightarrow> bool" where
  "plain st \<longleftrightarrow> st_xBlocks st = [] \<and> st_slBlocks st = [] \<and> length (st_dataBlocks st) = length (st_nodes st)
     \<and> list_all (\<lambda>b. length (m7b_bodyBytes b) \<le> kMaxBlockPayload) (st_dataBlocks st)"

definition addsPlain :: "StoreRow list \<Rightarrow> StoreState \<Rightarrow> StoreState \<Rightarrow> bool" where
  "addsPlain rows st st' \<longleftrightarrow> adds rows st st' \<and> (plain st \<longrightarrow> plain st')"

lemma addsPlain_refl: "store_ok st \<Longrightarrow> addsPlain [] st st"
  by (simp add: addsPlain_def adds_refl)

lemma addsPlain_trans: "addsPlain rows st st1 \<Longrightarrow> addsPlain rows' st1 st2 \<Longrightarrow> addsPlain (rows @ rows') st st2"
  using adds_trans by (auto simp: addsPlain_def)

lemma addsPlain_ok: "addsPlain rows st st' \<Longrightarrow> store_ok st'"
  by (simp add: addsPlain_def adds_def)

lemma scheduleNode_plain:
  assumes "store_ok st" and "length body \<le> kMaxBlockPayload"
  shows "addsPlain [(nid, parent, body)] st (scheduleNode nid parent body sub st)"
  using assms scheduleNode_adds [OF assms(1)] by (simp add: addsPlain_def plain_def scheduleNode_def allocDataBid_def Let_def)

lemma schedulePc_adds:
  assumes "store_ok st" and "schedulePc nid parent (buildPropertyContext ps s) st = Inr st'"
  obtains pc where "buildPropertyContext ps s = Inr pc" and "addsPlain [(nid, parent, pcr_hnBytes pc)] st st'"
  using assms pc_length [of ps s] scheduleNode_plain [OF assms(1)]
  by (fastforce simp: schedulePc_def bind_r_Inr kMaxBlockPayload_def)

lemma scheduleTc_adds:
  assumes "store_ok st" and "scheduleTc nid (buildTableContext cols rows s) st = Inr st'"
  obtains tc where "buildTableContext cols rows s = Inr tc" and "addsPlain [(nid, Nid 0, tcres_hnBytes tc)] st st'"
  using assms tc_length [of cols rows s] scheduleNode_plain [OF assms(1)]
  by (fastforce simp: scheduleTc_def bind_r_Inr kMaxBlockPayload_def)

section \<open>The baseline\<close>

definition entrySmall :: "PstBaselineEntry result \<Rightarrow> bool" where
  "entrySmall r \<longleftrightarrow> (case r of Inl e \<Rightarrow> True | Inr e \<Rightarrow> length (pbe_body e) \<le> kMaxBlockPayload)"

lemma entrySmall_simps:
  "entrySmall (pcEntry n p (buildPropertyContext ps s))" "entrySmall (tcEntry n (buildTableContext cols rows s))"
  "entrySmall (mkEntry n p (Inr buildEmptyNodePayload))"
  using pc_length tc_length
  by (auto simp: entrySmall_def pcEntry_def tcEntry_def mkEntry_def bind_r_Inr buildEmptyNodePayload_def kMaxBlockPayload_def split: sum.splits)

lemma steps_small: "list_all entrySmall (baselineSteps env uid d nr nt ns np nd)"
  unfolding baselineSteps_def buildFolderHierarchyTc_def buildFolderContentsTcEmpty_def buildFolderFaiContentsTc_def
    buildSearchContentsTemplateTc_def buildAttachmentTemplateTc_def buildRecipientTemplateTc_def buildReceiveFolderTableTc_def
    buildMessageStorePc_def buildNameToIdMapPc_def buildSearchFolderPc_def buildFolderPc_def
  by (simp add: entrySmall_simps)

lemma mapM_small: "list_all entrySmall rs \<Longrightarrow> mapM_r id rs = Inr es \<Longrightarrow> list_all (\<lambda>e. length (pbe_body e) \<le> kMaxBlockPayload) es"
proof (induction rs arbitrary: es)
  case (Cons r rs)
  then show ?case by (auto simp: bind_r_Inr entrySmall_def)
qed simp

lemma baseline_small:
  "buildPstBaselineEntries env uid name = Inr es \<Longrightarrow> list_all (\<lambda>e. length (pbe_body e) \<le> kMaxBlockPayload) es"
  using mapM_small [OF steps_small] by (auto simp: buildPstBaselineEntries_def bind_r_Inr)

lemma entries_added:
  assumes "store_ok st" and "list_all (\<lambda>e. length (pbe_body e) \<le> kMaxBlockPayload) es"
  shows "addsPlain (map (\<lambda>e. (pbe_nid e, pbe_nidParent e, pbe_body e)) es) st
    (fold (\<lambda>e. scheduleNode (pbe_nid e) (pbe_nidParent e) (pbe_body e) (Bid 0)) es st)"
  using assms
proof (induction es arbitrary: st)
  case (Cons e es)
  let ?st = "scheduleNode (pbe_nid e) (pbe_nidParent e) (pbe_body e) (Bid 0) st"
  have a: "addsPlain [(pbe_nid e, pbe_nidParent e, pbe_body e)] st ?st" using Cons.prems scheduleNode_plain by simp
  from addsPlain_trans [OF this Cons.IH [OF addsPlain_ok [OF a]]] Cons.prems show ?case by simp
qed (simp add: addsPlain_refl)

lemma scheduleBaseline_adds:
  assumes "scheduleBaseline env uid name = Inr (st, a)"
  obtains rows where "addsPlain rows emptyStore st" and "map fst rows = baselineNids env" and "m5_ok a"
    and "claimed a = set kReservedTable \<union> set kBaselineReserved"
proof -
  obtain es where es: "buildPstBaselineEntries env uid name = Inr es" "registerBaselineReservedNids newAllocator = Inr a"
    "st = fold (\<lambda>e. scheduleNode (pbe_nid e) (pbe_nidParent e) (pbe_body e) (Bid 0)) es emptyStore"
    using assms by (auto simp: scheduleBaseline_def bind_r_Inr Let_def)
  have "map fst (map (\<lambda>e. (pbe_nid e, pbe_nidParent e, pbe_body e)) es) = baselineNids env"
    using baseline_nids [OF es(1)] by (simp add: comp_def)
  moreover obtain a' where "registerBaselineReservedNids newAllocator = Inr a'" "m5_ok a'"
    "claimed a' = set kReservedTable \<union> set kBaselineReserved" by (rule baseline_registered)
  ultimately show ?thesis using that entries_added [OF store_ok_empty baseline_small [OF es(1)]] es(2,3) by simp
qed

section \<open>The identifiers of folders and items\<close>

text \<open>A step of the allocator that takes the given NIDs, none of them taken before.\<close>

definition takes :: "Nid list \<Rightarrow> M5Allocator \<Rightarrow> M5Allocator \<Rightarrow> bool" where
  "takes ns a a' \<longleftrightarrow> m5_ok a' \<and> distinct ns \<and> set ns \<inter> claimed a = {} \<and> claimed a' = claimed a \<union> set ns"

lemma takes_refl: "m5_ok a \<Longrightarrow> takes [] a a"
  by (simp add: takes_def)

lemma takes_ok: "takes ns a a' \<Longrightarrow> m5_ok a'"
  by (simp add: takes_def)

lemma takes_trans: "takes ns a a1 \<Longrightarrow> takes ns' a1 a2 \<Longrightarrow> takes (ns @ ns') a a2"
  by (auto simp: takes_def)

lemma allocOrThrow_takes: "m5_ok a \<Longrightarrow> allocOrThrow nt a = Inr (n, a') \<Longrightarrow> takes [n] a a'"
  using allocate_fresh [of a nt n a'] by (auto simp: allocOrThrow_def takes_def bind_r_Inr split: prod.splits)

lemma registerOrThrow_takes: "m5_ok a \<Longrightarrow> registerOrThrow n a = Inr a' \<Longrightarrow> takes [n] a a'"
  using register_fresh [of a n a'] by (auto simp: registerOrThrow_def takes_def bind_r_Inr split: prod.splits)

definition recordNids :: "'f FolderRecord \<Rightarrow> Nid list" where
  "recordNids r = [fr_folderNid r, fr_hierarchyNid r, fr_contentsNid r, fr_faiNid r]"

lemma allocateFolder_takes:
  assumes "m5_ok a" and "allocateFolder f a = Inr (r, a')"
  shows "takes (recordNids r) a a'" and "fr_src r = f"
proof -
  obtain n a1 a2 a3 where s: "allocOrThrow NtNormalFolder a = Inr (n, a1)"
    "registerOrThrow (mkNid NtHierarchyTable (nid_index n)) a1 = Inr a2" "registerOrThrow (mkNid NtContentsTable (nid_index n)) a2 = Inr a3"
    "registerOrThrow (mkNid NtAssocContentsTable (nid_index n)) a3 = Inr a'"
    "r = \<lparr>fr_src = f, fr_folderNid = n, fr_hierarchyNid = mkNid NtHierarchyTable (nid_index n),
      fr_contentsNid = mkNid NtContentsTable (nid_index n), fr_faiNid = mkNid NtAssocContentsTable (nid_index n)\<rparr>"
    using assms(2) by (auto simp: allocateFolder_def Let_def bind_r_Inr)
  note t1 = allocOrThrow_takes [OF assms(1) s(1)]
  note t2 = registerOrThrow_takes [OF takes_ok [OF t1] s(2)]
  note t3 = registerOrThrow_takes [OF takes_ok [OF t2] s(3)]
  note t4 = registerOrThrow_takes [OF takes_ok [OF t3] s(4)]
  show "takes (recordNids r) a a'" "fr_src r = f"
    using takes_trans [OF t1 takes_trans [OF t2 takes_trans [OF t3 t4]]] by (simp_all add: s(5) recordNids_def)
qed

lemma allocateFolders_takes:
  "m5_ok a \<Longrightarrow> allocateFolders fs a = Inr (rs, a') \<Longrightarrow> takes (concat (map recordNids rs)) a a' \<and> map fr_src rs = fs"
proof (induction fs arbitrary: a rs)
  case (Cons f fs)
  from Cons.prems(2) obtain r a1 rs' where s: "allocateFolder f a = Inr (r, a1)" "allocateFolders fs a1 = Inr (rs', a')" "rs = r # rs'"
    by (auto simp: bind_r_Inr)
  note t = allocateFolder_takes [OF Cons.prems(1) s(1)]
  show ?case using takes_trans [OF t(1)] Cons.IH [OF takes_ok [OF t(1)] s(2)] t(2) by (simp add: s(3))
qed (simp add: takes_refl)

text \<open>The NIDs of a store are distinct when they are those of the baseline, of the folders, and one of the IPM hierarchy.\<close>

lemma store_nids:
  assumes "claimed a = set kReservedTable \<union> set kBaselineReserved" and "takes ns a a'"
  shows "distinct (baselineNids env @ Nid 0x802D # ns)"
proof -
  have "set (baselineNids env) \<inter> set ns = {}" "Nid 0x802D \<notin> set ns"
    using assms baseline_claimed [of env] by (auto simp: takes_def)
  moreover have "Nid 0x802D \<notin> set (baselineNids env)" by (simp add: baselineNids_def)
  ultimately show ?thesis using baselineNids_distinct assms(2) by (auto simp: takes_def)
qed

section \<open>The nodes on disk\<close>

text \<open>A reader finds the node in the node tree, and the block with the BID in the node opens to the body.\<close>

definition rootBref :: "bytes \<Rightarrow> Bref" where
  "rootBref f = mkBref (Bid (readU64 f hdr_kBrefNbtBid)) (Ib (readU64 f hdr_kBrefNbtIb))"

definition nodeOnDisk :: "StoreState \<Rightarrow> bytes \<Rightarrow> StoreRow \<Rightarrow> bool" where
  "nodeOnDisk st f row \<longleftrightarrow>
     (\<exists>bid sub i. nbtFind f (rootBref f) (fst row) True
           = Inr (Some \<lparr>rec_nid = fst row, rec_bidData = bid, rec_bidSub = sub, rec_nidParent = fst (snd row)\<rparr>)
        \<and> i < length (st_dataBlocks st) \<and> diskBlock st f i = Some (bid, snd (snd row)))"

lemma rows_on_disk:
  assumes "adds rows emptyStore st" and "distinct (map fst rows)" and "storeSizesOk st"
  obtains f where "finishStore idealIo st = Inr (okResult, Some f)" and "list_all (nodeOnDisk st f) rows"
proof -
  have n: "list_all2 (holds st) rows (st_nodes st)" using assms(1) by (auto simp: adds_def emptyStore_def)
  have m: "map m7n_nid (st_nodes st) = map fst rows"
    using n by (induction rule: list_all2_induct) (simp_all add: holds_def)
  obtain f where f: "finishStore idealIo st = Inr (okResult, Some f)"
    "\<And>t c. nbtFind f (rootBref f) t c = Inr (map_option (m5Record \<circ> m5NodeOf) (List.find (\<lambda>n. m7n_nid n = t) (st_nodes st)))"
    "\<And>i. i < length (storeBodies st) \<Longrightarrow> diskBlock st f i = Some (bp_bid (storePlans st ! i), storeBodies st ! i)"
    using store_reads [OF assms(3), unfolded m, OF assms(2)] unfolding rootBref_def by blast
  have b: "diskBlock st f i = Some (bid, body)" if "bodyAt st i bid body" for i bid body
    using that f(3) [of i] by (simp add: bodyAt_def storeBodies_def storePlans_def dataPlan_def nth_append)
  have "nodeOnDisk st f (rows ! j)" if j: "j < length rows" for j
  proof -
    have l: "length (st_nodes st) = length rows" and h: "holds st (rows ! j) (st_nodes st ! j)"
      using n j by (auto simp: list_all2_conv_all_nth)
    then obtain i where i: "m7n_nid (st_nodes st ! j) = fst (rows ! j)" "m7n_nidParent (st_nodes st ! j) = fst (snd (rows ! j))"
      "bodyAt st i (m7n_bidData (st_nodes st ! j)) (snd (snd (rows ! j)))" by (auto simp: holds_def)
    have "List.find (\<lambda>n. m7n_nid n = fst (rows ! j)) (st_nodes st) = Some (st_nodes st ! j)"
      using find_nth [of m7n_nid "st_nodes st" j] assms(2) j l i(1) by (simp add: m)
    then show ?thesis using b [OF i(3)] i
      by (intro nodeOnDisk_def [THEN iffD2] exI conjI) (auto simp: f(2) m5Record_def m5NodeOf_def bodyAt_def)
  qed
  then show ?thesis using that f(1) by (simp add: list_all_length)
qed

text \<open>Small stores of one block per node meet the bounds of the writer.\<close>

lemma plain_sizes:
  assumes "store_ok st" and "plain st" and "length (st_nodes st) \<le> 300"
  shows "storeSizesOk st"
  using assms store_ok_bids(1) [OF assms(1)]
  by (auto simp: storeSizesOk_def plain_def storeBodies_def internalBids_def list_all_iff kMaxBlockPayload_def)

section \<open>When identifiers are left\<close>

text \<open>
  The allocator of a writer: below the counters of folders and messages everything from \<open>0x400\<close> on is taken, and a
  table is taken only with its folder.
\<close>

definition itemTypes :: "NidType list" where
  "itemTypes = [NtNormalFolder, NtNormalMessage]"

definition tableTypes :: "NidType list" where
  "tableTypes = [NtHierarchyTable, NtContentsTable, NtAssocContentsTable]"

definition userIndex :: "u32 \<Rightarrow> bool" where
  "userIndex j \<longleftrightarrow> 0x400 \<le> j \<and> j < kMaxNidIndex"

definition tidy :: "M5Allocator \<Rightarrow> bool" where
  "tidy a \<longleftrightarrow> m5_ok a
     \<and> (\<forall>nt \<in> set itemTypes. 0x400 \<le> m5_nextIndex a ! typeSlot nt
          \<and> (\<forall>j. 0x400 \<le> j \<longrightarrow> j < m5_nextIndex a ! typeSlot nt \<longrightarrow> isAllocated (mkNid nt j) a))
     \<and> (\<forall>nt \<in> set tableTypes. \<forall>j. userIndex j \<longrightarrow> isAllocated (mkNid nt j) a \<longrightarrow> isAllocated (mkNid NtNormalFolder j) a)"

lemma type_facts:
  "nt \<in> set itemTypes \<Longrightarrow> isValidNidType nt" "nt \<in> set tableTypes \<Longrightarrow> isValidNidType nt"
  "nt \<in> set itemTypes \<union> set tableTypes \<Longrightarrow> nid_type (mkNid nt k) = nt"
  "nt \<in> set itemTypes \<Longrightarrow> T \<in> set tableTypes \<Longrightarrow> nt \<noteq> T"
  "nt \<in> set itemTypes \<Longrightarrow> mt \<in> set itemTypes \<Longrightarrow> typeSlot nt = typeSlot mt \<longleftrightarrow> nt = mt"
  "nt \<in> set itemTypes \<Longrightarrow> typeSlot nt < 32"
  by (auto simp: itemTypes_def tableTypes_def isValidNidType_def typeSlot_def intro!: nid_type_mkNid)

lemma isAllocated_insert: "isAllocated n (a\<lparr>m5_allocated := insert v A\<rparr>) \<longleftrightarrow> nid_value n = v \<or> nid_value n \<in> A"
  by (simp add: isAllocated_def)

lemma count_insert: "m5_ok a \<Longrightarrow> m5_allocated a' = insert v (m5_allocated a) \<Longrightarrow> allocatedCount a' \<le> allocatedCount a + 1"
  by (simp add: allocatedCount_def m5_ok_def card_insert_if)

lemma not_all_taken:
  assumes "finite (m5_allocated a)" and "\<And>j. userIndex j \<Longrightarrow> isAllocated (mkNid nt j) a"
  shows "2 ^ 26 \<le> allocatedCount a"
proof -
  let ?f = "\<lambda>i :: nat. nid_value (mkNid nt (word_of_nat (0x400 + i)))"
  have u: "userIndex (word_of_nat (0x400 + i))" if "i < 2 ^ 26" for i
    using that by (simp add: userIndex_def kMaxNidIndex_def word_le_nat_alt word_less_nat_alt unat_of_nat del: of_nat_add)
  have "inj_on ?f {..<2 ^ 26}"
  proof (rule inj_onI)
    fix i j assume i: "i \<in> {..<2 ^ 26 :: nat}" and j: "j \<in> {..<2 ^ 26 :: nat}" and e: "?f i = ?f j"
    have "(word_of_nat (0x400 + i) :: u32) = word_of_nat (0x400 + j)"
      using e i j u [of i] u [of j] by (intro mkNid_inject [of nt _ nt]) (simp_all add: userIndex_def del: of_nat_add)
    then have "unat (word_of_nat (0x400 + i) :: u32) = unat (word_of_nat (0x400 + j) :: u32)" by simp
    then show "i = j" using i j by (simp add: unat_of_nat del: of_nat_add)
  qed
  moreover have "?f ` {..<2 ^ 26} \<subseteq> m5_allocated a" using assms(2) u by (auto simp: isAllocated_def)
  ultimately have "card {..<2 ^ 26 :: nat} \<le> allocatedCount a"
    unfolding allocatedCount_def using card_inj_on_le assms(1) by blast
  then show ?thesis by simp
qed

lemma tidy_insert:
  assumes "tidy a" and "m5_allocated a' = insert (nid_value n) (m5_allocated a)" and "m5_ok a'"
    and "\<And>nt. nt \<in> set itemTypes \<Longrightarrow> 0x400 \<le> m5_nextIndex a' ! typeSlot nt
      \<and> (\<forall>j. m5_nextIndex a ! typeSlot nt \<le> j \<longrightarrow> j < m5_nextIndex a' ! typeSlot nt \<longrightarrow> isAllocated (mkNid nt j) a')"
    and "\<And>nt j. nt \<in> set tableTypes \<Longrightarrow> userIndex j \<Longrightarrow> n = mkNid nt j \<Longrightarrow> isAllocated (mkNid NtNormalFolder j) a"
  shows "tidy a'"
proof -
  have i: "isAllocated m a' \<longleftrightarrow> m = n \<or> isAllocated m a" for m using assms(2) by (simp add: isAllocated_def)
  show ?thesis unfolding tidy_def
  proof (intro conjI ballI allI impI assms(3))
    fix nt j assume nt: "nt \<in> set itemTypes"
    show "0x400 \<le> m5_nextIndex a' ! typeSlot nt" using assms(4) [OF nt] by simp
    assume j: "0x400 \<le> j" "j < m5_nextIndex a' ! typeSlot nt"
    show "isAllocated (mkNid nt j) a'"
      using assms(1) assms(4) [OF nt] nt j i by (cases "j < m5_nextIndex a ! typeSlot nt") (auto simp: tidy_def)
  next
    fix nt j assume "nt \<in> set tableTypes" "userIndex j" "isAllocated (mkNid nt j) a'"
    then show "isAllocated (mkNid NtNormalFolder j) a'" using assms(1,5) i by (auto simp: tidy_def)
  qed
qed

lemma alloc_granted:
  assumes "tidy a" and nt: "nt \<in> set itemTypes" and "allocatedCount a < 2 ^ 26"
  obtains k a' where "allocOrThrow nt a = Inr (mkNid nt k, a')" and "userIndex k" and "tidy a'"
    and "m5_allocated a' = insert (nid_value (mkNid nt k)) (m5_allocated a)" and "\<not> isAllocated (mkNid nt k) a"
proof -
  let ?c = "m5_nextIndex a ! typeSlot nt"
  obtain r a' where r: "allocate nt a = (r, a')" by fastforce
  have ok: "m5_ok a" using assms(1) by (simp add: tidy_def)
  have below: "isAllocated (mkNid nt j) a" if "0x400 \<le> j" "j < ?c" for j using assms(1) nt that by (auto simp: tidy_def)
  have c: "0x400 \<le> ?c" using assms(1) nt by (auto simp: tidy_def)
  from ok type_facts(1) [OF nt] r show thesis
  proof (cases rule: allocate_cases)
    case (grant k)
    have l: "length (m5_nextIndex a) = 32" using ok by (simp add: m5_ok_def)
    have k: "unat (k + 1) = unat k + 1" using index_step [OF grant(3)] by simp
    have A: "m5_allocated a' = insert (nid_value (mkNid nt k)) (m5_allocated a)" by (simp add: grant(6))
    have "tidy a'"
    proof (rule tidy_insert [OF assms(1) A])
      show "m5_ok a'" using allocate_effect [OF ok r] by simp
    next
      fix mt assume mt: "mt \<in> set itemTypes"
      have "isAllocated (mkNid nt j) a'" if "?c \<le> j" "j < k + 1" for j
      proof (cases "j = k")
        case False
        then have "j < k" using that(2) k unfolding word_less_nat_alt word_unat_eq_iff by linarith
        then show ?thesis using grant(5) that(1) A by (simp add: isAllocated_def)
      qed (simp add: A isAllocated_def)
      moreover have "0x400 \<le> k + 1" using c grant(2) k by (simp add: word_le_nat_alt)
      ultimately show "0x400 \<le> m5_nextIndex a' ! typeSlot mt
          \<and> (\<forall>j. m5_nextIndex a ! typeSlot mt \<le> j \<longrightarrow> j < m5_nextIndex a' ! typeSlot mt \<longrightarrow> isAllocated (mkNid mt j) a')"
        using assms(1) type_facts(5) [OF nt mt] mt l type_facts(6) [OF nt] by (cases "mt = nt") (auto simp: grant(6) tidy_def)
    next
      fix T j assume "T \<in> set tableTypes" "mkNid nt k = mkNid T j"
      then show "isAllocated (mkNid NtNormalFolder j) a"
        using type_facts(3) [of nt k] type_facts(3) [of T j] type_facts(4) [OF nt, of T] nt by auto
    qed
    then show thesis using that [of k a'] r grant c A by (simp add: allocOrThrow_def userIndex_def)
  next
    case (full e)
    have "isAllocated (mkNid nt j) a" if "userIndex j" for j
      using that below full(2) by (cases "j < ?c") (auto simp: userIndex_def)
    then show thesis using not_all_taken [of a nt] ok assms(3) by (simp add: m5_ok_def)
  qed
qed

lemma table_registered:
  assumes "tidy a" and T: "T \<in> set tableTypes" and "userIndex k" and "isAllocated (mkNid NtNormalFolder k) a"
    and "\<not> isAllocated (mkNid T k) a"
  obtains a' where "registerOrThrow (mkNid T k) a = Inr a'" and "tidy a'"
    and "m5_allocated a' = insert (nid_value (mkNid T k)) (m5_allocated a)"
proof -
  let ?a = "a\<lparr>m5_allocated := insert (nid_value (mkNid T k)) (m5_allocated a)\<rparr>"
  have "registerExternal (mkNid T k) a = (Inr (), ?a)"
    using assms(5) type_facts(2,3) T by (simp add: registerExternal_def isAllocated_def)
  moreover have "tidy ?a"
    using assms(1,3,4) T by (intro tidy_insert [OF assms(1)]) (auto simp: tidy_def m5_ok_def userIndex_def dest: mkNid_inject)
  ultimately show ?thesis using that [of ?a] by (simp add: registerOrThrow_def)
qed

lemma folder_allocated:
  assumes "tidy a" and "allocatedCount a + 4 \<le> 2 ^ 26"
  obtains r a' where "allocateFolder f a = Inr (r, a')" and "tidy a'" and "allocatedCount a' \<le> allocatedCount a + 4"
proof -
  obtain k a1 where 1: "allocOrThrow NtNormalFolder a = Inr (mkNid NtNormalFolder k, a1)" "userIndex k" "tidy a1"
    "m5_allocated a1 = insert (nid_value (mkNid NtNormalFolder k)) (m5_allocated a)" "\<not> isAllocated (mkNid NtNormalFolder k) a"
    using alloc_granted [OF assms(1), of NtNormalFolder] assms(2) by (auto simp: itemTypes_def)
  have idx: "nid_index (mkNid NtNormalFolder k) = k" using 1(2) by (simp add: nid_index_mkNid mask27 and_mask_index userIndex_def)
  have free: "\<not> isAllocated (mkNid T k) a" if "T \<in> set tableTypes" for T using assms(1) 1(2,5) that by (auto simp: tidy_def)
  have ne: "mkNid S k \<noteq> mkNid T k" if "S \<in> set itemTypes \<union> set tableTypes" "T \<in> set itemTypes \<union> set tableTypes" "S \<noteq> T" for S T
    using that type_facts(3) by metis
  note allocs = isAllocated_def tableTypes_def itemTypes_def
  obtain a2 where 2: "registerOrThrow (mkNid NtHierarchyTable k) a1 = Inr a2" "tidy a2"
    "m5_allocated a2 = insert (nid_value (mkNid NtHierarchyTable k)) (m5_allocated a1)"
    by (rule table_registered [OF 1(3), of NtHierarchyTable k])
      (use 1(2,4) free [of NtHierarchyTable] ne [of NtHierarchyTable NtNormalFolder] in \<open>auto simp: allocs\<close>)
  obtain a3 where 3: "registerOrThrow (mkNid NtContentsTable k) a2 = Inr a3" "tidy a3"
    "m5_allocated a3 = insert (nid_value (mkNid NtContentsTable k)) (m5_allocated a2)"
    by (rule table_registered [OF 2(2), of NtContentsTable k])
      (use 1(2,4) 2(3) free [of NtContentsTable] ne [of NtContentsTable NtNormalFolder] ne [of NtContentsTable NtHierarchyTable] in \<open>auto simp: allocs\<close>)
  obtain a4 where 4: "registerOrThrow (mkNid NtAssocContentsTable k) a3 = Inr a4" "tidy a4"
    "m5_allocated a4 = insert (nid_value (mkNid NtAssocContentsTable k)) (m5_allocated a3)"
    by (rule table_registered [OF 3(2), of NtAssocContentsTable k])
      (use 1(2,4) 2(3) 3(3) free [of NtAssocContentsTable] ne [of NtAssocContentsTable NtNormalFolder]
        ne [of NtAssocContentsTable NtHierarchyTable] ne [of NtAssocContentsTable NtContentsTable] in \<open>auto simp: allocs\<close>)
  have "m5_ok a" "m5_ok a1" "m5_ok a2" "m5_ok a3" using assms(1) 1(3) 2(2) 3(2) by (simp_all add: tidy_def)
  then have "allocatedCount a4 \<le> allocatedCount a + 4"
    using count_insert [OF _ 1(4)] count_insert [OF _ 2(3)] count_insert [OF _ 3(3)] count_insert [OF _ 4(3)] by linarith
  moreover have "allocateFolder f a = Inr (\<lparr>fr_src = f, fr_folderNid = mkNid NtNormalFolder k, fr_hierarchyNid = mkNid NtHierarchyTable k,
      fr_contentsNid = mkNid NtContentsTable k, fr_faiNid = mkNid NtAssocContentsTable k\<rparr>, a4)"
    by (simp add: allocateFolder_def 1(1) 2(1) 3(1) 4(1) idx Let_def)
  ultimately show ?thesis using that 4(2) by blast
qed

lemma folders_allocated:
  "tidy a \<Longrightarrow> allocatedCount a + 4 * length fs \<le> 2 ^ 26 \<Longrightarrow>
     \<exists>rs a'. allocateFolders fs a = Inr (rs, a') \<and> tidy a' \<and> allocatedCount a' \<le> allocatedCount a + 4 * length fs"
proof (induction fs arbitrary: a)
  case (Cons f fs)
  obtain r a1 where r: "allocateFolder f a = Inr (r, a1)" "tidy a1" "allocatedCount a1 \<le> allocatedCount a + 4"
    using folder_allocated [OF Cons.prems(1), of f] Cons.prems(2) by auto
  obtain rs a' where rs: "allocateFolders fs a1 = Inr (rs, a')" "tidy a'" "allocatedCount a' \<le> allocatedCount a1 + 4 * length fs"
    using Cons.IH [OF r(2)] Cons.prems(2) r(3) by auto
  show ?case using r rs by (intro exI [of _ "r # rs"] exI [of _ a']) auto
qed auto

lemma registerReserved_next: "registerReserved n a = Inr a' \<Longrightarrow> m5_nextIndex a' = m5_nextIndex a"
  by (auto simp: registerReserved_def registerExternal_def split: if_splits)

lemma baseline_next: "registerBaselineReservedNids newAllocator = Inr a \<Longrightarrow> m5_nextIndex a = m5_nextIndex newAllocator"
proof -
  have "foldM_r registerReserved ns b = Inr a \<Longrightarrow> m5_nextIndex a = m5_nextIndex b" for ns b
    by (induction ns arbitrary: b) (auto simp: bind_r_Inr dest: registerReserved_next)
  then show "registerBaselineReservedNids newAllocator = Inr a \<Longrightarrow> m5_nextIndex a = m5_nextIndex newAllocator"
    by (simp add: registerBaselineReservedNids_def)
qed

lemma baseline_tables:
  "list_all (\<lambda>n. nid_type n \<in> set tableTypes \<longrightarrow> 0x400 \<le> nid_index n \<longrightarrow> mkNid NtNormalFolder (nid_index n) \<in> set kBaselineReserved)
     (kReservedTable @ kBaselineReserved)"
  by code_simp

lemma baseline_tidy:
  assumes "registerBaselineReservedNids newAllocator = Inr a"
  shows "tidy a" and "allocatedCount a \<le> 37"
proof -
  have ok: "m5_ok a" and cl: "claimed a = set kReservedTable \<union> set kBaselineReserved"
    using baseline_registered assms by auto
  have "m5_nextIndex a ! typeSlot nt = 0x400" if "nt \<in> set itemTypes" for nt
    using that by (auto simp: baseline_next [OF assms] itemTypes_def newAllocator_state typeSlot_def)
  moreover have "isAllocated (mkNid NtNormalFolder j) a" if T: "T \<in> set tableTypes" and j: "userIndex j" "isAllocated (mkNid T j) a" for T j
  proof -
    have "mkNid T j \<in> set (kReservedTable @ kBaselineReserved)" using j(2) cl by (auto simp: claimed_def m5_used_def)
    moreover have "nid_type (mkNid T j) = T" "nid_index (mkNid T j) = j"
      using T j(1) type_facts(3) by (auto simp: nid_index_mkNid mask27 and_mask_index userIndex_def)
    ultimately have "mkNid NtNormalFolder j \<in> set kBaselineReserved"
      using bspec [OF baseline_tables [unfolded list_all_iff], of "mkNid T j"] T j(1) by (simp add: userIndex_def)
    then show ?thesis using cl not_rft [of NtNormalFolder j] type_facts(1) [of NtNormalFolder]
      by (auto simp: claimed_def m5_used_def itemTypes_def)
  qed
  ultimately show "tidy a" using ok by (auto simp: tidy_def)
  have "m5_allocated a \<subseteq> nid_value ` set (kReservedTable @ kBaselineReserved)"
    using cl by (force simp: claimed_def m5_used_def isAllocated_def image_iff)
  then have "card (m5_allocated a) \<le> card (nid_value ` set (kReservedTable @ kBaselineReserved))" by (rule card_mono [rotated]) simp
  also have "\<dots> \<le> length (kReservedTable @ kBaselineReserved)" by (metis card_image_le card_length finite_set le_trans)
  also have "\<dots> = 37" by (simp add: kReservedTable_def kBaselineReserved_def)
  finally show "allocatedCount a \<le> 37" by (simp add: allocatedCount_def)
qed

end
