(* ===== verification/ItemStore.thy ===== *)
theory ItemStore
  imports StoreRows
begin

text \<open>
  The store that \<open>writeM8Pst\<close> and \<open>writeM9Pst\<close> build (\<open>src/contact.cpp\<close>, \<open>src/event.cpp\<close>): the two functions
  schedule the same nodes and differ in the builder of the context of an item, which is an argument here.  The lemmas
  show which rows the store has, that they are on disk, and which configurations are always written.
\<close>

section \<open>Stores of items\<close>

record 'i ItemFolder =
  itf_displayName :: bytes
  itf_nid :: Nid
  itf_parentNid :: Nid
  itf_containerClass :: bytes
  itf_items :: "'i option list"

record 'i ItemConfig =
  itc_providerUid :: bytes
  itc_pstDisplayName :: bytes
  itc_folders :: "'i ItemFolder list"

definition itemCount :: "'i ItemFolder FolderRecord \<Rightarrow> u32" where
  "itemCount rec = word_of_nat (length (itf_items (fr_src rec)))"

definition scheduleItemFolder ::
  "'i ItemFolder FolderRecord \<Rightarrow> (bytes \<times> bytes) list \<times> StoreState \<Rightarrow> ((bytes \<times> bytes) list \<times> StoreState) result" where
  "scheduleItemFolder rec s =
     (case s of (folderBufStore, st) \<Rightarrow>
       bind_r (folderNames (itf_displayName (fr_src rec)) (itf_containerClass (fr_src rec))) (\<lambda>names.
       bind_r (schedulePc (fr_folderNid rec) (itf_parentNid (fr_src rec))
                 (buildMailFolderPc (folderSchema names (itemCount rec) 0) kDummySub) st) (\<lambda>st.
       bind_r (scheduleTc (fr_hierarchyNid rec) (buildFolderHierarchyTc []) st) (\<lambda>st.
       bind_r (scheduleTc (fr_contentsNid rec) buildFolderContentsTcEmpty st) (\<lambda>st.
       bind_r (scheduleTc (fr_faiNid rec) buildFolderFaiContentsTc st) (\<lambda>st.
         Inr (folderBufStore @ [names], st)))))))"

definition itemHierarchyRow :: "'i ItemFolder FolderRecord \<Rightarrow> bytes \<times> bytes \<Rightarrow> HierarchyTcRow" where
  "itemHierarchyRow rec names =
     \<lparr>htr_rowId = fr_folderNid rec, htr_rowVer = 0, htr_displayName = fst names, htr_contentCount = itemCount rec,
      htr_contentUnreadCount = 0, htr_hasSubfolders = False, htr_containerClass = []\<rparr>"

definition scheduleItemHierarchy :: "'i ItemFolder FolderRecord list \<Rightarrow> (bytes \<times> bytes) list \<Rightarrow> StoreState \<Rightarrow> StoreState result" where
  "scheduleItemHierarchy folderRecs folderBufStore st =
     scheduleTc (Nid 0x802D)
       (buildFolderHierarchyTc (map (\<lambda>i. itemHierarchyRow (folderRecs ! i) (folderBufStore ! i)) [0..<length folderRecs])) st"

definition scheduleItem ::
  "('i \<Rightarrow> MailPcBuildContext \<Rightarrow> MailPcResult result) \<Rightarrow> bytes \<Rightarrow> Nid \<Rightarrow> 'i option \<Rightarrow> StoreState \<times> M5Allocator
   \<Rightarrow> (StoreState \<times> M5Allocator) result" where
  "scheduleItem buildPc providerUid folderNid item s =
     (case item of
        None \<Rightarrow> Inr s
      | Some c \<Rightarrow>
          (case s of (st, alloc) \<Rightarrow>
             bind_r (allocOrThrow NtNormalMessage alloc) (\<lambda>(nid, alloc).
             bind_r (buildPc c \<lparr>ctx_providerUid = providerUid, ctx_subnodeStart = messageSubnodeStart nid\<rparr>) (\<lambda>pc.
               Inr (scheduleNode nid folderNid (mpr_hnBytes pc) (Bid 0) st, alloc)))))"

definition scheduleItems ::
  "('i \<Rightarrow> MailPcBuildContext \<Rightarrow> MailPcResult result) \<Rightarrow> bytes \<Rightarrow> 'i ItemFolder FolderRecord
   \<Rightarrow> StoreState \<times> M5Allocator \<Rightarrow> (StoreState \<times> M5Allocator) result" where
  "scheduleItems buildPc providerUid rec s =
     foldM_r (scheduleItem buildPc providerUid (fr_folderNid rec)) (itf_items (fr_src rec)) s"

definition buildItemStore ::
  "('i \<Rightarrow> MailPcBuildContext \<Rightarrow> MailPcResult result) \<Rightarrow> bytes option \<Rightarrow> 'i ItemConfig \<Rightarrow> StoreState result" where
  "buildItemStore buildPc env config =
     bind_r (scheduleBaseline env (itc_providerUid config) (itc_pstDisplayName config)) (\<lambda>(st, alloc).
     bind_r (allocateFolders (itc_folders config) alloc) (\<lambda>(folderRecs, alloc).
     bind_r (foldM_r scheduleItemFolder folderRecs ([], st)) (\<lambda>(folderBufStore, st).
     bind_r (scheduleItemHierarchy folderRecs folderBufStore st) (\<lambda>st.
     bind_r (foldM_r (scheduleItems buildPc (itc_providerUid config)) folderRecs (st, alloc)) (\<lambda>(st, alloc).
       Inr st)))))"

section \<open>The rows of a store of items\<close>

text \<open>A loop whose steps are related by a relation that is closed under composition.\<close>

lemma foldM_r_steps:
  assumes "\<And>y s s'. ok s \<Longrightarrow> g y s = Inr s' \<Longrightarrow> R [y] s s'" and "\<And>s. ok s \<Longrightarrow> R [] s s"
    and "\<And>xs ys s s1 s2. R xs s s1 \<Longrightarrow> R ys s1 s2 \<Longrightarrow> R (xs @ ys) s s2" and "\<And>xs s s'. R xs s s' \<Longrightarrow> ok s'"
  shows "ok s \<Longrightarrow> foldM_r g ys s = Inr s' \<Longrightarrow> R ys s s'"
proof (induction ys arbitrary: s)
  case (Cons y ys)
  then obtain s1 where s: "g y s = Inr s1" "foldM_r g ys s1 = Inr s'" by (auto simp: bind_r_Inr)
  note r = assms(1) [OF Cons.prems(1) s(1)]
  show ?case using assms(3) [OF r Cons.IH [OF assms(4) [OF r] s(2)]] by simp
qed (use assms(2) in simp)

text \<open>The four nodes of a folder: its context and its tables.\<close>

definition folderRows :: "'i ItemFolder FolderRecord \<Rightarrow> StoreRow list \<Rightarrow> bool" where
  "folderRows rec rows \<longleftrightarrow>
     map fst rows = recordNids rec
     \<and> (\<exists>names pc. folderNames (itf_displayName (fr_src rec)) (itf_containerClass (fr_src rec)) = Inr names
          \<and> buildMailFolderPc (folderSchema names (itemCount rec) 0) kDummySub = Inr pc
          \<and> hd rows = (fr_folderNid rec, itf_parentNid (fr_src rec), pcr_hnBytes pc))"

definition foldersAdded ::
  "'i ItemFolder FolderRecord list \<Rightarrow> (bytes \<times> bytes) list \<times> StoreState \<Rightarrow> (bytes \<times> bytes) list \<times> StoreState \<Rightarrow> bool" where
  "foldersAdded recs s s' \<longleftrightarrow> (\<exists>groups. list_all2 folderRows recs groups \<and> addsPlain (concat groups) (snd s) (snd s'))"

lemma scheduleItemFolder_adds:
  assumes "store_ok (snd s)" and "scheduleItemFolder rec s = Inr s'"
  shows "foldersAdded [rec] s s'"
proof -
  obtain bufs st where s: "s = (bufs, st)" by fastforce
  then have ok: "store_ok st" using assms(1) by simp
  obtain names st1 st2 st3 st4 where f: "folderNames (itf_displayName (fr_src rec)) (itf_containerClass (fr_src rec)) = Inr names"
    "schedulePc (fr_folderNid rec) (itf_parentNid (fr_src rec)) (buildMailFolderPc (folderSchema names (itemCount rec) 0) kDummySub) st = Inr st1"
    "scheduleTc (fr_hierarchyNid rec) (buildFolderHierarchyTc []) st1 = Inr st2"
    "scheduleTc (fr_contentsNid rec) buildFolderContentsTcEmpty st2 = Inr st3"
    "scheduleTc (fr_faiNid rec) buildFolderFaiContentsTc st3 = Inr st4" "s' = (bufs @ [names], st4)"
    using assms(2) by (auto simp: s scheduleItemFolder_def bind_r_Inr)
  obtain pc where pc: "buildMailFolderPc (folderSchema names (itemCount rec) 0) kDummySub = Inr pc"
    "addsPlain [(fr_folderNid rec, itf_parentNid (fr_src rec), pcr_hnBytes pc)] st st1"
    using schedulePc_adds [OF ok f(2) [unfolded buildMailFolderPc_def]] by (auto simp: buildMailFolderPc_def)
  obtain b2 where b2: "addsPlain [(fr_hierarchyNid rec, Nid 0, b2)] st1 st2"
    using scheduleTc_adds [OF addsPlain_ok [OF pc(2)] f(3) [unfolded buildFolderHierarchyTc_def]] by blast
  obtain b3 where b3: "addsPlain [(fr_contentsNid rec, Nid 0, b3)] st2 st3"
    using scheduleTc_adds [OF addsPlain_ok [OF b2] f(4) [unfolded buildFolderContentsTcEmpty_def]] by blast
  obtain b4 where b4: "addsPlain [(fr_faiNid rec, Nid 0, b4)] st3 st4"
    using scheduleTc_adds [OF addsPlain_ok [OF b3] f(5) [unfolded buildFolderFaiContentsTc_def]] by blast
  let ?rows = "[(fr_folderNid rec, itf_parentNid (fr_src rec), pcr_hnBytes pc), (fr_hierarchyNid rec, Nid 0, b2),
    (fr_contentsNid rec, Nid 0, b3), (fr_faiNid rec, Nid 0, b4)]"
  have "folderRows rec ?rows" using f(1) pc(1) by (simp add: folderRows_def recordNids_def)
  moreover have "addsPlain ?rows st st4"
    using addsPlain_trans [OF pc(2) addsPlain_trans [OF b2 addsPlain_trans [OF b3 b4]]] by simp
  ultimately show ?thesis unfolding foldersAdded_def s f(6) by (intro exI [of _ "[?rows]"]) simp
qed

lemma folders_added:
  "store_ok (snd s) \<Longrightarrow> foldM_r scheduleItemFolder recs s = Inr s' \<Longrightarrow> foldersAdded recs s s'"
proof (rule foldM_r_steps [where ok = "\<lambda>s. store_ok (snd s)"], goal_cases)
  case (2 s)
  then show ?case by (simp add: foldersAdded_def addsPlain_refl)
next
  case (3 xs ys s s1 s2)
  then obtain g h where "list_all2 folderRows xs g" "list_all2 folderRows ys h" "addsPlain (concat g) (snd s) (snd s1)"
    "addsPlain (concat h) (snd s1) (snd s2)" by (auto simp: foldersAdded_def)
  then show ?case unfolding foldersAdded_def
    by (intro exI [of _ "g @ h"]) (simp add: addsPlain_trans list_all2_appendI)
next
  case 4
  then show ?case by (auto simp: foldersAdded_def addsPlain_ok)
qed (simp_all add: scheduleItemFolder_adds)

text \<open>The items with the NID of their folder, and the node of an item.\<close>

definition present :: "'i option list \<Rightarrow> 'i list" where
  "present items = List.map_filter id items"

definition itemsOf :: "'i ItemFolder FolderRecord list \<Rightarrow> (Nid \<times> 'i) list" where
  "itemsOf recs = concat (map (\<lambda>rec. map (Pair (fr_folderNid rec)) (present (itf_items (fr_src rec)))) recs)"

definition itemTotal :: "'i ItemConfig \<Rightarrow> nat" where
  "itemTotal config = sum_list (map (\<lambda>f. length (present (itf_items f))) (itc_folders config))"

definition itemRow :: "('i \<Rightarrow> MailPcBuildContext \<Rightarrow> MailPcResult result) \<Rightarrow> bytes \<Rightarrow> Nid \<times> 'i \<Rightarrow> StoreRow \<Rightarrow> bool" where
  "itemRow buildPc uid x row \<longleftrightarrow>
     fst (snd row) = fst x
     \<and> (\<exists>pc. buildPc (snd x) \<lparr>ctx_providerUid = uid, ctx_subnodeStart = messageSubnodeStart (fst row)\<rparr> = Inr pc
          \<and> snd (snd row) = mpr_hnBytes pc)"

definition itemsAdded ::
  "('i \<Rightarrow> MailPcBuildContext \<Rightarrow> MailPcResult result) \<Rightarrow> bytes \<Rightarrow> (Nid \<times> 'i) list \<Rightarrow> StoreState \<times> M5Allocator \<Rightarrow> StoreState \<times> M5Allocator \<Rightarrow> bool" where
  "itemsAdded buildPc uid xs s s' \<longleftrightarrow>
     (\<exists>rows. list_all2 (itemRow buildPc uid) xs rows \<and> addsPlain rows (fst s) (fst s') \<and> takes (map fst rows) (snd s) (snd s'))"

definition itemsReady :: "StoreState \<times> M5Allocator \<Rightarrow> bool" where
  "itemsReady s \<longleftrightarrow> store_ok (fst s) \<and> m5_ok (snd s)"

lemma itemsAdded_refl: "itemsReady s \<Longrightarrow> itemsAdded buildPc uid [] s s"
  by (simp add: itemsReady_def itemsAdded_def addsPlain_refl takes_refl)

lemma itemsAdded_trans:
  "itemsAdded buildPc uid xs s s1 \<Longrightarrow> itemsAdded buildPc uid ys s1 s2 \<Longrightarrow> itemsAdded buildPc uid (xs @ ys) s s2"
  unfolding itemsAdded_def by (elim exE conjE, intro exI conjI, erule list_all2_appendI, assumption)
    (simp_all add: addsPlain_trans takes_trans)

lemma itemsAdded_ready: "itemsAdded buildPc uid xs s s' \<Longrightarrow> itemsReady s'"
  by (auto simp: itemsAdded_def itemsReady_def addsPlain_ok takes_ok)

lemma distinct_moved: "distinct (as @ x # bs @ cs) \<Longrightarrow> distinct (as @ bs @ x # cs)"
  by auto

context item_builder
begin

lemma scheduleItem_adds:
  assumes "itemsReady s" and "scheduleItem buildPc uid folder item s = Inr s'"
  shows "itemsAdded buildPc uid (map (Pair folder) (present [item])) s s'"
proof (cases item)
  case None
  then show ?thesis using assms itemsAdded_refl [OF assms(1)] by (auto simp: scheduleItem_def present_def)
next
  case (Some c)
  obtain st a where s: "s = (st, a)" by fastforce
  obtain nid a' pc where i: "allocOrThrow NtNormalMessage a = Inr (nid, a')"
    "buildPc c \<lparr>ctx_providerUid = uid, ctx_subnodeStart = messageSubnodeStart nid\<rparr> = Inr pc"
    "s' = (scheduleNode nid folder (mpr_hnBytes pc) (Bid 0) st, a')"
    using assms(2) by (auto simp: s Some scheduleItem_def bind_r_Inr)
  have "length (mpr_hnBytes pc) \<le> kMaxBlockPayload" using reads_back [OF i(2)] by (auto simp: kMaxBlockPayload_def)
  then have "addsPlain [(nid, folder, mpr_hnBytes pc)] st (scheduleNode nid folder (mpr_hnBytes pc) (Bid 0) st)"
    using assms(1) by (intro scheduleNode_plain) (simp_all add: itemsReady_def s)
  moreover have "takes [nid] a a'" using assms(1) i(1) by (intro allocOrThrow_takes) (simp_all add: itemsReady_def s)
  ultimately show ?thesis unfolding itemsAdded_def s i(3)
    using i(2) by (intro exI [of _ "[(nid, folder, mpr_hnBytes pc)]"]) (simp add: Some present_def itemRow_def)
qed

lemma present_simps: "present [] = []" "present (x # xs) = present [x] @ present xs"
  by (cases x; simp add: present_def map_filter_def)+

lemma scheduleItems_adds:
  "itemsReady s \<Longrightarrow> scheduleItems buildPc uid rec s = Inr s' \<Longrightarrow>
     itemsAdded buildPc uid (map (Pair (fr_folderNid rec)) (present (itf_items (fr_src rec)))) s s'"
  unfolding scheduleItems_def
proof (rule foldM_r_steps [where ok = itemsReady and R = "\<lambda>xs. itemsAdded buildPc uid (map (Pair (fr_folderNid rec)) (present xs))"],
    goal_cases)
  case (3 xs ys s s1 s2)
  have "present (xs @ ys) = present xs @ present ys" by (simp add: present_def map_filter_def)
  then show ?case using itemsAdded_trans [OF 3(3,4)] by simp
qed (simp_all add: scheduleItem_adds itemsAdded_ready itemsAdded_refl present_def [of "[]"])

lemma all_items_added:
  "itemsReady s \<Longrightarrow> foldM_r (scheduleItems buildPc uid) recs s = Inr s' \<Longrightarrow> itemsAdded buildPc uid (itemsOf recs) s s'"
proof (rule foldM_r_steps [where ok = itemsReady and R = "\<lambda>recs. itemsAdded buildPc uid (itemsOf recs)"], goal_cases)
  case (3 xs ys s s1 s2)
  then show ?case using itemsAdded_trans by (simp add: itemsOf_def)
qed (simp_all add: scheduleItems_adds itemsAdded_ready itemsAdded_refl itemsOf_def)

text \<open>The whole store: the rows of the baseline, of the folders, of the hierarchy, and of the items.\<close>

lemma items_stored:
  assumes "buildItemStore buildPc env config = Inr st"
  obtains base frs groups hier rows where "addsPlain (base @ concat groups @ [(Nid 0x802D, Nid 0, hier)] @ rows) emptyStore st"
    and "map fst base = baselineNids env" and "map fr_src frs = itc_folders config" and "list_all2 folderRows frs groups"
    and "list_all2 (itemRow buildPc (itc_providerUid config)) (itemsOf frs) rows"
    and "distinct (map fst (base @ concat groups @ [(Nid 0x802D, Nid 0, hier)] @ rows))"
proof -
  obtain st1 a1 frs a2 bufs st2 st3 a4 where b: "scheduleBaseline env (itc_providerUid config) (itc_pstDisplayName config) = Inr (st1, a1)"
    "allocateFolders (itc_folders config) a1 = Inr (frs, a2)" "foldM_r scheduleItemFolder frs ([], st1) = Inr (bufs, st2)"
    "scheduleItemHierarchy frs bufs st2 = Inr st3"
    "foldM_r (scheduleItems buildPc (itc_providerUid config)) frs (st3, a2) = Inr (st, a4)"
    using assms by (auto simp: buildItemStore_def bind_r_Inr)
  obtain base where base: "addsPlain base emptyStore st1" "map fst base = baselineNids env" "m5_ok a1"
    "claimed a1 = set kReservedTable \<union> set kBaselineReserved"
    using scheduleBaseline_adds [OF b(1)] .
  note ta = allocateFolders_takes [OF base(3) b(2)]
  obtain groups where g: "list_all2 folderRows frs groups" "addsPlain (concat groups) st1 st2"
    using folders_added [OF _ b(3)] addsPlain_ok [OF base(1)] by (auto simp: foldersAdded_def)
  obtain hier where h: "addsPlain [(Nid 0x802D, Nid 0, hier)] st2 st3"
    using scheduleTc_adds [OF addsPlain_ok [OF g(2)] b(4) [unfolded scheduleItemHierarchy_def buildFolderHierarchyTc_def]] by blast
  have "itemsReady (st3, a2)" using addsPlain_ok [OF h] takes_ok [OF conjunct1 [OF ta]] by (simp add: itemsReady_def)
  then obtain rows where r: "list_all2 (itemRow buildPc (itc_providerUid config)) (itemsOf frs) rows" "addsPlain rows st3 st"
    "takes (map fst rows) a2 a4"
    using all_items_added [OF _ b(5)] by (auto simp: itemsAdded_def)
  have "map fst (concat groups) = concat (map recordNids frs)"
    using g(1) by (induction rule: list_all2_induct) (simp_all add: folderRows_def)
  then have "takes (map fst (concat groups @ rows)) a1 a4" using takes_trans [OF conjunct1 [OF ta] r(3)] by simp
  then have "distinct (map fst (base @ concat groups @ [(Nid 0x802D, Nid 0, hier)] @ rows))"
    using distinct_moved [of "baselineNids env"] store_nids [OF base(4), of _ a4 env] by (simp add: base(2) del: distinct_append)
  then show ?thesis
    by (rule that [OF addsPlain_trans [OF base(1) addsPlain_trans [OF g(2) addsPlain_trans [OF h r(2)]]] base(2) conjunct2 [OF ta] g(1) r(1)])
qed

lemma items_on_disk:
  assumes "buildItemStore buildPc env config = Inr st" and "26 + 4 * length (itc_folders config) + itemTotal config \<le> 300"
  shows "\<exists>f frs groups rows. finishStore idealIo st = Inr (okResult, Some f) \<and> map fr_src frs = itc_folders config
    \<and> list_all2 folderRows frs groups \<and> list_all2 (itemRow buildPc (itc_providerUid config)) (itemsOf frs) rows
    \<and> distinct (map fst (concat groups @ rows)) \<and> list_all (nodeOnDisk st f) (concat groups @ rows)"
proof -
  obtain base frs groups hier rows where r: "addsPlain (base @ concat groups @ [(Nid 0x802D, Nid 0, hier)] @ rows) emptyStore st"
    "map fst base = baselineNids env" "map fr_src frs = itc_folders config" "list_all2 folderRows frs groups"
    "list_all2 (itemRow buildPc (itc_providerUid config)) (itemsOf frs) rows"
    "distinct (map fst (base @ concat groups @ [(Nid 0x802D, Nid 0, hier)] @ rows))"
    using items_stored [OF assms(1)] .
  let ?all = "base @ concat groups @ [(Nid 0x802D, Nid 0, hier)] @ rows"
  have a: "adds ?all emptyStore st" "plain st" using r(1) by (auto simp: addsPlain_def plain_def emptyStore_def)
  have "length base \<le> 25" using arg_cong [OF r(2), of length] by (simp add: baselineNids_def)
  moreover have "length (concat groups) = 4 * length frs"
    using r(4) by (induction rule: list_all2_induct) (auto simp: folderRows_def recordNids_def dest: arg_cong [of _ _ length])
  moreover have "length frs = length (itc_folders config)" using arg_cong [OF r(3), of length] by simp
  moreover have "length rows = itemTotal config"
    using list_all2_lengthD [OF r(5)] by (simp add: itemsOf_def itemTotal_def length_concat comp_def flip: r(3))
  moreover have "length (st_nodes st) = length ?all"
    using a(1) by (auto simp: adds_def emptyStore_def dest: list_all2_lengthD)
  ultimately have "storeSizesOk st" using assms(2) a adds_ok by (intro plain_sizes) auto
  from rows_on_disk [OF a(1) r(6) this] obtain f where "finishStore idealIo st = Inr (okResult, Some f)"
    "list_all (nodeOnDisk st f) ?all" .
  then show ?thesis using r(3-6) by (intro exI [of _ f] exI [of _ frs] exI [of _ groups] exI [of _ rows]) simp
qed

end

section \<open>Stores that are always written\<close>

text \<open>Folders whose names fit a block, alone and together in the hierarchy.\<close>

definition namesLength :: "'i ItemFolder \<Rightarrow> nat" where
  "namesLength f =
     (case folderNames (itf_displayName f) (itf_containerClass f) of Inl e \<Rightarrow> 10000 | Inr names \<Rightarrow> length (fst names) + length (snd names))"

definition foldersFit :: "'i ItemFolder list \<Rightarrow> bool" where
  "foldersFit fs \<longleftrightarrow> list_all (\<lambda>f. namesLength f \<le> 7900) fs \<and> sum_list (map (\<lambda>f. namesLength f + 65) fs) \<le> 8000"

lemma folderPc_built:
  assumes "length (fst names) + length (snd names) \<le> 7900"
  obtains pc where "buildMailFolderPc (folderSchema names n u) kDummySub = Inr pc"
proof -
  let ?ps = "mailFolderProps (folderSchema names n u)"
  have "distinct (map pc_pidTagId ?ps)" "list_all validProp ?ps" "length ?ps \<le> 7"
    "sum_list (map (\<lambda>p. length (pc_value p)) ?ps) \<le> length (fst names) + length (snd names) + 17"
    by (auto simp: mailFolderProps_def folderSchema_def validProp_def isFixedSize_def fixedSize_def write_defs)
  moreover have "nid_type kDummySub \<noteq> NtHID" by code_simp
  ultimately show ?thesis using assms that unfolding buildMailFolderPc_def by (rule_tac pc_builds) auto
qed

lemma empty_tables_built:
  "\<exists>tc. buildFolderHierarchyTc [] = Inr tc" "\<exists>tc. buildFolderContentsTcEmpty = Inr tc" "\<exists>tc. buildFolderFaiContentsTc = Inr tc"
  using schemas_valid buildTableContext_empty(1)
  by (auto simp: buildFolderHierarchyTc_def buildFolderContentsTcEmpty_def buildFolderFaiContentsTc_def validSchema_def)

lemma scheduleItemFolder_accepts:
  assumes "namesLength (fr_src rec) \<le> 7900"
  shows "\<exists>names st'. scheduleItemFolder rec (bufs, st) = Inr (bufs @ [names], st')
    \<and> length (fst names) \<le> namesLength (fr_src rec)"
proof -
  obtain names where n: "folderNames (itf_displayName (fr_src rec)) (itf_containerClass (fr_src rec)) = Inr names"
    "namesLength (fr_src rec) = length (fst names) + length (snd names)"
    using assms by (auto simp: namesLength_def split: sum.splits)
  obtain pc where "buildMailFolderPc (folderSchema names (itemCount rec) 0) kDummySub = Inr pc"
    using folderPc_built n(2) assms by metis
  moreover obtain t1 t2 t3 where t: "buildFolderHierarchyTc [] = Inr t1" "buildFolderContentsTcEmpty = Inr t2" "buildFolderFaiContentsTc = Inr t3"
    using empty_tables_built by blast
  ultimately show ?thesis using n by (intro exI [of _ names]) (simp add: t scheduleItemFolder_def schedulePc_def scheduleTc_def)
qed

lemma folders_accept:
  "list_all (\<lambda>rec. namesLength (fr_src rec) \<le> 7900) recs \<Longrightarrow>
     \<exists>ns st'. foldM_r scheduleItemFolder recs (bufs, st) = Inr (bufs @ ns, st')
       \<and> list_all2 (\<lambda>n rec. length (fst n) \<le> namesLength (fr_src rec)) ns recs"
proof (induction recs arbitrary: bufs st)
  case (Cons rec recs)
  obtain names st1 where s: "scheduleItemFolder rec (bufs, st) = Inr (bufs @ [names], st1)" "length (fst names) \<le> namesLength (fr_src rec)"
    using scheduleItemFolder_accepts [of rec bufs st] Cons.prems by auto
  obtain ns st' where "foldM_r scheduleItemFolder recs (bufs @ [names], st1) = Inr ((bufs @ [names]) @ ns, st')"
    "list_all2 (\<lambda>n rec. length (fst n) \<le> namesLength (fr_src rec)) ns recs"
    using Cons.IH [of "bufs @ [names]" st1] Cons.prems by auto
  then show ?case using s by (intro exI [of _ "names # ns"] exI [of _ st']) simp
qed simp

lemma hierarchy_accepts:
  assumes "foldersFit (map fr_src recs)" and n: "list_all2 (\<lambda>n rec. length (fst n) \<le> namesLength (fr_src rec)) ns recs"
  shows "\<exists>st'. scheduleItemHierarchy recs ns st = Inr st'"
proof -
  let ?rows = "map hierarchyRow (map (\<lambda>i. itemHierarchyRow (recs ! i) (ns ! i)) [0..<length recs])"
  let ?f = "\<lambda>r. sum_list (map (\<lambda>v. length (tvc_bytes v) + 2) (tcr_varlenCells r))"
  have "?f (hierarchyRow (itemHierarchyRow (recs ! i) (ns ! i))) \<le> namesLength (fr_src (recs ! i)) + 2" if "i < length recs" for i
    using n that by (auto simp: hierarchyRow_cells itemHierarchyRow_def list_all2_conv_all_nth)
  then have "sum_list (map (\<lambda>i. ?f (hierarchyRow (itemHierarchyRow (recs ! i) (ns ! i)))) [0..<length recs])
      \<le> sum_list (map (\<lambda>i. namesLength (fr_src (recs ! i)) + 2) [0..<length recs])"
    by (intro sum_list_mono) simp
  also have "\<dots> = sum_list (map (\<lambda>rec. namesLength (fr_src rec) + 2) recs)" by (rule arg_cong [OF map_nth_upt])
  finally have "sum_list (map ?f ?rows) \<le> sum_list (map (\<lambda>rec. namesLength (fr_src rec) + 2) recs)" by (simp add: comp_def)
  moreover have "sum_list (map (\<lambda>rec. namesLength (fr_src rec) + 65) recs)
      = sum_list (map (\<lambda>rec. namesLength (fr_src rec) + 2) recs) + 63 * length recs" by (induction recs) simp_all
  ultimately have "61 + 8 * 13 + length recs * (8 + 55) + sum_list (map ?f ?rows) \<le> 8176"
    using assms(1) by (simp add: foldersFit_def comp_def)
  then obtain r where "buildTableContext kHierarchyCols ?rows (Nid 0) = Inr r"
    by (rule_tac tc_rows_build [of kHierarchyCols ?rows]) (simp_all add: hierarchy_schema hierarchyRow_fits list_all_iff)
  then show ?thesis by (simp add: scheduleItemHierarchy_def buildFolderHierarchyTc_def scheduleTc_def)
qed

lemma messageSubnodeStart_type: "nid_type (messageSubnodeStart n) \<noteq> NtHID"
proof -
  define w where "w = nid_value n AND NOT 0x1F"
  have w: "take_bit 5 w = 0" unfolding w_def mask5 by (rule bit_word_eqI) (auto simp: bit_simps)
  have u: "unat (take_bit 5 x) = unat x mod 32" for x :: u32
    using take_bit_eq_mod [of 5 "unat x"] by (simp add: unsigned_take_bit_eq)
  have m: "unat w mod 32 = 0" using u [of w] by (simp add: w)
  have "unat (w + 0x10001) mod 32 = ((unat w + 65537) mod 2 ^ 32) mod 32" by (simp add: unat_word_ariths)
  also have "\<dots> = (unat w + 65537) mod 32" by (rule mod_mod_cancel) simp
  also have "\<dots> = 1" using m by presburger
  finally have "unat (take_bit 5 (w + 0x10001)) = 1" by (simp only: u)
  then have "take_bit 5 (w + 0x10001) = 1" by (simp add: word_unat_eq_iff)
  then have "(w + 0x10001) AND 0x1F = 1" by (simp only: mask5 take_bit_eq_mask)
  then have "nid_value (messageSubnodeStart n) AND 0x1F = 1" by (simp add: messageSubnodeStart_def w_def add.commute)
  moreover have "nidTypeOf 1 \<noteq> NtHID" by code_simp
  ultimately show ?thesis by (simp add: nid_type_def)
qed

text \<open>An item that every context with a valid subnode start can be built for.\<close>

definition itemBuilds :: "('i \<Rightarrow> MailPcBuildContext \<Rightarrow> MailPcResult result) \<Rightarrow> 'i \<Rightarrow> bool" where
  "itemBuilds buildPc c \<longleftrightarrow> (\<forall>ctx. nid_type (ctx_subnodeStart ctx) \<noteq> NtHID \<longrightarrow> (\<exists>pc. buildPc c ctx = Inr pc))"

lemma scheduleItem_accepts:
  assumes "tidy a" and "allocatedCount a + length (present [item]) \<le> 2 ^ 26" and "list_all (itemBuilds buildPc) (present [item])"
  shows "\<exists>st' a'. scheduleItem buildPc uid folder item (st, a) = Inr (st', a') \<and> tidy a'
    \<and> allocatedCount a' \<le> allocatedCount a + length (present [item])"
proof (cases item)
  case None
  then show ?thesis using assms(1) by (auto simp: scheduleItem_def present_def map_filter_def)
next
  case (Some c)
  have "NtNormalMessage \<in> set itemTypes" "allocatedCount a < 2 ^ 26"
    using assms(2) by (simp_all add: itemTypes_def Some present_def map_filter_def)
  from alloc_granted [OF assms(1) this] obtain k a' where a': "allocOrThrow NtNormalMessage a = Inr (mkNid NtNormalMessage k, a')" "tidy a'"
    "m5_allocated a' = insert (nid_value (mkNid NtNormalMessage k)) (m5_allocated a)"
    by blast
  have "allocatedCount a' \<le> allocatedCount a + 1" using count_insert [OF _ a'(3)] assms(1) by (simp add: tidy_def)
  moreover have "\<exists>pc. buildPc c \<lparr>ctx_providerUid = uid, ctx_subnodeStart = messageSubnodeStart (mkNid NtNormalMessage k)\<rparr> = Inr pc"
    using assms(3) messageSubnodeStart_type by (simp add: Some present_def map_filter_def itemBuilds_def)
  ultimately show ?thesis using a'(2) by (auto simp: a'(1) Some scheduleItem_def present_def map_filter_def)
qed

lemma scheduleItems_accept:
  "tidy a \<Longrightarrow> allocatedCount a + length (present items) \<le> 2 ^ 26 \<Longrightarrow> list_all (itemBuilds buildPc) (present items) \<Longrightarrow>
     \<exists>st' a'. foldM_r (scheduleItem buildPc uid folder) items (st, a) = Inr (st', a') \<and> tidy a'
       \<and> allocatedCount a' \<le> allocatedCount a + length (present items)"
proof (induction items arbitrary: st a)
  case (Cons x xs)
  have p: "present (x # xs) = present [x] @ present xs" by (cases x) (simp_all add: present_def map_filter_def)
  obtain st1 a1 where s: "scheduleItem buildPc uid folder x (st, a) = Inr (st1, a1)" "tidy a1"
    "allocatedCount a1 \<le> allocatedCount a + length (present [x])"
    using scheduleItem_accepts [OF Cons.prems(1), of x buildPc uid folder st] Cons.prems(2,3) by (auto simp: p)
  have "allocatedCount a1 + length (present xs) \<le> 2 ^ 26" using Cons.prems(2) s(3) by (simp add: p)
  from Cons.IH [OF s(2) this] obtain st' a' where "foldM_r (scheduleItem buildPc uid folder) xs (st1, a1) = Inr (st', a')"
    "tidy a'" "allocatedCount a' \<le> allocatedCount a1 + length (present xs)"
    using Cons.prems(3) by (fastforce simp: p)
  then show ?case using s by (simp add: p)
qed (simp add: present_def map_filter_def)

lemma all_items_accept:
  "tidy a \<Longrightarrow> allocatedCount a + length (itemsOf recs) \<le> 2 ^ 26 \<Longrightarrow> list_all (itemBuilds buildPc) (map snd (itemsOf recs)) \<Longrightarrow>
     \<exists>st' a'. foldM_r (scheduleItems buildPc uid) recs (st, a) = Inr (st', a')"
proof (induction recs arbitrary: st a)
  case (Cons r rs)
  let ?items = "itf_items (fr_src r)"
  have p: "itemsOf (r # rs) = map (Pair (fr_folderNid r)) (present ?items) @ itemsOf rs" by (simp add: itemsOf_def)
  have b: "list_all (itemBuilds buildPc) (present ?items)" "list_all (itemBuilds buildPc) (map snd (itemsOf rs))"
    using Cons.prems(3) by (simp_all add: p comp_def)
  have c: "allocatedCount a + length (present ?items) + length (itemsOf rs) \<le> 2 ^ 26" using Cons.prems(2) by (simp add: p)
  obtain st1 a1 where s: "scheduleItems buildPc uid r (st, a) = Inr (st1, a1)" "tidy a1"
    "allocatedCount a1 \<le> allocatedCount a + length (present ?items)"
    using scheduleItems_accept [OF Cons.prems(1) _ b(1), of uid "fr_folderNid r" st] c by (auto simp: scheduleItems_def)
  then show ?case using Cons.IH [OF s(2) _ b(2), of st1] c by simp
qed simp

text \<open>A configuration that is always written: short names, and items with the given property.\<close>

definition configFits :: "('i \<Rightarrow> bool) \<Rightarrow> 'i ItemConfig \<Rightarrow> bool" where
  "configFits itemOk config \<longleftrightarrow>
     length (itc_providerUid config) = 16
     \<and> (case u16le (itc_pstDisplayName config) of Inl e \<Rightarrow> False | Inr d \<Rightarrow> length d \<le> 3580)
     \<and> foldersFit (itc_folders config)
     \<and> list_all (\<lambda>f. list_all itemOk (present (itf_items f))) (itc_folders config)
     \<and> 26 + 4 * length (itc_folders config) + itemTotal config \<le> 300"

lemma store_accepted:
  assumes "configFits itemOk config" and "\<And>c. itemOk c \<Longrightarrow> itemBuilds buildPc c"
  obtains st where "buildItemStore buildPc env config = Inr st"
proof -
  obtain d where d: "u16le (itc_pstDisplayName config) = Inr d" "length d \<le> 3580" "length (itc_providerUid config) = 16"
    using assms(1) by (auto simp: configFits_def split: sum.splits)
  obtain es where es: "buildPstBaselineEntries env (itc_providerUid config) (itc_pstDisplayName config) = Inr es"
    using baseline_builds [OF d(3,1,2)] .
  obtain a1 where a1: "registerBaselineReservedNids newAllocator = Inr a1" using baseline_registered by blast
  note tidy = baseline_tidy [OF a1]
  obtain st1 where b: "scheduleBaseline env (itc_providerUid config) (itc_pstDisplayName config) = Inr (st1, a1)"
    by (simp add: scheduleBaseline_def es a1 Let_def)
  have n: "26 + 4 * length (itc_folders config) + itemTotal config \<le> 300" using assms(1) by (simp add: configFits_def)
  then obtain frs a2 where f: "allocateFolders (itc_folders config) a1 = Inr (frs, a2)" "tidy a2"
    "allocatedCount a2 \<le> allocatedCount a1 + 4 * length (itc_folders config)"
    using folders_allocated [OF tidy(1), of "itc_folders config"] tidy(2) by auto
  have src: "map fr_src frs = itc_folders config"
    using allocateFolders_takes [OF _ f(1)] tidy(1) by (simp add: tidy_def)
  have fit: "foldersFit (map fr_src frs)" using assms(1) by (simp add: src configFits_def)
  then have l: "list_all (\<lambda>rec. namesLength (fr_src rec) \<le> 7900) frs" by (simp add: foldersFit_def list_all_iff)
  obtain ns st2 where g: "foldM_r scheduleItemFolder frs ([], st1) = Inr (ns, st2)"
    "list_all2 (\<lambda>n rec. length (fst n) \<le> namesLength (fr_src rec)) ns frs"
    using folders_accept [OF l, of "[]" st1] by auto
  obtain st3 where h: "scheduleItemHierarchy frs ns st2 = Inr st3" using hierarchy_accepts [OF fit g(2)] by blast
  have "map snd (itemsOf frs) = concat (map (\<lambda>f. present (itf_items f)) (map fr_src frs))"
    by (simp add: itemsOf_def map_concat comp_def)
  then have it: "list_all (itemBuilds buildPc) (map snd (itemsOf frs))"
    using assms by (auto simp: src configFits_def list_all_iff)
  have "length (itemsOf frs) = itemTotal config" by (simp add: itemsOf_def itemTotal_def length_concat comp_def flip: src)
  then have "allocatedCount a2 + length (itemsOf frs) \<le> 2 ^ 26" using n f(3) tidy(2) by simp
  from all_items_accept [OF f(2) this it] obtain st a4
    where "foldM_r (scheduleItems buildPc (itc_providerUid config)) frs (st3, a2) = Inr (st, a4)" by blast
  then show ?thesis using that by (simp add: buildItemStore_def b f(1) g(1) h)
qed


text \<open>A configuration with a folder that holds an item between null pointers.\<close>

definition sampleConfig :: "'i \<Rightarrow> 'i ItemConfig" where
  "sampleConfig item =
     \<lparr>itc_providerUid = replicate 16 7, itc_pstDisplayName = ascii ''P'',
      itc_folders = [\<lparr>itf_displayName = ascii ''C'', itf_nid = Nid 0, itf_parentNid = Nid 0x8022, itf_containerClass = ascii ''IPF.Contact'',
        itf_items = [None, Some item, None]\<rparr>]\<rparr>"

lemma sampleConfig_counts: "itc_folders (sampleConfig item) = [hd (itc_folders (sampleConfig item))]" "itemTotal (sampleConfig item) = 1"
  by (simp_all add: sampleConfig_def itemTotal_def present_def map_filter_def)

lemma sampleConfig_fits:
  assumes "itemOk item"
  shows "configFits itemOk (sampleConfig item)"
proof -
  have "u16le (ascii ''P'') = Inr (utf16leAscii ''P'')" "length (utf16leAscii ''P'') \<le> 3580"
    "folderNames (ascii ''C'') (ascii ''IPF.Contact'') = Inr (utf16leAscii ''C'', utf16leAscii ''IPF.Contact'')"
    "length (utf16leAscii ''C'') = 2" "length (utf16leAscii ''IPF.Contact'') = 22" by code_simp+
  then show ?thesis
    using assms by (simp add: configFits_def sampleConfig_def foldersFit_def namesLength_def itemTotal_def present_def map_filter_def)
qed

end
