(* ===== verification/MailRows.thy ===== *)
theory MailRows
  imports ItemStore
begin

text \<open>
  The store that \<open>writeM7Pst\<close> builds, as a list of nodes with their subnodes.  Every operation on a store only adds to it, so
  that what one has put there stays (\<open>grows\<close>); from \<open>schedulePayload\<close> up to the loops of \<open>src/mail.cpp\<close>, \<open>builds\<close> says which
  nodes, with which data and subnodes, a step adds and how many blocks it takes.  \<open>mail_stored\<close> puts them together, and
  \<open>mail_on_disk\<close> carries the nodes into the file.
\<close>

section \<open>Growing stores\<close>

text \<open>No operation takes a block away; a small store is one within the limits of the block tree.\<close>

definition grows :: "StoreState \<Rightarrow> StoreState \<Rightarrow> bool" where
  "grows st st' \<longleftrightarrow>
     store_ok st' \<and> extends st st' \<and> take (length (st_slBlocks st)) (st_slBlocks st') = st_slBlocks st"

definition small :: "StoreState \<Rightarrow> bool" where
  "small st \<longleftrightarrow> length (storePlans st) \<le> 400"

lemma take_trans: "take (length xs) ys = xs \<Longrightarrow> take (length ys) zs = ys \<Longrightarrow> take (length xs) zs = xs"
  by (metis append_assoc append_eq_conv_conj append_take_drop_id)

lemma grows_ok: "grows st st' \<Longrightarrow> store_ok st'"
  by (simp add: grows_def)

lemma grows_refl: "store_ok st \<Longrightarrow> grows st st"
  by (simp add: grows_def extends_def)

lemma grows_trans: "grows st st1 \<Longrightarrow> grows st1 st2 \<Longrightarrow> grows st st2"
  unfolding grows_def extends_def by (blast intro: take_trans)

lemma take_all_ge: "take (length xs) ys = xs \<Longrightarrow> length xs \<le> length ys"
  by (metis length_take min.cobounded1)

lemma grows_small: "grows st st' \<Longrightarrow> small st' \<Longrightarrow> small st"
  unfolding grows_def extends_def small_def
  by (auto simp: storePlans_def dest!: take_all_ge)

lemma grows_keeps: "grows st st' \<Longrightarrow> keeps st st'"
  by (simp add: grows_def extends_def keeps_def)

lemma grows_nodes: "grows st (st'\<lparr>st_nodes := ns\<rparr>) \<longleftrightarrow> grows st st'" "grows (st\<lparr>st_nodes := ns\<rparr>) st' \<longleftrightarrow> grows st st'"
  by (simp_all add: grows_def extends_def store_ok_nodes)

section \<open>Payloads\<close>

text \<open>Stores whose blocks are data blocks of at most 8176 bytes and subnode blocks of at most 340 entries.\<close>

definition tight :: "StoreState \<Rightarrow> bool" where
  "tight st \<longleftrightarrow>
     st_xBlocks st = [] \<and> list_all (\<lambda>b. length (m7b_bodyBytes b) \<le> 8176) (st_dataBlocks st)
     \<and> list_all (\<lambda>s. length (m7s_entries s) \<le> 340) (st_slBlocks st)"

text \<open>A step that adds at most the given number of blocks to a tight store, when its payloads fit a block.\<close>

definition tightStep :: "bool \<Rightarrow> nat \<Rightarrow> StoreState \<Rightarrow> StoreState \<Rightarrow> bool" where
  "tightStep fit n st st' \<longleftrightarrow>
     (fit \<longrightarrow> tight st \<longrightarrow> tight st' \<and> length (storePlans st') \<le> length (storePlans st) + n)"

lemma tightStep_trans:
  "tightStep p n st st1 \<Longrightarrow> tightStep q m st1 st2 \<Longrightarrow> tightStep (p \<and> q) (n + m) st st2"
  by (auto simp: tightStep_def)

lemma tightStep_nodes: "tightStep p n st (st'\<lparr>st_nodes := ns\<rparr>) \<longleftrightarrow> tightStep p n st st'"
  by (simp add: tightStep_def tight_def storePlans_def)

lemma data_grows:
  assumes "store_ok st" and "scheduleDataBlock body st = (bid, st')"
  shows "grows st st'" and "st_nodes st' = st_nodes st" and "tightStep (length body \<le> 8176) 1 st st'"
    and "bid = dataBid (length (st_dataBlocks st))" and "st_dataBlocks st' = st_dataBlocks st @ [\<lparr>m7b_bid = bid, m7b_bodyBytes = body\<rparr>]"
  using assms(2) store_ok_data [OF assms(1), of body]
  by (auto simp: scheduleDataBlock_eq [OF assms(1)] grows_def extends_def tightStep_def tight_def storePlans_def)

lemma payload_grows:
  assumes ok: "store_ok st" and s: "schedulePayload body st = (bid, st')"
  shows "grows st st'" and "st_nodes st' = st_nodes st" and "length body \<le> 8176 * length (st_dataBlocks st')"
    and "tightStep (length body \<le> 8176) 1 st st'"
proof -
  have k: "kMaxBlockPayload = 8176" by (simp add: kMaxBlockPayload_def)
  have "grows st st' \<and> st_nodes st' = st_nodes st \<and> length body \<le> 8176 * length (st_dataBlocks st')
    \<and> tightStep (length body \<le> 8176) 1 st st'"
  proof (cases "length body \<le> 8176")
    case True
    then have "scheduleDataBlock body st = (bid, st')" using s by (simp add: schedulePayload_def k)
    from data_grows [OF ok this] show ?thesis using True by simp
  next
    case False
    let ?cs = "partsOf 8176 body" and ?F = "\<lambda>b :: bytes. word_of_nat (length b) :: u32"
    have big: "kMaxBlockPayload < length body" using False by (simp add: k)
    obtain bids st1 where st1: "scheduleChunks ?cs st = (bids, st1)" and c: "chunked ?cs st bids st1"
      using chunks_scheduled [OF ok] .
    note c' = c [unfolded chunked_def]
    have len: "length body \<le> 8176 * length ?cs"
      by (subst length_partsOf) simp_all
    have "\<exists>st2 cs lv n. store_ok st2 \<and> (bid, st') = makeBlock lv cs n st2 \<and> set cs \<subseteq> storeBids st2
        \<and> st_dataBlocks st2 = st_dataBlocks st1 \<and> st_slBlocks st2 = st_slBlocks st \<and> st_nodes st2 = st_nodes st
        \<and> take (length (st_xBlocks st)) (st_xBlocks st2) = st_xBlocks st"
    proof (cases "length bids \<le> kXBlockMaxChildren")
      case True
      then have "(bid, st') = makeBlock 1 bids (?F body) st1"
        using s False by (simp add: schedulePayload_def st1 k)
      then show ?thesis using c' by (intro exI [of _ st1] exI) auto
    next
      case nx: False
      define ps where "ps = partsOf kXBlockMaxChildren bids"
      let ?m = "length (internalBids st)"
      let ?h = "xblockOf ?m ps (partsOf kXBlockMaxChildren (map ?F ?cs))" and ?xbs = "map (\<lambda>i. internalBid (?m + i)) [0..<length ps]"
      obtain st2 where x2: "makeXBlocks (partsOf kXBlockMaxChildren (zip bids (map ?F ?cs))) st1 = (?xbs, st2)"
        "store_ok st2" "st_dataBlocks st2 = st_dataBlocks st1" "st_slBlocks st2 = st_slBlocks st" "st_nodes st2 = st_nodes st"
        "st_xBlocks st2 = st_xBlocks st @ map ?h [0..<length ps]"
        using xblocks_scheduled [OF c, of "map ?F ?cs"] unfolding ps_def by auto
      have "(bid, st') = makeBlock 2 ?xbs (?F body) st2"
        using s False nx x2(1) by (simp add: schedulePayload_def st1 k comp_def)
      moreover have "set ?xbs \<subseteq> storeBids st2" by (auto simp: storeBids_def x2(6) xblockOf_def)
      ultimately show ?thesis using x2 by (intro exI [of _ st2] exI) auto
    qed
    then obtain st2 cs lv n where m: "store_ok st2" "(bid, st') = makeBlock lv cs n st2" "set cs \<subseteq> storeBids st2"
      "st_dataBlocks st2 = st_dataBlocks st1" "st_slBlocks st2 = st_slBlocks st" "st_nodes st2 = st_nodes st"
      "take (length (st_xBlocks st)) (st_xBlocks st2) = st_xBlocks st" by blast
    have "store_ok st'" using makeBlock_ok [OF m(1,3)] m(2) by (metis snd_conv)
    moreover have "st_dataBlocks st' = st_dataBlocks st1" "st_slBlocks st' = st_slBlocks st" "st_nodes st' = st_nodes st"
      "take (length (st_xBlocks st)) (st_xBlocks st') = st_xBlocks st"
      using m(2,4-7) take_all_ge [OF m(7)] by (auto simp: makeBlock_eq [OF m(1)])
    moreover have "length body \<le> 8176 * length (st_dataBlocks st1)" using len c' by simp
    ultimately show ?thesis using False c' by (simp add: grows_def extends_def tightStep_def)
  qed
  then show "grows st st'" "st_nodes st' = st_nodes st" "length body \<le> 8176 * length (st_dataBlocks st')"
    "tightStep (length body \<le> 8176) 1 st st'" by simp_all
qed

text \<open>A payload under a BID; later states keep it.\<close>

definition payloadAt :: "StoreState \<Rightarrow> Nid \<times> bytes \<Rightarrow> SlEntry \<Rightarrow> bool" where
  "payloadAt st x e \<longleftrightarrow>
     sl_nid e = fst x \<and> sl_bidSub e = Bid 0 \<and> sl_bidData e \<in> storeBids st \<and> gather 2 st (sl_bidData e) = snd x"

lemma storeBids_grows: "grows st st' \<Longrightarrow> storeBids st \<subseteq> storeBids st'"
  unfolding grows_def extends_def storeBids_def by (metis Un_mono image_mono list.set_map set_take_subset)

lemma payloadAt_grows: "store_ok st \<Longrightarrow> grows st st' \<Longrightarrow> payloadAt st x e \<Longrightarrow> payloadAt st' x e"
  using gather_extends [of st st'] storeBids_grows [of st st'] by (auto simp: payloadAt_def grows_def)

lemma payloadsAt_grows:
  "store_ok st \<Longrightarrow> grows st st' \<Longrightarrow> list_all2 (payloadAt st) xs es \<Longrightarrow> list_all2 (payloadAt st') xs es"
  by (erule list_all2_mono) (rule payloadAt_grows)

lemma payload_at:
  assumes "store_ok st" and "schedulePayload body st = (bid, st')" and "small st'"
  shows "payloadAt st' (nid, body) \<lparr>sl_nid = nid, sl_bidData = bid, sl_bidSub = Bid 0\<rparr>"
proof -
  note g = payload_grows [OF assms(1,2)]
  have d: "length (st_dataBlocks st') \<le> 400" using assms(3) by (simp add: small_def storePlans_def)
  then have L: "length body < 2 ^ 32" using g(3) by simp
  have "length (storePlans st) \<le> 400" using grows_small [OF g(1) assms(3)] by (simp add: small_def)
  then have "bidRoom st (length body + 1)" using L by (simp add: bidRoom_def kMaxBids_def storePlans_def internalBids_def)
  from schedulePayload_placed [OF assms(1) this L assms(2)] show ?thesis by (simp add: payloadAt_def payloadPlaced_def)
qed


text \<open>A step that adds blocks but no node.\<close>

definition addsBlocks :: "bool \<Rightarrow> nat \<Rightarrow> StoreState \<Rightarrow> StoreState \<Rightarrow> bool" where
  "addsBlocks fit n st st' \<longleftrightarrow> grows st st' \<and> st_nodes st' = st_nodes st \<and> tightStep fit n st st'"

lemma addsBlocks_refl: "store_ok st \<Longrightarrow> addsBlocks True 0 st st"
  by (simp add: addsBlocks_def grows_refl tightStep_def)

lemma addsBlocks_trans: "addsBlocks p n st st1 \<Longrightarrow> addsBlocks q m st1 st2 \<Longrightarrow> addsBlocks (p \<and> q) (n + m) st st2"
  using grows_trans tightStep_trans by (auto simp: addsBlocks_def)

lemma addsBlocks_grows: "addsBlocks fit n st st' \<Longrightarrow> grows st st'"
  by (simp add: addsBlocks_def)

lemma addsBlocks_ok: "addsBlocks fit n st st' \<Longrightarrow> store_ok st'"
  by (simp add: addsBlocks_def grows_def)

definition smallPayload :: "Nid \<times> bytes \<Rightarrow> bool" where
  "smallPayload x \<longleftrightarrow> length (snd x) \<le> 8176"

lemma scheduleSubnodes_adds:
  "store_ok st \<Longrightarrow> scheduleSubnodes xs st = (es, st') \<Longrightarrow>
     addsBlocks (list_all smallPayload xs) (length xs) st st' \<and> (small st' \<longrightarrow> list_all2 (payloadAt st') xs es)"
proof (induction xs arbitrary: st es)
  case (Cons x xs)
  obtain nid bs where x: "x = (nid, bs)" by fastforce
  obtain bid st1 where 1: "schedulePayload bs st = (bid, st1)" by fastforce
  let ?e = "\<lparr>sl_nid = nid, sl_bidData = bid, sl_bidSub = Bid 0\<rparr>"
  obtain es1 where 2: "scheduleSubnodes xs st1 = (es1, st')" and r: "es = ?e # es1"
    using Cons.prems(2) by (auto simp: x 1 split: prod.splits)
  note g = payload_grows [OF Cons.prems(1) 1]
  have a: "addsBlocks (smallPayload x) 1 st st1" using g by (simp add: addsBlocks_def x smallPayload_def)
  note IH = Cons.IH [OF addsBlocks_ok [OF a] 2]
  have g2: "grows st1 st'" using IH addsBlocks_grows by blast
  have "payloadAt st' x ?e" if "small st'"
    using payloadAt_grows [OF addsBlocks_ok [OF a] g2] payload_at [OF Cons.prems(1) 1 grows_small [OF g2 that]] by (simp add: x)
  then show ?case using addsBlocks_trans [OF a conjunct1 [OF IH]] IH by (simp add: r)
qed (simp add: addsBlocks_refl)

lemma scheduleEntry_adds:
  assumes ok: "store_ok st" and s: "scheduleEntry nid body st = (e, st')"
  shows "addsBlocks (smallPayload (nid, body)) 1 st st'" and "small st' \<Longrightarrow> payloadAt st' (nid, body) e"
proof -
  obtain bid where b: "scheduleDataBlock body st = (bid, st')" "e = \<lparr>sl_nid = nid, sl_bidData = bid, sl_bidSub = Bid 0\<rparr>"
    using s by (auto simp: scheduleEntry_def split: prod.splits)
  note g = data_grows [OF ok b(1)]
  show "addsBlocks (smallPayload (nid, body)) 1 st st'" using g by (simp add: addsBlocks_def smallPayload_def)
  assume "small st'"
  then have "bidRoom st' 0" by (simp add: small_def bidRoom_def kMaxBids_def storePlans_def internalBids_def)
  then have "gather 2 st' bid = body"
    using gather_data [OF grows_ok [OF g(1)] bid_kinds(1)] dataBody_nth [OF grows_ok [OF g(1)], of "length (st_dataBlocks st)"] g(4,5)
    by simp
  then show "payloadAt st' (nid, body) e" by (simp add: payloadAt_def b(2) storeBids_def g(5))
qed

text \<open>The subnodes of a node: none, or a block of entries in the order of their NIDs, each with its payload.\<close>

definition subnodesAt :: "StoreState \<Rightarrow> (Nid \<times> bytes) list \<Rightarrow> Bid \<Rightarrow> bool" where
  "subnodesAt st subs bid \<longleftrightarrow>
     (if subs = [] then bid = Bid 0
      else \<exists>es. list_all2 (payloadAt st) subs es
        \<and> \<lparr>m7s_bid = bid, m7s_entries = sort_key (\<lambda>e. nid_value (sl_nid e)) es\<rparr> \<in> set (st_slBlocks st))"

lemma subnodesAt_grows: "store_ok st \<Longrightarrow> grows st st' \<Longrightarrow> subnodesAt st subs bid \<Longrightarrow> subnodesAt st' subs bid"
proof -
  assume a: "store_ok st" "grows st st'" "subnodesAt st subs bid"
  have "set (st_slBlocks st) \<subseteq> set (st_slBlocks st')" using a(2) unfolding grows_def by (metis set_take_subset)
  then show ?thesis using a payloadsAt_grows [OF a(1,2)] unfolding subnodesAt_def by (auto split: if_splits)
qed

lemma scheduleSorted_adds:
  assumes ok: "store_ok st" and s: "scheduleSorted es st = (bid, st')"
  shows "addsBlocks (length es \<le> 340) (if es = [] then 0 else 1) st st'"
    and "list_all2 (payloadAt st) subs es \<Longrightarrow> subnodesAt st' subs bid"
proof -
  have "addsBlocks (length es \<le> 340) (if es = [] then 0 else 1) st st' \<and> (list_all2 (payloadAt st) subs es \<longrightarrow> subnodesAt st' subs bid)"
  proof (cases "es = []")
    case True
    then show ?thesis using s ok by (auto simp: scheduleSorted_def subnodesAt_def addsBlocks_def grows_refl tightStep_def)
  next
    case False
    let ?es = "sort_key (\<lambda>e. nid_value (sl_nid e)) es"
    have e: "(bid, st') = scheduleSlBlock ?es st" using s False by (simp add: scheduleSorted_def)
    have d: "st_slBlocks st' = st_slBlocks st @ [\<lparr>m7s_bid = bid, m7s_entries = ?es\<rparr>]" "st_dataBlocks st' = st_dataBlocks st"
      "st_xBlocks st' = st_xBlocks st" "st_nodes st' = st_nodes st"
      using e by (auto simp: scheduleSlBlock_def allocInternalBid_def Let_def)
    have "store_ok st'" using scheduleSlBlock_ok [OF ok] e by (metis snd_conv)
    then have g: "grows st st'" by (simp add: grows_def extends_def d)
    moreover have "tightStep (length es \<le> 340) 1 st st'" by (simp add: tightStep_def tight_def storePlans_def d)
    moreover have "subnodesAt st' subs bid" if p: "list_all2 (payloadAt st) subs es"
    proof -
      have "subs \<noteq> []" using p False by auto
      then show ?thesis using payloadsAt_grows [OF ok g p] d(1) by (auto simp: subnodesAt_def)
    qed
    ultimately show ?thesis using d False by (simp add: addsBlocks_def)
  qed
  then show "addsBlocks (length es \<le> 340) (if es = [] then 0 else 1) st st'" "list_all2 (payloadAt st) subs es \<Longrightarrow> subnodesAt st' subs bid" by auto
qed


section \<open>Nodes with subnodes\<close>

text \<open>A node with its NID, the NID of its parent, the bytes of its data block, and its subnodes as NIDs and bytes.\<close>

type_synonym MailRow = "Nid \<times> Nid \<times> bytes \<times> (Nid \<times> bytes) list"

definition rowHeld :: "StoreState \<Rightarrow> MailRow \<Rightarrow> M7Node \<Rightarrow> bool" where
  "rowHeld st row n \<longleftrightarrow>
     (case row of (nid, parent, body, subs) \<Rightarrow>
        m7n_nid n = nid \<and> m7n_nidParent n = parent \<and> (\<exists>i. bodyAt st i (m7n_bidData n) body) \<and> subnodesAt st subs (m7n_bidSub n))"

definition rowSmall :: "MailRow \<Rightarrow> bool" where
  "rowSmall row \<longleftrightarrow>
     (case row of (nid, parent, body, subs) \<Rightarrow> length body \<le> 8176 \<and> list_all smallPayload subs \<and> length subs \<le> 340)"

definition rowBlocks :: "MailRow \<Rightarrow> nat" where
  "rowBlocks row = (case row of (nid, parent, body, subs) \<Rightarrow> 1 + (if subs = [] then 0 else length subs + 1))"

definition builds :: "MailRow list \<Rightarrow> StoreState \<Rightarrow> StoreState \<Rightarrow> bool" where
  "builds rows st st' \<longleftrightarrow>
     grows st st'
     \<and> (\<exists>ns. st_nodes st' = st_nodes st @ ns \<and> length ns = length rows \<and> (small st' \<longrightarrow> list_all2 (rowHeld st') rows ns))
     \<and> tightStep (list_all rowSmall rows) (sum_list (map rowBlocks rows)) st st'"

lemma builds_grows: "builds rows st st' \<Longrightarrow> grows st st'"
  by (simp add: builds_def)

lemma builds_ok: "builds rows st st' \<Longrightarrow> store_ok st'"
  by (simp add: builds_def grows_def)

lemma builds_refl: "store_ok st \<Longrightarrow> builds [] st st"
  by (simp add: builds_def grows_refl tightStep_def)

lemma rowHeld_grows: "store_ok st \<Longrightarrow> grows st st' \<Longrightarrow> rowHeld st row n \<Longrightarrow> rowHeld st' row n"
  using subnodesAt_grows [of st st'] bodyAt_keeps [OF _ grows_keeps, of st _ _ _ st'] by (fastforce simp: rowHeld_def)

lemma builds_trans:
  assumes a: "builds rows st st1" and b: "builds rows' st1 st2"
  shows "builds (rows @ rows') st st2"
proof -
  obtain ns ns' where n: "st_nodes st1 = st_nodes st @ ns" "length ns = length rows" "small st1 \<longrightarrow> list_all2 (rowHeld st1) rows ns"
    "st_nodes st2 = st_nodes st1 @ ns'" "length ns' = length rows'" "small st2 \<longrightarrow> list_all2 (rowHeld st2) rows' ns'"
    using a b by (auto simp: builds_def)
  note g = builds_grows [OF b]
  have "list_all2 (rowHeld st2) (rows @ rows') (ns @ ns')" if s: "small st2"
  proof (rule list_all2_appendI)
    have "list_all2 (rowHeld st1) rows ns" using n(3) grows_small [OF g s] by blast
    then show "list_all2 (rowHeld st2) rows ns" by (rule list_all2_mono) (rule rowHeld_grows [OF builds_ok [OF a] g])
    show "list_all2 (rowHeld st2) rows' ns'" using n(6) s by blast
  qed
  then have "\<exists>ms. st_nodes st2 = st_nodes st @ ms \<and> length ms = length (rows @ rows') \<and> (small st2 \<longrightarrow> list_all2 (rowHeld st2) (rows @ rows') ms)"
    using n by (intro exI [of _ "ns @ ns'"]) simp
  moreover have "tightStep (list_all rowSmall (rows @ rows')) (sum_list (map rowBlocks (rows @ rows'))) st st2"
    using tightStep_trans [of "list_all rowSmall rows" "sum_list (map rowBlocks rows)" st st1 "list_all rowSmall rows'"] a b
    by (simp add: builds_def)
  ultimately show ?thesis using grows_trans builds_grows [OF a] g by (simp add: builds_def)
qed

lemma nodes_ignored [simp]:
  "small (st\<lparr>st_nodes := ns\<rparr>) \<longleftrightarrow> small st" "bodyAt (st\<lparr>st_nodes := ns\<rparr>) i bid body \<longleftrightarrow> bodyAt st i bid body"
  by (simp_all add: small_def storePlans_def bodyAt_def)

lemma gather_nodes: "gather k (st\<lparr>st_nodes := ns\<rparr>) b = gather k st b"
proof (induction k arbitrary: b)
  case (Suc k)
  then have "gather k (st\<lparr>st_nodes := ns\<rparr>) = gather k st" by blast
  then show ?case by (simp add: childrenOf_def dataBody_def split: option.split)
qed (simp add: dataBody_def)

lemma subnodesAt_nodes [simp]: "subnodesAt (st\<lparr>st_nodes := ns\<rparr>) subs sub \<longleftrightarrow> subnodesAt st subs sub"
proof -
  have "payloadAt (st\<lparr>st_nodes := ns\<rparr>) = payloadAt st" by (intro ext) (simp add: payloadAt_def gather_nodes storeBids_def)
  then show ?thesis by (simp add: subnodesAt_def)
qed

lemma node_built:
  assumes a: "addsBlocks fit k st st1" and b: "bodyAt st1 i bid body" and s: "small st1 \<Longrightarrow> subnodesAt st1 subs sub"
    and f: "rowSmall (nid, parent, body, subs) \<Longrightarrow> fit" and k: "k \<le> rowBlocks (nid, parent, body, subs)"
  shows "builds [(nid, parent, body, subs)] st
    (st1\<lparr>st_nodes := st_nodes st1 @ [\<lparr>m7n_nid = nid, m7n_nidParent = parent, m7n_bidData = bid, m7n_bidSub = sub\<rparr>]\<rparr>)"
proof -
  have "tightStep (rowSmall (nid, parent, body, subs)) (rowBlocks (nid, parent, body, subs)) st st1"
    using a f k by (auto simp: addsBlocks_def tightStep_def)
  moreover have "\<exists>i. bodyAt st1 i bid body" using b by blast
  ultimately show ?thesis using a s
    by (auto simp: builds_def addsBlocks_def grows_nodes tightStep_nodes rowHeld_def)
qed

lemma scheduleNode_data:
  "scheduleNode nid parent body sub st =
     (case scheduleDataBlock body st of (bid, st1) \<Rightarrow>
        st1\<lparr>st_nodes := st_nodes st1 @ [\<lparr>m7n_nid = nid, m7n_nidParent = parent, m7n_bidData = bid, m7n_bidSub = sub\<rparr>]\<rparr>)"
  by (simp add: scheduleNode_def scheduleDataBlock_def Let_def split: prod.splits)

lemma scheduleNode_builds:
  assumes a: "addsBlocks fit k st st1" and s: "small st1 \<Longrightarrow> subnodesAt st1 subs sub"
    and f: "rowSmall (nid, parent, body, subs) \<Longrightarrow> fit" and k: "k + 1 \<le> rowBlocks (nid, parent, body, subs)"
  shows "builds [(nid, parent, body, subs)] st (scheduleNode nid parent body sub st1)"
proof -
  obtain bid st2 where d: "scheduleDataBlock body st1 = (bid, st2)" by fastforce
  note g = data_grows [OF addsBlocks_ok [OF a] d]
  have "addsBlocks (length body \<le> 8176) 1 st1 st2" using g by (simp add: addsBlocks_def)
  note a2 = addsBlocks_trans [OF a this]
  have "small st2 \<Longrightarrow> subnodesAt st2 subs sub"
    using subnodesAt_grows [OF addsBlocks_ok [OF a] g(1)] s grows_small [OF g(1)] by blast
  moreover have "bodyAt st2 (length (st_dataBlocks st1)) bid body" by (simp add: bodyAt_def g(5))
  ultimately show ?thesis unfolding scheduleNode_data d prod.case
    using f k by (intro node_built [OF a2]) (auto simp: rowSmall_def)
qed

lemma scheduleNode_plain_builds: "store_ok st \<Longrightarrow> builds [(nid, parent, body, [])] st (scheduleNode nid parent body (Bid 0) st)"
  by (rule scheduleNode_builds [OF addsBlocks_refl]) (simp_all add: subnodesAt_def rowBlocks_def)


lemma schedulePc_builds:
  assumes "store_ok st" and "schedulePc nid parent r st = Inr st'"
  shows "\<exists>pc. r = Inr pc \<and> builds [(nid, parent, pcr_hnBytes pc, [])] st st'"
  using assms scheduleNode_plain_builds by (auto simp: schedulePc_def bind_r_Inr)

lemma scheduleTc_builds:
  assumes "store_ok st" and "scheduleTc nid r st = Inr st'"
  shows "\<exists>tc. r = Inr tc \<and> builds [(nid, Nid 0, tcres_hnBytes tc, [])] st st'"
  using assms scheduleNode_plain_builds by (auto simp: scheduleTc_def bind_r_Inr)

section \<open>The baseline and the folders\<close>

definition entryRow :: "PstBaselineEntry \<Rightarrow> MailRow" where
  "entryRow e = (pbe_nid e, pbe_nidParent e, pbe_body e, [])"

lemma entries_built:
  "store_ok st \<Longrightarrow> builds (map entryRow es) st (fold (\<lambda>e. scheduleNode (pbe_nid e) (pbe_nidParent e) (pbe_body e) (Bid 0)) es st)"
proof (induction es arbitrary: st)
  case (Cons e es)
  have a: "builds [entryRow e] st (scheduleNode (pbe_nid e) (pbe_nidParent e) (pbe_body e) (Bid 0) st)"
    using scheduleNode_plain_builds [OF Cons.prems] by (simp add: entryRow_def)
  show ?case using builds_trans [OF a Cons.IH [OF builds_ok [OF a]]] by simp
qed (simp add: builds_refl)

lemma baseline_built:
  assumes "scheduleBaseline env uid name = Inr (st, a)"
  obtains es where "builds (map entryRow es) emptyStore st" and "map pbe_nid es = baselineNids env"
    and "list_all (\<lambda>e. length (pbe_body e) \<le> kMaxBlockPayload) es" and "m5_ok a"
    and "claimed a = set kReservedTable \<union> set kBaselineReserved"
proof -
  obtain es where es: "buildPstBaselineEntries env uid name = Inr es" "registerBaselineReservedNids newAllocator = Inr a"
    "st = fold (\<lambda>e. scheduleNode (pbe_nid e) (pbe_nidParent e) (pbe_body e) (Bid 0)) es emptyStore"
    using assms by (auto simp: scheduleBaseline_def bind_r_Inr Let_def)
  obtain a' where "registerBaselineReservedNids newAllocator = Inr a'" "m5_ok a'"
    "claimed a' = set kReservedTable \<union> set kBaselineReserved" by (rule baseline_registered)
  then show ?thesis
    using that [of es] entries_built [OF store_ok_empty] baseline_nids [OF es(1)] baseline_small [OF es(1)] es(2,3) by simp
qed

text \<open>The three nodes of a mail folder before its contents: the context, the hierarchy and the associated contents.\<close>

definition messageCounts :: "M7Folder FolderRecord \<Rightarrow> u32 \<times> u32" where
  "messageCounts rec = (let ms = mf_messages (fr_src rec)
     in (word_of_nat (length ms), word_of_nat (length (filter (\<lambda>m. \<not> gm_isRead (gm m)) (present ms)))))"

definition mailFolderRows :: "M7Folder FolderRecord \<Rightarrow> bytes \<times> bytes \<Rightarrow> MailRow list \<Rightarrow> bool" where
  "mailFolderRows rec names rows \<longleftrightarrow>
     utf8ToUtf16le (mf_displayName (fr_src rec)) = Inr (fst names) \<and> utf8ToUtf16le (mf_containerClass (fr_src rec)) = Inr (snd names)
     \<and> (\<exists>pc h s. buildMailFolderPc \<lparr>m7f_displayName = fst names, m7f_contentCount = fst (messageCounts rec),
            m7f_contentUnreadCount = snd (messageCounts rec), m7f_hasSubfolders = False, m7f_containerClass = snd names,
            m7f_pstHiddenCount = 0, m7f_pstHiddenUnreadCount = 0\<rparr> kDummySub = Inr pc
          \<and> buildFolderHierarchyTc [] = Inr h \<and> buildFolderFaiContentsTc = Inr s
          \<and> rows = [(fr_folderNid rec, mf_parentNid (fr_src rec), pcr_hnBytes pc, []),
               (fr_hierarchyNid rec, Nid 0, tcres_hnBytes h, []), (fr_faiNid rec, Nid 0, tcres_hnBytes s, [])])"

lemma messageCounts_code: "messageCounts rec = (contentCountOf rec, contentUnreadCountOf rec)"
proof -
  have "fold (\<lambda>m n. case m of None \<Rightarrow> n | Some m \<Rightarrow> if \<not> gm_isRead (gm m) then n + 1 else n) ms n
      = n + (word_of_nat (length (filter (\<lambda>m. \<not> gm_isRead (gm m)) (present ms))) :: u32)" for ms n
    by (induction ms arbitrary: n) (auto simp: present_def map_filter_def split: option.split)
  then show ?thesis by (simp add: messageCounts_def contentCountOf_def contentUnreadCountOf_def Let_def)
qed

lemma mailFolderRows_code:
  "mailFolderRows rec names rows \<longleftrightarrow>
     folderNames (mf_displayName (fr_src rec)) (mf_containerClass (fr_src rec)) = Inr names
     \<and> (\<exists>pc h s. buildMailFolderPc (folderSchema names (contentCountOf rec) (contentUnreadCountOf rec)) kDummySub = Inr pc
          \<and> buildFolderHierarchyTc [] = Inr h \<and> buildFolderFaiContentsTc = Inr s
          \<and> rows = [(fr_folderNid rec, mf_parentNid (fr_src rec), pcr_hnBytes pc, []),
               (fr_hierarchyNid rec, Nid 0, tcres_hnBytes h, []), (fr_faiNid rec, Nid 0, tcres_hnBytes s, [])])"
proof -
  have "folderNames a b = Inr names \<longleftrightarrow> utf8ToUtf16le a = Inr (fst names) \<and> utf8ToUtf16le b = Inr (snd names)" for a b
    by (cases names) (auto simp: folderNames_def bind_r_Inr)
  then show ?thesis by (simp add: mailFolderRows_def folderSchema_def messageCounts_code)
qed

definition foldersBuilt ::
  "M7Folder FolderRecord list \<Rightarrow> (bytes \<times> bytes) list \<times> StoreState \<Rightarrow> (bytes \<times> bytes) list \<times> StoreState \<Rightarrow> bool" where
  "foldersBuilt recs s s' \<longleftrightarrow>
     (\<exists>names groups. fst s' = fst s @ names \<and> length names = length recs \<and> length groups = length recs
        \<and> (\<forall>i < length recs. mailFolderRows (recs ! i) (names ! i) (groups ! i)) \<and> builds (concat groups) (snd s) (snd s'))"

lemma scheduleFolder_builds:
  assumes "store_ok (snd s)" and "scheduleFolder rec s = Inr s'"
  shows "foldersBuilt [rec] s s'"
proof -
  obtain bufs st where s: "s = (bufs, st)" by fastforce
  obtain names st1 st2 st3 where f: "folderNames (mf_displayName (fr_src rec)) (mf_containerClass (fr_src rec)) = Inr names"
    "schedulePc (fr_folderNid rec) (mf_parentNid (fr_src rec))
       (buildMailFolderPc (folderSchema names (contentCountOf rec) (contentUnreadCountOf rec)) kDummySub) st = Inr st1"
    "scheduleTc (fr_hierarchyNid rec) (buildFolderHierarchyTc []) st1 = Inr st2"
    "scheduleTc (fr_faiNid rec) buildFolderFaiContentsTc st2 = Inr st3" "s' = (bufs @ [names], st3)"
    using assms(2) by (auto simp: s scheduleFolder_def bind_r_Inr)
  obtain pc where pc: "buildMailFolderPc (folderSchema names (contentCountOf rec) (contentUnreadCountOf rec)) kDummySub = Inr pc"
    "builds [(fr_folderNid rec, mf_parentNid (fr_src rec), pcr_hnBytes pc, [])] st st1"
    using schedulePc_builds [OF _ f(2)] assms(1) by (auto simp: s)
  obtain h where h: "buildFolderHierarchyTc [] = Inr h" "builds [(fr_hierarchyNid rec, Nid 0, tcres_hnBytes h, [])] st1 st2"
    using scheduleTc_builds [OF builds_ok [OF pc(2)] f(3)] by blast
  obtain t where t: "buildFolderFaiContentsTc = Inr t" "builds [(fr_faiNid rec, Nid 0, tcres_hnBytes t, [])] st2 st3"
    using scheduleTc_builds [OF builds_ok [OF h(2)] f(4)] by blast
  let ?rows = "[(fr_folderNid rec, mf_parentNid (fr_src rec), pcr_hnBytes pc, []),
     (fr_hierarchyNid rec, Nid 0, tcres_hnBytes h, []), (fr_faiNid rec, Nid 0, tcres_hnBytes t, [])]"
  have "mailFolderRows rec names ?rows" unfolding mailFolderRows_code using f(1) pc(1) h(1) t(1) by blast
  moreover have "builds ?rows st st3" using builds_trans [OF pc(2) builds_trans [OF h(2) t(2)]] by simp
  ultimately show ?thesis unfolding foldersBuilt_def s f(5) by (intro exI [of _ "[names]"] exI [of _ "[?rows]"]) simp
qed

lemma folders_built:
  "store_ok (snd s) \<Longrightarrow> foldM_r scheduleFolder recs s = Inr s' \<Longrightarrow> foldersBuilt recs s s'"
proof (rule foldM_r_steps [where ok = "\<lambda>s. store_ok (snd s)"], goal_cases)
  case (2 s)
  then show ?case by (simp add: foldersBuilt_def builds_refl)
next
  case (3 xs ys s s1 s2)
  then obtain ns g ms h where "fst s1 = fst s @ ns" "length ns = length xs" "length g = length xs"
    "\<forall>i < length xs. mailFolderRows (xs ! i) (ns ! i) (g ! i)" "builds (concat g) (snd s) (snd s1)"
    "fst s2 = fst s1 @ ms" "length ms = length ys" "length h = length ys"
    "\<forall>i < length ys. mailFolderRows (ys ! i) (ms ! i) (h ! i)" "builds (concat h) (snd s1) (snd s2)"
    by (auto simp: foldersBuilt_def)
  then show ?case unfolding foldersBuilt_def
    by (intro exI [of _ "ns @ ms"] exI [of _ "g @ h"]) (auto simp: nth_append builds_trans)
next
  case 4
  then show ?case by (auto simp: foldersBuilt_def builds_ok)
qed (simp_all add: scheduleFolder_builds)


section \<open>Contents tables\<close>

definition tableSubnodes :: "TcResult \<Rightarrow> (Nid \<times> bytes) list" where
  "tableSubnodes tc = map (\<lambda>s. (so_nid s, so_data s)) (tcres_subnodes tc)"

text \<open>The values of a message in the row that stands for it: texts in UTF-16, times in ticks, and nothing for what is empty.\<close>

definition utf16Text :: "bytes \<Rightarrow> bytes \<Rightarrow> bool" where
  "utf16Text s u \<longleftrightarrow> (if s = [] then u = [] else utf8ToUtf16le s = Inr u)"

definition timeTicks :: "bytes \<Rightarrow> u64 \<Rightarrow> bool" where
  "timeTicks d k \<longleftrightarrow> (if d = [] then k = 0 else isoToFiletimeTicks d = Inr k)"

definition namesText :: "Recipient list \<Rightarrow> bytes" where
  "namesText rs = joinWith [0x3B, 0x20] (filter (\<lambda>l. l \<noteq> [])
     (map (\<lambda>x. if ea_name (rcp_emailAddress x) \<noteq> [] then ea_name (rcp_emailAddress x) else ea_address (rcp_emailAddress x)) rs))"

definition rowShows :: "MessageRecord \<Rightarrow> ContentsTcRow \<Rightarrow> bool" where
  "rowShows mr r \<longleftrightarrow>
     (let m = mr_src mr; f = gm m
      in ctr_rowId r = mr_messageNid mr \<and> ctr_importance r = (case gm_importance f of ImpLow \<Rightarrow> 0 | ImpNormal \<Rightarrow> 1 | ImpHigh \<Rightarrow> 2)
         \<and> ctr_messageFlags r = (if gm_isRead f then 1 else 0) + (if gm_isDraft f then 8 else 0)
             + (if gm_attachments m \<noteq> [] \<or> gm_hasAttachments f then 0x10 else 0)
         \<and> ctr_messageSize r = estimateMessageSize m
         \<and> utf16Text (ascii ''IPM.Note'') (ctr_messageClass r) \<and> utf16Text (gm_subject f) (ctr_subject r)
         \<and> (\<exists>p n. subjectSplit (gm_subject f) p n \<and> utf16Text n (ctr_conversationTopic r))
         \<and> utf16Text (namesText (gm_toRecipients f)) (ctr_displayTo r) \<and> utf16Text (namesText (gm_ccRecipients f)) (ctr_displayCc r)
         \<and> timeTicks (gm_receivedDateTime f) (ctr_messageDeliveryTime r) \<and> timeTicks (gm_sentDateTime f) (ctr_clientSubmitTime r)
         \<and> timeTicks (gm_lastModifiedDateTime f) (ctr_lastModificationTime r)
         \<and> ctr_conversationIndex r = gm_conversationIndex f)"

lemma u16leIf_text: "u16leIf (s \<noteq> []) s = Inr u \<Longrightarrow> utf16Text s u" "u16leIf (a \<noteq> [] \<and> s \<noteq> []) s = Inr u \<Longrightarrow> (a = [] \<Longrightarrow> s = []) \<Longrightarrow> utf16Text s u"
  by (auto simp: u16leIf_def utf16Text_def split: if_splits)

lemma ticksIf_ticks: "ticksIf d = Inr k \<Longrightarrow> timeTicks d k"
  by (auto simp: ticksIf_def timeTicks_def split: if_splits)

lemma messageRow_shows:
  assumes "messageRow mr = Inr r"
  shows "rowShows mr r"
proof -
  let ?f = "gm (mr_src mr)"
  have imp: "importanceVal i = (case i of ImpLow \<Rightarrow> 0 | ImpNormal \<Rightarrow> 1 | ImpHigh \<Rightarrow> 2)" for i by (cases i) simp_all
  obtain c s t n to cc t1 t2 t3 where v: "utf8ToUtf16le (ascii ''IPM.Note'') = Inr c" "u16leIf (gm_subject ?f \<noteq> []) (gm_subject ?f) = Inr s"
    "u16leIf (gm_subject ?f \<noteq> [] \<and> sp_normalized (splitSubject (gm_subject ?f)) \<noteq> []) (sp_normalized (splitSubject (gm_subject ?f))) = Inr t"
    "u16leIf (representingName ?f \<noteq> []) (representingName ?f) = Inr n"
    "u16leIf (joinRecipientDisplay (gm_toRecipients ?f) \<noteq> []) (joinRecipientDisplay (gm_toRecipients ?f)) = Inr to"
    "u16leIf (joinRecipientDisplay (gm_ccRecipients ?f) \<noteq> []) (joinRecipientDisplay (gm_ccRecipients ?f)) = Inr cc"
    "ticksIf (gm_receivedDateTime ?f) = Inr t1" "ticksIf (gm_sentDateTime ?f) = Inr t2" "ticksIf (gm_lastModifiedDateTime ?f) = Inr t3"
    using assms by (auto simp: messageRow_def Let_def bind_r_Inr)
  have r: "r = \<lparr>ctr_rowId = mr_messageNid mr, ctr_rowVer = 1, ctr_importance = importanceVal (gm_importance ?f),
      ctr_sensitivity = 0, ctr_messageStatus = 0, ctr_messageFlags = computeMessageFlags (mr_src mr),
      ctr_messageSize = estimateMessageSize (mr_src mr), ctr_messageToMe = False, ctr_messageCcMe = False,
      ctr_clientSubmitTime = t2, ctr_messageDeliveryTime = t1, ctr_lastModificationTime = t3,
      ctr_messageClass = c, ctr_subject = s, ctr_sentRepresentingName = n, ctr_conversationTopic = t, ctr_displayCc = cc,
      ctr_displayTo = to, ctr_conversationIndex = gm_conversationIndex ?f, ctr_changeKey = []\<rparr>"
    using assms v by (simp add: messageRow_def Let_def)
  have e: "sp_normalized (splitSubject (gm_subject ?f)) = []" if "gm_subject ?f = []"
    using splitSubject_split [of "gm_subject ?f"] that by (simp add: subjectSplit_def)
  note names = joinRecipientDisplay_join [of "gm_toRecipients ?f", folded namesText_def] joinRecipientDisplay_join [of "gm_ccRecipients ?f", folded namesText_def]
  have "\<exists>p n. subjectSplit (gm_subject ?f) p n \<and> utf16Text n t"
    using splitSubject_split u16leIf_text(2) [OF v(3) e] by blast
  moreover have "utf16Text (ascii ''IPM.Note'') c" using v(1) by (simp add: utf16Text_def)
  ultimately show ?thesis
    unfolding rowShows_def Let_def r ContentsTcRow.simps imp computeMessageFlags_sum
    using u16leIf_text(1) [OF v(2)] u16leIf_text(1) [OF v(5)] u16leIf_text(1) [OF v(6)] ticksIf_ticks [OF v(7)] ticksIf_ticks [OF v(8)]
      ticksIf_ticks [OF v(9)]
    unfolding names by (intro conjI refl)
qed

lemma messageRows_show: "mapM_r messageRow mrs = Inr rows \<Longrightarrow> list_all2 rowShows mrs rows"
  by (induction mrs arbitrary: rows) (auto simp: bind_r_Inr messageRow_shows)

text \<open>The contents table of the \<open>i\<close>-th folder has a row for each of its messages, and keeps a large row matrix in a subnode.\<close>

definition contentsNode :: "MessageRecord list \<Rightarrow> nat \<times> M7Folder FolderRecord \<Rightarrow> MailRow \<Rightarrow> bool" where
  "contentsNode msgRecs x row \<longleftrightarrow>
     (\<exists>rows tc. mapM_r messageRow (filter (\<lambda>mr. mr_folder mr = fst x) msgRecs) = Inr rows
        \<and> list_all2 rowShows (filter (\<lambda>mr. mr_folder mr = fst x) msgRecs) rows
        \<and> buildFolderContentsTc rows kRowMatrixSubnode = Inr tc
        \<and> row = (fr_contentsNid (snd x), Nid 0, tcres_hnBytes tc, tableSubnodes tc))"

lemma subnodes_sorted:
  assumes "store_ok st" and "scheduleSubnodes xs st = (es, st1)"
  shows "length es = length xs"
  using assms(2)
proof (induction xs arbitrary: st es)
  case (Cons x xs)
  then show ?case by (cases x) (auto split: prod.splits)
qed simp

lemma scheduleContents_builds:
  assumes ok: "store_ok st" and s: "scheduleContents msgRecs x st = Inr st'"
  shows "\<exists>row. contentsNode msgRecs x row \<and> builds [row] st st'"
proof -
  obtain folder rec where x: "x = (folder, rec)" by fastforce
  obtain rows tc where r: "mapM_r messageRow (filter (\<lambda>mr. mr_folder mr = folder) msgRecs) = Inr rows"
    "buildFolderContentsTc rows kRowMatrixSubnode = Inr tc"
    using s by (auto simp: x scheduleContents_def bind_r_Inr)
  let ?subs = "tableSubnodes tc"
  obtain es st1 where 1: "scheduleSubnodes ?subs st = (es, st1)" by fastforce
  obtain sub st2 where 2: "scheduleSorted es st1 = (sub, st2)" by fastforce
  have st': "st' = scheduleNode (fr_contentsNid (snd x)) (Nid 0) (tcres_hnBytes tc) sub st2"
    using s 1 2 by (simp add: x scheduleContents_def r tableSubnodes_def)
  note a1 = scheduleSubnodes_adds [OF ok 1] and l = subnodes_sorted [OF ok 1]
  note a2 = scheduleSorted_adds [OF addsBlocks_ok [OF conjunct1 [OF a1]] 2]
  have e: "es = [] \<longleftrightarrow> ?subs = []" using l by auto
  have sub: "subnodesAt st2 ?subs sub" if "small st2"
    using a1 a2(2) grows_small [OF addsBlocks_grows [OF a2(1)] that] by blast
  have "builds [(fr_contentsNid (snd x), Nid 0, tcres_hnBytes tc, ?subs)] st st'" unfolding st'
    by (rule scheduleNode_builds [OF addsBlocks_trans [OF conjunct1 [OF a1] a2(1)] sub]) (auto simp: rowSmall_def rowBlocks_def l e)
  then show ?thesis using r messageRows_show [OF r(1)] by (auto simp: contentsNode_def x)
qed

definition contentsBuilt :: "MessageRecord list \<Rightarrow> (nat \<times> M7Folder FolderRecord) list \<Rightarrow> StoreState \<Rightarrow> StoreState \<Rightarrow> bool" where
  "contentsBuilt msgRecs xs st st' \<longleftrightarrow> (\<exists>rows. list_all2 (contentsNode msgRecs) xs rows \<and> builds rows st st')"

lemma contents_built:
  "store_ok st \<Longrightarrow> foldM_r (scheduleContents msgRecs) xs st = Inr st' \<Longrightarrow> contentsBuilt msgRecs xs st st'"
proof (rule foldM_r_steps [where ok = store_ok and R = "contentsBuilt msgRecs" and g = "scheduleContents msgRecs"], goal_cases)
  case (1 y s s')
  then obtain row where "contentsNode msgRecs y row" "builds [row] s s'" using scheduleContents_builds by blast
  then show ?case unfolding contentsBuilt_def by (intro exI [of _ "[row]"]) simp
next
  case (3 xs ys s s1 s2)
  then show ?case unfolding contentsBuilt_def using builds_trans list_all2_appendI by meson
next
  case 4
  then show ?case using builds_ok by (auto simp: contentsBuilt_def)
qed (simp_all add: contentsBuilt_def builds_refl)

section \<open>Messages\<close>

text \<open>The subnodes of the attachments of a message: their table, and for each of them its context and the large values of it.\<close>

definition attachmentSubnodes :: "MailPcBuildContext \<Rightarrow> nat \<Rightarrow> Attachment \<Rightarrow> (Nid \<times> bytes) list result" where
  "attachmentSubnodes ctx i a = bind_r (buildAttachmentPc a ctx) (\<lambda>pc. Inr ((mkNid NtAttachment (word_of_nat (i + 1)), mpr_hnBytes pc) # pcSubnodes pc))"

definition attachmentTable :: "Attachment list \<Rightarrow> TcResult result" where
  "attachmentTable as = buildAttachmentTc (map (\<lambda>i. \<lparr>atr_attachmentNid = mkNid NtAttachment (word_of_nat (i + 1)), atr_attachment = Some (as ! i)\<rparr>) [0..<length as])"

definition attachmentsSubnodes :: "MailPcBuildContext \<Rightarrow> Attachment list \<Rightarrow> (Nid \<times> bytes) list result" where
  "attachmentsSubnodes ctx as =
     (if as = [] then Inr []
      else bind_r (attachmentTable as) (\<lambda>tc.
           bind_r (mapM_r (\<lambda>(i, a). attachmentSubnodes ctx i a) (zip [0..<length as] as)) (\<lambda>subs.
             Inr ((Nid 0x671, tcres_hnBytes tc) # concat subs))))"

lemma scheduleAttachmentPcs_adds:
  "store_ok st \<Longrightarrow> scheduleAttachmentPcs ctx i as st = Inr (es, st') \<Longrightarrow>
     \<exists>subs. mapM_r (\<lambda>(i, a). attachmentSubnodes ctx i a) (zip [i..<i + length as] as) = Inr subs \<and> length es = length (concat subs)
       \<and> addsBlocks (list_all smallPayload (concat subs)) (length (concat subs)) st st'
       \<and> (small st' \<longrightarrow> list_all2 (payloadAt st') (concat subs) es)"
proof (induction as arbitrary: i st es)
  case (Cons a as)
  from Cons.prems(2) obtain pc where pc: "buildAttachmentPc a ctx = Inr pc" by (auto simp: bind_r_Inr)
  obtain e st1 where 1: "scheduleEntry (attachmentNid i) (mpr_hnBytes pc) st = (e, st1)" by fastforce
  obtain bs st2 where 2: "scheduleSubnodes (pcSubnodes pc) st1 = (bs, st2)" by fastforce
  from Cons.prems(2) obtain rest where 3: "scheduleAttachmentPcs ctx (i + 1) as st2 = Inr (rest, st')" "es = e # bs @ rest"
    by (auto simp: bind_r_Inr pc 1 2)
  note a1 = scheduleEntry_adds [OF Cons.prems(1) 1]
  note a2 = scheduleSubnodes_adds [OF addsBlocks_ok [OF a1(1)] 2] and l2 = subnodes_sorted [OF addsBlocks_ok [OF a1(1)] 2]
  obtain subs where s: "mapM_r (\<lambda>(i, a). attachmentSubnodes ctx i a) (zip [i + 1..<i + 1 + length as] as) = Inr subs"
    "length rest = length (concat subs)" "addsBlocks (list_all smallPayload (concat subs)) (length (concat subs)) st2 st'"
    "small st' \<longrightarrow> list_all2 (payloadAt st') (concat subs) rest"
    using Cons.IH [OF addsBlocks_ok [OF conjunct1 [OF a2]] 3(1)] by blast
  let ?x = "(attachmentNid i, mpr_hnBytes pc)"
  have u: "[i..<i + length (a # as)] = i # [i + 1..<i + 1 + length as]" by (simp add: upt_conv_Cons del: upt_Suc)
  have x: "attachmentSubnodes ctx i a = Inr (?x # pcSubnodes pc)" by (simp add: attachmentSubnodes_def attachmentNid_def pc)
  have "mapM_r (\<lambda>(i, a). attachmentSubnodes ctx i a) (zip [i..<i + length (a # as)] (a # as)) = Inr ((?x # pcSubnodes pc) # subs)"
    using s(1) unfolding u zip_Cons_Cons by (simp add: x del: upt_Suc)
  moreover have "addsBlocks (list_all smallPayload (?x # pcSubnodes pc @ concat subs)) (length (?x # pcSubnodes pc @ concat subs)) st st'"
    using addsBlocks_trans [OF a1(1) addsBlocks_trans [OF conjunct1 [OF a2] s(3)]] by (simp add: add.assoc conj_assoc)
  moreover have "list_all2 (payloadAt st') (?x # pcSubnodes pc @ concat subs) es" if sm: "small st'"
  proof -
    have g: "grows st2 st'" "grows st1 st2" using s(3) a2 addsBlocks_grows by blast+
    have "payloadAt st' ?x e"
      using payloadAt_grows [OF addsBlocks_ok [OF a1(1)] grows_trans [OF g(2,1)]] a1(2) grows_small [OF grows_trans [OF g(2,1)] sm] by blast
    moreover have "list_all2 (payloadAt st') (pcSubnodes pc) bs"
      using payloadsAt_grows [OF addsBlocks_ok [OF conjunct1 [OF a2]] g(1)] a2 grows_small [OF g(1) sm] by blast
    ultimately show ?thesis using s(4) sm by (simp add: 3(2) list_all2_appendI)
  qed
  ultimately show ?case using l2 s(2) by (intro exI [of _ "(?x # pcSubnodes pc) # subs"]) (simp add: 3(2))
qed (simp add: addsBlocks_refl)


lemma scheduleAttachments_adds:
  assumes ok: "store_ok st" and s: "scheduleAttachments ctx as st = Inr (es, st')"
  shows "\<exists>subs. attachmentsSubnodes ctx as = Inr subs \<and> length es = length subs
       \<and> addsBlocks (list_all smallPayload subs) (length subs) st st' \<and> (small st' \<longrightarrow> list_all2 (payloadAt st') subs es)"
proof (cases "as = []")
  case True
  then show ?thesis using s ok by (simp add: scheduleAttachments_def attachmentsSubnodes_def addsBlocks_refl)
next
  case False
  obtain tc where tc: "attachmentTable as = Inr tc"
    using s False by (auto simp: scheduleAttachments_def attachmentTable_def attachmentNid_def bind_r_Inr)
  obtain e st1 where 1: "scheduleEntry (Nid 0x671) (tcres_hnBytes tc) st = (e, st1)" by fastforce
  obtain es1 where 2: "scheduleAttachmentPcs ctx 0 as st1 = Inr (es1, st')" "es = e # es1"
    using s False tc by (auto simp: scheduleAttachments_def attachmentTable_def attachmentNid_def bind_r_Inr 1)
  note a1 = scheduleEntry_adds [OF ok 1]
  obtain subs where r: "mapM_r (\<lambda>(i, a). attachmentSubnodes ctx i a) (zip [0..<length as] as) = Inr subs"
    "length es1 = length (concat subs)" "addsBlocks (list_all smallPayload (concat subs)) (length (concat subs)) st1 st'"
    "small st' \<longrightarrow> list_all2 (payloadAt st') (concat subs) es1"
    using scheduleAttachmentPcs_adds [OF addsBlocks_ok [OF a1(1)] 2(1)] by auto
  note g = addsBlocks_grows [OF r(3)]
  have "payloadAt st' (Nid 0x671, tcres_hnBytes tc) e" if "small st'"
    using payloadAt_grows [OF addsBlocks_ok [OF a1(1)] g] a1(2) grows_small [OF g that] by blast
  then show ?thesis using r False tc addsBlocks_trans [OF a1(1) r(3)]
    by (intro exI [of _ "(Nid 0x671, tcres_hnBytes tc) # concat subs"]) (simp add: attachmentsSubnodes_def 2(2))
qed

text \<open>
  The node of a message: its context, and as subnodes the large values of the context, the table of recipients, and those of
  the attachments.
\<close>

definition messageContext :: "bytes \<Rightarrow> Nid \<Rightarrow> MailPcBuildContext" where
  "messageContext providerUid nid =
     \<lparr>ctx_providerUid = providerUid, ctx_subnodeStart = Nid ((nid_value nid AND NOT 0x1F) + 0x10000 + 1)\<rparr>"

lemma messageContext_code: "messageContext uid nid = \<lparr>ctx_providerUid = uid, ctx_subnodeStart = messageSubnodeStart nid\<rparr>"
  by (simp add: messageContext_def messageSubnodeStart_def)

definition messageNode :: "bytes \<Rightarrow> M7Folder FolderRecord list \<Rightarrow> MessageRecord \<Rightarrow> MailRow \<Rightarrow> bool" where
  "messageNode uid frs mr row \<longleftrightarrow>
     (\<exists>pc recip atts. buildMailPc (mr_src mr) (messageContext uid (mr_messageNid mr)) = Inr pc
        \<and> buildRecipientTc (gm_toRecipients (gm (mr_src mr)) @ gm_ccRecipients (gm (mr_src mr)) @ gm_bccRecipients (gm (mr_src mr))) = Inr recip
        \<and> attachmentsSubnodes (messageContext uid (mr_messageNid mr)) (gm_attachments (mr_src mr)) = Inr atts
        \<and> row = (mr_messageNid mr, fr_folderNid (frs ! mr_folder mr), mpr_hnBytes pc,
             pcSubnodes pc @ (Nid 0x692, tcres_hnBytes recip) # atts))"

lemma scheduleMessage_builds:
  assumes ok: "store_ok st" and s: "scheduleMessage uid frs mr st = Inr st'"
  shows "\<exists>row. messageNode uid frs mr row \<and> builds [row] st st'"
proof -
  let ?ctx = "messageContext uid (mr_messageNid mr)" and ?m = "mr_src mr"
  obtain pc where pc: "buildMailPc ?m ?ctx = Inr pc"
    using s by (auto simp: scheduleMessage_def Let_def messageContext_code bind_r_Inr)
  obtain bs st1 where 1: "scheduleSubnodes (pcSubnodes pc) st = (bs, st1)" by fastforce
  obtain recip where recip: "buildRecipientTc (allRecipients (gm ?m)) = Inr recip"
    using s by (auto simp: scheduleMessage_def Let_def messageContext_code [symmetric] bind_r_Inr pc 1)
  obtain e st2 where 2: "scheduleEntry (Nid 0x692) (tcres_hnBytes recip) st1 = (e, st2)" by fastforce
  obtain as st3 where 3: "scheduleAttachments ?ctx (gm_attachments ?m) st2 = Inr (as, st3)"
    using s by (auto simp: scheduleMessage_def Let_def messageContext_code [symmetric] bind_r_Inr pc 1 recip 2)
  obtain bid st4 where 4: "scheduleDataBlock (mpr_hnBytes pc) st3 = (bid, st4)" by fastforce
  obtain sub st5 where 5: "scheduleSorted (bs @ [e] @ as) st4 = (sub, st5)" by fastforce
  have st': "st' = st5\<lparr>st_nodes := st_nodes st5
      @ [\<lparr>m7n_nid = mr_messageNid mr, m7n_nidParent = fr_folderNid (frs ! mr_folder mr), m7n_bidData = bid, m7n_bidSub = sub\<rparr>]\<rparr>"
    using s 5 by (simp add: scheduleMessage_def Let_def messageContext_code [symmetric] pc 1 recip 2 3 4)
  note a1 = scheduleSubnodes_adds [OF ok 1] and l1 = subnodes_sorted [OF ok 1]
  note a2 = scheduleEntry_adds [OF addsBlocks_ok [OF conjunct1 [OF a1]] 2]
  obtain atts where a3: "attachmentsSubnodes ?ctx (gm_attachments ?m) = Inr atts" "length as = length atts"
    "addsBlocks (list_all smallPayload atts) (length atts) st2 st3" "small st3 \<longrightarrow> list_all2 (payloadAt st3) atts as"
    using scheduleAttachments_adds [OF addsBlocks_ok [OF a2(1)] 3] by blast
  note d4 = data_grows [OF addsBlocks_ok [OF a3(3)] 4]
  have a4: "addsBlocks (length (mpr_hnBytes pc) \<le> 8176) 1 st3 st4" using d4 by (simp add: addsBlocks_def)
  note a5 = scheduleSorted_adds [OF addsBlocks_ok [OF a4] 5]
  let ?subs = "pcSubnodes pc @ (Nid 0x692, tcres_hnBytes recip) # atts"
  have sub: "subnodesAt st5 ?subs sub" if s5: "small st5"
  proof (rule a5(2))
    note g34 = addsBlocks_grows [OF a4] and g23 = addsBlocks_grows [OF a3(3)] and g12 = addsBlocks_grows [OF a2(1)]
    have s4: "small st4" "small st3" "small st2" "small st1"
      using grows_small [OF addsBlocks_grows [OF a5(1)] s5] grows_small [OF g34] grows_small [OF g23] grows_small [OF g12] by blast+
    have g24: "grows st2 st4" and g14: "grows st1 st4" using grows_trans g12 g23 g34 by blast+
    have "list_all2 (payloadAt st4) (pcSubnodes pc) bs"
      using payloadsAt_grows [OF addsBlocks_ok [OF conjunct1 [OF a1]] g14] a1 s4 by blast
    moreover have "payloadAt st4 (Nid 0x692, tcres_hnBytes recip) e"
      using payloadAt_grows [OF addsBlocks_ok [OF a2(1)] g24] a2(2) s4 by blast
    moreover have "list_all2 (payloadAt st4) atts as"
      using payloadsAt_grows [OF addsBlocks_ok [OF a3(3)] g34] a3(4) s4 by blast
    ultimately show "list_all2 (payloadAt st4) ?subs (bs @ [e] @ as)" by (simp add: list_all2_appendI)
  qed
  have body: "bodyAt st5 (length (st_dataBlocks st3)) bid (mpr_hnBytes pc)"
    using bodyAt_keeps [OF _ grows_keeps [OF addsBlocks_grows [OF a5(1)]]] by (simp add: bodyAt_def d4(5))
  note all = addsBlocks_trans [OF conjunct1 [OF a1] addsBlocks_trans [OF a2(1) addsBlocks_trans [OF a3(3) addsBlocks_trans [OF a4 a5(1)]]]]
  have "builds [(mr_messageNid mr, fr_folderNid (frs ! mr_folder mr), mpr_hnBytes pc, ?subs)] st st'"
    unfolding st' by (rule node_built [OF all body sub]) (auto simp: rowSmall_def rowBlocks_def l1 a3(2))
  then show ?thesis using pc recip a3(1) by (auto simp: messageNode_def allRecipients_def)
qed


definition messagesBuilt ::
  "bytes \<Rightarrow> M7Folder FolderRecord list \<Rightarrow> MessageRecord list \<Rightarrow> StoreState \<Rightarrow> StoreState \<Rightarrow> bool" where
  "messagesBuilt uid frs mrs st st' \<longleftrightarrow> (\<exists>rows. list_all2 (messageNode uid frs) mrs rows \<and> builds rows st st')"

lemma messages_built:
  "store_ok st \<Longrightarrow> foldM_r (scheduleMessage uid frs) mrs st = Inr st' \<Longrightarrow> messagesBuilt uid frs mrs st st'"
proof (rule foldM_r_steps [where ok = store_ok and R = "messagesBuilt uid frs" and g = "scheduleMessage uid frs"], goal_cases)
  case (1 y s s')
  then obtain row where "messageNode uid frs y row" "builds [row] s s'" using scheduleMessage_builds by blast
  then show ?case unfolding messagesBuilt_def by (intro exI [of _ "[row]"]) simp
next
  case (3 xs ys s s1 s2)
  then show ?case unfolding messagesBuilt_def using builds_trans list_all2_appendI by meson
next
  case 4
  then show ?case using builds_ok by (auto simp: messagesBuilt_def)
qed (simp_all add: messagesBuilt_def builds_refl)

section \<open>The whole store\<close>

text \<open>The NIDs of the messages are new, and the records are those of the configuration in its order, without the null pointers.\<close>

definition messagesOf :: "M7Folder list \<Rightarrow> (nat \<times> GraphMessage) list" where
  "messagesOf fs = concat (map (\<lambda>(i, f). map (Pair i) (present (mf_messages f))) (zip [0..<length fs] fs))"

lemma allocateMessages_takes:
  "m5_ok a \<Longrightarrow> allocateMessages i ms a = Inr (mrs, a') \<Longrightarrow>
     takes (map mr_messageNid mrs) a a' \<and> map (\<lambda>mr. (mr_folder mr, mr_src mr)) mrs = map (Pair i) (present ms)"
proof (induction i ms a arbitrary: mrs rule: allocateMessages.induct)
  case (3 i m ms a)
  obtain nid a1 mrs' where 1: "allocOrThrow NtNormalMessage a = Inr (nid, a1)" "allocateMessages i ms a1 = Inr (mrs', a')"
    "mrs = \<lparr>mr_src = m, mr_folder = i, mr_messageNid = nid\<rparr> # mrs'"
    using "3.prems"(2) by (auto simp: bind_r_Inr)
  note t = allocOrThrow_takes [OF "3.prems"(1) 1(1)]
  have IH: "takes (map mr_messageNid mrs') a1 a' \<and> map (\<lambda>mr. (mr_folder mr, mr_src mr)) mrs' = map (Pair i) (present ms)"
    by (rule "3.IH" [OF 1(1) refl takes_ok [OF t] 1(2)])
  then show ?case using takes_trans [OF t conjunct1 [OF IH]] by (simp add: 1(3) present_def map_filter_def)
qed (simp_all add: takes_refl present_def map_filter_def)

lemma allocateFolderMessages_takes:
  "m5_ok a \<Longrightarrow> allocateFolderMessages i recs a = Inr (mrs, a') \<Longrightarrow>
     takes (map mr_messageNid mrs) a a' \<and> map (\<lambda>mr. (mr_folder mr, mr_src mr)) mrs
       = concat (map (\<lambda>(i, f). map (Pair i) (present (mf_messages f))) (zip [i..<i + length recs] (map fr_src recs)))"
proof (induction recs arbitrary: i a mrs)
  case (Cons r recs)
  obtain m1 a1 m2 where 1: "allocateMessages i (mf_messages (fr_src r)) a = Inr (m1, a1)" "allocateFolderMessages (i + 1) recs a1 = Inr (m2, a')"
    "mrs = m1 @ m2"
    using Cons.prems(2) by (auto simp: bind_r_Inr)
  note t = allocateMessages_takes [OF Cons.prems(1) 1(1)]
  note IH = Cons.IH [OF takes_ok [OF conjunct1 [OF t]] 1(2)]
  have u: "[i..<i + length (r # recs)] = i # [i + 1..<i + 1 + length recs]" by (simp add: upt_conv_Cons del: upt_Suc)
  show ?case using takes_trans [OF conjunct1 [OF t] conjunct1 [OF IH]] t IH unfolding u by (simp add: 1(3) del: upt_Suc)
qed (simp add: takes_refl)


definition ipmHierarchyNode :: "M7Folder FolderRecord list \<Rightarrow> (bytes \<times> bytes) list \<Rightarrow> MailRow \<Rightarrow> bool" where
  "ipmHierarchyNode frs names row \<longleftrightarrow>
     (\<exists>tc. buildFolderHierarchyTc (map (\<lambda>i. \<lparr>htr_rowId = fr_folderNid (frs ! i), htr_rowVer = 0, htr_displayName = fst (names ! i),
            htr_contentCount = fst (messageCounts (frs ! i)), htr_contentUnreadCount = snd (messageCounts (frs ! i)),
            htr_hasSubfolders = False, htr_containerClass = snd (names ! i)\<rparr>) [0..<length frs]) = Inr tc
        \<and> row = (Nid 0x802D, Nid 0, tcres_hnBytes tc, []))"

text \<open>The nodes of a configuration: of its folders, their contents tables, the table of all folders, and of the messages.\<close>

lemma ipmHierarchyNode_code:
  "ipmHierarchyNode frs names row \<longleftrightarrow>
     (\<exists>tc. buildFolderHierarchyTc (map (\<lambda>i. hierarchyRowOf (frs ! i) (names ! i)) [0..<length frs]) = Inr tc
        \<and> row = (Nid 0x802D, Nid 0, tcres_hnBytes tc, []))"
  by (simp add: ipmHierarchyNode_def hierarchyRowOf_def messageCounts_code)

record MailNodes =
  mn_folders :: "M7Folder FolderRecord list"
  mn_messages :: "MessageRecord list"
  mn_folderRows :: "MailRow list list"
  mn_contents :: "MailRow list"
  mn_hierarchy :: MailRow
  mn_rows :: "MailRow list"

definition nodeRows :: "MailNodes \<Rightarrow> MailRow list" where
  "nodeRows x = concat (mn_folderRows x) @ mn_contents x @ mn_hierarchy x # mn_rows x"

definition nodesOf :: "M7PstConfig \<Rightarrow> MailNodes \<Rightarrow> bool" where
  "nodesOf config x \<longleftrightarrow>
     map fr_src (mn_folders x) = m7_folders config
     \<and> map (\<lambda>mr. (mr_folder mr, mr_src mr)) (mn_messages x) = messagesOf (m7_folders config)
     \<and> (\<exists>names. length names = length (mn_folders x) \<and> length (mn_folderRows x) = length (mn_folders x)
          \<and> (\<forall>i < length (mn_folders x). mailFolderRows (mn_folders x ! i) (names ! i) (mn_folderRows x ! i))
          \<and> ipmHierarchyNode (mn_folders x) names (mn_hierarchy x))
     \<and> list_all2 (contentsNode (mn_messages x)) (zip [0..<length (mn_folders x)] (mn_folders x)) (mn_contents x)
     \<and> list_all2 (messageNode (m7_providerUid config) (mn_folders x)) (mn_messages x) (mn_rows x)
     \<and> distinct (map fst (nodeRows x))"

lemma mailFolderRows_nids:
  "mailFolderRows rec names rows \<Longrightarrow> map fst rows = [fr_folderNid rec, fr_hierarchyNid rec, fr_faiNid rec]"
  by (auto simp: mailFolderRows_def)

lemma folder_nids:
  assumes "length groups = length frs" and "\<forall>i < length frs. mailFolderRows (frs ! i) (names ! i) (groups ! i)"
  shows "map fst (concat groups) = concat (map (\<lambda>r. [fr_folderNid r, fr_hierarchyNid r, fr_faiNid r]) frs)"
proof -
  have "map (map fst) groups = map (\<lambda>r. [fr_folderNid r, fr_hierarchyNid r, fr_faiNid r]) frs"
    using mailFolderRows_nids [OF assms(2) [rule_format]] assms(1) by (simp add: list_eq_iff_nth_eq [of "map _ _"])
  then show ?thesis by (simp add: map_concat)
qed

lemma record_nids:
  "mset (concat (map (\<lambda>r. [fr_folderNid r, fr_hierarchyNid r, fr_faiNid r]) frs) @ map fr_contentsNid frs)
     = mset (concat (map recordNids frs))"
  by (induction frs) (simp_all add: recordNids_def)

lemma mail_stored:
  assumes "buildM7 env config = Inr st"
  obtains es x where "builds (map entryRow es @ nodeRows x) emptyStore st" and "nodesOf config x"
    and "distinct (map fst (map entryRow es @ nodeRows x))" and "length es \<le> 25"
    and "list_all (\<lambda>e. length (pbe_body e) \<le> kMaxBlockPayload) es"
proof -
  let ?uid = "m7_providerUid config"
  obtain st1 a1 frs a2 names st2 mrs a3 st3 st4 where b: "scheduleBaseline env ?uid (m7_pstDisplayName config) = Inr (st1, a1)"
    "allocateFolders (m7_folders config) a1 = Inr (frs, a2)" "foldM_r scheduleFolder frs ([], st1) = Inr (names, st2)"
    "allocateFolderMessages 0 frs a2 = Inr (mrs, a3)" "foldM_r (scheduleContents mrs) (zip [0..<length frs] frs) st2 = Inr st3"
    "scheduleIpmHierarchy frs names st3 = Inr st4" "foldM_r (scheduleMessage ?uid frs) mrs st4 = Inr st"
    using assms by (auto simp: buildM7_def bind_r_Inr)
  obtain es where base: "builds (map entryRow es) emptyStore st1" "map pbe_nid es = baselineNids env"
    "list_all (\<lambda>e. length (pbe_body e) \<le> kMaxBlockPayload) es" "m5_ok a1" "claimed a1 = set kReservedTable \<union> set kBaselineReserved"
    using baseline_built [OF b(1)] .
  note ta = allocateFolders_takes [OF base(4) b(2)]
  note tm = allocateFolderMessages_takes [OF takes_ok [OF conjunct1 [OF ta]] b(4)]
  obtain groups where g: "length names = length frs" "length groups = length frs"
    "\<forall>i < length frs. mailFolderRows (frs ! i) (names ! i) (groups ! i)" "builds (concat groups) st1 st2"
    using folders_built [OF _ b(3)] builds_ok [OF base(1)] by (auto simp: foldersBuilt_def)
  obtain crows where c: "list_all2 (contentsNode mrs) (zip [0..<length frs] frs) crows" "builds crows st2 st3"
    using contents_built [OF builds_ok [OF g(4)] b(5)] by (auto simp: contentsBuilt_def)
  obtain tc where h: "buildFolderHierarchyTc (map (\<lambda>i. hierarchyRowOf (frs ! i) (names ! i)) [0..<length frs]) = Inr tc"
    "builds [(Nid 0x802D, Nid 0, tcres_hnBytes tc, [])] st3 st4"
    using scheduleTc_builds [OF builds_ok [OF c(2)] b(6) [unfolded scheduleIpmHierarchy_def]] by blast
  obtain rows where r: "list_all2 (messageNode ?uid frs) mrs rows" "builds rows st4 st"
    using messages_built [OF builds_ok [OF h(2)] b(7)] by (auto simp: messagesBuilt_def)
  let ?x = "\<lparr>mn_folders = frs, mn_messages = mrs, mn_folderRows = groups, mn_contents = crows,
     mn_hierarchy = (Nid 0x802D, Nid 0, tcres_hnBytes tc, []), mn_rows = rows\<rparr>"
  have B: "builds (map entryRow es @ nodeRows ?x) emptyStore st"
    using builds_trans [OF base(1) builds_trans [OF g(4) builds_trans [OF c(2) builds_trans [OF h(2) r(2)]]]] by (simp add: nodeRows_def)
  have n: "map fst crows = map fr_contentsNid frs" "map fst rows = map mr_messageNid mrs"
  proof -
    have "map fst crows = map fr_contentsNid (map snd (zip [0..<length frs] frs))"
      using c(1) by (induction rule: list_all2_induct) (auto simp: contentsNode_def)
    then show "map fst crows = map fr_contentsNid frs" by simp
    show "map fst rows = map mr_messageNid mrs"
      using r(1) by (induction rule: list_all2_induct) (auto simp: messageNode_def)
  qed
  let ?three = "concat (map (\<lambda>r. [fr_folderNid r, fr_hierarchyNid r, fr_faiNid r]) frs)"
  have "map fst (map entryRow es @ nodeRows ?x) = baselineNids env @ ?three @ map fr_contentsNid frs @ Nid 0x802D # map mr_messageNid mrs"
    using folder_nids [OF g(2,3)] base(2) by (simp add: nodeRows_def n entryRow_def comp_def)
  moreover have "mset ?three + mset (map fr_contentsNid frs) = mset (concat (map recordNids frs))"
    using record_nids [of frs] by (simp only: mset_append)
  ultimately have "mset (map fst (map entryRow es @ nodeRows ?x))
      = mset (baselineNids env @ Nid 0x802D # concat (map recordNids frs) @ map mr_messageNid mrs)"
    by (simp only: mset_append mset.simps) (simp add: add.assoc)
  moreover have "distinct (baselineNids env @ Nid 0x802D # concat (map recordNids frs) @ map mr_messageNid mrs)"
    using store_nids [OF base(5) takes_trans [OF conjunct1 [OF ta] conjunct1 [OF tm]]] .
  ultimately have D: "distinct (map fst (map entryRow es @ nodeRows ?x))" using mset_eq_imp_distinct_iff by blast
  have "length es \<le> 25" using arg_cong [OF base(2), of length] by (simp add: baselineNids_def)
  moreover have "length frs = length (m7_folders config)" using arg_cong [OF conjunct2 [OF ta], of length] by simp
  then have "nodesOf config ?x"
    using ta tm g(1-3) c(1) h(1) r(1) D by (auto simp: nodesOf_def messagesOf_def ipmHierarchyNode_code)
  ultimately show ?thesis using that B D base(3) by blast
qed


section \<open>The file of a mail store\<close>

text \<open>
  A reader that has only the bytes of the file finds the node in the node tree with its data and subnode BIDs; the data BID
  leads through the block tree to the bytes of the node; the subnode BID is 0 or leads to the sorted entries of the
  subnodes, and the BID of each entry leads to its bytes, through lists of BIDs when they are long.
\<close>

definition nodeInFile :: "bytes \<Rightarrow> MailRow \<Rightarrow> bool" where
  "nodeInFile f row \<longleftrightarrow>
     (case row of (nid, parent, body, subs) \<Rightarrow>
        \<exists>bid sub. nbtFind f (mkBref (Bid (readU64 f hdr_kBrefNbtBid)) (Ib (readU64 f hdr_kBrefNbtIb))) nid True
            = Inr (Some \<lparr>rec_nid = nid, rec_bidData = bid, rec_bidSub = sub, rec_nidParent = parent\<rparr>)
          \<and> readBlock f bid = Some body
          \<and> (if subs = [] then sub = Bid 0
             else \<exists>es. list_all2 (\<lambda>(n, bytes) e. sl_nid e = n \<and> sl_bidSub e = Bid 0 \<and> readTree 2 f (sl_bidData e) = Some bytes) subs es
               \<and> readBlock f sub = Some (slBody \<lparr>m7s_bid = sub, m7s_entries = sort_key (\<lambda>e. nid_value (sl_nid e)) es\<rparr>)))"

lemma mail_rows_on_disk:
  assumes b: "builds rows emptyStore st" and d: "distinct (map fst rows)" and ok: "storeSizesOk st"
  obtains f where "finishStore idealIo st = Inr (okResult, Some f)" and "list_all (nodeInFile f) rows"
proof -
  have inv: "store_ok st" using b by (rule builds_ok)
  have "small st" using ok by (simp add: small_def storeSizesOk_def)
  then have n: "list_all2 (rowHeld st) rows (st_nodes st)" using b by (auto simp: builds_def emptyStore_def)
  have m: "map m7n_nid (st_nodes st) = map fst rows"
    using n by (induction rule: list_all2_induct) (auto simp: rowHeld_def split: prod.splits)
  obtain f where f: "finishStore idealIo st = Inr (okResult, Some f)"
    "\<And>t c. nbtFind f (mkBref (Bid (readU64 f hdr_kBrefNbtBid)) (Ib (readU64 f hdr_kBrefNbtIb))) t c
       = Inr (map_option (m5Record \<circ> m5NodeOf) (List.find (\<lambda>n. m7n_nid n = t) (st_nodes st)))"
    using store_reads [OF ok, unfolded m, OF d] by blast
  have rd: "\<forall>i < length (storeBodies st). readBlock f (bp_bid (storePlans st ! i)) = Some (storeBodies st ! i)"
    using store_blocks [OF inv ok] f(1) by auto
  note kinds = store_block_kinds [OF rd]
  have sz: "list_all (\<lambda>b. length b < 2 ^ 16) (storeBodies st)" using ok by (simp add: storeSizesOk_def)
  have pay: "sl_nid e = fst x \<and> sl_bidSub e = Bid 0 \<and> readTree 2 f (sl_bidData e) = Some (snd x)" if "payloadAt st x e" for x e
    using that readTree_gather [OF inv sz rd, of "sl_bidData e" 2] by (simp add: payloadAt_def)
  have data: "readBlock f bid = Some body" if "bodyAt st i bid body" for i bid body
  proof -
    have "\<lparr>m7b_bid = bid, m7b_bodyBytes = body\<rparr> \<in> set (st_dataBlocks st)"
      using that nth_mem [of i "st_dataBlocks st"] by (simp add: bodyAt_def)
    from kinds(1) [OF this] show ?thesis by simp
  qed
  have "nodeInFile f (rows ! j)" if j: "j < length rows" for j
  proof -
    obtain nid parent body subs where row: "rows ! j = (nid, parent, body, subs)" by (cases "rows ! j") auto
    let ?n = "st_nodes st ! j"
    have l: "length (st_nodes st) = length rows" and h: "rowHeld st (rows ! j) ?n"
      using n j by (auto simp: list_all2_conv_all_nth)
    then obtain i where i: "m7n_nid ?n = nid" "m7n_nidParent ?n = parent" "bodyAt st i (m7n_bidData ?n) body"
      and sub: "subnodesAt st subs (m7n_bidSub ?n)" by (auto simp: rowHeld_def row)
    have "List.find (\<lambda>n. m7n_nid n = nid) (st_nodes st) = Some ?n"
      using find_nth [of m7n_nid "st_nodes st" j] d j l i(1) by (simp add: m)
    then have "nbtFind f (mkBref (Bid (readU64 f hdr_kBrefNbtBid)) (Ib (readU64 f hdr_kBrefNbtIb))) nid True
        = Inr (Some \<lparr>rec_nid = nid, rec_bidData = m7n_bidData ?n, rec_bidSub = m7n_bidSub ?n, rec_nidParent = parent\<rparr>)"
      using i by (simp add: f(2) m5Record_def m5NodeOf_def)
    moreover have "if subs = [] then m7n_bidSub ?n = Bid 0
      else \<exists>es. list_all2 (\<lambda>(n, bytes) e. sl_nid e = n \<and> sl_bidSub e = Bid 0 \<and> readTree 2 f (sl_bidData e) = Some bytes) subs es
        \<and> readBlock f (m7n_bidSub ?n) = Some (slBody \<lparr>m7s_bid = m7n_bidSub ?n, m7s_entries = sort_key (\<lambda>e. nid_value (sl_nid e)) es\<rparr>)"
    proof (cases "subs = []")
      case False
      then obtain es where es: "list_all2 (payloadAt st) subs es"
        "\<lparr>m7s_bid = m7n_bidSub ?n, m7s_entries = sort_key (\<lambda>e. nid_value (sl_nid e)) es\<rparr> \<in> set (st_slBlocks st)"
        using sub by (auto simp: subnodesAt_def)
      have "list_all2 (\<lambda>(n, bytes) e. sl_nid e = n \<and> sl_bidSub e = Bid 0 \<and> readTree 2 f (sl_bidData e) = Some bytes) subs es"
        by (rule list_all2_mono [OF es(1)]) (use pay in auto)
      then show ?thesis using kinds(3) [OF es(2)] False by auto
    qed (use sub in \<open>simp add: subnodesAt_def\<close>)
    ultimately show ?thesis using data [OF i(3)] unfolding nodeInFile_def row prod.case by blast
  qed
  then show ?thesis using that f(1) by (simp add: list_all_length)
qed

text \<open>Stores of rows that fit a block each.\<close>

lemma tight_sizes:
  assumes b: "builds rows emptyStore st" and r: "list_all rowSmall rows" "sum_list (map rowBlocks rows) \<le> 400" "length rows \<le> 300"
  shows "storeSizesOk st"
proof -
  have t: "tight emptyStore" by (simp add: tight_def emptyStore_def)
  have "tightStep (list_all rowSmall rows) (sum_list (map rowBlocks rows)) emptyStore st" using b by (simp add: builds_def)
  then have s: "tight st" "length (storePlans st) \<le> length (storePlans emptyStore) + sum_list (map rowBlocks rows)"
    using r(1) t by (simp_all add: tightStep_def)
  have "length (slBody s) = 8 + 24 * length (m7s_entries s)" for s
    by (simp add: slBody_def internalBody_def length_concat comp_def encSlEntry_def sum_list_triv)
  moreover have "length (st_nodes st) = length rows" using b by (auto simp: builds_def emptyStore_def)
  moreover have "\<not> isData b" if "b \<in> set (internalBids st)" for b
    using store_ok_bids(2) [OF builds_ok [OF b] that] bid_kinds(2) by auto
  ultimately show ?thesis
    using s r(2,3) store_ok_bids(1) [OF builds_ok [OF b]]
    by (auto simp: storeSizesOk_def tight_def storeBodies_def emptyStore_def storePlans_def list_all_iff)
qed


lemma mail_on_disk:
  assumes b: "buildM7 env config = Inr st" and ok: "storeSizesOk st"
  shows "\<exists>f x. writeM7Pst env idealIo config = Inr (okResult, Some f) \<and> nodesOf config x \<and> list_all (nodeInFile f) (nodeRows x)"
proof -
  obtain es x where x: "builds (map entryRow es @ nodeRows x) emptyStore st" "nodesOf config x"
    "distinct (map fst (map entryRow es @ nodeRows x))"
    using mail_stored [OF b] by metis
  from mail_rows_on_disk [OF x(1,3) ok] obtain f where "finishStore idealIo st = Inr (okResult, Some f)"
    "list_all (nodeInFile f) (map entryRow es @ nodeRows x)" .
  then show ?thesis using x(2) by (intro exI [of _ f] exI [of _ x]) (simp add: writeM7Pst_def guarded_def b)
qed

section \<open>A configuration that is written\<close>

lemma table_fits:
  assumes "rows \<noteq> []" and "validSchema cols" and "list_all (rowFits cols) rows" and "nid_type nid \<noteq> NtHID"
    and "tcEstimate cols rows False \<le> 8176"
  obtains r where "buildTableContext cols rows nid = Inr r" and "tcres_subnodes r = []"
proof -
  have "\<exists>M. tcAccepts cols rows (Nid 0) False M"
    using tc_plain(1) [of rows cols] assms by (auto simp: validSchema_def)
  then obtain M where "tcAccepts cols rows (Nid 0) False M" by blast
  then have "tcAccepts cols rows nid False M" using assms(4,5) by (auto simp: tcAccepts_def decidePromotion_def hn_constants split: if_splits)
  then show ?thesis using that buildTableContext_accepts [OF assms(1)] by simp
qed


definition sampleFolder :: M7Folder where
  "sampleFolder =
     \<lparr>mf_displayName = ascii ''In'', mf_nid = Nid 0, mf_parentNid = Nid 0x8022, mf_containerClass = ascii ''IPF.Note'',
      mf_messages = [None, Some sampleMail, None]\<rparr>"

definition sampleMailbox :: M7PstConfig where
  "sampleMailbox = \<lparr>m7_providerUid = replicate 16 7, m7_pstDisplayName = ascii ''P'', m7_folders = [sampleFolder]\<rparr>"

lemma sampleFolder_names:
  obtains n c where "folderNames (mf_displayName sampleFolder) (mf_containerClass sampleFolder) = Inr (n, c)"
    and "length n \<le> 20" and "length c \<le> 20"
proof -
  have "folderNames (ascii ''In'') (ascii ''IPF.Note'') = Inr (utf16leAscii ''In'', utf16leAscii ''IPF.Note'')"
    "length (utf16leAscii ''In'') \<le> 20" "length (utf16leAscii ''IPF.Note'') \<le> 20" by code_simp+
  then show ?thesis using that unfolding sampleFolder_def M7Folder.simps by blast
qed

lemma sampleFolder_accepts:
  assumes "fr_src rec = sampleFolder"
  obtains n c st' where "scheduleFolder rec ([], st) = Inr ([(n, c)], st')" and "length n \<le> 20" and "length c \<le> 20"
proof -
  obtain n c where n: "folderNames (mf_displayName sampleFolder) (mf_containerClass sampleFolder) = Inr (n, c)" "length n \<le> 20" "length c \<le> 20"
    by (rule sampleFolder_names)
  have "length (fst (n, c)) + length (snd (n, c)) \<le> 7900" using n(2,3) by simp
  from folderPc_built [OF this] obtain pc
    where "buildMailFolderPc (folderSchema (n, c) (contentCountOf rec) (contentUnreadCountOf rec)) kDummySub = Inr pc" .
  moreover obtain t1 t3 where t: "buildFolderHierarchyTc [] = Inr t1" "buildFolderFaiContentsTc = Inr t3"
    using empty_tables_built by blast
  ultimately show ?thesis using that n by (simp add: t scheduleFolder_def schedulePc_def scheduleTc_def assms)
qed

definition rowLength :: "ContentsTcRow \<Rightarrow> nat" where
  "rowLength r = sum_list (map length [ctr_messageClass r, ctr_sentRepresentingName r, ctr_subject r, ctr_displayTo r,
     ctr_displayCc r, ctr_conversationTopic r, ctr_conversationIndex r, ctr_changeKey r])"

lemma sampleMail_fields:
  "gm_toRecipients (gm sampleMail) = []" "gm_ccRecipients (gm sampleMail) = []" "gm_bccRecipients (gm sampleMail) = []"
  "gm_receivedDateTime (gm sampleMail) = []" "gm_lastModifiedDateTime (gm sampleMail) = []" "gm_conversationIndex (gm sampleMail) = []"
  "gm_sentDateTime (gm sampleMail) = ascii ''2024-01-02T03:04:05Z''" "\<not> gm_hasFrom (gm sampleMail)" "\<not> gm_hasSender (gm sampleMail)"
  "gm_attachments sampleMail = []"
proof -
  have n: "field (JNull :: nat JsonValue) k = None" "str (JNull :: nat JsonValue) k = []" for k
    by (simp_all add: field_def str_def jsonFind_def getStr_def)
  have "decodeOrEmpty [] = []" "ea_address noAddress = []" "ea_name noAddress = []" by code_simp+
  then show "gm_toRecipients (gm sampleMail) = []" "gm_ccRecipients (gm sampleMail) = []" "gm_bccRecipients (gm sampleMail) = []"
    "gm_receivedDateTime (gm sampleMail) = []" "gm_lastModifiedDateTime (gm sampleMail) = []" "gm_conversationIndex (gm sampleMail) = []"
    "gm_sentDateTime (gm sampleMail) = ascii ''2024-01-02T03:04:05Z''" "\<not> gm_hasFrom (gm sampleMail)" "\<not> gm_hasSender (gm sampleMail)"
    "gm_attachments sampleMail = []"
    by (simp_all add: sampleMail_def extractFields_def Let_def n extractRecipients_def objectsOf_def)
qed

lemma messageRow_accepts:
  fixes mr :: MessageRecord
  defines "f \<equiv> gm (mr_src mr)"
  assumes "utf8ToUtf16le (ascii ''IPM.Note'') = Inr c" and "u16leIf (gm_subject f \<noteq> []) (gm_subject f) = Inr s"
    and "u16leIf (gm_subject f \<noteq> [] \<and> sp_normalized (splitSubject (gm_subject f)) \<noteq> []) (sp_normalized (splitSubject (gm_subject f))) = Inr t"
    and "u16leIf (representingName f \<noteq> []) (representingName f) = Inr n"
    and "u16leIf (joinRecipientDisplay (gm_toRecipients f) \<noteq> []) (joinRecipientDisplay (gm_toRecipients f)) = Inr to"
    and "u16leIf (joinRecipientDisplay (gm_ccRecipients f) \<noteq> []) (joinRecipientDisplay (gm_ccRecipients f)) = Inr cc"
    and "ticksIf (gm_receivedDateTime f) = Inr t1" and "ticksIf (gm_sentDateTime f) = Inr t2"
    and "ticksIf (gm_lastModifiedDateTime f) = Inr t3"
  obtains r where "messageRow mr = Inr r"
    and "rowLength r = sum_list (map length [c, n, s, to, cc, t, gm_conversationIndex f, []])"
  using assms by (auto simp: messageRow_def Let_def rowLength_def)

lemma sampleMail_texts:
  "utf8ToUtf16le (ascii ''IPM.Note'') = Inr (utf16leAscii ''IPM.Note'')"
  "u16leIf (ascii ''RE: x'' \<noteq> []) (ascii ''RE: x'') = Inr (utf16leAscii ''RE: x'')"
  "u16leIf (ascii ''RE: x'' \<noteq> [] \<and> sp_normalized (splitSubject (ascii ''RE: x'')) \<noteq> []) (sp_normalized (splitSubject (ascii ''RE: x'')))
     = Inr (utf16leAscii ''x'')"
  "u16leIf (joinRecipientDisplay [] \<noteq> []) (joinRecipientDisplay []) = Inr []" "u16leIf ([] \<noteq> ([] :: bytes)) [] = Inr []"
  "ticksIf [] = Inr 0" "\<not> isl (ticksIf (ascii ''2024-01-02T03:04:05Z''))"
  "sum_list (map length [utf16leAscii ''IPM.Note'', [], utf16leAscii ''RE: x'', [], [], utf16leAscii ''x'', [], []]) \<le> 1000"
  by code_simp+

lemma sampleMail_row:
  assumes "mr_src mr = sampleMail"
  obtains r where "messageRow mr = Inr r" and "rowLength r \<le> 1000"
proof -
  obtain t where t: "ticksIf (ascii ''2024-01-02T03:04:05Z'') = Inr t"
    using sampleMail_texts(7) by (cases "ticksIf (ascii ''2024-01-02T03:04:05Z'')") auto
  have n: "representingName (gm sampleMail) = []" by (simp add: representingName_def sampleMail_fields)
  from messageRow_accepts [of _ mr, unfolded assms sampleMail_subject sampleMail_fields n, OF sampleMail_texts(1-3,5,4,4,6) t sampleMail_texts(6)]
  show ?thesis using that sampleMail_texts(8) by metis
qed

lemma contentsRow_small: "sum_list (map (\<lambda>v. length (tvc_bytes v) + 2) (tcr_varlenCells (contentsRow r))) \<le> rowLength r + 16"
proof -
  have "sum_list (map (\<lambda>v. length (tvc_bytes v) + 2) (tcr_varlenCells (contentsRow r)))
      = sum_list (map (\<lambda>x. length (snd (snd x)) + 2) (contentsVar r))"
    by (simp add: contentsRow_eq comp_def)
  also have "\<dots> \<le> rowLength r + 16"
    unfolding contentsVar_def by (rule order_trans [OF sum_list_filter_le_nat]) (simp add: rowLength_def)
  finally show ?thesis .
qed


lemma sampleMail_contents:
  assumes "mr_src mr = sampleMail"
  obtains r tc where "messageRow mr = Inr r" and "buildFolderContentsTc [r] kRowMatrixSubnode = Inr tc" and "tcres_subnodes tc = []"
proof -
  obtain r where r: "messageRow mr = Inr r" "rowLength r \<le> 1000" using sampleMail_row [OF assms] .
  have v: "validSchema kContentsCols" using schemas_valid by simp
  have "unat (endBm (computeTcRgib kContentsCols)) = 126" "length kContentsCols = 28" by (simp_all add: contents_schema)
  then have "tcEstimate kContentsCols [contentsRow r] False \<le> 8176"
    using tcEstimate_le [of kContentsCols "[contentsRow r]"] contentsRow_small [of r] r(2) by simp
  moreover have "nid_type kRowMatrixSubnode \<noteq> NtHID" by code_simp
  ultimately show ?thesis
    using table_fits [of "[contentsRow r]" kContentsCols kRowMatrixSubnode] v contentsRow_fits(1) that r(1)
    by (auto simp: buildFolderContentsTc_def)
qed

lemma sampleMail_props:
  "case propsOf (mailCalls sampleMail) of Inl e \<Rightarrow> False | Inr ps \<Rightarrow> list_all (\<lambda>p. length (pc_value p) \<le> 8176) ps \<and> length ps \<le> 64"
  by code_simp

lemma sampleMail_small:
  assumes "buildMailPc sampleMail ctx = Inr pc"
  shows "length (mpr_hnBytes pc) \<le> 8176" and "list_all smallPayload (pcSubnodes pc)" and "length (pcSubnodes pc) \<le> 64"
proof -
  obtain props where p: "propsOf (mailCalls sampleMail) = Inr props" "length (mpr_hnBytes pc) \<le> 8176"
    "readPropertyContext (mpr_hnBytes pc) = Inr (map (expectProp (ctx_subnodeStart ctx) (sortPc props)) [0..<length props])"
    "mpr_subnodes pc = map (\<lambda>(k, p). \<lparr>mps_nid = subnodeNid (ctx_subnodeStart ctx) k, mps_pidTagId = pc_pidTagId p, mps_bytes = pc_value p\<rparr>)
        (enumerate 0 (filter (\<lambda>p. classOf p = RsSubnode) (sortPc props)))"
    by (rule mail.reads_back [OF assms])
  have v: "list_all (\<lambda>p. length (pc_value p) \<le> 8176) props" "length props \<le> 64" using sampleMail_props by (simp_all add: p(1))
  have s: "set (sortPc props) = set props" "length (sortPc props) = length props" by simp_all
  show "length (mpr_hnBytes pc) \<le> 8176" by (rule p(2))
  have "length (pc_value q) \<le> 8176" if "(k, q) \<in> set (enumerate 0 (filter (\<lambda>p. classOf p = RsSubnode) (sortPc props)))" for k q
  proof -
    have "q \<in> set (filter (\<lambda>p. classOf p = RsSubnode) (sortPc props))" using that unfolding enumerate_eq_zip by (rule set_zip_rightD)
    then show ?thesis using v(1) s(1) by (simp add: list_all_iff)
  qed
  then show "list_all smallPayload (pcSubnodes pc)"
    by (force simp: pcSubnodes_def p(4) list_all_iff smallPayload_def)
  show "length (pcSubnodes pc) \<le> 64"
    using v(2) s(2) length_filter_le [of "\<lambda>p. classOf p = RsSubnode" "sortPc props"] by (simp add: pcSubnodes_def p(4))
qed


lemma sampleMailbox_builds:
  obtains st where "buildM7 None sampleMailbox = Inr st"
proof -
  let ?uid = "m7_providerUid sampleMailbox"
  have "u16le (ascii ''P'') = Inr (utf16leAscii ''P'')" "length (utf16leAscii ''P'') \<le> 3580" by code_simp+
  then obtain es where es: "buildPstBaselineEntries None ?uid (m7_pstDisplayName sampleMailbox) = Inr es"
    by (rule_tac baseline_builds [of ?uid "m7_pstDisplayName sampleMailbox"]) (simp_all add: sampleMailbox_def)
  obtain a1 where a1: "registerBaselineReservedNids newAllocator = Inr a1" using baseline_registered by blast
  note tidy = baseline_tidy [OF a1]
  obtain st1 where b: "scheduleBaseline None ?uid (m7_pstDisplayName sampleMailbox) = Inr (st1, a1)"
    by (simp add: scheduleBaseline_def es a1 Let_def)
  have fs: "m7_folders sampleMailbox = [sampleFolder]" by (simp add: sampleMailbox_def)
  obtain rs a2 where f: "allocateFolders [sampleFolder] a1 = Inr (rs, a2)" "tidy a2" "allocatedCount a2 \<le> allocatedCount a1 + 4"
    using folders_allocated [OF tidy(1), of "[sampleFolder]"] tidy(2) by auto
  have "map fr_src rs = [sampleFolder]" using allocateFolders_takes [OF _ f(1)] tidy(1) by (simp add: tidy_def)
  then obtain rec where rec: "rs = [rec]" "fr_src rec = sampleFolder" by (cases rs) auto
  obtain n c st2 where n: "scheduleFolder rec ([], st1) = Inr ([(n, c)], st2)" "length n \<le> 20" "length c \<le> 20"
    by (rule sampleFolder_accepts [OF rec(2)])
  have "NtNormalMessage \<in> set itemTypes" "allocatedCount a2 < 2 ^ 26" using f(3) tidy(2) by (simp_all add: itemTypes_def)
  from alloc_granted [OF f(2) this] obtain k a3 where a3: "allocOrThrow NtNormalMessage a2 = Inr (mkNid NtNormalMessage k, a3)" by blast
  let ?mr = "\<lparr>mr_src = sampleMail, mr_folder = 0, mr_messageNid = mkNid NtNormalMessage k\<rparr>"
  have m: "allocateFolderMessages 0 [rec] a2 = Inr ([?mr], a3)" by (simp add: rec(2) sampleFolder_def a3)
  obtain r tc where r: "messageRow ?mr = Inr r" "buildFolderContentsTc [r] kRowMatrixSubnode = Inr tc" "tcres_subnodes tc = []"
    by (rule sampleMail_contents [of ?mr]) simp_all
  obtain st3 where c: "scheduleContents [?mr] (0, rec) st2 = Inr st3"
    by (simp add: scheduleContents_def r scheduleSorted_def)
  let ?h = "hierarchyRow (hierarchyRowOf rec (n, c))"
  have "sum_list (map (\<lambda>v. length (tvc_bytes v) + 2) (tcr_varlenCells ?h)) \<le> 44"
    using n(2,3) by (auto simp: hierarchyRow_cells hierarchyRowOf_def)
  then have "61 + 8 * length kHierarchyCols + length [?h] * (8 + unat (endBm (computeTcRgib kHierarchyCols)))
      + sum_list (map (\<lambda>r. sum_list (map (\<lambda>v. length (tvc_bytes v) + 2) (tcr_varlenCells r))) [?h]) \<le> 8176"
    by (simp add: hierarchy_schema)
  then obtain h where "buildTableContext kHierarchyCols [?h] (Nid 0) = Inr h"
    by (rule_tac tc_rows_build [of kHierarchyCols "[?h]"]) (simp_all add: hierarchy_schema hierarchyRow_fits)
  then obtain st4 where h: "scheduleIpmHierarchy [rec] [(n, c)] st3 = Inr st4"
    by (simp add: scheduleIpmHierarchy_def buildFolderHierarchyTc_def scheduleTc_def)
  obtain pc where pc: "buildMailPc sampleMail (messageContext ?uid (mkNid NtNormalMessage k)) = Inr pc"
    using mail.accepts [of sampleMail "messageContext ?uid (mkNid NtNormalMessage k)"] fitsD [OF sampleMail_fits] messageSubnodeStart_type
    by (auto simp: messageContext_code)
  have rc: "allRecipients (gm sampleMail) = []" by (simp add: allRecipients_def sampleMail_fields)
  have v: "validSchema kRecipientCols" using schemas_valid by simp
  then obtain rt where "buildRecipientTc [] = Inr rt"
    using buildTableContext_empty(1) [of kRecipientCols] by (auto simp: buildRecipientTc_def validSchema_def)
  then have "\<exists>st5. scheduleMessage ?uid [rec] ?mr st4 = Inr st5"
    using pc by (simp add: scheduleMessage_def Let_def messageContext_code rc sampleMail_fields scheduleAttachments_def split: prod.split)
  then obtain st5 where "scheduleMessage ?uid [rec] ?mr st4 = Inr st5" by blast
  then show ?thesis using that by (simp add: buildM7_def b fs f(1) rec(1) n(1) m c h del: allocateFolders.simps allocateFolderMessages.simps)
qed


lemma sampleMailbox_rows:
  assumes "nodesOf sampleMailbox x"
  shows "list_all rowSmall (nodeRows x)" and "length (nodeRows x) = 6" and "sum_list (map rowBlocks (nodeRows x)) \<le> 80"
proof -
  obtain frs mrs groups crows hier mrows where x: "x = \<lparr>mn_folders = frs, mn_messages = mrs, mn_folderRows = groups, mn_contents = crows,
    mn_hierarchy = hier, mn_rows = mrows\<rparr>" by (cases x)
  have e: "map fr_src frs = [sampleFolder]" "map (\<lambda>mr. (mr_folder mr, mr_src mr)) mrs = [(0, sampleMail)]"
    using assms by (simp_all add: nodesOf_def x sampleMailbox_def messagesOf_def sampleFolder_def present_def map_filter_def)
  then obtain rec mr where rec: "frs = [rec]" "fr_src rec = sampleFolder" and mr: "mrs = [mr]" "mr_folder mr = 0" "mr_src mr = sampleMail"
    by (cases frs; cases mrs) auto
  obtain names where g: "length groups = 1" "mailFolderRows rec (names ! 0) (groups ! 0)" "ipmHierarchyNode [rec] names hier"
    and c: "list_all2 (contentsNode [mr]) [(0, rec)] crows"
    and m: "list_all2 (messageNode (m7_providerUid sampleMailbox) [rec]) [mr] mrows"
    using assms by (auto simp: nodesOf_def x rec(1) mr(1))
  then obtain g1 where g1: "groups = [g1]" by (cases groups) auto
  obtain pc h t where fr: "g1 = [(fr_folderNid rec, mf_parentNid (fr_src rec), pcr_hnBytes pc, []),
      (fr_hierarchyNid rec, Nid 0, tcres_hnBytes h, []), (fr_faiNid rec, Nid 0, tcres_hnBytes t, [])]"
    and bt: "buildMailFolderPc (folderSchema (names ! 0) (contentCountOf rec) (contentUnreadCountOf rec)) kDummySub = Inr pc"
      "buildFolderHierarchyTc [] = Inr h" "buildFolderFaiContentsTc = Inr t"
    using g(2) unfolding mailFolderRows_code g1 nth_Cons_0 by blast
  have fl: "length (pcr_hnBytes pc) \<le> 8176" "length (tcres_hnBytes h) \<le> 8176" "length (tcres_hnBytes t) \<le> 8176"
    using pc_length [OF bt(1) [unfolded buildMailFolderPc_def]] tc_length [OF bt(2) [unfolded buildFolderHierarchyTc_def]]
      tc_length [OF bt(3) [unfolded buildFolderFaiContentsTc_def]] by simp_all
  obtain ht where ht: "buildFolderHierarchyTc [hierarchyRowOf rec (names ! 0)] = Inr ht" "hier = (Nid 0x802D, Nid 0, tcres_hnBytes ht, [])"
    using g(3) by (auto simp: ipmHierarchyNode_code)
  have hl: "length (tcres_hnBytes ht) \<le> 8176" using tc_length [OF ht(1) [unfolded buildFolderHierarchyTc_def]] .
  obtain r tc where r: "messageRow mr = Inr r" "buildFolderContentsTc [r] kRowMatrixSubnode = Inr tc" "tcres_subnodes tc = []"
    by (rule sampleMail_contents [OF mr(3)])
  have cr: "crows = [(fr_contentsNid rec, Nid 0, tcres_hnBytes tc, [])]"
    using c r by (auto simp: list_all2_Cons1 contentsNode_def mr(2) tableSubnodes_def)
  have cl: "length (tcres_hnBytes tc) \<le> 8176" using r(2) tc_length by (auto simp: buildFolderContentsTc_def)
  obtain mpc recip where mp: "buildMailPc sampleMail (messageContext (m7_providerUid sampleMailbox) (mr_messageNid mr)) = Inr mpc"
    "buildRecipientTc [] = Inr recip"
    "mrows = [(mr_messageNid mr, fr_folderNid rec, mpr_hnBytes mpc, pcSubnodes mpc @ [(Nid 0x692, tcres_hnBytes recip)])]"
    using m by (auto simp: list_all2_Cons1 messageNode_def mr allRecipients_def sampleMail_fields attachmentsSubnodes_def)
  have rl: "length (tcres_hnBytes recip) \<le> 8176" using mp(2) tc_length by (auto simp: buildRecipientTc_def)
  note sm = sampleMail_small [OF mp(1)]
  have rows: "nodeRows x = g1 @ crows @ hier # mrows" by (simp add: nodeRows_def x g1)
  show "list_all rowSmall (nodeRows x)"
    using fl hl cl sm rl by (simp add: rows fr ht(2) cr mp(3) rowSmall_def smallPayload_def)
  show "length (nodeRows x) = 6" by (simp add: rows fr ht(2) cr mp(3))
  show "sum_list (map rowBlocks (nodeRows x)) \<le> 80" using sm(3) by (simp add: rows fr ht(2) cr mp(3) rowBlocks_def)
qed

lemma sampleMailbox_sizes:
  assumes "buildM7 None sampleMailbox = Inr st"
  shows "storeSizesOk st"
proof -
  obtain es x where x: "builds (map entryRow es @ nodeRows x) emptyStore st" "nodesOf sampleMailbox x"
    "length es \<le> 25" "list_all (\<lambda>e. length (pbe_body e) \<le> kMaxBlockPayload) es"
    using mail_stored [OF assms] by blast
  note s = sampleMailbox_rows [OF x(2)]
  have e: "list_all rowSmall (map entryRow es)" "sum_list (map rowBlocks (map entryRow es)) = length es"
    using x(4) by (simp_all add: list_all_iff rowSmall_def rowBlocks_def entryRow_def kMaxBlockPayload_def sum_list_triv comp_def)
  then have "sum_list (map rowBlocks (map entryRow es @ nodeRows x)) \<le> 400" using s(3) x(3) by simp
  then show ?thesis using e(1) s(1,2) x(3) by (intro tight_sizes [OF x(1)]) simp_all
qed


section \<open>Properties\<close>

text \<open>
  C4: The file of \<open>writeM7Pst\<close> holds every folder and every message with all its parts.  When the store of a configuration was
  built and has at most 300 nodes and 400 blocks of less than \<open>2 ^ 16\<close> bytes, the file is written.  Its nodes have distinct
  identifiers: three for each folder, whose context counts its messages, null pointers included, and the unread ones; a contents table for each
  folder, with a row that shows each of its messages, with its flags, subject, recipients and times; the table of all folders;
  and one node for each message that is not a null pointer, under its folder.  A reader that has only the bytes of the file finds
  each node in the node tree, and through the block tree the bytes of the context or the table; its subnode block lists, by NID,
  the row matrix of a large table, and for a message the large values, the table of the To, Cc and Bcc recipients, the table of
  attachments and the context of each attachment with its large values; and the reader gets the bytes of each, of
  any size, from the blocks below its BID.
\<close>

theorem messages_on_disk:
  assumes "buildM7 env config = Inr st" and "storeSizesOk st"
  shows "\<exists>f x. writeM7Pst env idealIo config = Inr (okResult, Some f) \<and> nodesOf config x \<and> list_all (nodeInFile f) (nodeRows x)"
  using assms by (rule mail_on_disk)

theorem messages_on_disk_witness:
  "\<exists>f x. writeM7Pst None idealIo sampleMailbox = Inr (okResult, Some f) \<and> nodesOf sampleMailbox x \<and> list_all (nodeInFile f) (nodeRows x)"
proof -
  obtain st where st: "buildM7 None sampleMailbox = Inr st" by (rule sampleMailbox_builds)
  show ?thesis by (rule messages_on_disk [OF st sampleMailbox_sizes [OF st]])
qed

end
