(* ===== verification/Contact.thy ===== *)
theory Contact
  imports ItemStore
begin

text \<open>
  Contacts: the record of Microsoft Graph and its extraction from JSON (\<open>src/graph_contact.cpp\<close>), the property
  context of a contact, and \<open>writeM8Pst\<close> (\<open>src/contact.cpp\<close>).  The store is the one of \<open>ItemStore\<close> with this
  builder.
\<close>

section \<open>Contacts of Microsoft Graph\<close>

record PhysicalAddress =
  pa_street :: bytes
  pa_city :: bytes
  pa_state :: bytes
  pa_postalCode :: bytes
  pa_countryOrRegion :: bytes

definition noPlace :: PhysicalAddress where
  "noPlace = \<lparr>pa_street = [], pa_city = [], pa_state = [], pa_postalCode = [], pa_countryOrRegion = []\<rparr>"

record GraphContact =
  gc_id :: bytes
  gc_parentFolderId :: bytes
  gc_changeKey :: bytes
  gc_createdDateTime :: bytes
  gc_lastModifiedDateTime :: bytes
  gc_displayName :: bytes
  gc_givenName :: bytes
  gc_surname :: bytes
  gc_middleName :: bytes
  gc_nickName :: bytes
  gc_initials :: bytes
  gc_generation :: bytes
  gc_title :: bytes
  gc_fileAs :: bytes
  gc_birthday :: bytes
  gc_anniversary :: bytes
  gc_jobTitle :: bytes
  gc_companyName :: bytes
  gc_department :: bytes
  gc_officeLocation :: bytes
  gc_profession :: bytes
  gc_emailAddresses :: "EmailAddress list"
  gc_businessPhones :: "bytes list"
  gc_mobilePhone :: bytes
  gc_homePhones :: "bytes list"
  gc_imAddresses :: "bytes list"
  gc_businessAddress :: PhysicalAddress
  gc_homeAddress :: PhysicalAddress
  gc_otherAddress :: PhysicalAddress
  gc_businessHomePage :: bytes
  gc_personalNotes :: bytes
  gc_categories :: "bytes list"

definition extractAddress :: "'d JsonValue \<Rightarrow> PhysicalAddress" where
  "extractAddress obj =
     \<lparr>pa_street = str obj ''street'', pa_city = str obj ''city'', pa_state = str obj ''state'',
      pa_postalCode = str obj ''postalCode'', pa_countryOrRegion = str obj ''countryOrRegion''\<rparr>"

definition addressAt :: "'d JsonValue \<Rightarrow> string \<Rightarrow> PhysicalAddress" where
  "addressAt obj key = (case field obj key of None \<Rightarrow> noPlace | Some a \<Rightarrow> extractAddress a)"

definition extractEmailAddresses :: "'d JsonValue \<Rightarrow> EmailAddress list" where
  "extractEmailAddresses parent =
     map (\<lambda>el. \<lparr>ea_name = str el ''name'', ea_address = str el ''address''\<rparr>) (objectsOf parent ''emailAddresses'')"

definition extractContact :: "'d JsonValue \<Rightarrow> GraphContact" where
  "extractContact obj =
     \<lparr>gc_id = str obj ''id'', gc_parentFolderId = str obj ''parentFolderId'', gc_changeKey = str obj ''changeKey'',
      gc_createdDateTime = str obj ''createdDateTime'', gc_lastModifiedDateTime = str obj ''lastModifiedDateTime'',
      gc_displayName = str obj ''displayName'', gc_givenName = str obj ''givenName'', gc_surname = str obj ''surname'',
      gc_middleName = str obj ''middleName'', gc_nickName = str obj ''nickName'', gc_initials = str obj ''initials'',
      gc_generation = str obj ''generation'', gc_title = str obj ''title'', gc_fileAs = str obj ''fileAs'',
      gc_birthday = str obj ''birthday'', gc_anniversary = str obj ''anniversary'',
      gc_jobTitle = str obj ''jobTitle'', gc_companyName = str obj ''companyName'', gc_department = str obj ''department'',
      gc_officeLocation = str obj ''officeLocation'', gc_profession = str obj ''profession'',
      gc_emailAddresses = extractEmailAddresses obj,
      gc_businessPhones = getStringArray obj (ascii ''businessPhones''), gc_mobilePhone = str obj ''mobilePhone'',
      gc_homePhones = getStringArray obj (ascii ''homePhones''), gc_imAddresses = getStringArray obj (ascii ''imAddresses''),
      gc_businessAddress = addressAt obj ''businessAddress'', gc_homeAddress = addressAt obj ''homeAddress'',
      gc_otherAddress = addressAt obj ''otherAddress'',
      gc_businessHomePage = str obj ''businessHomePage'', gc_personalNotes = str obj ''personalNotes'',
      gc_categories = getStringArray obj (ascii ''categories'')\<rparr>"

definition parseGraphContact :: "(bytes \<Rightarrow> 'd option) \<Rightarrow> bytes \<Rightarrow> GraphContact result option" where
  "parseGraphContact stod json =
     bind_p (parseTopLevel jsonSource stod json) (\<lambda>v.
       if \<not> isObject v then Some (Inl (RuntimeError ''graph_contact JSON: expected top-level object''))
       else Some (Inr (extractContact v)))"

text \<open>The array of a list: the value itself, or the member \<open>value\<close> of an object.\<close>

definition listOf :: "'d JsonValue \<Rightarrow> 'd JsonValue list option" where
  "listOf v =
     (case v of
        JArray arr \<Rightarrow> Some arr
      | JObject m \<Rightarrow> (case field v ''value'' of Some (JArray arr) \<Rightarrow> Some arr | _ \<Rightarrow> None)
      | _ \<Rightarrow> None)"

definition parseGraphContactList :: "(bytes \<Rightarrow> 'd option) \<Rightarrow> bytes \<Rightarrow> GraphContact list result option" where
  "parseGraphContactList stod json =
     bind_p (parseTopLevel jsonSource stod json) (\<lambda>v.
       case listOf v of
         None \<Rightarrow> Some (Inl (RuntimeError ''graph_contact JSON: expected array or {value:[...]}''))
       | Some els \<Rightarrow> Some (Inr (map extractContact (filter isObject els))))"

section \<open>The property context of a contact\<close>

text \<open>The parts of an address, each after a separator when something stands before it.\<close>

definition appendPart :: "bytes \<Rightarrow> bytes \<Rightarrow> bytes \<Rightarrow> bytes" where
  "appendPart sep part out = (if part = [] then out else (if out \<noteq> [] then out @ sep else out) @ part)"

definition formatPostalAddress :: "PhysicalAddress \<Rightarrow> bytes" where
  "formatPostalAddress a =
     (let out = appendPart [13, 10] (pa_street a) [];
          line = appendPart (ascii '' '') (pa_postalCode a) (appendPart (ascii '', '') (pa_state a) (pa_city a));
          out = appendPart [13, 10] line out
      in appendPart [13, 10] (pa_countryOrRegion a) out)"

definition contactDisplayName :: "GraphContact \<Rightarrow> bytes" where
  "contactDisplayName c =
     (if gc_displayName c \<noteq> [] then gc_displayName c
      else if gc_givenName c \<noteq> [] \<and> gc_surname c \<noteq> [] then gc_givenName c @ ascii '' '' @ gc_surname c
      else if gc_givenName c \<noteq> [] then gc_givenName c
      else gc_surname c)"

definition firstOf :: "u16 \<Rightarrow> bytes list \<Rightarrow> PcProperty list result" where
  "firstOf tag ss = (case ss of [] \<Rightarrow> Inr [] | s # _ \<Rightarrow> addUnicodeString tag s)"

definition contactCalls :: "GraphContact \<Rightarrow> PcProperty list result list" where
  "contactCalls c =
     [addUnicodeString 0x001A (ascii ''IPM.Contact''),
      addUnicodeString 0x3001 (contactDisplayName c),
      addUnicodeString 0x0037 (contactDisplayName c),
      addUnicodeString 0x3A06 (gc_givenName c),
      addUnicodeString 0x3A11 (gc_surname c),
      addUnicodeString 0x3A44 (gc_middleName c),
      addUnicodeString 0x3A4F (gc_nickName c),
      addUnicodeString 0x3A0A (gc_initials c),
      addUnicodeString 0x3A05 (gc_generation c),
      addUnicodeString 0x3A45 (gc_title c),
      addUnicodeString 0x3A17 (gc_jobTitle c),
      addUnicodeString 0x3A16 (gc_companyName c),
      addUnicodeString 0x3A18 (gc_department c),
      addUnicodeString 0x3A19 (gc_officeLocation c),
      addUnicodeString 0x3A46 (gc_profession c),
      addUnicodeString 0x3A51 (gc_businessHomePage c),
      firstOf 0x3A08 (gc_businessPhones c),
      firstOf 0x3A09 (gc_homePhones c),
      addUnicodeString 0x3A1C (gc_mobilePhone c)]
     @ (case gc_emailAddresses c of
          [] \<Rightarrow> []
        | e # _ \<Rightarrow> [addUnicodeString 0x3003 (ea_address e), addUnicodeString 0x3002 (ascii ''SMTP'')])
     @ [addTime 0x3A42 (gc_birthday c),
      addTime 0x3A41 (gc_anniversary c),
      addTime 0x3007 (gc_createdDateTime c),
      addTime 0x3008 (gc_lastModifiedDateTime c),
      addUnicodeString 0x3A29 (pa_street (gc_businessAddress c)),
      addUnicodeString 0x3A27 (pa_city (gc_businessAddress c)),
      addUnicodeString 0x3A28 (pa_state (gc_businessAddress c)),
      addUnicodeString 0x3A2A (pa_postalCode (gc_businessAddress c)),
      addUnicodeString 0x3A26 (pa_countryOrRegion (gc_businessAddress c)),
      addUnicodeString 0x3A5D (pa_street (gc_homeAddress c)),
      addUnicodeString 0x3A59 (pa_city (gc_homeAddress c)),
      addUnicodeString 0x3A5C (pa_state (gc_homeAddress c)),
      addUnicodeString 0x3A5B (pa_postalCode (gc_homeAddress c)),
      addUnicodeString 0x3A5A (pa_countryOrRegion (gc_homeAddress c)),
      addUnicodeString 0x3A15 (formatPostalAddress (gc_businessAddress c))]"

definition buildContactPc :: "GraphContact \<Rightarrow> MailPcBuildContext \<Rightarrow> MailPcResult result" where
  "buildContactPc c ctx =
     (if nid_type (ctx_subnodeStart ctx) = NtHID
      then Inl (InvalidArgument ''buildContactPc: ctx.subnodeStart must have nidType != HID'')
      else finishPc (contactCalls c) (ctx_subnodeStart ctx))"

definition writeM8Pst :: "bytes option \<Rightarrow> Io \<Rightarrow> GraphContact ItemConfig \<Rightarrow> (WriteResult \<times> bytes option) result" where
  "writeM8Pst env io config = guarded ''writeM8Pst'' io (buildItemStore buildContactPc env config)"

section \<open>The builder for contacts\<close>

definition contactTags :: "u16 list" where
  "contactTags =
     [0x001A, 0x3001, 0x0037, 0x3A06, 0x3A11, 0x3A44, 0x3A4F, 0x3A0A, 0x3A05, 0x3A45, 0x3A17, 0x3A16, 0x3A18, 0x3A19, 0x3A46,
      0x3A51, 0x3A08, 0x3A09, 0x3A1C]
     @ [0x3003, 0x3002]
     @ [0x3A42, 0x3A41, 0x3007, 0x3008, 0x3A29, 0x3A27, 0x3A28, 0x3A2A, 0x3A26, 0x3A5D, 0x3A59, 0x3A5C, 0x3A5B, 0x3A5A, 0x3A15]"

lemma firstOf_callFor [simp]: "callFor t (firstOf t ss)"
  by (cases ss) (simp_all add: firstOf_def)

lemma contact_tagged: "callsFor (contactCalls c) contactTags"
proof -
  have "callsFor (case gc_emailAddresses c of [] \<Rightarrow> [] | e # es \<Rightarrow>
      [addUnicodeString 0x3003 (ea_address e), addUnicodeString 0x3002 (ascii ''SMTP'')]) [0x3003, 0x3002]"
    by (cases "gc_emailAddresses c") simp_all
  then show ?thesis unfolding contactCalls_def contactTags_def by (intro callsFor_append) simp_all
qed

interpretation contact: item_builder buildContactPc "\<lambda>c ctx. contactCalls c" "\<lambda>c. contactTags"
  by unfold_locales (simp_all add: buildContactPc_def contact_tagged, simp_all add: contactTags_def)

lemma contact_builds: "fits (contactCalls c) \<Longrightarrow> itemBuilds buildContactPc c"
  using contact.accepts fitsD by (auto simp: itemBuilds_def)

lemma emails_call: "gc_emailAddresses c = e # es \<Longrightarrow> addUnicodeString 0x3003 (ea_address e) \<in> set (contactCalls c)"
  by (simp add: contactCalls_def)

lemma first_call: "ss = s # rest \<Longrightarrow> firstOf t ss = addUnicodeString t s"
  by (simp add: firstOf_def)

section \<open>Properties\<close>

text \<open>The address as one text: street, a line of city, state and postal code, and country, as far as they are given.\<close>

definition addressLine :: "PhysicalAddress \<Rightarrow> bytes" where
  "addressLine a = pa_city a @ (if pa_city a \<noteq> [] \<and> pa_state a \<noteq> [] then [0x2C, 0x20] else []) @ pa_state a
     @ (if (pa_city a \<noteq> [] \<or> pa_state a \<noteq> []) \<and> pa_postalCode a \<noteq> [] then [0x20] else []) @ pa_postalCode a"

lemma joinWith_nonempty: "x \<noteq> [] \<Longrightarrow> joinWith sep (x # xs) \<noteq> []"
  by (cases xs) simp_all

lemma joinWith_snoc: "xs \<noteq> [] \<Longrightarrow> joinWith sep (xs @ [y]) = joinWith sep xs @ sep @ y"
  by (induction sep xs rule: joinWith.induct) simp_all

lemma appendPart_join: "appendPart sep part (joinWith sep (filter (\<lambda>l. l \<noteq> []) ls)) = joinWith sep (filter (\<lambda>l. l \<noteq> []) (ls @ [part]))"
proof (cases "filter (\<lambda>l. l \<noteq> []) ls")
  case (Cons x xs)
  then have "x \<noteq> []" by (auto simp: filter_eq_Cons_iff)
  then have "joinWith sep (x # xs) \<noteq> []" by (rule joinWith_nonempty)
  then show ?thesis using joinWith_snoc [of "x # xs" sep part] by (simp add: appendPart_def Cons)
qed (simp add: appendPart_def)

lemma formatPostalAddress_join:
  "formatPostalAddress a = joinWith [13, 10] (filter (\<lambda>l. l \<noteq> []) [pa_street a, addressLine a, pa_countryOrRegion a])"
proof -
  let ?line = "appendPart (ascii '' '') (pa_postalCode a) (appendPart (ascii '', '') (pa_state a) (pa_city a))"
  have line: "?line = addressLine a" by (simp add: appendPart_def addressLine_def)
  have "appendPart [13, 10] (pa_street a) [] = joinWith [13, 10] (filter (\<lambda>l. l \<noteq> []) [pa_street a])"
    using appendPart_join [of "[13, 10]" "pa_street a" "[]"] by simp
  then show ?thesis
    unfolding formatPostalAddress_def Let_def line by (simp only: appendPart_join append.simps)
qed

lemma first_shown:
  assumes "buildContactPc c ctx = Inr r" and "firstOf t ss \<in> set (contactCalls c)"
  shows "list_all (showsText r t) (take 1 ss)"
  using contact.shows_calls(1) [OF assms(1)] assms(2) by (cases ss) (simp_all add: firstOf_def)

text \<open>
  C22: What a reader finds in the property context of a contact: every text, phone, address for mail and date that the builder
  has a property for, each under its own tag.  The display name is the one given, or else the given name and the surname with
  a blank between them, as far as they are given; of several business phones, home phones and addresses for mail it is the
  first; the business address is also stored as one text.  Empty strings are left out.
\<close>
theorem contact_values:
  assumes "buildContactPc c ctx = Inr r"
  shows "list_all (\<lambda>(t, s). showsText r t s)
      (let name = (if gc_displayName c \<noteq> [] then gc_displayName c
                   else if gc_givenName c \<noteq> [] \<and> gc_surname c \<noteq> [] then gc_givenName c @ [0x20] @ gc_surname c
                   else gc_givenName c @ gc_surname c)
       in [(0x001A, ascii ''IPM.Contact''), (0x3001, name), (0x0037, name),
           (0x3A06, gc_givenName c), (0x3A11, gc_surname c), (0x3A44, gc_middleName c), (0x3A4F, gc_nickName c),
           (0x3A0A, gc_initials c), (0x3A05, gc_generation c), (0x3A45, gc_title c),
           (0x3A17, gc_jobTitle c), (0x3A16, gc_companyName c), (0x3A18, gc_department c), (0x3A19, gc_officeLocation c),
           (0x3A46, gc_profession c), (0x3A51, gc_businessHomePage c), (0x3A1C, gc_mobilePhone c)])
    \<and> list_all (showsText r 0x3A08) (take 1 (gc_businessPhones c)) \<and> list_all (showsText r 0x3A09) (take 1 (gc_homePhones c))
    \<and> list_all (\<lambda>e. showsText r 0x3003 (ea_address e) \<and> showsText r 0x3002 (ascii ''SMTP'')) (take 1 (gc_emailAddresses c))
    \<and> list_all (\<lambda>(t, d). showsTime r t d)
        [(0x3A42, gc_birthday c), (0x3A41, gc_anniversary c), (0x3007, gc_createdDateTime c), (0x3008, gc_lastModifiedDateTime c)]
    \<and> list_all (\<lambda>(t, s). showsText r t s)
        (let b = gc_businessAddress c; h = gc_homeAddress c
         in [(0x3A29, pa_street b), (0x3A27, pa_city b), (0x3A28, pa_state b), (0x3A2A, pa_postalCode b), (0x3A26, pa_countryOrRegion b),
             (0x3A5D, pa_street h), (0x3A59, pa_city h), (0x3A5C, pa_state h), (0x3A5B, pa_postalCode h), (0x3A5A, pa_countryOrRegion h),
             (0x3A15, joinWith [13, 10] (filter (\<lambda>l. l \<noteq> []) [pa_street b, addressLine b, pa_countryOrRegion b]))])"
proof -
  note t = contact.shows_calls(1) [OF assms] and d = contact.shows_calls(3) [OF assms]
  have name: "contactDisplayName c = (if gc_displayName c \<noteq> [] then gc_displayName c
      else if gc_givenName c \<noteq> [] \<and> gc_surname c \<noteq> [] then gc_givenName c @ [0x20] @ gc_surname c
      else gc_givenName c @ gc_surname c)"
    by (simp add: contactDisplayName_def)
  show ?thesis
    unfolding Let_def name [symmetric] formatPostalAddress_join [symmetric]
  proof (intro conjI)
    show "list_all (showsText r 0x3A08) (take 1 (gc_businessPhones c))" "list_all (showsText r 0x3A09) (take 1 (gc_homePhones c))"
      by (rule first_shown [OF assms]; simp add: contactCalls_def)+
    show "list_all (\<lambda>e. showsText r 0x3003 (ea_address e) \<and> showsText r 0x3002 (ascii ''SMTP'')) (take 1 (gc_emailAddresses c))"
      using t by (cases "gc_emailAddresses c") (simp_all add: contactCalls_def)
  qed (simp only: list.pred_inject prod.case; intro conjI TrueI t d; simp add: contactCalls_def)+
qed

text \<open>A contact.\<close>

definition sampleContact :: GraphContact where
  "sampleContact = (extractContact (JNull :: nat JsonValue))\<lparr>gc_givenName := ascii ''A'', gc_surname := ascii ''B''\<rparr>"

lemma sampleContact_fits: "fits (contactCalls sampleContact)"
  by code_simp

theorem contact_values_witness:
  "\<exists>r. buildContactPc sampleContact sampleContext = Inr r \<and> showsText r 0x3A11 (ascii ''B'')"
proof -
  obtain r where r: "buildContactPc sampleContact sampleContext = Inr r"
    using contact_builds [OF sampleContact_fits] sampleContext_ok by (auto simp: itemBuilds_def)
  have "gc_surname sampleContact = ascii ''B''" by (simp add: sampleContact_def)
  moreover have "showsText r 0x3A11 (gc_surname sampleContact)" using contact_values [OF r] by (simp add: Let_def)
  ultimately show ?thesis using r by (intro exI [of _ r]) simp
qed

text \<open>
  C6: Every configuration that fits is written.  When the provider has 16 bytes, the names are short, each contact that is
  not a null pointer fits a block, and the nodes are at most 300, \<open>writeM8Pst\<close> on a file system without errors
  reports success and leaves a file: no allocation of an identifier, no table and no conversion fails on the way.
\<close>
theorem contacts_written:
  assumes "configFits (\<lambda>c. fits (contactCalls c)) config"
  shows "\<exists>f. writeM8Pst env idealIo config = Inr (okResult, Some f)"
proof -
  obtain st where st: "buildItemStore buildContactPc env config = Inr st"
    using store_accepted [OF assms contact_builds] .
  have "26 + 4 * length (itc_folders config) + itemTotal config \<le> 300" using assms by (simp add: configFits_def)
  from contact.items_on_disk [OF st this] show ?thesis by (auto simp: writeM8Pst_def guarded_def st)
qed

theorem contacts_written_witness: "\<exists>f. writeM8Pst None idealIo (sampleConfig sampleContact) = Inr (okResult, Some f)"
  by (intro contacts_written sampleConfig_fits sampleContact_fits)

text \<open>
  C5: The file of \<open>writeM8Pst\<close> holds every folder and every contact.  When the store of a configuration was built and its nodes
  are at most 300, the file is written, and for each folder and for each contact that is not a null pointer, in their order,
  there is a node: its identifier is its own, its parent is the one of the configuration or the node of the folder, a reader
  finds it in the node tree of the file, and the block that it names opens to the property context of the folder or of the
  contact.
\<close>
theorem contacts_on_disk:
  assumes "buildItemStore buildContactPc env config = Inr st" and "26 + 4 * length (itc_folders config) + itemTotal config \<le> 300"
  shows "\<exists>f frs groups rows. writeM8Pst env idealIo config = Inr (okResult, Some f) \<and> map fr_src frs = itc_folders config
    \<and> list_all2 folderRows frs groups \<and> list_all2 (itemRow buildContactPc (itc_providerUid config)) (itemsOf frs) rows
    \<and> distinct (map fst (concat groups @ rows)) \<and> list_all (nodeOnDisk st f) (concat groups @ rows)"
  using contact.items_on_disk [OF assms] by (simp add: writeM8Pst_def guarded_def assms(1))

theorem contacts_on_disk_witness:
  "\<exists>st f. buildItemStore buildContactPc None (sampleConfig sampleContact) = Inr st
     \<and> writeM8Pst None idealIo (sampleConfig sampleContact) = Inr (okResult, Some f)"
proof -
  obtain st where st: "buildItemStore buildContactPc None (sampleConfig sampleContact) = Inr st"
    using store_accepted [OF sampleConfig_fits [where itemOk = "\<lambda>c. fits (contactCalls c)", OF sampleContact_fits] contact_builds] .
  have "26 + 4 * length (itc_folders (sampleConfig sampleContact)) + itemTotal (sampleConfig sampleContact) \<le> 300"
    by (subst sampleConfig_counts(1)) (simp add: sampleConfig_counts(2))
  from contacts_on_disk [OF st this] st show ?thesis by blast
qed

end
