(* ===== verification/Event.thy ===== *)
theory Event
  imports Contact
begin

text \<open>
  Calendar events: the record of Microsoft Graph and its extraction from JSON (\<open>src/graph_event.cpp\<close>), the property
  context of an event, and \<open>writeM9Pst\<close> (\<open>src/event.cpp\<close>), which schedules the same nodes as the writer for
  contacts with another builder.
\<close>

unbundle bit_operations_syntax

section \<open>Events of Microsoft Graph\<close>

record DateTimeTimeZone =
  dtz_dateTime :: bytes
  dtz_timeZone :: bytes

record Location =
  loc_displayName :: bytes
  loc_locationType :: bytes
  loc_locationUri :: bytes

datatype AttendeeKind = AkRequired | AkOptional | AkResource

datatype AttendeeResponse = ArNone | ArOrganizer | ArTentativelyAccepted | ArAccepted | ArDeclined | ArNotResponded

record Attendee =
  atd_kind :: AttendeeKind
  atd_response :: AttendeeResponse
  atd_emailAddress :: EmailAddress

datatype EventType = EtSingleInstance | EtOccurrence | EtException | EtSeriesMaster

datatype ShowAs = SaFree | SaTentative | SaBusy | SaOof | SaWorkingElsewhere | SaUnknown

record GraphEvent =
  ge_id :: bytes
  ge_parentFolderId :: bytes
  ge_changeKey :: bytes
  ge_iCalUId :: bytes
  ge_transactionId :: bytes
  ge_createdDateTime :: bytes
  ge_lastModifiedDateTime :: bytes
  ge_subject :: bytes
  ge_bodyPreview :: bytes
  ge_body :: Body
  ge_start :: DateTimeTimeZone
  ge_end :: DateTimeTimeZone
  ge_location :: Location
  ge_locations :: "Location list"
  ge_isAllDay :: bool
  ge_isCancelled :: bool
  ge_isDraft :: bool
  ge_isOnlineMeeting :: bool
  ge_isOrganizer :: bool
  ge_isReminderOn :: bool
  ge_reminderMinutesBeforeStart :: u32
  ge_responseRequested :: bool
  ge_hasAttachments :: bool
  ge_importance :: Importance
  ge_showAs :: ShowAs
  ge_type :: EventType
  ge_seriesMasterId :: bytes
  ge_originalStartTimeZone :: bytes
  ge_originalEndTimeZone :: bytes
  ge_organizer :: EmailAddress
  ge_hasOrganizer :: bool
  ge_attendees :: "Attendee list"
  ge_categories :: "bytes list"
  ge_onlineMeetingProvider :: bytes
  ge_onlineMeetingUrl :: bytes

section \<open>Extraction\<close>

definition extractDtTz :: "'d JsonValue \<Rightarrow> DateTimeTimeZone" where
  "extractDtTz obj = \<lparr>dtz_dateTime = str obj ''dateTime'', dtz_timeZone = str obj ''timeZone''\<rparr>"

definition extractLocation :: "'d JsonValue \<Rightarrow> Location" where
  "extractLocation obj =
     \<lparr>loc_displayName = str obj ''displayName'', loc_locationType = str obj ''locationType'',
      loc_locationUri = str obj ''locationUri''\<rparr>"

definition attendeeKindFrom :: "bytes \<Rightarrow> AttendeeKind" where
  "attendeeKindFrom s = (if s = ascii ''optional'' then AkOptional else if s = ascii ''resource'' then AkResource else AkRequired)"

definition attendeeResponseFrom :: "bytes \<Rightarrow> AttendeeResponse" where
  "attendeeResponseFrom s =
     (if s = ascii ''organizer'' then ArOrganizer
      else if s = ascii ''tentativelyAccepted'' then ArTentativelyAccepted
      else if s = ascii ''accepted'' then ArAccepted
      else if s = ascii ''declined'' then ArDeclined
      else if s = ascii ''notResponded'' then ArNotResponded
      else ArNone)"

definition showAsFrom :: "bytes \<Rightarrow> ShowAs" where
  "showAsFrom s =
     (if s = ascii ''free'' then SaFree
      else if s = ascii ''tentative'' then SaTentative
      else if s = ascii ''oof'' then SaOof
      else if s = ascii ''workingElsewhere'' then SaWorkingElsewhere
      else if s = ascii ''unknown'' then SaUnknown
      else SaBusy)"

definition eventTypeFrom :: "bytes \<Rightarrow> EventType" where
  "eventTypeFrom s =
     (if s = ascii ''occurrence'' then EtOccurrence
      else if s = ascii ''exception'' then EtException
      else if s = ascii ''seriesMaster'' then EtSeriesMaster
      else EtSingleInstance)"

definition emailAt :: "'d JsonValue \<Rightarrow> EmailAddress" where
  "emailAt obj =
     (case field obj ''emailAddress'' of None \<Rightarrow> noAddress
      | Some ea \<Rightarrow> \<lparr>ea_name = str ea ''name'', ea_address = str ea ''address''\<rparr>)"

definition extractAttendee :: "'d JsonValue \<Rightarrow> Attendee" where
  "extractAttendee el =
     \<lparr>atd_kind = attendeeKindFrom (str el ''type''),
      atd_response = (case field el ''status'' of None \<Rightarrow> ArNone | Some st \<Rightarrow> attendeeResponseFrom (str st ''response'')),
      atd_emailAddress = emailAt el\<rparr>"

definition extractAttendees :: "'d JsonValue \<Rightarrow> Attendee list" where
  "extractAttendees parent = map extractAttendee (objectsOf parent ''attendees'')"

definition extractLocations :: "'d JsonValue \<Rightarrow> Location list" where
  "extractLocations parent = map extractLocation (objectsOf parent ''locations'')"

definition orEmpty :: "('d JsonValue \<Rightarrow> 'r) \<Rightarrow> 'd JsonValue \<Rightarrow> string \<Rightarrow> 'r \<Rightarrow> 'r" where
  "orEmpty extract obj key dflt = (case field obj key of None \<Rightarrow> dflt | Some v \<Rightarrow> extract v)"

text \<open>\<open>importanceFrom\<close> and \<open>extractBody\<close> are those of the messages.\<close>

definition extractEvent :: "('d \<Rightarrow> u32) \<Rightarrow> 'd JsonValue \<Rightarrow> GraphEvent" where
  "extractEvent toInt32 obj =
     (let organizer = orEmpty emailAt obj ''organizer'' noAddress
      in \<lparr>ge_id = str obj ''id'', ge_parentFolderId = str obj ''parentFolderId'', ge_changeKey = str obj ''changeKey'',
          ge_iCalUId = str obj ''iCalUId'', ge_transactionId = str obj ''transactionId'',
          ge_createdDateTime = str obj ''createdDateTime'', ge_lastModifiedDateTime = str obj ''lastModifiedDateTime'',
          ge_subject = str obj ''subject'', ge_bodyPreview = str obj ''bodyPreview'', ge_body = extractBody obj,
          ge_start = orEmpty extractDtTz obj ''start'' \<lparr>dtz_dateTime = [], dtz_timeZone = []\<rparr>,
          ge_end = orEmpty extractDtTz obj ''end'' \<lparr>dtz_dateTime = [], dtz_timeZone = []\<rparr>,
          ge_location = orEmpty extractLocation obj ''location'' \<lparr>loc_displayName = [], loc_locationType = [], loc_locationUri = []\<rparr>,
          ge_locations = extractLocations obj,
          ge_isAllDay = flag obj ''isAllDay'', ge_isCancelled = flag obj ''isCancelled'', ge_isDraft = flag obj ''isDraft'',
          ge_isOnlineMeeting = flag obj ''isOnlineMeeting'', ge_isOrganizer = flag obj ''isOrganizer'',
          ge_isReminderOn = flag obj ''isReminderOn'',
          ge_reminderMinutesBeforeStart = getInt toInt32 obj (ascii ''reminderMinutesBeforeStart'') 0,
          ge_responseRequested = getBool obj (ascii ''responseRequested'') True,
          ge_hasAttachments = flag obj ''hasAttachments'',
          ge_importance = importanceFrom (str obj ''importance''), ge_showAs = showAsFrom (str obj ''showAs''),
          ge_type = eventTypeFrom (str obj ''type''),
          ge_seriesMasterId = str obj ''seriesMasterId'', ge_originalStartTimeZone = str obj ''originalStartTimeZone'',
          ge_originalEndTimeZone = str obj ''originalEndTimeZone'',
          ge_organizer = organizer, ge_hasOrganizer = (ea_address organizer \<noteq> [] \<or> ea_name organizer \<noteq> []),
          ge_attendees = extractAttendees obj, ge_categories = getStringArray obj (ascii ''categories''),
          ge_onlineMeetingProvider = str obj ''onlineMeetingProvider'',
          ge_onlineMeetingUrl = orEmpty (\<lambda>om. str om ''joinUrl'') obj ''onlineMeeting'' []\<rparr>)"

definition parseGraphEvent :: "(bytes \<Rightarrow> 'd option) \<Rightarrow> ('d \<Rightarrow> u32) \<Rightarrow> bytes \<Rightarrow> GraphEvent result option" where
  "parseGraphEvent stod toInt32 json =
     bind_p (parseTopLevel jsonSource stod json) (\<lambda>v.
       if \<not> isObject v then Some (Inl (RuntimeError ''graph_event JSON: expected top-level object''))
       else Some (Inr (extractEvent toInt32 v)))"

definition parseGraphEventList :: "(bytes \<Rightarrow> 'd option) \<Rightarrow> ('d \<Rightarrow> u32) \<Rightarrow> bytes \<Rightarrow> GraphEvent list result option" where
  "parseGraphEventList stod toInt32 json =
     bind_p (parseTopLevel jsonSource stod json) (\<lambda>v.
       case listOf v of
         None \<Rightarrow> Some (Inl (RuntimeError ''graph_event JSON: expected array or {value:[...]}''))
       | Some els \<Rightarrow> Some (Inr (map (extractEvent toInt32) (filter isObject els))))"

section \<open>The property context of an event\<close>

definition toIso :: "DateTimeTimeZone \<Rightarrow> bytes" where
  "toIso dtz =
     (if dtz_dateTime dtz = [] then []
      else if dtz_timeZone dtz = ascii ''UTC'' then dtz_dateTime dtz @ ascii ''Z''
      else dtz_dateTime dtz @ ascii ''Z'')"

definition eventBodyCalls :: "GraphEvent \<Rightarrow> PcProperty list result list" where
  "eventBodyCalls e =
     (let b = ge_body e
      in if body_contentType b = BodyText \<and> body_content b \<noteq> [] then [addUnicodeString 0x1000 (body_content b)]
         else if body_contentType b = BodyHtml \<and> body_content b \<noteq> []
         then [addBinary 0x1013 (body_content b),
               onlyIf (ge_bodyPreview e \<noteq> []) (addUnicodeString 0x1000 (ge_bodyPreview e))]
         else [])"

text \<open>The organizer is the sender: \<open>senderCalls\<close> is the same sequence of calls as for a message.\<close>

definition eventCalls :: "GraphEvent \<Rightarrow> PcProperty list result list" where
  "eventCalls e =
     [addUnicodeString 0x001A (ascii ''IPM.Appointment''),
      onlyIf (ge_subject e \<noteq> []) (addUnicodeString 0x0037 (ge_subject e))]
     @ eventBodyCalls e
     @ [addInt32 0x0017 (importanceVal (ge_importance e)),
      addInt32 0x0036 0,
      onlyIf (dtz_dateTime (ge_start e) \<noteq> []) (bind_r (isoToFiletimeTicks (toIso (ge_start e))) (addSystemTime 0x0060)),
      onlyIf (dtz_dateTime (ge_end e) \<noteq> []) (bind_r (isoToFiletimeTicks (toIso (ge_end e))) (addSystemTime 0x0061)),
      addTime 0x3007 (ge_createdDateTime e),
      addTime 0x3008 (ge_lastModifiedDateTime e),
      addBoolean 0x0E1B (ge_hasAttachments e),
      addInt32 0x0E07 (let flags = 0 in if \<not> ge_isDraft e then flags OR 1 else flags)]
     @ (if ge_hasOrganizer e then senderCalls (ge_organizer e) else [])"

definition buildEventPc :: "GraphEvent \<Rightarrow> MailPcBuildContext \<Rightarrow> MailPcResult result" where
  "buildEventPc e ctx =
     (if nid_type (ctx_subnodeStart ctx) = NtHID
      then Inl (InvalidArgument ''buildEventPc: ctx.subnodeStart must have nidType != HID'')
      else finishPc (eventCalls e) (ctx_subnodeStart ctx))"

definition writeM9Pst :: "bytes option \<Rightarrow> Io \<Rightarrow> GraphEvent ItemConfig \<Rightarrow> (WriteResult \<times> bytes option) result" where
  "writeM9Pst env io config = guarded ''writeM9Pst'' io (buildItemStore buildEventPc env config)"

section \<open>The builder for events\<close>

text \<open>The tags of the calls; the body has two calls at most, and their order depends on the type of the body.\<close>

definition eventTagsFor :: "BodyType \<Rightarrow> u16 list" where
  "eventTagsFor t =
     [0x001A, 0x0037] @ (case t of BodyText \<Rightarrow> [0x1000, 0x1013] | BodyHtml \<Rightarrow> [0x1013, 0x1000])
     @ [0x0017, 0x0036, 0x0060, 0x0061, 0x3007, 0x3008, 0x0E1B, 0x0E07] @ senderTags"

lemma event_tagged: "callsFor (eventCalls e) (eventTagsFor (body_contentType (ge_body e)))"
proof -
  have b: "callsFor (eventBodyCalls e) (case body_contentType (ge_body e) of BodyText \<Rightarrow> [0x1000, 0x1013] | BodyHtml \<Rightarrow> [0x1013, 0x1000])"
    by (cases "body_contentType (ge_body e)") (simp_all add: eventBodyCalls_def Let_def)
  show ?thesis unfolding eventCalls_def eventTagsFor_def
    by (intro callsFor_append b callsFor_if sender_tagged) (simp_all add: Let_def)
qed

lemma event_tags_distinct: "distinct (eventTagsFor t)" "length (eventTagsFor t) \<le> 64"
proof -
  have "distinct (eventTagsFor BodyText)" "distinct (eventTagsFor BodyHtml)" by code_simp+
  then show "distinct (eventTagsFor t)" by (cases t) simp_all
  show "length (eventTagsFor t) \<le> 64" by (cases t) (simp_all add: eventTagsFor_def senderTags_def)
qed

interpretation event: item_builder buildEventPc "\<lambda>e ctx. eventCalls e" "\<lambda>e. eventTagsFor (body_contentType (ge_body e))"
  by unfold_locales (simp_all add: buildEventPc_def event_tagged event_tags_distinct)

lemma event_builds: "fits (eventCalls e) \<Longrightarrow> itemBuilds buildEventPc e"
  using event.accepts fitsD by (auto simp: itemBuilds_def)

section \<open>Properties\<close>

text \<open>The conjuncts of the next property.\<close>

lemma toIso_eq: "dtz_dateTime d \<noteq> [] \<Longrightarrow> toIso d = dtz_dateTime d @ ascii ''Z''"
  by (simp add: toIso_def)

lemma event_time:
  assumes "buildEventPc e ctx = Inr r" and "dtz_dateTime d \<noteq> []"
    and "onlyIf (dtz_dateTime d \<noteq> []) (bind_r (isoToFiletimeTicks (toIso d)) (addSystemTime t)) \<in> set (eventCalls e)"
  shows "showsTime r t (dtz_dateTime d @ ascii ''Z'')"
proof -
  have "addTime t (toIso d) \<in> set (eventCalls e)" using assms(2,3) by (simp add: addTime_def toIso_eq)
  then show ?thesis using event.shows_calls(3) [OF assms(1)] assms(2) by (simp add: toIso_eq)
qed

lemma event_body:
  assumes "buildEventPc e ctx = Inr r"
  shows "case body_contentType (ge_body e) of
      BodyText \<Rightarrow> showsText r 0x1000 (body_content (ge_body e))
    | BodyHtml \<Rightarrow> showsBinary r 0x1013 (body_content (ge_body e))
        \<and> (body_content (ge_body e) = [] \<or> showsText r 0x1000 (ge_bodyPreview e))"
proof -
  have c: "set (eventBodyCalls e) \<subseteq> set (eventCalls e)" by (auto simp: eventCalls_def)
  note t = event.shows_calls(1,2) [OF assms]
  show ?thesis using c t
    by (cases "body_content (ge_body e) = []"; cases "ge_bodyPreview e = []")
      (auto simp: eventBodyCalls_def Let_def split: BodyType.splits)
qed

lemma event_subject:
  assumes "buildEventPc e ctx = Inr r"
  shows "showsText r 0x0037 (ge_subject e)"
  using event.shows_calls(1) [OF assms] by (cases "ge_subject e = []") (simp_all add: eventCalls_def)

lemma event_organizer:
  assumes "buildEventPc e ctx = Inr r" and "ge_hasOrganizer e"
  shows "showsText r 0x0C1A (ea_name (ge_organizer e))" and "showsText r 0x0C1F (ea_address (ge_organizer e))"
proof -
  have c: "set (senderCalls (ge_organizer e)) \<subseteq> set (eventCalls e)" using assms(2) by (auto simp: eventCalls_def)
  note t = event.shows_calls(1) [OF assms(1)]
  show "showsText r 0x0C1A (ea_name (ge_organizer e))" using c t by (cases "ea_name (ge_organizer e) = []") (auto simp: senderCalls_def)
  show "showsText r 0x0C1F (ea_address (ge_organizer e))" using c t by (cases "ea_address (ge_organizer e) = []") (auto simp: senderCalls_def)
qed

text \<open>
  C23: What a reader finds in the property context of an event: its class, its subject, its text body, or its HTML body with
  the preview when there is one, its importance, the flag of a read item unless it is a draft, and its start and end, whose
  local times are taken as UTC whatever the zone of the event.
\<close>
theorem event_values:
  assumes "buildEventPc e ctx = Inr r" and "dtz_dateTime (ge_start e) \<noteq> []" and "dtz_dateTime (ge_end e) \<noteq> []"
  shows "showsText r 0x001A (ascii ''IPM.Appointment'') \<and> showsText r 0x0037 (ge_subject e)
    \<and> (case body_contentType (ge_body e) of
         BodyText \<Rightarrow> showsText r 0x1000 (body_content (ge_body e))
       | BodyHtml \<Rightarrow> showsBinary r 0x1013 (body_content (ge_body e))
           \<and> (body_content (ge_body e) = [] \<or> showsText r 0x1000 (ge_bodyPreview e)))
    \<and> itemValue r 0x0017 = Some (le32 (importanceVal (ge_importance e)))
    \<and> itemValue r 0x0E07 = Some (le32 (if ge_isDraft e then 0 else 1))
    \<and> itemValue r 0x0E1B = Some [if ge_hasAttachments e then 1 else 0, 0, 0, 0]
    \<and> showsTime r 0x0060 (dtz_dateTime (ge_start e) @ ascii ''Z'') \<and> showsTime r 0x0061 (dtz_dateTime (ge_end e) @ ascii ''Z'')"
proof -
  have "showsText r 0x001A (ascii ''IPM.Appointment'')"
    by (rule event.shows_calls(1) [OF assms(1)]) (simp add: eventCalls_def)
  moreover have "itemValue r 0x0017 = Some (le32 (importanceVal (ge_importance e)))"
    by (rule event.call_values(1) [OF assms(1)]) (simp add: eventCalls_def)
  moreover have "itemValue r 0x0E07 = Some (le32 (if ge_isDraft e then 0 else 1))"
    by (rule event.call_values(1) [OF assms(1)]) (simp add: eventCalls_def Let_def)
  moreover have "itemValue r 0x0E1B = Some [if ge_hasAttachments e then 1 else 0, 0, 0, 0]"
    by (rule event.call_values(2) [OF assms(1)]) (simp add: eventCalls_def)
  moreover have "showsTime r 0x0060 (dtz_dateTime (ge_start e) @ ascii ''Z'')" "showsTime r 0x0061 (dtz_dateTime (ge_end e) @ ascii ''Z'')"
    by (rule event_time [OF assms(1,2)], simp add: eventCalls_def) (rule event_time [OF assms(1,3)], simp add: eventCalls_def)
  ultimately show ?thesis using event_subject [OF assms(1)] event_body [OF assms(1)] by (intro conjI)
qed

definition sampleEvent :: GraphEvent where
  "sampleEvent = (extractEvent id (JNull :: u32 JsonValue))\<lparr>ge_subject := ascii ''S'',
     ge_start := \<lparr>dtz_dateTime = ascii ''2024-01-02T03:04:05'', dtz_timeZone = ascii ''UTC''\<rparr>,
     ge_end := \<lparr>dtz_dateTime = ascii ''2024-01-02T04:04:05'', dtz_timeZone = ascii ''UTC''\<rparr>\<rparr>"

lemma sampleEvent_fits: "fits (eventCalls sampleEvent)"
  by code_simp

lemma sampleEvent_times: "dtz_dateTime (ge_start sampleEvent) \<noteq> []" "dtz_dateTime (ge_end sampleEvent) \<noteq> []"
  by code_simp+

theorem event_values_witness:
  "\<exists>r. buildEventPc sampleEvent sampleContext = Inr r \<and> showsTime r 0x0060 (dtz_dateTime (ge_start sampleEvent) @ ascii ''Z'')"
proof -
  obtain r where r: "buildEventPc sampleEvent sampleContext = Inr r"
    using event_builds [OF sampleEvent_fits] sampleContext_ok by (auto simp: itemBuilds_def)
  from event_values [OF r sampleEvent_times] r show ?thesis by blast
qed

text \<open>
  C21: Every calendar that fits is written, with all its events.  When the provider has 16 bytes, the names are short, each
  event that is not a null pointer fits a block, and the nodes are at most 300, \<open>writeM9Pst\<close> on a file system without errors
  reports success, and each folder and each event, in their order, is a node of its own that a reader finds in the file, with
  the right parent and with the property context that was built for it.
\<close>
theorem events_on_disk:
  assumes "configFits (\<lambda>e. fits (eventCalls e)) config"
  shows "\<exists>st f frs groups rows. buildItemStore buildEventPc env config = Inr st \<and> writeM9Pst env idealIo config = Inr (okResult, Some f) \<and> map fr_src frs = itc_folders config
    \<and> list_all2 folderRows frs groups \<and> list_all2 (itemRow buildEventPc (itc_providerUid config)) (itemsOf frs) rows
    \<and> distinct (map fst (concat groups @ rows)) \<and> list_all (nodeOnDisk st f) (concat groups @ rows)"
proof -
  obtain st where st: "buildItemStore buildEventPc env config = Inr st"
    using store_accepted [OF assms event_builds] .
  have "26 + 4 * length (itc_folders config) + itemTotal config \<le> 300" using assms by (simp add: configFits_def)
  from event.items_on_disk [OF st this] show ?thesis by (intro exI [of _ st]) (simp add: writeM9Pst_def guarded_def st)
qed

theorem events_on_disk_witness: "\<exists>f. writeM9Pst None idealIo (sampleConfig sampleEvent) = Inr (okResult, Some f)"
proof -
  have "configFits (\<lambda>e. fits (eventCalls e)) (sampleConfig sampleEvent)" by (intro sampleConfig_fits sampleEvent_fits)
  from events_on_disk [OF this] show ?thesis by blast
qed

end
