(* ===== verification/Spec2Isabelle.thy ===== *)
theory Spec2Isabelle
  imports Prelude Types Crc Encoding Ndb Page Codec Block Allocator Nbt Hn Pc Json GraphConvert Tc BlockTree Writer Messaging GraphMessage Baseline Store Mail MailStore StoreRows MailRows ItemStore Contact Event
begin

text \<open>
  A model of \<open>pstwriter\<close>, a C++ library that writes Unicode PST files, the mail store format of [MS-PST], from
  mail messages, contacts and calendar events of Microsoft Graph.  This development follows the library from the
  bytes of a page up to the three entry points \<open>writeM7Pst\<close>, \<open>writeM8Pst\<close> and \<open>writeM9Pst\<close>.

  \<^bold>\<open>The program.\<close>  A PST file has three layers.  The node database (NDB) is a header, two B-trees of
  512-byte pages and the data blocks: the block B-tree maps a block identifier (BID) to a file offset, the node
  B-tree maps a node identifier (NID) to the BIDs of its data and of its subnodes.  The lists-tables-properties
  layer (LTP) puts a heap into the data of a node, and in the heap a property context, which is a map from tags to
  values, or a table context.  The messaging layer says which nodes a store must have and which properties and
  columns they hold.  Above them stand the parsers of the Graph records and the writers, which convert records to
  contexts and tables, schedule nodes and blocks in lists, and hand these lists to \<open>writeM5Pst\<close>.

  \<^bold>\<open>The theories.\<close>  Sources are given relative to \<open>src/\<close>; each header in \<open>include/pstwriter\<close> is modelled
  with its \<open>.cpp\<close> file.

  \<^item> \<open>Prelude\<close>, \<open>Types\<close>: byte buffers, little-endian reads and writes, the scalar types (\<open>types.hpp\<close>).
  \<^item> \<open>Crc\<close>, \<open>Encoding\<close>: the checksum and the two ciphers (\<open>crc.cpp\<close>, \<open>encoding.cpp\<close>).
  \<^item> \<open>Ndb\<close>, \<open>Page\<close>, \<open>Block\<close>: trailers and header, page builders, block builders (\<open>ndb.cpp\<close>, \<open>page.cpp\<close>,
    \<open>block.cpp\<close>).
  \<^item> \<open>Codec\<close>: checked reads, and the contract \<open>record_codec\<close> between the writer of a table of records and its
    reader, which the tables of the format interpret.
  \<^item> \<open>Nbt\<close>: builders and reader of the node B-tree (\<open>nbt.cpp\<close>).
  \<^item> \<open>BlockTree\<close>: a reader of the block B-tree, which the program writes and never searches; it is taken from the format.
  \<^item> \<open>Allocator\<close>: the supply of NIDs (\<open>m5_allocator.cpp\<close>), an interpretation of \<open>fresh_supply\<close>.
  \<^item> \<open>Hn\<close>, \<open>Pc\<close>, \<open>Tc\<close>: heap, property contexts, table contexts (\<open>ltp.cpp\<close>).
  \<^item> \<open>Writer\<close>: the layout of a file and the four functions that write one (\<open>writer.cpp\<close>).
  \<^item> \<open>Messaging\<close>, \<open>Baseline\<close>: the mandatory nodes (\<open>messaging.cpp\<close>, \<open>pst_baseline.cpp\<close>).
  \<^item> \<open>Json\<close>, \<open>GraphConvert\<close>, \<open>GraphMessage\<close>: the parser, the conversions of text and times, and the messages of
    Graph (\<open>internal_json.hpp\<close>, \<open>graph_convert.cpp\<close>, \<open>graph_message.cpp\<close>).
  \<^item> \<open>Store\<close>: the scheduling of nodes and blocks that the three writers have in common, which is
    a copy in each of \<open>mail.cpp\<close>, \<open>contact.cpp\<close> and \<open>event.cpp\<close>.
  \<^item> \<open>Mail\<close>, \<open>MailStore\<close>: the contexts and tables of messages, and \<open>writeM7Pst\<close> (\<open>mail.cpp\<close>).
  \<^item> \<open>StoreRows\<close>: a store as a list of rows (NID, parent, bytes), and what it takes to add them.
  \<^item> \<open>MailRows\<close>: the nodes of a mailbox as rows with subnodes, and what \<open>writeM7Pst\<close> leaves of them in its file.
  \<^item> \<open>ItemStore\<close>, \<open>Contact\<close>, \<open>Event\<close>: the store of contacts or events with the builder of an item as an
    argument, its acceptance and its rows; the two records, their extraction from JSON and their contexts
    (\<open>contact.cpp\<close>, \<open>graph_contact.cpp\<close>, \<open>event.cpp\<close>, \<open>graph_event.cpp\<close>).

  \<^bold>\<open>State and effects.\<close>  The state of the library is small and explicit: the used NIDs and one counter for each
  NID type (\<open>Allocator\<close>), the lists of a store under construction with its next BID and its allocator
  (\<open>StoreState\<close> in \<open>Store\<close>), and the part of the source that is still to be read in the JSON parser.  An operation takes
  the state and returns it.  An exception is a value of \<open>error\<close> on the left of a sum; \<open>bind_r\<close> stops at the first
  one.  Machine integers are words, and the arithmetic wraps as in the source; sizes of allocated vectors are
  natural numbers.  An access that the source does not check and that can leave its buffer is the error
  \<open>OutOfBounds\<close>.

  \<^bold>\<open>What is shown.\<close>
  \<^item> NDB: the table-driven checksum is the polynomial remainder; each cipher is undone by the reader's direction;
    every field of the writer state is read back from the header, and every block from its bytes; a changed byte of a
    block is noticed; search and enumeration in the node B-tree are lookup in the list of entries.
  \<^item> LTP: what a context or a table builder accepts is read back value by value, under conditions that the theorems
    state and that findings show to be needed: at most 2047 allocations in a heap, no value of four bytes or less
    forced into a subnode, no cells that overlap.  The acceptance of a context and the size of a table are given in
    closed form; the reader of contexts stays inside its buffer on every input.
  \<^item> Files: the file of \<open>writeM5Pst\<close> implements two finite maps, both searched through the pages from the roots that
    the header names: from NIDs to nodes by \<open>nbtFind\<close>, and from BIDs to sizes and offsets, at which the bytes of the block
    lie, by \<open>bbtFind\<close>.  Whatever the operating system does, success means that the whole file was written.
  \<^item> Messaging: every cell of the folder tables is read back; the baseline is complete for every provider, and
    its NIDs are distinct and registered, except 0x617, the NID of the receive-folder table, which the code reserves and
    the allocator refuses.
  \<^item> Graph: the parser ends on every input and inverts the printer on canonical values, a message is parsed back
    from its text with all nested messages; conversions agree with references for UTF-8, base64 and the calendar.
  \<^item> Stores: a payload of any size is gathered back from its tree of blocks; every node and block scheduled is in
    the file; a reader of the bytes of the file follows BIDs through the block B-tree and the lists of BIDs to each
    payload; the contexts of messages, attachments, contacts and events hold the values of the record under their
    tags; a mailbox is found in its file with its folders, tables, messages, recipients and attachments; a
    configuration of contacts or events that fits is written, and each item is a node of its own.

  \<^bold>\<open>Bounds and fuel.\<close>  The parser takes the fuel \<open>2 n + 1\<close> for a source of \<open>n\<close> bytes; \<open>parse_total\<close> shows that
  it never runs out, and it is of no consequence otherwise.  The two-level node B-tree holds 300 nodes
  (20 leaves of 15), and the two-level block B-tree of the writer 400 blocks (20 leaves of 20): the theorems about
  files state these bounds, and findings record where the code goes past them.  A block holds at most 8176
  bytes, so every context, table and heap is bounded by that, and a tree of two levels of blocks of
  1021 entries holds more than the 4 GB that its size field can express.

  \<^bold>\<open>Parameters.\<close>  The calls on the file are an oracle \<open>Io\<close> that says which of them fail and how many bytes each
  writes.  \<open>std::stod\<close> and the cast of a \<open>double\<close> to \<open>int32_t\<close> are arguments of the parser and of the extraction
  of records; the value of the environment variable \<open>PSTWRITER_OMIT_RFT\<close> is an argument of the baseline.

  \<^bold>\<open>Abstractions.\<close>  A pointer with a size is a list, and a null pointer with size 0 the empty one; a null pointer
  to an item is \<open>None\<close>.  A \<open>std::map\<close> is a list in the order of its keys.  \<open>std::sort\<close> is a stable
  sort, which agrees with it on distinct keys.  The text of some exceptions is shortened to a constructor or
  written without non-ASCII dashes.  Copies of one function in several files are one definition.

  \<^bold>\<open>Not modelled.\<close>  The command-line tools \<open>pst_info.cpp\<close> and \<open>pst_convert.cpp\<close> print the parts of a file and read
  arguments, files and directories: input, output and formatting around the library.  The copy of the JSON parser
  in \<open>graph_message.cpp\<close> has no definitions of its own, as it differs from that of \<open>internal_json.hpp\<close> in the
  prefix of its messages.  Tests, documents and the build are left aside.
\<close>

end
